(* ===== verification/Yinshi_Prelude.thy ===== *)
theory Yinshi_Prelude
  imports Complex_Main "HOL-Library.AList" "HOL-Library.Word" "HOL-Library.List_Lexorder"
begin

section \<open>Shared vocabulary of the development\<close>

text \<open>
  The generic part of the library: fallible results, Python dictionaries, the text
  checks several components repeat, and the two contracts (a keyed store, a system
  with an inductive invariant) that the components interpret.

  Conventions used by every theory:
  \<^item> a Python function that may raise returns \<open>'e + 'a\<close>, \<open>Inl\<close> being the raised
    error, and an operation on a mutable object returns the new object beside its
    result, because a Python method keeps the changes it made before it raised;
  \<^item> a \<open>dict\<close> is an association list with distinct keys in insertion order, updated
    with \<^const>\<open>AList.update\<close> (an assignment keeps the position of a present key and
    appends a new one) and \<^const>\<open>AList.delete\<close> (\<open>pop\<close> and \<open>del\<close>);
  \<^item> \<open>bytes\<close> are lists of 8-bit words, unbounded Python integers are \<open>int\<close> or, where
    the code only produces lengths and counters, \<open>nat\<close>;
  \<^item> \<open>isinstance\<close> and \<open>type\<close> checks against the annotated type of an argument are
    discharged by the types of the model;
  \<^item> clock readings are real numbers.
\<close>

named_theorems result_simps \<open>inversion of fallible computations\<close>
named_theorems dict_simps \<open>dictionary lookup after an update\<close>

type_synonym byte = "8 word"
type_synonym bytes = "8 word list"
type_synonym clock = real
type_synonym ('k, 'v) pydict = "('k \<times> 'v) list"

subsection \<open>Fallible results\<close>

text \<open>The built-in exceptions the services raise, with their message.\<close>

datatype py_error =
    ValueErr string
  | RuntimeErr string
  | LookupErr string
  | TypeErr string
  | KeyErr string

fun rbind :: "'e + 'a \<Rightarrow> ('a \<Rightarrow> 'e + 'b) \<Rightarrow> 'e + 'b" where
  "rbind (Inl e) f = Inl e"
| "rbind (Inr x) f = f x"

definition is_ok :: "'e + 'a \<Rightarrow> bool" where
  "is_ok r = (case r of Inl _ \<Rightarrow> False | Inr _ \<Rightarrow> True)"

text \<open>\<open>raise_if c e\<close> is the statement \<^verbatim>\<open>if c: raise e\<close>.\<close>

definition raise_if :: "bool \<Rightarrow> 'e \<Rightarrow> 'e + unit" where
  "raise_if c e = (if c then Inl e else Inr ())"

lemma rbind_Inr_iff [result_simps]: "rbind m f = Inr y \<longleftrightarrow> (\<exists>x. m = Inr x \<and> f x = Inr y)"
  by (cases m) auto

lemma rbind_Inl_iff [result_simps]:
  "rbind m f = Inl e \<longleftrightarrow> m = Inl e \<or> (\<exists>x. m = Inr x \<and> f x = Inl e)"
  by (cases m) auto

lemma raise_if_Inr [result_simps, simp]: "raise_if c e = Inr u \<longleftrightarrow> \<not> c"
  by (simp add: raise_if_def)

lemma raise_if_Inl [result_simps, simp]: "raise_if c e = Inl e' \<longleftrightarrow> c \<and> e' = e"
  by (auto simp: raise_if_def)

lemma option_case_Inr [result_simps]:
  "(case m of None \<Rightarrow> Inl e | Some x \<Rightarrow> f x) = Inr y \<longleftrightarrow> (\<exists>x. m = Some x \<and> f x = Inr y)"
  by (cases m) auto

lemma option_case_bool [result_simps]:
  "(case m of None \<Rightarrow> False | Some x \<Rightarrow> P x) \<longleftrightarrow> (\<exists>x. m = Some x \<and> P x)"
  by (cases m) auto

lemma raise_if_simps [simp]: "raise_if False e = Inr ()" "raise_if True e = Inl e"
  by (simp_all add: raise_if_def)

lemma is_ok_simps [simp]: "is_ok (Inr x)" "\<not> is_ok (Inl e)"
  by (simp_all add: is_ok_def)

lemma is_ok_iff: "is_ok r \<longleftrightarrow> (\<exists>x. r = Inr x)"
  by (cases r) auto

text \<open>A loop that checks every element and stops at the first error.\<close>

fun check_all :: "('a \<Rightarrow> 'e + unit) \<Rightarrow> 'a list \<Rightarrow> 'e + unit" where
  "check_all f [] = Inr ()"
| "check_all f (x # xs) = rbind (f x) (\<lambda>_. check_all f xs)"

lemma check_all_Inr_iff [result_simps]:
  "check_all f xs = Inr () \<longleftrightarrow> (\<forall>x \<in> set xs. f x = Inr ())"
  by (induction xs) (auto simp: rbind_Inr_iff)

text \<open>\<open>only_raises K r\<close>: whatever error \<open>r\<close> raises satisfies \<open>K\<close>.\<close>

definition only_raises :: "('e \<Rightarrow> bool) \<Rightarrow> 'e + 'a \<Rightarrow> bool" where
  "only_raises K r \<longleftrightarrow> (\<forall>e. r = Inl e \<longrightarrow> K e)"

named_theorems raises_intros \<open>introduction rules for the errors a computation may raise\<close>

lemma only_raises_Inr [raises_intros]: "only_raises K (Inr x)"
  by (simp add: only_raises_def)

lemma only_raises_Inl [raises_intros]: "K e \<Longrightarrow> only_raises K (Inl e)"
  by (simp add: only_raises_def)

lemma only_raises_if [raises_intros]: "K e \<Longrightarrow> only_raises K (raise_if c e)"
  by (simp add: only_raises_def)

lemma only_raises_rbind [raises_intros]:
  "only_raises K m \<Longrightarrow> (\<And>x. m = Inr x \<Longrightarrow> only_raises K (f x)) \<Longrightarrow> only_raises K (rbind m f)"
  by (cases m) (auto simp: only_raises_def)

lemma only_raises_check_all [raises_intros]:
  "(\<And>x. x \<in> set xs \<Longrightarrow> only_raises K (f x)) \<Longrightarrow> only_raises K (check_all f xs)"
  by (induction xs) (auto intro!: raises_intros)

lemma only_raises_cond [raises_intros]:
  "(b \<Longrightarrow> only_raises K r) \<Longrightarrow> (\<not> b \<Longrightarrow> only_raises K s) \<Longrightarrow> only_raises K (if b then r else s)"
  by simp

lemma only_raises_option [raises_intros]:
  "(m = None \<Longrightarrow> only_raises K r) \<Longrightarrow> (\<And>x. m = Some x \<Longrightarrow> only_raises K (f x)) \<Longrightarrow>
     only_raises K (case m of None \<Rightarrow> r | Some x \<Rightarrow> f x)"
  by (cases m) auto

lemma only_raises_prod [raises_intros]:
  "(\<And>x y. p = (x, y) \<Longrightarrow> only_raises K (f x y)) \<Longrightarrow> only_raises K (case p of (x, y) \<Rightarrow> f x y)"
  by (cases p) simp

lemma only_raises_let [raises_intros]:
  "(\<And>y. y = x \<Longrightarrow> only_raises K (f y)) \<Longrightarrow> only_raises K (let y = x in f y)"
  by simp

lemma only_raisesD: "only_raises K r \<Longrightarrow> r = Inl e \<Longrightarrow> K e"
  by (simp add: only_raises_def)

subsection \<open>Dictionaries\<close>

abbreviation dget :: "('k, 'v) pydict \<Rightarrow> 'k \<Rightarrow> 'v option" where
  "dget d k \<equiv> map_of d k"

abbreviation dset :: "('k, 'v) pydict \<Rightarrow> 'k \<Rightarrow> 'v \<Rightarrow> ('k, 'v) pydict" where
  "dset d k v \<equiv> AList.update k v d"

abbreviation dpop :: "('k, 'v) pydict \<Rightarrow> 'k \<Rightarrow> ('k, 'v) pydict" where
  "dpop d k \<equiv> AList.delete k d"

abbreviation dvalues :: "('k, 'v) pydict \<Rightarrow> 'v list" where
  "dvalues d \<equiv> map snd d"

abbreviation dict_ok :: "('k, 'v) pydict \<Rightarrow> bool" where
  "dict_ok d \<equiv> distinct (map fst d)"

lemma dget_dset [simp, dict_simps]: "dget (dset d k v) k' = (if k' = k then Some v else dget d k')"
  by (simp add: update_conv')

lemma dget_dpop [simp, dict_simps]: "dget (dpop d k) k' = (if k' = k then None else dget d k')"
  by (simp add: delete_conv')

lemma dict_ok_dset [simp, intro]: "dict_ok d \<Longrightarrow> dict_ok (dset d k v)"
  by (rule distinct_update)

lemma dict_ok_dpop [simp, intro]: "dict_ok d \<Longrightarrow> dict_ok (dpop d k)"
  by (rule distinct_delete)

lemma dpop_absent: "dget d k = None \<Longrightarrow> dpop d k = d"
  by (simp add: AList.delete_eq filter_id_conv map_of_eq_None_iff) force

lemma dset_absent: "dget d k = None \<Longrightarrow> dset d k v = d @ [(k, v)]"
  by (induction d) (auto split: if_splits)

lemma length_dset:
  "length (dset d k v) = (if dget d k = None then Suc (length d) else length d)"
  by (induction d) auto

lemma length_dpop_le: "length (dpop d k) \<le> length d"
  by (simp add: length_delete_le)

lemma dvalues_dset: "set (dvalues (dset d k v)) \<subseteq> insert v (set (dvalues d))"
  by (induction d) auto

lemma dvalues_dpop: "set (dvalues (dpop d k)) \<subseteq> set (dvalues d)"
  by (auto simp: AList.delete_eq)

lemma dict_ok_filter: "dict_ok d \<Longrightarrow> dict_ok (filter P d)"
  by (induction d) (auto simp: image_iff)

lemma dget_filter:
  "dict_ok d \<Longrightarrow> dget (filter (\<lambda>(k, v). P v) d) k =
     (case dget d k of None \<Rightarrow> None | Some v \<Rightarrow> if P v then Some v else None)"
  by (induction d) (auto split: option.splits dest: map_of_SomeD simp: image_iff)

lemma dget_in_values: "dget d k = Some v \<Longrightarrow> v \<in> set (dvalues d)"
  by (force dest: map_of_SomeD)

lemma map_dvalues_dset:
  "dget d k = Some v \<Longrightarrow> f v' = f v \<Longrightarrow> map f (dvalues (dset d k v')) = map f (dvalues d)"
  by (induction d) (auto split: if_splits)

lemma sum_filter_le:
  fixes f :: "'a \<Rightarrow> int"
  shows "(\<And>x. x \<in> set xs \<Longrightarrow> 0 \<le> f x) \<Longrightarrow> sum_list (map f (filter P xs)) \<le> sum_list (map f xs)"
proof (induction xs)
  case (Cons x xs)
  have "sum_list (map f (filter P xs)) \<le> sum_list (map f xs)" "0 \<le> f x"
    using Cons.prems by (auto intro: Cons.IH)
  then show ?case by auto
qed simp

subsection \<open>Text\<close>

definition is_lower_hex :: "string \<Rightarrow> bool" where
  "is_lower_hex s = list_all (\<lambda>c. c \<in> set ''0123456789abcdef'') s"

text \<open>Python's \<open>str.isspace\<close> on the code points below 256.\<close>

definition is_space :: "char \<Rightarrow> bool" where
  "is_space c = (of_char c \<in> {9, 10, 11, 12, 13, 28, 29, 30, 31, 32, 133, 160 :: nat})"

definition str_strip :: "string \<Rightarrow> string" where
  "str_strip s = rev (dropWhile is_space (rev (dropWhile is_space s)))"

definition ascii_lower :: "char \<Rightarrow> char" where
  "ascii_lower c = (if 65 \<le> (of_char c :: nat) \<and> (of_char c :: nat) \<le> 90 then char_of (of_char c + 32 :: nat) else c)"

definition ends_with :: "string \<Rightarrow> string \<Rightarrow> bool" where
  "ends_with s suf = (length suf \<le> length s \<and> drop (length s - length suf) s = suf)"

definition starts_with :: "'a list \<Rightarrow> 'a list \<Rightarrow> bool" where
  "starts_with s pre = (take (length pre) s = pre)"

lemma find_SomeD: "find P xs = Some x \<Longrightarrow> x \<in> set xs \<and> P x"
  by (induction xs) (auto split: if_splits)

lemma find_Some_unique:
  assumes "distinct (map f xs)" "x \<in> set xs" "f x = y"
  shows "find (\<lambda>x. f x = y) xs = Some x"
  using assms by (induction xs) (auto simp: image_iff)

subsection \<open>Systems with an inductive invariant\<close>

text \<open>
  Reachability over a set of initial states and a step relation. The locale
  \<open>safe_system\<close> is the contract of a component whose operations keep an invariant;
  every stateful component interprets it on its own steps.
\<close>

inductive reach :: "('s \<Rightarrow> bool) \<Rightarrow> ('s \<Rightarrow> 's \<Rightarrow> bool) \<Rightarrow> 's \<Rightarrow> bool"
  for init :: "'s \<Rightarrow> bool" and step :: "'s \<Rightarrow> 's \<Rightarrow> bool" where
  reach_init: "init s \<Longrightarrow> reach init step s"
| reach_step: "reach init step s \<Longrightarrow> step s t \<Longrightarrow> reach init step t"

locale safe_system =
  fixes init :: "'s \<Rightarrow> bool" and step :: "'s \<Rightarrow> 's \<Rightarrow> bool" and inv :: "'s \<Rightarrow> bool"
  assumes init_inv: "init s \<Longrightarrow> inv s"
    and step_inv: "inv s \<Longrightarrow> step s t \<Longrightarrow> inv t"
begin

lemma reach_inv: "reach init step s \<Longrightarrow> inv s"
  by (induction rule: reach.induct) (auto intro: init_inv step_inv)

lemma steps_inv: "step\<^sup>*\<^sup>* s t \<Longrightarrow> inv s \<Longrightarrow> inv t"
  by (induction rule: rtranclp_induct) (auto intro: step_inv)

end

subsection \<open>Keyed stores\<close>

locale keyed_store =
  fixes lookup :: "'m \<Rightarrow> 'k \<Rightarrow> 'v option"
    and store :: "'m \<Rightarrow> 'k \<Rightarrow> 'v \<Rightarrow> 'm"
    and remove :: "'m \<Rightarrow> 'k \<Rightarrow> 'm"
    and valid :: "'m \<Rightarrow> bool"
  assumes lookup_store: "valid m \<Longrightarrow> lookup (store m k v) k' = (if k' = k then Some v else lookup m k')"
    and lookup_remove: "valid m \<Longrightarrow> lookup (remove m k) k' = (if k' = k then None else lookup m k')"
    and valid_store: "valid m \<Longrightarrow> valid (store m k v)"
    and valid_remove: "valid m \<Longrightarrow> valid (remove m k)"
begin

definition every :: "('k \<Rightarrow> 'v \<Rightarrow> bool) \<Rightarrow> 'm \<Rightarrow> bool" where
  "every P m \<longleftrightarrow> (\<forall>k v. lookup m k = Some v \<longrightarrow> P k v)"

lemma every_store: "valid m \<Longrightarrow> every P m \<Longrightarrow> P k v \<Longrightarrow> every P (store m k v)"
  by (simp add: every_def lookup_store)

lemma every_remove: "valid m \<Longrightarrow> every P m \<Longrightarrow> every P (remove m k)"
  by (simp add: every_def lookup_remove)

lemma every_lookup: "every P m \<Longrightarrow> lookup m k = Some v \<Longrightarrow> P k v"
  by (simp add: every_def)

lemma store_remove: "valid m \<Longrightarrow> lookup (remove (store m k v) k) k' = lookup (remove m k) k'"
  by (simp add: lookup_store lookup_remove valid_store)

end

interpretation dict: keyed_store map_of "\<lambda>d k v. AList.update k v d" "\<lambda>d k. AList.delete k d" "\<lambda>d. dict_ok d"
  by unfold_locales (simp_all add: update_conv' delete_conv')

end
