(* ===== verification/Byte_Codec.thy ===== *)
theory Byte_Codec
  imports Yinshi_Prelude
begin

section \<open>Big-endian integers and wire fields\<close>

text \<open>
  The byte-level vocabulary of the binary formats of the repository:
  \<open>int.to_bytes(n, "big")\<close> and \<open>int.from_bytes(\<dots>, "big")\<close>, slices, \<open>bytes.split\<close> and
  \<open>bytes.join\<close>. The locale \<open>wire_field\<close> is the contract between a field writer and a
  field reader: reading what was written gives the value back and leaves the rest,
  and a reader accepts only what the writer produces.
\<close>

abbreviation len :: "'a list \<Rightarrow> int" where
  "len xs \<equiv> int (length xs)"

definition bytes_of :: "string \<Rightarrow> bytes" where
  "bytes_of s = map of_char s"

definition int_from_bytes :: "bytes \<Rightarrow> int" where
  "int_from_bytes bs = foldl (\<lambda>a b. a * 256 + uint b) 0 bs"

fun be_bytes :: "nat \<Rightarrow> int \<Rightarrow> bytes" where
  "be_bytes 0 v = []"
| "be_bytes (Suc n) v = be_bytes n (v div 256) @ [word_of_int v]"

text \<open>\<open>bs[a:b]\<close> for \<open>0 \<le> a\<close>; a bound past the end is clamped as Python does.\<close>

definition slice :: "'a list \<Rightarrow> int \<Rightarrow> int \<Rightarrow> 'a list" where
  "slice bs a b = take (nat (b - a)) (drop (nat a) bs)"

fun split_on :: "'a \<Rightarrow> 'a list \<Rightarrow> 'a list list" where
  "split_on d [] = [[]]"
| "split_on d (x # xs) =
     (if x = d then [] # split_on d xs
      else (case split_on d xs of [] \<Rightarrow> [[x]] | c # cs \<Rightarrow> (x # c) # cs))"

fun join_on :: "'a \<Rightarrow> 'a list list \<Rightarrow> 'a list" where
  "join_on d [] = []"
| "join_on d [c] = c"
| "join_on d (c # cs) = c @ [d] @ join_on d cs"

definition contains :: "'a list \<Rightarrow> 'a list \<Rightarrow> bool" where
  "contains s sub = list_ex (\<lambda>i. starts_with (drop i s) sub) [0 ..< Suc (length s)]"

subsection \<open>Integers\<close>

lemma length_be_bytes [simp]: "length (be_bytes n v) = n"
  by (induction n arbitrary: v) auto

lemma len_be_bytes: "len (be_bytes n v) = int n"
  by simp

lemma int_from_bytes_Nil [simp]: "int_from_bytes [] = 0"
  by (simp add: int_from_bytes_def)

lemma int_from_bytes_snoc [simp]: "int_from_bytes (bs @ [b]) = int_from_bytes bs * 256 + uint b"
  by (simp add: int_from_bytes_def)

lemma uint_byte_bounds: "0 \<le> uint (b :: byte)" "uint (b :: byte) < 256"
  using uint_lt2p [of b] by simp_all

lemma int_from_bytes_bounds: "0 \<le> int_from_bytes bs \<and> int_from_bytes bs < 256 ^ length bs"
proof (induction bs rule: rev_induct)
  case Nil
  then show ?case by simp
next
  case (snoc b bs)
  have "int_from_bytes bs + 1 \<le> 256 ^ length bs" using snoc by simp
  then have "(int_from_bytes bs + 1) * 256 \<le> 256 ^ length bs * (256 :: int)"
    by (rule mult_right_mono) simp
  then show ?case using snoc uint_byte_bounds [of b] by (simp add: algebra_simps)
qed

lemma int_from_be_bytes: "0 \<le> v \<Longrightarrow> v < 256 ^ n \<Longrightarrow> int_from_bytes (be_bytes n v) = v"
proof (induction n arbitrary: v)
  case 0
  then show ?case by simp
next
  case (Suc n)
  have "v div 256 < 256 ^ n" "0 \<le> v div 256"
    using Suc.prems by (simp_all add: div_less_iff_less_mult ac_simps pos_imp_zdiv_nonneg_iff)
  then show ?case using Suc.IH by (simp add: uint_word_of_int)
qed

lemma be_bytes_from_bytes: "be_bytes (length bs) (int_from_bytes bs) = bs"
proof (induction bs rule: rev_induct)
  case Nil
  then show ?case by simp
next
  case (snoc b bs)
  have "(int_from_bytes bs * 256 + uint b) div 256 = int_from_bytes bs"
    using uint_byte_bounds [of b] by simp
  moreover have "(word_of_int (int_from_bytes bs * 256 + uint b) :: byte) = b"
  proof -
    have "(256 :: byte) = 0" by simp
    then show ?thesis by (simp only: of_int_add of_int_mult word_of_int_uint of_int_numeral mult_zero_right add_0)
  qed
  ultimately show ?case using snoc by simp
qed

lemma be_bytes_eq_iff:
  "length a = n \<Longrightarrow> 0 \<le> v \<Longrightarrow> v < 256 ^ n \<Longrightarrow> a = be_bytes n v \<longleftrightarrow> int_from_bytes a = v"
  using be_bytes_from_bytes int_from_be_bytes by metis

declare be_bytes.simps [simp del]

subsection \<open>Splitting and joining\<close>

lemma split_on_nonempty [simp]: "split_on d xs \<noteq> []"
  by (induction xs) (auto split: list.splits)

lemma join_on_Cons: "cs \<noteq> [] \<Longrightarrow> join_on d (c # cs) = c @ d # join_on d cs"
  by (cases cs) auto

lemma join_split: "join_on d (split_on d xs) = xs"
proof (induction xs)
  case Nil
  then show ?case by simp
next
  case (Cons x xs)
  obtain c cs where eq: "split_on d xs = c # cs" by (cases "split_on d xs") auto
  show ?case
  proof (cases "x = d")
    case True
    with Cons show ?thesis by (simp add: join_on_Cons)
  next
    case False
    with Cons eq show ?thesis by (cases cs) auto
  qed
qed

subsection \<open>The contract of a wire field\<close>

locale wire_field =
  fixes put :: "'a \<Rightarrow> bytes"
    and get :: "string \<Rightarrow> bytes \<Rightarrow> 'e + ('a \<times> bytes)"
    and ok :: "'a \<Rightarrow> bool"
  assumes get_put: "ok x \<Longrightarrow> get l (put x @ r) = Inr (x, r)"
    and put_get: "get l bs = Inr (x, r) \<Longrightarrow> ok x \<and> bs = put x @ r"
begin

lemma get_consumes: "get l bs = Inr (x, r) \<Longrightarrow> length bs = length (put x) + length r"
  using put_get by fastforce

lemma put_unambiguous:
  assumes "ok x" "ok y" "put x @ r = put y @ s"
  shows "x = y \<and> r = s"
proof -
  have "get [] (put x @ r) = Inr (x, r)" "get [] (put y @ s) = Inr (y, s)"
    by (rule get_put [OF assms(1)], rule get_put [OF assms(2)])
  then have "Inr (x, r) = (Inr (y, s) :: 'e + ('a \<times> bytes))"
    unfolding assms(3) by (rule trans [OF sym])
  then show ?thesis by simp
qed

lemma get_iff: "get l bs = Inr (x, r) \<longleftrightarrow> ok x \<and> bs = put x @ r"
  using get_put put_get by blast

end

end
