(* ===== verification/Worktree_Artifact.thy ===== *)
theory Worktree_Artifact
  imports Byte_Codec
begin

unbundle bit_operations_syntax

section \<open>The worktree artifact codec\<close>

text \<open>
  Model of \<^verbatim>\<open>services/workspace_replica_artifact.py\<close>: a validated worktree snapshot is
  turned into one bounded binary envelope of four digest-protected sections, and the
  envelope is decoded and fully verified again. The exception class that the shared
  validators raise is an argument (\<open>err\<close>), as it is in the code. The digest functions
  of \<^verbatim>\<open>hashlib\<close> are arguments: \<open>sha256\<close>, and \<open>hash_new\<close> for \<^verbatim>\<open>hashlib.new(format)\<close>.
  A reader or a memory view at a position is the list of bytes from that position on.
\<close>

datatype artifact_error =
    WorktreeArtifactEncodeError string
  | WorktreeArtifactDecodeError string
  | ValueError string
  | OverflowError
  | KeyError
  | AssertionError string

type_synonym raiser = "string \<Rightarrow> artifact_error"

datatype entry_kind = Directory | File | Symlink

record artifact_limits =
  max_total_bytes :: int
  max_control_bytes :: int
  max_index_bytes :: int
  max_manifest_bytes :: int
  max_roots_bytes :: int
  max_exact_index_bytes :: int
  max_manifest_entries :: int
  max_path_bytes :: int
  max_depth :: int
  max_content_bytes :: int
  max_aggregate_content_bytes :: int
  max_roots :: int

record manifest_entry =
  raw_path :: bytes
  kind :: entry_kind
  content :: bytes
  executable :: bool
  allowed_ignored :: bool
  nlink :: int
  privilege_bits :: bool

record index_entry =
  ix_raw_path :: bytes
  ix_mode :: int
  ix_object_id :: bytes
  ix_stage :: int
  ix_intent_to_add :: bool
  ix_skip_worktree :: bool
  ix_assume_unchanged :: bool

record artifact_input =
  object_format :: string
  head_state :: string
  head_target :: bytes
  head_oid :: bytes
  index_bytes :: "bytes option"
  entries :: "manifest_entry list"
  root_oids :: "bytes list"
  policy_digest :: "bytes option"

record verified_artifact =
  va_object_format :: string
  va_has_index :: bool
  va_index_bytes :: "bytes option"
  va_index_entries :: "index_entry list"
  va_head_state :: string
  va_head_target :: bytes
  va_head_oid :: bytes
  va_policy_digest :: "bytes option"
  va_entries :: "manifest_entry list"
  va_root_oids :: "bytes list"
  va_source_state_sha256 :: bytes
  va_total_bytes :: int

subsection \<open>Constants\<close>

definition MAGIC :: bytes where "MAGIC = bytes_of ''YNSHRA1'' @ [10]"
definition SOURCE_DOMAIN :: bytes where "SOURCE_DOMAIN = bytes_of ''yinshi-replica-source-v1''"
definition ENVELOPE_HEADER_LEN :: int where "ENVELOPE_HEADER_LEN = 20"
definition SECTION_HEADER_LEN :: int where "SECTION_HEADER_LEN = 44"
definition MANIFEST_ENTRY_MIN_BYTES :: int where "MANIFEST_ENTRY_MIN_BYTES = 14"

definition format_codes :: "(string, int) pydict" where
  "format_codes = [(''sha1'', 1), (''sha256'', 2)]"

definition format_names :: "(int, string) pydict" where
  "format_names = map (\<lambda>(n, c). (c, n)) format_codes"

definition format_oid_sizes :: "(string, int) pydict" where
  "format_oid_sizes = [(''sha1'', 20), (''sha256'', 32)]"

definition index_versions :: "int list" where "index_versions = [2, 3]"

definition index_allowed_extensions :: "bytes list" where
  "index_allowed_extensions =
     map bytes_of [''TREE'', ''REUC'', ''UNTR'', ''FSMN'', ''EOIE'', ''IEOT'']"

definition index_mode_regular :: "int list" where
  "index_mode_regular = [0x81A4, 0x81ED, 0xA000]"

definition head_state_codes :: "(string, int) pydict" where
  "head_state_codes = [(''unborn'', 0), (''detached'', 1), (''symbolic'', 2)]"

definition head_state_names :: "(int, string) pydict" where
  "head_state_names = map (\<lambda>(n, c). (c, n)) head_state_codes"

definition kind_codes :: "(entry_kind, int) pydict" where
  "kind_codes = [(Directory, 0), (File, 1), (Symlink, 2)]"

definition kinds_by_code :: "(int, entry_kind) pydict" where
  "kinds_by_code = map (\<lambda>(k, c). (c, k)) kind_codes"

text \<open>A dictionary index \<open>d[k]\<close>, which raises on a missing key.\<close>

definition dict_index :: "('k, 'v) pydict \<Rightarrow> 'k \<Rightarrow> artifact_error + 'v" where
  "dict_index d k = (case dget d k of None \<Rightarrow> Inl KeyError | Some v \<Rightarrow> Inr v)"

subsection \<open>Limits\<close>

definition limit_bounds :: "artifact_limits \<Rightarrow> (int \<times> int \<times> int) list" where
  "limit_bounds l =
     [(max_total_bytes l, 0, 0xFFFFFFFFFFFFFFFF),
      (max_control_bytes l, 0, 0xFFFFFFFFFFFFFFFF),
      (max_index_bytes l, 0, 0xFFFFFFFFFFFFFFFF),
      (max_manifest_bytes l, 0, 0xFFFFFFFFFFFFFFFF),
      (max_roots_bytes l, 0, 0xFFFFFFFFFFFFFFFF),
      (max_exact_index_bytes l, 0, 0xFFFFFFFFFFFFFFFF),
      (max_manifest_entries l, 0, 0xFFFFFFFF),
      (max_path_bytes l, 1, 0xFFFFFFFF),
      (max_depth l, 1, 0xFFFFFFFF),
      (max_content_bytes l, 0, 0xFFFFFFFF),
      (max_aggregate_content_bytes l, 0, 0xFFFFFFFFFFFFFFFF),
      (max_roots l, 0, 0xFFFFFFFF)]"

definition limits_post_init :: "artifact_limits \<Rightarrow> artifact_error + unit" where
  "limits_post_init l =
     rbind (check_all (\<lambda>(v, low, high). raise_if (\<not> (low \<le> v \<and> v \<le> high))
              (ValueError ''limit must be between low and high'')) (limit_bounds l)) (\<lambda>_.
     rbind (raise_if (max_exact_index_bytes l > max_index_bytes l)
              (ValueError ''max_exact_index_bytes exceeds max_index_bytes'')) (\<lambda>_.
     rbind (raise_if (max_content_bytes l > max_aggregate_content_bytes l)
              (ValueError ''max_content_bytes exceeds max_aggregate_content_bytes'')) (\<lambda>_.
     raise_if (max_aggregate_content_bytes l > max_manifest_bytes l)
              (ValueError ''max_aggregate_content_bytes exceeds max_manifest_bytes''))))"

definition DEFAULT_ARTIFACT_LIMITS :: artifact_limits where
  "DEFAULT_ARTIFACT_LIMITS =
     \<lparr> max_total_bytes = 256 * 1024 * 1024, max_control_bytes = 1024 * 1024,
       max_index_bytes = 64 * 1024 * 1024, max_manifest_bytes = 256 * 1024 * 1024,
       max_roots_bytes = 16 * 1024 * 1024, max_exact_index_bytes = 64 * 1024 * 1024,
       max_manifest_entries = 1000000, max_path_bytes = 4096, max_depth = 128,
       max_content_bytes = 64 * 1024 * 1024,
       max_aggregate_content_bytes = 256 * 1024 * 1024, max_roots = 1000000 \<rparr>"

subsection \<open>Integer fields\<close>

definition int_to_bytes :: "nat \<Rightarrow> int \<Rightarrow> artifact_error + bytes" where
  "int_to_bytes n v = (if 0 \<le> v \<and> v < 256 ^ n then Inr (be_bytes n v) else Inl OverflowError)"

definition u32_bytes :: "int \<Rightarrow> artifact_error + bytes" where
  "u32_bytes v = int_to_bytes 4 v"

definition u64_bytes :: "int \<Rightarrow> artifact_error + bytes" where
  "u64_bytes v = int_to_bytes 8 v"

subsection \<open>Validators shared by both directions\<close>

definition derived_parent :: "bytes \<Rightarrow> bytes" where
  "derived_parent path =
     (if 47 \<in> set path then rev (tl (dropWhile (\<lambda>b. b \<noteq> 47) (rev path))) else [])"

definition validate_raw_path :: "bytes \<Rightarrow> artifact_limits \<Rightarrow> raiser \<Rightarrow> artifact_error + unit" where
  "validate_raw_path path l err =
     rbind (raise_if (len path > max_path_bytes l) (err ''entry path exceeds maximum path bytes'')) (\<lambda>_.
     rbind (raise_if (path = [] \<or> starts_with path [47] \<or> 0 \<in> set path) (err ''worktree path is unsafe'')) (\<lambda>_.
     let components = split_on 47 path in
     rbind (raise_if (len components > max_depth l) (err ''entry path exceeds maximum depth'')) (\<lambda>_.
     raise_if (list_ex (\<lambda>c. c \<in> {[], bytes_of ''.'', bytes_of ''..'', bytes_of ''.git''}) components)
       (err ''worktree path has an unsafe component''))))"

definition validate_symbolic_head_target :: "bytes \<Rightarrow> artifact_limits \<Rightarrow> raiser \<Rightarrow> artifact_error + unit" where
  "validate_symbolic_head_target target l err =
     rbind (raise_if (len target > max_path_bytes l \<or> \<not> starts_with target (bytes_of ''refs/heads/''))
              (err ''symbolic HEAD target is not a bounded branch reference'')) (\<lambda>_.
     let suffix = drop (length ''refs/heads/'') target;
         components = split_on 47 suffix;
         forbidden = bytes_of '' ~^:?*['' @ [0x5C, 0x7F]
     in raise_if
          (suffix = []
           \<or> contains suffix (bytes_of ''..'')
           \<or> contains suffix [0x40, 0x7B]
           \<or> starts_with (rev suffix) (bytes_of ''.'')
           \<or> list_ex (\<lambda>c. c = []) components
           \<or> list_ex (\<lambda>c. starts_with c (bytes_of ''.'')) components
           \<or> list_ex (\<lambda>c. starts_with (rev c) (rev (bytes_of ''.lock''))) components
           \<or> list_ex (\<lambda>b. uint b < 0x20 \<or> b \<in> set forbidden) suffix)
          (err ''symbolic HEAD target is not canonical''))"

definition validate_entry_shape :: "manifest_entry \<Rightarrow> artifact_limits \<Rightarrow> raiser \<Rightarrow> artifact_error + unit" where
  "validate_entry_shape e l err =
     rbind (raise_if (nlink e \<noteq> 1) (err ''hardlinks are not representable'')) (\<lambda>_.
     rbind (raise_if (privilege_bits e) (err ''privilege bits are not representable'')) (\<lambda>_.
     rbind (raise_if (kind e = Directory \<and> (content e \<noteq> [] \<or> executable e))
              (err ''directory entry state is invalid'')) (\<lambda>_.
     rbind (raise_if (kind e = Symlink \<and> (executable e \<or> content e = [] \<or> 0 \<in> set (content e)))
              (err ''symlink entry state is invalid'')) (\<lambda>_.
     rbind (raise_if (len (content e) > max_content_bytes l)
              (err ''entry content exceeds maximum content bytes'')) (\<lambda>_.
     validate_raw_path (raw_path e) l err)))))"

definition validate_topology :: "bytes \<Rightarrow> (bytes, entry_kind) pydict \<Rightarrow> raiser \<Rightarrow> artifact_error + unit" where
  "validate_topology path present err =
     (let components = split_on 47 path in
      check_all (\<lambda>i. raise_if (dget present (join_on 47 (take i components)) \<noteq> Some Directory)
                   (err ''manifest entry lacks an explicit directory parent''))
        [1 ..< length components])"

subsection \<open>The Git index\<close>

text \<open>
  \<open>parse_index_entry\<close> is one iteration of the entry loop of \<^verbatim>\<open>_parse_index\<close>, over the
  bytes from the current position up to the checksum.
\<close>

definition index_entry_key_less :: "bytes \<times> int \<Rightarrow> bytes \<times> int \<Rightarrow> bool" where
  "index_entry_key_less a b \<longleftrightarrow> fst a < fst b \<or> (fst a = fst b \<and> snd a < snd b)"

definition parse_index_entry ::
  "int \<Rightarrow> int \<Rightarrow> artifact_limits \<Rightarrow> raiser \<Rightarrow> (bytes \<times> int) option \<Rightarrow> bytes
     \<Rightarrow> artifact_error + (index_entry \<times> bytes)" where
  "parse_index_entry version oid_size l err previous_key region =
     (let fixed_size = 40 + oid_size + 2 in
      rbind (raise_if (fixed_size > len region) (err ''Git index entry fixed fields are truncated'')) (\<lambda>_.
      let mode = int_from_bytes (slice region 24 28);
          object_id = slice region 40 (40 + oid_size);
          flags = int_from_bytes (slice region (40 + oid_size) (40 + oid_size + 2));
          rest0 = drop (nat fixed_size) region
      in
      rbind (if flags AND 0x4000 \<noteq> 0
             then rbind (raise_if (version \<noteq> 3) (err ''Git index version 2 entry has extended flags'')) (\<lambda>_.
                  rbind (raise_if (len rest0 < 2) (err ''Git index extended flags are truncated'')) (\<lambda>_.
                  let ef = int_from_bytes (slice rest0 0 2) in
                  rbind (raise_if (ef AND NOT 0x6000 \<noteq> 0) (err ''Git index extended flags are unknown'')) (\<lambda>_.
                  Inr (ef, drop 2 rest0))))
             else Inr (0, rest0)) (\<lambda>(extended_flags, rest).
      rbind (raise_if (0 \<notin> set rest) (err ''Git index entry path is not NUL terminated'')) (\<lambda>_.
      let path = takeWhile (\<lambda>b. b \<noteq> 0) rest in
      rbind (raise_if (len path > max_path_bytes l) (err ''Git index entry path exceeds maximum path bytes'')) (\<lambda>_.
      rbind (raise_if (flags AND 0x0FFF \<noteq> min (len path) 0x0FFF)
               (err ''Git index entry path length flag is not canonical'')) (\<lambda>_.
      rbind (validate_raw_path path l err) (\<lambda>_.
      let unpadded_size = (len region - len rest) + len path + 1;
          padding_size = (- unpadded_size) mod 8;
          after = drop (Suc (length path)) rest
      in
      rbind (raise_if (padding_size > len after) (err ''Git index entry padding is truncated'')) (\<lambda>_.
      rbind (raise_if (list_ex (\<lambda>b. b \<noteq> 0) (take (nat padding_size) after))
               (err ''Git index entry padding is nonzero'')) (\<lambda>_.
      rbind (raise_if (mode \<notin> set index_mode_regular) (err ''Git index entry mode is unsupported'')) (\<lambda>_.
      rbind (raise_if (\<not> list_ex (\<lambda>b. b \<noteq> 0) object_id) (err ''Git index entry object ID cannot be zero'')) (\<lambda>_.
      let stage = drop_bit 12 (flags AND 0x3000); key = (path, stage) in
      rbind (case previous_key of
               None \<Rightarrow> Inr ()
             | Some prev \<Rightarrow>
                 rbind (raise_if (key = prev) (err ''Git index entry key is duplicated'')) (\<lambda>_.
                 rbind (raise_if (index_entry_key_less key prev)
                          (err ''Git index entries are not canonically ordered'')) (\<lambda>_.
                 raise_if (path = fst prev \<and> (stage = 0 \<or> snd prev = 0))
                   (err ''Git index stage zero cannot coexist with conflict stages'')))) (\<lambda>_.
      Inr (\<lparr> ix_raw_path = path, ix_mode = mode, ix_object_id = object_id, ix_stage = stage,
             ix_intent_to_add = (extended_flags AND 0x2000 \<noteq> 0),
             ix_skip_worktree = (extended_flags AND 0x4000 \<noteq> 0),
             ix_assume_unchanged = (flags AND 0x8000 \<noteq> 0) \<rparr>,
           drop (nat padding_size) after)))))))))))))"

fun parse_index_entries ::
  "nat \<Rightarrow> int \<Rightarrow> int \<Rightarrow> artifact_limits \<Rightarrow> raiser \<Rightarrow> (bytes \<times> int) option \<Rightarrow> bytes
     \<Rightarrow> artifact_error + (index_entry list \<times> bytes)" where
  "parse_index_entries 0 version oid_size l err previous_key region = Inr ([], region)"
| "parse_index_entries (Suc count) version oid_size l err previous_key region =
     rbind (parse_index_entry version oid_size l err previous_key region) (\<lambda>(e, rest).
     rbind (parse_index_entries count version oid_size l err
              (Some (ix_raw_path e, ix_stage e)) rest) (\<lambda>(es, rest').
     Inr (e # es, rest')))"

text \<open>The extension loop; every round consumes at least its eight framing bytes.\<close>

function parse_index_extensions :: "bool \<Rightarrow> raiser \<Rightarrow> bytes \<Rightarrow> artifact_error + unit" where
  "parse_index_extensions seen_eoie err region =
     (if region = [] then Inr ()
      else if seen_eoie then Inl (err ''Git index EOIE extension must be final'')
      else if len region < 8 then Inl (err ''Git index extension framing is truncated'')
      else
        let signature = slice region 0 4;
            extension_size = int_from_bytes (slice region 4 8);
            payload = drop 8 region
        in
        if extension_size > len payload then Inl (err ''Git index extension payload is truncated'')
        else if signature \<notin> set index_allowed_extensions then Inl (err ''Git index extension is unsupported'')
        else parse_index_extensions (signature = bytes_of ''EOIE'') err (drop (nat extension_size) payload))"
  by pat_completeness auto
termination
  by (relation "measure (\<lambda>(seen, err, region). length region)") auto

declare parse_index_extensions.simps [simp del]

definition parse_index ::
  "(string \<Rightarrow> bytes \<Rightarrow> bytes) \<Rightarrow> bytes \<Rightarrow> string \<Rightarrow> artifact_limits \<Rightarrow> raiser
     \<Rightarrow> artifact_error + index_entry list" where
  "parse_index hash_new ib fmt l err =
     rbind (dict_index format_oid_sizes fmt) (\<lambda>oid_size.
     let checksum_start = len ib - oid_size in
     rbind (raise_if (checksum_start < 12) (err ''Git index is truncated'')) (\<lambda>_.
     rbind (raise_if (slice ib 0 4 \<noteq> bytes_of ''DIRC'') (err ''Git index signature is invalid'')) (\<lambda>_.
     let version = int_from_bytes (slice ib 4 8) in
     rbind (raise_if (version \<notin> set index_versions) (err ''Git index version is unsupported'')) (\<lambda>_.
     rbind (raise_if (hash_new fmt (take (nat checksum_start) ib) \<noteq> drop (nat checksum_start) ib)
              (err ''Git index checksum is invalid for object format'')) (\<lambda>_.
     let count = int_from_bytes (slice ib 8 12);
         fixed_size = 40 + oid_size + 2;
         minimum_entry_size = (fixed_size + 2 + 7) AND NOT 7;
         entry_region_bytes = checksum_start - 12
     in
     rbind (raise_if (count > entry_region_bytes div minimum_entry_size)
              (err ''Git index entry count exceeds payload bounds'')) (\<lambda>_.
     rbind (raise_if (count > max_exact_index_bytes l div minimum_entry_size)
              (err ''Git index entry count exceeds configured bounds'')) (\<lambda>_.
     rbind (parse_index_entries (nat count) version oid_size l err None (slice ib 12 checksum_start)) (\<lambda>(es, rest).
     rbind (parse_index_extensions False err rest) (\<lambda>_.
     Inr es)))))))))"

definition expected_roots :: "bytes \<Rightarrow> index_entry list \<Rightarrow> bytes list" where
  "expected_roots oid index_entries =
     sort (remdups (map ix_object_id index_entries @ (if oid \<noteq> [] then [oid] else [])))"

definition compute_source_state_sha256 ::
  "(bytes \<Rightarrow> bytes) \<Rightarrow> bytes list \<Rightarrow> artifact_error + bytes" where
  "compute_source_state_sha256 sha256 digests =
     rbind (raise_if (list_ex (\<lambda>d. length d \<noteq> 32) digests)
              (ValueError ''section digests must be exactly 32 raw bytes'')) (\<lambda>_.
     Inr (sha256 (SOURCE_DOMAIN @ [0] @ concat digests)))"

subsection \<open>Encoding\<close>

definition build_control_payload :: "artifact_input \<Rightarrow> int \<Rightarrow> int \<Rightarrow> int \<Rightarrow> artifact_error + bytes" where
  "build_control_payload a entry_count roots_count aggregate_content_bytes =
     rbind (dict_index format_codes (object_format a)) (\<lambda>fc.
     rbind (dict_index head_state_codes (head_state a)) (\<lambda>hc.
     rbind (u32_bytes (len (head_target a))) (\<lambda>tl_bytes.
     rbind (u32_bytes entry_count) (\<lambda>ec.
     rbind (u32_bytes roots_count) (\<lambda>rc.
     rbind (u64_bytes aggregate_content_bytes) (\<lambda>ag.
     Inr ([word_of_int fc, if index_bytes a \<noteq> None then 1 else 0, word_of_int hc, 0]
          @ tl_bytes @ head_target a
          @ (if head_state a \<noteq> ''unborn'' then head_oid a else [])
          @ ec @ rc @ ag
          @ (case policy_digest a of None \<Rightarrow> [0] | Some d \<Rightarrow> 1 # d))))))))"

definition entry_flags :: "manifest_entry \<Rightarrow> int" where
  "entry_flags e = (if executable e then 1 else 0) OR (if allowed_ignored e then 2 else 0)"

fun build_manifest_payload :: "manifest_entry list \<Rightarrow> artifact_error + bytes" where
  "build_manifest_payload [] = Inr []"
| "build_manifest_payload (e # es) =
     rbind (dict_index kind_codes (kind e)) (\<lambda>kc.
     rbind (u32_bytes (len (derived_parent (raw_path e)))) (\<lambda>pl.
     rbind (u32_bytes (len (raw_path e))) (\<lambda>rl.
     rbind (u32_bytes (len (content e))) (\<lambda>cl.
     rbind (build_manifest_payload es) (\<lambda>rest.
     Inr ([word_of_int kc, word_of_int (entry_flags e)]
          @ pl @ derived_parent (raw_path e) @ rl @ raw_path e @ cl @ content e @ rest))))))"

fun frame_sections :: "(bytes \<Rightarrow> bytes) \<Rightarrow> (int \<times> bytes) list \<Rightarrow> artifact_error + bytes" where
  "frame_sections sha256 [] = Inr []"
| "frame_sections sha256 ((section_id, payload) # ss) =
     rbind (u32_bytes section_id) (\<lambda>i.
     rbind (u64_bytes (len payload)) (\<lambda>n.
     rbind (frame_sections sha256 ss) (\<lambda>rest.
     Inr (i @ n @ sha256 payload @ payload @ rest))))"

definition frame_envelope :: "(bytes \<Rightarrow> bytes) \<Rightarrow> (int \<times> bytes) list \<Rightarrow> artifact_error + bytes" where
  "frame_envelope sha256 sections =
     rbind (u32_bytes 1) (\<lambda>v.
     rbind (u32_bytes 1) (\<lambda>f.
     rbind (u32_bytes (len sections)) (\<lambda>n.
     rbind (frame_sections sha256 sections) (\<lambda>body.
     Inr (MAGIC @ v @ f @ n @ body)))))"

definition validate_head :: "artifact_input \<Rightarrow> int \<Rightarrow> artifact_limits \<Rightarrow> artifact_error + unit" where
  "validate_head a oid_size l =
     rbind (raise_if (len (head_target a) > 0xFFFFFFFF) (WorktreeArtifactEncodeError ''HEAD target is too large'')) (\<lambda>_.
     rbind (if head_state a = ''unborn'' then
              rbind (raise_if (head_oid a \<noteq> [])
                       (WorktreeArtifactEncodeError ''unborn HEAD must not carry an object ID'')) (\<lambda>_.
              validate_symbolic_head_target (head_target a) l WorktreeArtifactEncodeError)
            else if head_state a = ''detached'' then
              raise_if (head_target a \<noteq> [] \<or> len (head_oid a) \<noteq> oid_size)
                (WorktreeArtifactEncodeError ''detached HEAD state is invalid'')
            else if len (head_oid a) \<noteq> oid_size then
              Inl (WorktreeArtifactEncodeError ''symbolic HEAD state is invalid'')
            else validate_symbolic_head_target (head_target a) l WorktreeArtifactEncodeError) (\<lambda>_.
     raise_if (head_oid a \<noteq> [] \<and> \<not> list_ex (\<lambda>b. b \<noteq> 0) (head_oid a))
       (WorktreeArtifactEncodeError ''HEAD object ID cannot be zero'')))"

text \<open>The duplicate and topology loop over the sorted entries.\<close>

fun check_manifest_order :: "manifest_entry list \<Rightarrow> (bytes, entry_kind) pydict \<Rightarrow> artifact_error + unit" where
  "check_manifest_order [] present = Inr ()"
| "check_manifest_order (e # es) present =
     rbind (raise_if (dget present (raw_path e) \<noteq> None)
              (WorktreeArtifactEncodeError ''manifest path is duplicated'')) (\<lambda>_.
     rbind (validate_topology (raw_path e) present WorktreeArtifactEncodeError) (\<lambda>_.
     check_manifest_order es (dset present (raw_path e) (kind e))))"

definition aggregate_content :: "manifest_entry list \<Rightarrow> int" where
  "aggregate_content es = sum_list (map (\<lambda>e. len (content e)) (filter (\<lambda>e. kind e \<noteq> Directory) es))"

definition control_length :: "artifact_input \<Rightarrow> int \<Rightarrow> int" where
  "control_length a oid_size =
     4 + 4 + len (head_target a) + (if head_state a = ''unborn'' then 0 else oid_size)
       + 4 + 4 + 8 + 1 + (if policy_digest a = None then 0 else 32)"

definition manifest_length :: "manifest_entry list \<Rightarrow> int" where
  "manifest_length es =
     sum_list (map (\<lambda>e. 14 + len (derived_parent (raw_path e)) + len (raw_path e) + len (content e)) es)"

definition encode_worktree_artifact ::
  "(bytes \<Rightarrow> bytes) \<Rightarrow> (string \<Rightarrow> bytes \<Rightarrow> bytes) \<Rightarrow> artifact_input \<Rightarrow> artifact_limits \<Rightarrow> artifact_error + bytes" where
  "encode_worktree_artifact sha256 hash_new a l =
     rbind (raise_if (dget format_codes (object_format a) = None)
              (WorktreeArtifactEncodeError ''object format is unsupported'')) (\<lambda>_.
     rbind (raise_if (dget head_state_codes (head_state a) = None)
              (WorktreeArtifactEncodeError ''HEAD state is unsupported'')) (\<lambda>_.
     rbind (dict_index format_oid_sizes (object_format a)) (\<lambda>oid_size.
     rbind (validate_head a oid_size l) (\<lambda>_.
     rbind (raise_if (case policy_digest a of None \<Rightarrow> False | Some d \<Rightarrow> length d \<noteq> 32)
              (WorktreeArtifactEncodeError ''policy digest must be 32 raw bytes'')) (\<lambda>_.
     let index_payload = (case index_bytes a of None \<Rightarrow> [] | Some ib \<Rightarrow> ib) in
     rbind (raise_if (len index_payload > max_exact_index_bytes l)
              (WorktreeArtifactEncodeError ''exact index exceeds maximum bytes'')) (\<lambda>_.
     rbind (case index_bytes a of
              None \<Rightarrow> Inr []
            | Some ib \<Rightarrow> parse_index hash_new index_payload (object_format a) l WorktreeArtifactEncodeError)
       (\<lambda>index_entries.
     rbind (raise_if (len (entries a) > max_manifest_entries l)
              (WorktreeArtifactEncodeError ''manifest entry count exceeds maximum'')) (\<lambda>_.
     rbind (raise_if (len (root_oids a) > max_roots l)
              (WorktreeArtifactEncodeError ''root count exceeds maximum'')) (\<lambda>_.
     rbind (check_all (\<lambda>e. validate_entry_shape e l WorktreeArtifactEncodeError) (entries a)) (\<lambda>_.
     let es = sort_key raw_path (entries a) in
     rbind (check_manifest_order es []) (\<lambda>_.
     let aggregate = aggregate_content es in
     rbind (raise_if (aggregate > max_aggregate_content_bytes l)
              (WorktreeArtifactEncodeError ''aggregate content exceeds maximum bytes'')) (\<lambda>_.
     rbind (raise_if (list_ex allowed_ignored es \<and> policy_digest a = None)
              (WorktreeArtifactEncodeError ''ignored entries require a policy digest'')) (\<lambda>_.
     rbind (check_all (\<lambda>r. raise_if (len r \<noteq> oid_size \<or> \<not> list_ex (\<lambda>b. b \<noteq> 0) r)
                          (WorktreeArtifactEncodeError ''root object ID is invalid'')) (root_oids a)) (\<lambda>_.
     let roots = expected_roots (head_oid a) index_entries in
     rbind (raise_if (length (remdups (root_oids a)) \<noteq> length (root_oids a))
              (WorktreeArtifactEncodeError ''root object ID is duplicated'')) (\<lambda>_.
     rbind (raise_if (set (root_oids a) \<noteq> set roots)
              (WorktreeArtifactEncodeError ''roots do not exactly match HEAD and index object IDs'')) (\<lambda>_.
     let section_lengths = [control_length a oid_size, len index_payload, manifest_length es, len roots * oid_size];
         section_bounds = [max_control_bytes l, max_index_bytes l, max_manifest_bytes l, max_roots_bytes l] in
     rbind (raise_if (list_ex (\<lambda>(n, b). n > b) (zip section_lengths section_bounds))
              (WorktreeArtifactEncodeError ''artifact section exceeds maximum bytes'')) (\<lambda>_.
     let framed_length = ENVELOPE_HEADER_LEN + 4 * SECTION_HEADER_LEN + sum_list section_lengths in
     rbind (raise_if (framed_length > max_total_bytes l)
              (WorktreeArtifactEncodeError ''artifact exceeds maximum total bytes'')) (\<lambda>_.
     rbind (build_control_payload a (len es) (len roots) aggregate) (\<lambda>control.
     rbind (build_manifest_payload es) (\<lambda>manifest.
     rbind (frame_envelope sha256 [(1, control), (2, index_payload), (3, manifest), (4, concat roots)]) (\<lambda>encoded.
     rbind (raise_if (len encoded \<noteq> framed_length)
              (AssertionError ''artifact framing length changed after preflight'')) (\<lambda>_.
     Inr encoded))))))))))))))))))))))"

subsection \<open>Decoding\<close>

definition reader_take :: "int \<Rightarrow> string \<Rightarrow> bytes \<Rightarrow> artifact_error + (bytes \<times> bytes)" where
  "reader_take sz label rd =
     (if sz < 0 \<or> sz > len rd then Inl (WorktreeArtifactDecodeError (''truncated '' @ label))
      else Inr (take (nat sz) rd, drop (nat sz) rd))"

definition reader_uint :: "int \<Rightarrow> string \<Rightarrow> bytes \<Rightarrow> artifact_error + (int \<times> bytes)" where
  "reader_uint sz label rd = rbind (reader_take sz label rd) (\<lambda>(bs, rd'). Inr (int_from_bytes bs, rd'))"

definition reader_u8 :: "string \<Rightarrow> bytes \<Rightarrow> artifact_error + (int \<times> bytes)" where
  "reader_u8 label rd = reader_uint 1 label rd"

definition reader_u32 :: "string \<Rightarrow> bytes \<Rightarrow> artifact_error + (int \<times> bytes)" where
  "reader_u32 label rd = reader_uint 4 label rd"

definition reader_u64 :: "string \<Rightarrow> bytes \<Rightarrow> artifact_error + (int \<times> bytes)" where
  "reader_u64 label rd = reader_uint 8 label rd"

text \<open>The section loop of \<^verbatim>\<open>_parse_sections\<close>; \<open>view\<close> is the input from the current offset on.\<close>

fun parse_sections_from ::
  "(bytes \<Rightarrow> bytes) \<Rightarrow> int \<Rightarrow> int list \<Rightarrow> bytes \<Rightarrow> artifact_error + (bytes list \<times> bytes list)" where
  "parse_sections_from sha256 position [] view =
     rbind (raise_if (view \<noteq> []) (WorktreeArtifactDecodeError ''artifact has trailing bytes'')) (\<lambda>_. Inr ([], []))"
| "parse_sections_from sha256 position (bound # bounds) view =
     rbind (raise_if (len view < SECTION_HEADER_LEN) (WorktreeArtifactDecodeError ''truncated section header'')) (\<lambda>_.
     let section_id = int_from_bytes (slice view 0 4) in
     rbind (raise_if (section_id \<notin> {1, 2, 3, 4}) (WorktreeArtifactDecodeError ''section ID is unknown'')) (\<lambda>_.
     rbind (raise_if (section_id \<noteq> position) (WorktreeArtifactDecodeError ''sections are out of order'')) (\<lambda>_.
     let declared = int_from_bytes (slice view 4 12) in
     rbind (raise_if (declared > bound) (WorktreeArtifactDecodeError ''section exceeds maximum bytes'')) (\<lambda>_.
     let body = drop (nat SECTION_HEADER_LEN) view in
     rbind (raise_if (declared > len body) (WorktreeArtifactDecodeError ''truncated section payload'')) (\<lambda>_.
     let stored_digest = slice view 12 44; payload = take (nat declared) body in
     rbind (raise_if (sha256 payload \<noteq> stored_digest) (WorktreeArtifactDecodeError ''section digest mismatch'')) (\<lambda>_.
     rbind (parse_sections_from sha256 (position + 1) bounds (drop (nat declared) body)) (\<lambda>(digests, payloads).
     Inr (stored_digest # digests, payload # payloads))))))))"

definition parse_sections ::
  "(bytes \<Rightarrow> bytes) \<Rightarrow> bytes \<Rightarrow> artifact_limits \<Rightarrow> artifact_error + (bytes list \<times> bytes list)" where
  "parse_sections sha256 view l =
     parse_sections_from sha256 1
       [max_control_bytes l, max_index_bytes l, max_manifest_bytes l, max_roots_bytes l]
       (drop (nat ENVELOPE_HEADER_LEN) view)"

record control_fields =
  cf_object_format :: string
  cf_has_index :: bool
  cf_head_state :: string
  cf_head_target :: bytes
  cf_head_oid :: bytes
  cf_policy_digest :: "bytes option"
  cf_entry_count :: int
  cf_root_count :: int
  cf_aggregate :: int

definition parse_control :: "bytes \<Rightarrow> artifact_limits \<Rightarrow> artifact_error + control_fields" where
  "parse_control payload l =
     rbind (reader_u8 ''object format'' payload) (\<lambda>(fc, r1).
     case dget format_names fc of None \<Rightarrow> Inl (WorktreeArtifactDecodeError ''object format is unsupported'')
     | Some fmt \<Rightarrow>
     rbind (reader_u8 ''index presence'' r1) (\<lambda>(has_index_code, r2).
     rbind (raise_if (has_index_code \<notin> {0, 1}) (WorktreeArtifactDecodeError ''index-presence flag is invalid'')) (\<lambda>_.
     rbind (reader_u8 ''HEAD state'' r2) (\<lambda>(hc, r3).
     case dget head_state_names hc of None \<Rightarrow> Inl (WorktreeArtifactDecodeError ''HEAD state is unsupported'')
     | Some hs \<Rightarrow>
     rbind (reader_u8 ''reserved control byte'' r3) (\<lambda>(reserved, r4).
     rbind (raise_if (reserved \<noteq> 0) (WorktreeArtifactDecodeError ''reserved control byte is nonzero'')) (\<lambda>_.
     rbind (reader_u32 ''HEAD target length'' r4) (\<lambda>(target_length, r5).
     rbind (raise_if (target_length > max_path_bytes l)
              (WorktreeArtifactDecodeError ''HEAD target exceeds maximum bytes'')) (\<lambda>_.
     rbind (reader_take target_length ''HEAD target'' r5) (\<lambda>(target, r6).
     rbind (dict_index format_oid_sizes fmt) (\<lambda>oid_size.
     rbind (if hs = ''unborn'' then Inr ([], r6) else reader_take oid_size ''HEAD object ID'' r6) (\<lambda>(oid, r7).
     rbind (reader_u32 ''manifest entry count'' r7) (\<lambda>(entry_count, r8).
     rbind (reader_u32 ''root count'' r8) (\<lambda>(root_count, r9).
     rbind (reader_u64 ''aggregate content bytes'' r9) (\<lambda>(aggregate, r10).
     rbind (reader_u8 ''policy presence'' r10) (\<lambda>(policy_code, r11).
     rbind (raise_if (policy_code \<notin> {0, 1}) (WorktreeArtifactDecodeError ''policy-presence flag is invalid'')) (\<lambda>_.
     rbind (if policy_code \<noteq> 0
            then rbind (reader_take 32 ''policy digest'' r11) (\<lambda>(d, r12). Inr (Some d, r12))
            else Inr (None, r11)) (\<lambda>(policy, r12).
     rbind (raise_if (r12 \<noteq> []) (WorktreeArtifactDecodeError ''control section has trailing bytes'')) (\<lambda>_.
     rbind (if hs = ''unborn''
            then rbind (raise_if (oid \<noteq> [] \<or> target = []) (WorktreeArtifactDecodeError ''unborn HEAD state is invalid''))
                   (\<lambda>_. validate_symbolic_head_target target l WorktreeArtifactDecodeError)
            else Inr ()) (\<lambda>_.
     rbind (raise_if (hs = ''detached'' \<and> target \<noteq> []) (WorktreeArtifactDecodeError ''detached HEAD state is invalid'')) (\<lambda>_.
     rbind (if hs = ''symbolic'' then validate_symbolic_head_target target l WorktreeArtifactDecodeError
            else Inr ()) (\<lambda>_.
     rbind (raise_if (oid \<noteq> [] \<and> \<not> list_ex (\<lambda>b. b \<noteq> 0) oid)
              (WorktreeArtifactDecodeError ''HEAD object ID cannot be zero'')) (\<lambda>_.
     rbind (raise_if (entry_count > max_manifest_entries l)
              (WorktreeArtifactDecodeError ''manifest entry count exceeds maximum'')) (\<lambda>_.
     rbind (raise_if (root_count > max_roots l) (WorktreeArtifactDecodeError ''root count exceeds maximum'')) (\<lambda>_.
     rbind (raise_if (aggregate > max_aggregate_content_bytes l)
              (WorktreeArtifactDecodeError ''aggregate content exceeds maximum bytes'')) (\<lambda>_.
     Inr \<lparr> cf_object_format = fmt, cf_has_index = (has_index_code \<noteq> 0), cf_head_state = hs,
           cf_head_target = target, cf_head_oid = oid, cf_policy_digest = policy,
           cf_entry_count = entry_count, cf_root_count = root_count, cf_aggregate = aggregate \<rparr>)))))))))))))))))))))))))"

text \<open>
  One round of the manifest loop. The loop state is the reader, the entries so far, the
  kinds of the paths already present, the previous path and the aggregate.
\<close>

record manifest_state =
  ms_reader :: bytes
  ms_entries :: "manifest_entry list"
  ms_present :: "(bytes, entry_kind) pydict"
  ms_previous :: "bytes option"
  ms_aggregate :: int

definition parse_manifest_round :: "artifact_limits \<Rightarrow> manifest_state \<Rightarrow> artifact_error + manifest_state" where
  "parse_manifest_round l s =
     rbind (raise_if (len (ms_entries s) \<ge> max_manifest_entries l)
              (WorktreeArtifactDecodeError ''manifest entry count exceeds maximum'')) (\<lambda>_.
     rbind (raise_if (len (ms_reader s) < MANIFEST_ENTRY_MIN_BYTES)
              (WorktreeArtifactDecodeError ''manifest has trailing bytes'')) (\<lambda>_.
     rbind (reader_u8 ''entry kind'' (ms_reader s)) (\<lambda>(kc, r1).
     case dget kinds_by_code kc of None \<Rightarrow> Inl (WorktreeArtifactDecodeError ''entry kind is unsupported'')
     | Some k \<Rightarrow>
     rbind (reader_u8 ''entry flags'' r1) (\<lambda>(flags, r2).
     rbind (raise_if (flags AND NOT 3 \<noteq> 0) (WorktreeArtifactDecodeError ''entry flags are unknown'')) (\<lambda>_.
     rbind (reader_u32 ''entry parent length'' r2) (\<lambda>(parent_length, r3).
     rbind (raise_if (parent_length > max_path_bytes l)
              (WorktreeArtifactDecodeError ''entry parent exceeds maximum bytes'')) (\<lambda>_.
     rbind (reader_take parent_length ''entry parent'' r3) (\<lambda>(parent, r4).
     rbind (reader_u32 ''entry path length'' r4) (\<lambda>(path_length, r5).
     rbind (raise_if (path_length > max_path_bytes l)
              (WorktreeArtifactDecodeError ''entry path exceeds maximum bytes'')) (\<lambda>_.
     rbind (reader_take path_length ''entry path'' r5) (\<lambda>(path, r6).
     rbind (reader_u32 ''entry content length'' r6) (\<lambda>(content_length, r7).
     rbind (raise_if (content_length > max_content_bytes l)
              (WorktreeArtifactDecodeError ''entry content exceeds maximum bytes'')) (\<lambda>_.
     rbind (raise_if (k \<noteq> Directory \<and> ms_aggregate s + content_length > max_aggregate_content_bytes l)
              (WorktreeArtifactDecodeError ''aggregate content exceeds maximum bytes'')) (\<lambda>_.
     rbind (reader_take content_length ''entry content'' r7) (\<lambda>(cont, r8).
     rbind (validate_raw_path path l WorktreeArtifactDecodeError) (\<lambda>_.
     rbind (raise_if (parent \<noteq> derived_parent path)
              (WorktreeArtifactDecodeError ''entry parent does not match path'')) (\<lambda>_.
     rbind (raise_if (case ms_previous s of None \<Rightarrow> False | Some prev \<Rightarrow> path \<le> prev)
              (WorktreeArtifactDecodeError ''manifest paths are not strictly increasing'')) (\<lambda>_.
     let e = \<lparr> raw_path = path, kind = k, content = cont, executable = (flags AND 1 \<noteq> 0),
               allowed_ignored = (flags AND 2 \<noteq> 0), nlink = 1, privilege_bits = False \<rparr> in
     rbind (validate_entry_shape e l WorktreeArtifactDecodeError) (\<lambda>_.
     rbind (validate_topology path (ms_present s) WorktreeArtifactDecodeError) (\<lambda>_.
     let aggregate = (if k \<noteq> Directory then ms_aggregate s + content_length else ms_aggregate s) in
     rbind (raise_if (k \<noteq> Directory \<and> aggregate > max_aggregate_content_bytes l)
              (WorktreeArtifactDecodeError ''aggregate content exceeds maximum bytes'')) (\<lambda>_.
     Inr \<lparr> ms_reader = r8, ms_entries = ms_entries s @ [e], ms_present = dset (ms_present s) path k,
           ms_previous = Some path, ms_aggregate = aggregate \<rparr>)))))))))))))))))))))"

lemma reader_take_Inr [result_simps]:
  "reader_take sz label rd = Inr (x, r) \<longleftrightarrow> 0 \<le> sz \<and> len x = sz \<and> rd = x @ r"
  by (auto simp: reader_take_def)

lemma reader_uint_Inr [result_simps]:
  "reader_uint sz label rd = Inr (v, r) \<longleftrightarrow> (\<exists>x. 0 \<le> sz \<and> len x = sz \<and> rd = x @ r \<and> v = int_from_bytes x)"
  by (auto simp: reader_uint_def rbind_Inr_iff reader_take_Inr)

lemma parse_manifest_round_consumes:
  assumes "parse_manifest_round l s = Inr t"
  shows "length (ms_reader t) < length (ms_reader s)"
  using assms unfolding parse_manifest_round_def
  by (auto simp: result_simps Let_def reader_u8_def reader_u32_def split: option.splits prod.splits)

function parse_manifest_loop :: "artifact_limits \<Rightarrow> manifest_state \<Rightarrow> artifact_error + manifest_state" where
  "parse_manifest_loop l s =
     (if ms_reader s = [] then Inr s
      else (case parse_manifest_round l s of Inl e \<Rightarrow> Inl e | Inr t \<Rightarrow> parse_manifest_loop l t))"
  by pat_completeness auto
termination
  by (relation "measure (\<lambda>(l, s). length (ms_reader s))") (auto dest: parse_manifest_round_consumes)

declare parse_manifest_loop.simps [simp del]

definition parse_manifest :: "bytes \<Rightarrow> artifact_limits \<Rightarrow> artifact_error + (manifest_entry list \<times> int)" where
  "parse_manifest payload l =
     rbind (parse_manifest_loop l
              \<lparr> ms_reader = payload, ms_entries = [], ms_present = [], ms_previous = None, ms_aggregate = 0 \<rparr>) (\<lambda>s.
     Inr (ms_entries s, ms_aggregate s))"

text \<open>\<open>tuple(p[i : i + n] for i in range(0, len(p), n))\<close>.\<close>

function chunks :: "nat \<Rightarrow> 'a list \<Rightarrow> 'a list list" where
  "chunks n xs = (if xs = [] \<or> n = 0 then [] else take n xs # chunks n (drop n xs))"
  by pat_completeness auto
termination
  by (relation "measure (\<lambda>(n, xs). length xs)") auto

declare chunks.simps [simp del]

definition decode_worktree_artifact ::
  "(bytes \<Rightarrow> bytes) \<Rightarrow> (string \<Rightarrow> bytes \<Rightarrow> bytes) \<Rightarrow> bytes \<Rightarrow> artifact_limits \<Rightarrow> artifact_error + verified_artifact" where
  "decode_worktree_artifact sha256 hash_new data l =
     rbind (raise_if (len data > max_total_bytes l)
              (WorktreeArtifactDecodeError ''artifact exceeds maximum total bytes'')) (\<lambda>_.
     rbind (raise_if (len data < ENVELOPE_HEADER_LEN)
              (WorktreeArtifactDecodeError ''artifact header is truncated'')) (\<lambda>_.
     rbind (raise_if (slice data 0 (len MAGIC) \<noteq> MAGIC)
              (WorktreeArtifactDecodeError ''artifact magic is invalid'')) (\<lambda>_.
     rbind (raise_if (int_from_bytes (slice data 8 12) \<noteq> 1)
              (WorktreeArtifactDecodeError ''artifact version is unsupported'')) (\<lambda>_.
     rbind (raise_if (int_from_bytes (slice data 12 16) \<noteq> 1)
              (WorktreeArtifactDecodeError ''artifact completion flags are invalid'')) (\<lambda>_.
     rbind (raise_if (int_from_bytes (slice data 16 20) \<noteq> 4)
              (WorktreeArtifactDecodeError ''artifact section count is invalid'')) (\<lambda>_.
     rbind (parse_sections sha256 data l) (\<lambda>(digests, payloads).
     rbind (parse_control (payloads ! 0) l) (\<lambda>c.
     let index_payload = payloads ! 1 in
     rbind (raise_if (\<not> cf_has_index c \<and> index_payload \<noteq> [])
              (WorktreeArtifactDecodeError ''index presence conflicts with index section'')) (\<lambda>_.
     rbind (raise_if (cf_has_index c \<and> len index_payload > max_exact_index_bytes l)
              (WorktreeArtifactDecodeError ''exact index exceeds maximum bytes'')) (\<lambda>_.
     let ib = (if cf_has_index c then Some index_payload else None) in
     rbind (case ib of
              None \<Rightarrow> Inr []
            | Some x \<Rightarrow> parse_index hash_new x (cf_object_format c) l WorktreeArtifactDecodeError) (\<lambda>index_entries.
     rbind (parse_manifest (payloads ! 2) l) (\<lambda>(es, found_aggregate).
     rbind (raise_if (list_ex allowed_ignored es \<and> cf_policy_digest c = None)
              (WorktreeArtifactDecodeError ''ignored entries lack a policy digest'')) (\<lambda>_.
     rbind (raise_if (len es \<noteq> cf_entry_count c)
              (WorktreeArtifactDecodeError ''manifest entry count does not match control'')) (\<lambda>_.
     rbind (raise_if (found_aggregate \<noteq> cf_aggregate c)
              (WorktreeArtifactDecodeError ''aggregate content does not match control'')) (\<lambda>_.
     rbind (dict_index format_oid_sizes (cf_object_format c)) (\<lambda>oid_size.
     let roots_payload = payloads ! 3 in
     rbind (raise_if (len roots_payload \<noteq> cf_root_count c * oid_size)
              (WorktreeArtifactDecodeError ''roots length does not match control'')) (\<lambda>_.
     let roots = chunks (nat oid_size) roots_payload in
     rbind (raise_if (sort (remdups roots) \<noteq> roots \<or> list_ex (\<lambda>r. \<not> list_ex (\<lambda>b. b \<noteq> 0) r) roots)
              (WorktreeArtifactDecodeError ''root object IDs are not valid, unique, and sorted'')) (\<lambda>_.
     rbind (raise_if (roots \<noteq> expected_roots (cf_head_oid c) index_entries)
              (WorktreeArtifactDecodeError
                 ''roots do not exactly match sorted unique HEAD and index object IDs'')) (\<lambda>_.
     rbind (compute_source_state_sha256 sha256 digests) (\<lambda>source_state.
     Inr \<lparr> va_object_format = cf_object_format c, va_has_index = cf_has_index c, va_index_bytes = ib,
           va_index_entries = index_entries, va_head_state = cf_head_state c,
           va_head_target = cf_head_target c, va_head_oid = cf_head_oid c,
           va_policy_digest = cf_policy_digest c, va_entries = es, va_root_oids = roots,
           va_source_state_sha256 = source_state, va_total_bytes = len data \<rparr>))))))))))))))))))))"

end
