(* ===== verification/Worktree_Artifact_Parsers.thy ===== *)
theory Worktree_Artifact_Parsers
  imports Worktree_Artifact
begin

section \<open>The parsers of the worktree artifact codec accept exactly what the writers produce\<close>

text \<open>
  Each parser of the codec is characterised by an equivalence: it accepts exactly the
  bytes the corresponding writer produces from values that satisfy the stated bounds.
  The two round trips of the codec (what is encoded decodes to the snapshot, what is
  decoded re-encodes to the same bytes) are corollaries.
\<close>

subsection \<open>Fields\<close>

lemma reader_uint_field:
  "reader_uint (int n) label rd = Inr (v, r) \<longleftrightarrow> 0 \<le> v \<and> v < 256 ^ n \<and> rd = be_bytes n v @ r"
proof -
  have "(\<exists>x. length x = n \<and> rd = x @ r \<and> v = int_from_bytes x) \<longleftrightarrow>
        0 \<le> v \<and> v < 256 ^ n \<and> rd = be_bytes n v @ r"
    using int_from_bytes_bounds be_bytes_from_bytes by (metis int_from_be_bytes length_be_bytes)
  then show ?thesis by (simp add: reader_uint_Inr)
qed

interpretation u8: wire_field "be_bytes 1" reader_u8 "\<lambda>v. 0 \<le> v \<and> v < 256"
  by unfold_locales (use reader_uint_field [of 1] in \<open>auto simp: reader_u8_def\<close>)

interpretation u32: wire_field "be_bytes 4" reader_u32 "\<lambda>v. 0 \<le> v \<and> v < 4294967296"
  by unfold_locales (use reader_uint_field [of 4] in \<open>auto simp: reader_u32_def\<close>)

interpretation u64: wire_field "be_bytes 8" reader_u64 "\<lambda>v. 0 \<le> v \<and> v < 18446744073709551616"
  by unfold_locales (use reader_uint_field [of 8] in \<open>auto simp: reader_u64_def\<close>)

lemmas field_iffs = u8.get_iff u32.get_iff u64.get_iff reader_take_Inr

lemma u32_bytes_Inr: "u32_bytes v = Inr x \<longleftrightarrow> 0 \<le> v \<and> v < 4294967296 \<and> x = be_bytes 4 v"
  by (auto simp: u32_bytes_def int_to_bytes_def)

lemma u64_bytes_Inr: "u64_bytes v = Inr x \<longleftrightarrow> 0 \<le> v \<and> v < 18446744073709551616 \<and> x = be_bytes 8 v"
  by (auto simp: u64_bytes_def int_to_bytes_def)

lemma be_bytes_1: "be_bytes 1 v = [word_of_int v]"
  by (simp add: be_bytes.simps eval_nat_numeral)

subsection \<open>Validators do not depend on the exception class they raise\<close>

definition valid_raw_path :: "artifact_limits \<Rightarrow> bytes \<Rightarrow> bool" where
  "valid_raw_path l p \<longleftrightarrow> is_ok (validate_raw_path p l WorktreeArtifactDecodeError)"

definition valid_head_target :: "artifact_limits \<Rightarrow> bytes \<Rightarrow> bool" where
  "valid_head_target l t \<longleftrightarrow> is_ok (validate_symbolic_head_target t l WorktreeArtifactDecodeError)"

definition valid_shape :: "artifact_limits \<Rightarrow> manifest_entry \<Rightarrow> bool" where
  "valid_shape l e \<longleftrightarrow> is_ok (validate_entry_shape e l WorktreeArtifactDecodeError)"

definition valid_parents :: "(bytes, entry_kind) pydict \<Rightarrow> bytes \<Rightarrow> bool" where
  "valid_parents present p \<longleftrightarrow> is_ok (validate_topology p present WorktreeArtifactDecodeError)"

lemma validate_raw_path_Inr: "validate_raw_path p l err = Inr u \<longleftrightarrow> valid_raw_path l p"
  by (simp add: valid_raw_path_def is_ok_iff validate_raw_path_def Let_def result_simps)

lemma validate_head_target_Inr: "validate_symbolic_head_target t l err = Inr u \<longleftrightarrow> valid_head_target l t"
  by (simp add: valid_head_target_def is_ok_iff validate_symbolic_head_target_def Let_def result_simps)

lemma validate_entry_shape_Inr: "validate_entry_shape e l err = Inr u \<longleftrightarrow> valid_shape l e"
  by (simp add: valid_shape_def is_ok_iff validate_entry_shape_def validate_raw_path_Inr result_simps)

lemma check_all_unit: "check_all f xs = Inr u \<longleftrightarrow> (\<forall>x \<in> set xs. f x = Inr ())"
  by (cases u) (simp add: check_all_Inr_iff)

lemma validate_topology_Inr: "validate_topology p present err = Inr u \<longleftrightarrow> valid_parents present p"
  by (simp add: valid_parents_def is_ok_iff validate_topology_def Let_def check_all_unit)

lemmas validator_iffs =
  validate_raw_path_Inr validate_head_target_Inr validate_entry_shape_Inr validate_topology_Inr

lemma parse_index_entry_any_err:
  "parse_index_entry v n l err pk rg = Inr x \<longleftrightarrow> parse_index_entry v n l err' pk rg = Inr x"
  by (cases pk) (simp_all add: parse_index_entry_def Let_def result_simps validator_iffs split: if_splits prod.splits)

lemma parse_index_entries_any_err:
  "parse_index_entries k v n l err pk rg = Inr x \<longleftrightarrow> parse_index_entries k v n l err' pk rg = Inr x"
proof (induction k arbitrary: pk rg x)
  case (Suc k)
  show ?case
    by (simp add: rbind_Inr_iff parse_index_entry_any_err [of v n l err pk rg _ err'] Suc.IH split: prod.splits)
qed simp

lemma parse_index_extensions_any_err:
  "parse_index_extensions b err rg = Inr u \<longleftrightarrow> parse_index_extensions b err' rg = Inr u"
proof (induction b err rg rule: parse_index_extensions.induct)
  case (1 b err rg)
  then show ?case
    by (simp add: parse_index_extensions.simps [of b err rg] parse_index_extensions.simps [of b err' rg] Let_def)
qed

lemma parse_index_any_err:
  "parse_index h ib fmt l err = Inr es \<longleftrightarrow> parse_index h ib fmt l err' = Inr es"
  by (simp add: parse_index_def Let_def result_simps split: prod.splits)
     (simp add: parse_index_entries_any_err [of _ _ _ l err _ _ _ err'] parse_index_extensions_any_err [of _ err _ _ err'])

subsection \<open>The manifest\<close>

definition entry_bytes :: "manifest_entry \<Rightarrow> bytes" where
  "entry_bytes e =
     be_bytes 1 (case kind e of Directory \<Rightarrow> 0 | File \<Rightarrow> 1 | Symlink \<Rightarrow> 2) @ be_bytes 1 (entry_flags e)
     @ be_bytes 4 (len (derived_parent (raw_path e))) @ derived_parent (raw_path e)
     @ be_bytes 4 (len (raw_path e)) @ raw_path e
     @ be_bytes 4 (len (content e)) @ content e"

lemma length_entry_bytes:
  "len (entry_bytes e) = 14 + len (derived_parent (raw_path e)) + len (raw_path e) + len (content e)"
  by (simp add: entry_bytes_def)

lemma manifest_length_bytes: "manifest_length es = len (concat (map entry_bytes es))"
  by (induction es) (simp_all add: manifest_length_def length_entry_bytes)

lemma derived_parent_le: "length (derived_parent p) \<le> length p"
proof -
  have "length (dropWhile (\<lambda>b. b \<noteq> 47) (rev p)) \<le> length p"
    using length_dropWhile_le [of "\<lambda>b. b \<noteq> 47" "rev p"] by simp
  then show ?thesis by (auto simp: derived_parent_def)
qed

lemma kinds_by_code_Some:
  "dget kinds_by_code c = Some k \<longleftrightarrow> c = (case k of Directory \<Rightarrow> 0 | File \<Rightarrow> 1 | Symlink \<Rightarrow> 2)"
  by (cases k) (auto simp: kinds_by_code_def kind_codes_def)

lemma kind_codes_index: "dict_index kind_codes k = Inr (case k of Directory \<Rightarrow> 0 | File \<Rightarrow> 1 | Symlink \<Rightarrow> 2)"
  by (cases k) (simp_all add: dict_index_def kind_codes_def)

lemma flags_known: "0 \<le> f \<Longrightarrow> (f :: int) AND - 4 = 0 \<longleftrightarrow> f \<in> {0, 1, 2, 3}"
proof -
  assume f: "0 \<le> f"
  have "f AND NOT (mask 2) = push_bit 2 (drop_bit 2 f)"
    by (rule bit_eqI) (auto simp: bit_simps simp flip: add_2_eq_Suc dest: le_Suc_ex)
  then have "f AND - 4 = 4 * (f div 4)"
    by (simp add: mask_eq_exp_minus_1 push_bit_eq_mult drop_bit_eq_div)
  then show ?thesis using f by auto
qed

lemma entry_flags_range: "entry_flags e \<in> {0, 1, 2, 3}"
  by (simp add: entry_flags_def)

lemma entry_flags_bits:
  "(entry_flags e AND 1 \<noteq> 0) = executable e" "(entry_flags e AND 2 \<noteq> 0) = allowed_ignored e"
  by (simp_all add: entry_flags_def)

lemma entry_flags_of_bits:
  "f \<in> {0, 1, 2, 3} \<Longrightarrow> executable e = (f AND 1 \<noteq> 0) \<Longrightarrow> allowed_ignored e = (f AND 2 \<noteq> 0) \<Longrightarrow> entry_flags e = f"
  by (auto simp: entry_flags_def)

text \<open>What one round requires of the entry it reads, and the state it leaves.\<close>

definition entry_ok :: "artifact_limits \<Rightarrow> manifest_state \<Rightarrow> manifest_entry \<Rightarrow> bool" where
  "entry_ok l s e \<longleftrightarrow>
     len (ms_entries s) < max_manifest_entries l \<and> valid_shape l e
     \<and> (\<forall>prev. ms_previous s = Some prev \<longrightarrow> prev < raw_path e)
     \<and> valid_parents (ms_present s) (raw_path e)
     \<and> (kind e \<noteq> Directory \<longrightarrow> ms_aggregate s + len (content e) \<le> max_aggregate_content_bytes l)"

definition advance :: "manifest_state \<Rightarrow> manifest_entry \<Rightarrow> bytes \<Rightarrow> manifest_state" where
  "advance s e r =
     \<lparr> ms_reader = r, ms_entries = ms_entries s @ [e], ms_present = dset (ms_present s) (raw_path e) (kind e),
       ms_previous = Some (raw_path e),
       ms_aggregate = (if kind e \<noteq> Directory then ms_aggregate s + len (content e) else ms_aggregate s) \<rparr>"

lemma valid_shapeD:
  "valid_shape l e \<Longrightarrow> nlink e = 1 \<and> \<not> privilege_bits e \<and> len (content e) \<le> max_content_bytes l
     \<and> valid_raw_path l (raw_path e) \<and> len (raw_path e) \<le> max_path_bytes l"
  by (simp add: valid_shape_def valid_raw_path_def is_ok_iff validate_entry_shape_def validate_raw_path_def
      Let_def result_simps)

definition limits_ok :: "artifact_limits \<Rightarrow> bool" where
  "limits_ok l \<longleftrightarrow> is_ok (limits_post_init l)"

lemma limits_okD:
  assumes "limits_ok l"
  shows "max_path_bytes l < 4294967296" "max_content_bytes l < 4294967296"
    "max_manifest_entries l < 4294967296" "max_roots l < 4294967296"
    "max_aggregate_content_bytes l < 18446744073709551616" "0 \<le> max_aggregate_content_bytes l"
    "max_control_bytes l < 18446744073709551616" "max_index_bytes l < 18446744073709551616"
    "max_manifest_bytes l < 18446744073709551616" "max_roots_bytes l < 18446744073709551616"
  using assms by (auto simp: limits_ok_def is_ok_iff limits_post_init_def limit_bounds_def result_simps)

definition read_entry :: "bytes \<Rightarrow> entry_kind \<Rightarrow> bytes \<Rightarrow> int \<Rightarrow> manifest_entry" where
  "read_entry path k cont flags =
     \<lparr> raw_path = path, kind = k, content = cont, executable = (flags AND 1 \<noteq> 0),
       allowed_ignored = (flags AND 2 \<noteq> 0), nlink = 1, privilege_bits = False \<rparr>"

lemma read_entry_sel [simp]:
  "raw_path (read_entry p k c f) = p" "kind (read_entry p k c f) = k" "content (read_entry p k c f) = c"
  by (simp_all add: read_entry_def)

lemma entry_flags_read_entry: "f \<in> {0, 1, 2, 3} \<Longrightarrow> entry_flags (read_entry p k c f) = f"
  by (rule entry_flags_of_bits) (simp_all add: read_entry_def)

lemma read_entry_id:
  "valid_shape l e \<Longrightarrow> read_entry (raw_path e) (kind e) (content e) (entry_flags e) = e"
  by (drule valid_shapeD) (simp add: read_entry_def entry_flags_bits)

lemma parse_manifest_roundD:
  assumes "parse_manifest_round l s = Inr t"
  shows "\<exists>e r. ms_reader s = entry_bytes e @ r \<and> entry_ok l s e \<and> t = advance s e r"
proof -
  from assms obtain kc k flags path cont r where
    pre: "len (ms_entries s) < max_manifest_entries l"
    and rd: "ms_reader s = be_bytes 1 kc @ be_bytes 1 flags @ be_bytes 4 (len (derived_parent path)) @ derived_parent path
        @ be_bytes 4 (len path) @ path @ be_bytes 4 (len cont) @ cont @ r"
    and k: "dget kinds_by_code kc = Some k" and fl: "0 \<le> flags" "flags AND - 4 = 0"
    and agg: "k \<noteq> Directory \<longrightarrow> ms_aggregate s + len cont \<le> max_aggregate_content_bytes l"
    and prev: "\<forall>prev. ms_previous s = Some prev \<longrightarrow> prev < path"
    and shp: "valid_shape l (read_entry path k cont flags)"
    and tp: "valid_parents (ms_present s) path"
    and t: "t = \<lparr> ms_reader = r, ms_entries = ms_entries s @ [read_entry path k cont flags],
        ms_present = dset (ms_present s) path k, ms_previous = Some path,
        ms_aggregate = (if k \<noteq> Directory then ms_aggregate s + len cont else ms_aggregate s) \<rparr>"
    unfolding parse_manifest_round_def
    by (clarsimp simp: result_simps field_iffs validator_iffs Let_def not_le not_less
        read_entry_def [symmetric] split del: if_split) blast
  have "ms_reader s = entry_bytes (read_entry path k cont flags) @ r"
    using rd k fl by (simp add: entry_bytes_def kinds_by_code_Some entry_flags_read_entry flags_known)
  moreover have "entry_ok l s (read_entry path k cont flags)"
    using pre agg prev shp tp by (simp add: entry_ok_def)
  moreover have "t = advance s (read_entry path k cont flags) r"
    by (simp add: t advance_def)
  ultimately show ?thesis by blast
qed

lemma reader_take_len: "reader_take (len x) lbl (x @ r) = Inr (x, r)"
  by (simp add: reader_take_Inr)

lemma parse_manifest_roundI:
  assumes l: "limits_ok l" and rd: "ms_reader s = entry_bytes e @ r" and ok: "entry_ok l s e"
  shows "parse_manifest_round l s = Inr (advance s e r)"
proof -
  from ok have shp: "valid_shape l e" by (simp add: entry_ok_def)
  note sh = valid_shapeD [OF shp] and lim = limits_okD [OF l]
  have par: "len (derived_parent (raw_path e)) \<le> max_path_bytes l"
    using derived_parent_le [of "raw_path e"] sh by linarith
  have kc: "dget kinds_by_code (case kind e of Directory \<Rightarrow> 0 | File \<Rightarrow> 1 | Symlink \<Rightarrow> 2) = Some (kind e)"
    by (simp add: kinds_by_code_Some)
  have kr: "0 \<le> (case kind e of Directory \<Rightarrow> 0 | File \<Rightarrow> 1 | Symlink \<Rightarrow> (2 :: int))"
    "(case kind e of Directory \<Rightarrow> 0 | File \<Rightarrow> 1 | Symlink \<Rightarrow> (2 :: int)) < 256"
    by (simp_all split: entry_kind.splits)
  have fr: "0 \<le> entry_flags e" "entry_flags e < 256" "entry_flags e AND - 4 = 0"
    using entry_flags_range [of e] by auto
  have re: "\<lparr> raw_path = raw_path e, kind = kind e, content = content e, executable = (entry_flags e AND 1 \<noteq> 0),
       allowed_ignored = (entry_flags e AND 2 \<noteq> 0), nlink = 1, privilege_bits = False \<rparr> = e"
    using read_entry_id [OF shp] by (simp add: read_entry_def)
  have prev: "\<not> (case ms_previous s of None \<Rightarrow> False | Some prev \<Rightarrow> raw_path e \<le> prev)"
    using ok by (auto simp: entry_ok_def split: option.splits)
  have minb: "\<not> len (entry_bytes e @ r) < MANIFEST_ENTRY_MIN_BYTES"
    using length_entry_bytes [of e] by (simp add: MANIFEST_ENTRY_MIN_BYTES_def)
  have cnt: "\<not> max_manifest_entries l \<le> len (ms_entries s)" using ok by (simp add: entry_ok_def)
  have rdp: "ms_reader s = be_bytes 1 (case kind e of Directory \<Rightarrow> 0 | File \<Rightarrow> 1 | Symlink \<Rightarrow> 2)
      @ be_bytes 1 (entry_flags e) @ be_bytes 4 (len (derived_parent (raw_path e))) @ derived_parent (raw_path e)
      @ be_bytes 4 (len (raw_path e)) @ raw_path e @ be_bytes 4 (len (content e)) @ content e @ r"
    using rd by (simp add: entry_bytes_def)
  have b32: "len (derived_parent (raw_path e)) < 4294967296" "len (raw_path e) < 4294967296"
    "len (content e) < 4294967296"
    using par sh lim by linarith+
  have agg: "kind e \<noteq> Directory \<longrightarrow> ms_aggregate s + len (content e) \<le> max_aggregate_content_bytes l"
    and tp: "valid_parents (ms_present s) (raw_path e)"
    using ok by (simp_all add: entry_ok_def)
  have v: "validate_raw_path (raw_path e) l WorktreeArtifactDecodeError = Inr ()"
    "validate_entry_shape e l WorktreeArtifactDecodeError = Inr ()"
    "validate_topology (raw_path e) (ms_present s) WorktreeArtifactDecodeError = Inr ()"
    using sh shp tp by (simp_all add: validator_iffs)
  show ?thesis
    unfolding parse_manifest_round_def
    using cnt minb fr kr kc par sh b32 agg prev v
    by (simp add: rd [symmetric] rdp u8.get_put u32.get_put reader_take_len Let_def re advance_def
          del: One_nat_def) (auto simp: raise_if_def)
qed

text \<open>The loop, as a predicate on the entries it reads.\<close>

definition adv :: "manifest_entry \<Rightarrow> manifest_state \<Rightarrow> manifest_state" where
  "adv e s = advance s e []"

fun manifest_ok :: "artifact_limits \<Rightarrow> manifest_state \<Rightarrow> manifest_entry list \<Rightarrow> bool" where
  "manifest_ok l s [] \<longleftrightarrow> True"
| "manifest_ok l s (e # es) \<longleftrightarrow> entry_ok l s e \<and> manifest_ok l (adv e s) es"

lemma advance_reader: "advance s e r = (adv e s)\<lparr>ms_reader := r\<rparr>"
  by (simp add: adv_def advance_def)

lemma adv_ignores_reader [simp]: "adv e (s\<lparr>ms_reader := r\<rparr>) = adv e s"
  by (simp add: adv_def advance_def)

lemma entry_ok_ignores_reader [simp]: "entry_ok l (s\<lparr>ms_reader := r\<rparr>) e = entry_ok l s e"
  by (simp add: entry_ok_def)

lemma manifest_ok_ignores_reader [simp]: "manifest_ok l (s\<lparr>ms_reader := r\<rparr>) es = manifest_ok l s es"
  by (cases es) simp_all

lemma fold_adv_ignores_reader [simp]:
  "(fold adv es (s\<lparr>ms_reader := r\<rparr>))\<lparr>ms_reader := q\<rparr> = (fold adv es s)\<lparr>ms_reader := q\<rparr>"
  by (cases es) simp_all

lemma entry_bytes_nonempty: "entry_bytes e \<noteq> []"
  using length_entry_bytes [of e] by auto

lemma parse_manifest_loopD:
  "parse_manifest_loop l s = Inr t \<Longrightarrow>
     \<exists>es. ms_reader s = concat (map entry_bytes es) \<and> manifest_ok l s es
       \<and> t = (fold adv es s)\<lparr>ms_reader := []\<rparr>"
proof (induction l s arbitrary: t rule: parse_manifest_loop.induct)
  case (1 l s)
  show ?case
  proof (cases "ms_reader s = []")
    case True
    then have "t = s\<lparr>ms_reader := []\<rparr>" using "1.prems" by (simp add: parse_manifest_loop.simps)
    then show ?thesis using True by (intro exI [of _ "[]"]) simp
  next
    case False
    then obtain s1 where rnd: "parse_manifest_round l s = Inr s1" and rest: "parse_manifest_loop l s1 = Inr t"
      using "1.prems" by (auto simp: parse_manifest_loop.simps [of l s] split: sum.splits)
    from parse_manifest_roundD [OF rnd] obtain e r where
      e: "ms_reader s = entry_bytes e @ r" "entry_ok l s e" "s1 = (adv e s)\<lparr>ms_reader := r\<rparr>"
      by (auto simp: advance_reader)
    from "1.IH" [OF False rnd rest] obtain es where
      es: "ms_reader s1 = concat (map entry_bytes es)" "manifest_ok l s1 es"
        "t = (fold adv es s1)\<lparr>ms_reader := []\<rparr>" by blast
    show ?thesis by (intro exI [of _ "e # es"]) (use e es in simp)
  qed
qed

lemma parse_manifest_loopI:
  "limits_ok l \<Longrightarrow> ms_reader s = concat (map entry_bytes es) \<Longrightarrow> manifest_ok l s es \<Longrightarrow>
     parse_manifest_loop l s = Inr ((fold adv es s)\<lparr>ms_reader := []\<rparr>)"
proof (induction es arbitrary: s)
  case Nil
  then show ?case by (simp add: parse_manifest_loop.simps [of l s])
next
  case (Cons e es)
  then have "parse_manifest_round l s = Inr (advance s e (concat (map entry_bytes es)))"
    by (intro parse_manifest_roundI) simp_all
  then show ?case using Cons entry_bytes_nonempty [of e]
    by (subst parse_manifest_loop.simps) (simp add: advance_reader)
qed

lemma fold_adv_sel:
  "ms_entries (fold adv es s) = ms_entries s @ es"
  "ms_aggregate (fold adv es s) = ms_aggregate s + aggregate_content es"
  by (induction es arbitrary: s) (simp_all add: adv_def advance_def aggregate_content_def)

abbreviation manifest_start :: manifest_state where
  "manifest_start \<equiv> \<lparr> ms_reader = [], ms_entries = [], ms_present = [], ms_previous = None, ms_aggregate = 0 \<rparr>"

lemma parse_manifest_Inr:
  assumes "limits_ok l"
  shows "parse_manifest p l = Inr (es, a) \<longleftrightarrow>
    p = concat (map entry_bytes es) \<and> a = aggregate_content es \<and> manifest_ok l manifest_start es" (is "?L \<longleftrightarrow> ?R")
proof -
  let ?s = "manifest_start\<lparr>ms_reader := p\<rparr>"
  have "?L \<longleftrightarrow> (\<exists>t. parse_manifest_loop l ?s = Inr t \<and> ms_entries t = es \<and> ms_aggregate t = a)"
    by (auto simp: parse_manifest_def rbind_Inr_iff)
  also have "\<dots> \<longleftrightarrow> ?R"
  proof
    assume "\<exists>t. parse_manifest_loop l ?s = Inr t \<and> ms_entries t = es \<and> ms_aggregate t = a"
    then obtain t where "parse_manifest_loop l ?s = Inr t" "ms_entries t = es" "ms_aggregate t = a" by blast
    with parse_manifest_loopD [of l ?s t] show ?R
      by (auto simp: fold_adv_sel)
         (metis (no_types, lifting) manifest_ok_ignores_reader manifest_state.update_convs(1))+
  next
    assume ?R
    then show "\<exists>t. parse_manifest_loop l ?s = Inr t \<and> ms_entries t = es \<and> ms_aggregate t = a"
      using parse_manifest_loopI [OF assms, of ?s es] manifest_ok_ignores_reader [of l p manifest_start es]
      by (simp add: fold_adv_sel)
  qed
  finally show ?thesis .
qed

text \<open>The same conditions as the encoder checks them, one property of the list at a time.\<close>

fun parents_ok :: "(bytes, entry_kind) pydict \<Rightarrow> manifest_entry list \<Rightarrow> bool" where
  "parents_ok present [] \<longleftrightarrow> True"
| "parents_ok present (e # es) \<longleftrightarrow>
     valid_parents present (raw_path e) \<and> parents_ok (dset present (raw_path e) (kind e)) es"

fun ascending :: "bytes option \<Rightarrow> bytes list \<Rightarrow> bool" where
  "ascending prev [] \<longleftrightarrow> True"
| "ascending prev (p # ps) \<longleftrightarrow> (\<forall>q. prev = Some q \<longrightarrow> q < p) \<and> ascending (Some p) ps"

fun aggregates_ok :: "artifact_limits \<Rightarrow> int \<Rightarrow> manifest_entry list \<Rightarrow> bool" where
  "aggregates_ok l a [] \<longleftrightarrow> True"
| "aggregates_ok l a (e # es) \<longleftrightarrow>
     (kind e \<noteq> Directory \<longrightarrow> a + len (content e) \<le> max_aggregate_content_bytes l)
     \<and> aggregates_ok l (if kind e \<noteq> Directory then a + len (content e) else a) es"

lemma manifest_ok_iff:
  "manifest_ok l s es \<longleftrightarrow>
     (es \<noteq> [] \<longrightarrow> len (ms_entries s) + len es \<le> max_manifest_entries l)
     \<and> (\<forall>e \<in> set es. valid_shape l e) \<and> ascending (ms_previous s) (map raw_path es)
     \<and> parents_ok (ms_present s) es \<and> aggregates_ok l (ms_aggregate s) es"
  by (induction es arbitrary: s) (auto simp: entry_ok_def adv_def advance_def)

lemma ascending_iff: "ascending prev ps \<longleftrightarrow> (\<forall>q. prev = Some q \<longrightarrow> (\<forall>p \<in> set ps. q < p)) \<and> sorted_wrt (<) ps"
  by (induction ps arbitrary: prev) (auto dest: order.strict_trans)

lemma check_manifest_order_Inr:
  "check_manifest_order es present = Inr u \<longleftrightarrow>
     parents_ok present es \<and> distinct (map raw_path es) \<and> (\<forall>e \<in> set es. dget present (raw_path e) = None)"
  by (induction es arbitrary: present)
     (auto simp: result_simps validator_iffs split: if_splits, metis imageI)

lemma aggregate_content_Cons:
  "aggregate_content (e # es) = (if kind e \<noteq> Directory then len (content e) else 0) + aggregate_content es"
  by (simp add: aggregate_content_def)

lemma aggregate_content_nonneg: "0 \<le> aggregate_content es"
  by (induction es) (simp_all add: aggregate_content_def)

lemma aggregates_okI: "a + aggregate_content es \<le> max_aggregate_content_bytes l \<Longrightarrow> aggregates_ok l a es"
proof (induction es arbitrary: a)
  case (Cons e es)
  then show ?case using aggregate_content_nonneg [of es] by (auto simp: aggregate_content_Cons algebra_simps)
qed simp

lemma build_manifest_payload_Inr:
  "build_manifest_payload es = Inr p \<longleftrightarrow>
     (\<forall>e \<in> set es. len (derived_parent (raw_path e)) < 4294967296 \<and> len (raw_path e) < 4294967296
        \<and> len (content e) < 4294967296) \<and> p = concat (map entry_bytes es)"
  by (induction es arbitrary: p)
     (auto simp: rbind_Inr_iff u32_bytes_Inr kind_codes_index entry_bytes_def be_bytes_1 simp del: One_nat_def)

subsection \<open>The control section\<close>

definition format_code :: "string \<Rightarrow> int" where
  "format_code fmt = (if fmt = ''sha1'' then 1 else 2)"

definition oid_size_of :: "string \<Rightarrow> int" where
  "oid_size_of fmt = (if fmt = ''sha1'' then 20 else 32)"

definition head_code :: "string \<Rightarrow> int" where
  "head_code hs = (if hs = ''unborn'' then 0 else if hs = ''detached'' then 1 else 2)"

lemma format_names_Some:
  "dget format_names c = Some fmt \<longleftrightarrow> fmt \<in> {''sha1'', ''sha256''} \<and> c = format_code fmt"
  by (auto simp: format_names_def format_codes_def format_code_def)

lemma head_state_names_Some:
  "dget head_state_names c = Some hs \<longleftrightarrow> hs \<in> {''unborn'', ''detached'', ''symbolic''} \<and> c = head_code hs"
  by (auto simp: head_state_names_def head_state_codes_def head_code_def)

lemma format_codes_Some: "dget format_codes fmt = Some c \<longleftrightarrow> fmt \<in> {''sha1'', ''sha256''} \<and> c = format_code fmt"
  by (auto simp: format_codes_def format_code_def)

lemma format_oid_sizes_Some:
  "dget format_oid_sizes fmt = Some c \<longleftrightarrow> fmt \<in> {''sha1'', ''sha256''} \<and> c = oid_size_of fmt"
  by (auto simp: format_oid_sizes_def oid_size_of_def)

lemma head_state_codes_Some:
  "dget head_state_codes hs = Some c \<longleftrightarrow> hs \<in> {''unborn'', ''detached'', ''symbolic''} \<and> c = head_code hs"
  by (auto simp: head_state_codes_def head_code_def)

lemma dict_index_Inr: "dict_index d k = Inr v \<longleftrightarrow> dget d k = Some v"
  by (auto simp: dict_index_def split: option.splits)

lemmas table_iffs = dict_index_Inr format_codes_Some format_names_Some format_oid_sizes_Some
  head_state_codes_Some head_state_names_Some

definition policy_bytes :: "bytes option \<Rightarrow> bytes" where
  "policy_bytes pd = (case pd of None \<Rightarrow> be_bytes 1 0 | Some d \<Rightarrow> be_bytes 1 1 @ d)"

definition control_bytes :: "control_fields \<Rightarrow> bytes" where
  "control_bytes c =
     be_bytes 1 (format_code (cf_object_format c)) @ be_bytes 1 (if cf_has_index c then 1 else 0)
     @ be_bytes 1 (head_code (cf_head_state c)) @ be_bytes 1 0
     @ be_bytes 4 (len (cf_head_target c)) @ cf_head_target c @ cf_head_oid c
     @ be_bytes 4 (cf_entry_count c) @ be_bytes 4 (cf_root_count c) @ be_bytes 8 (cf_aggregate c)
     @ policy_bytes (cf_policy_digest c)"

definition head_ok :: "artifact_limits \<Rightarrow> string \<Rightarrow> string \<Rightarrow> bytes \<Rightarrow> bytes \<Rightarrow> bool" where
  "head_ok l fmt hs target oid \<longleftrightarrow>
     fmt \<in> {''sha1'', ''sha256''} \<and> hs \<in> {''unborn'', ''detached'', ''symbolic''}
     \<and> (if hs = ''unborn'' then oid = [] else len oid = oid_size_of fmt \<and> (\<exists>b \<in> set oid. b \<noteq> 0))
     \<and> (if hs = ''detached'' then target = [] else valid_head_target l target)"

definition control_ok :: "artifact_limits \<Rightarrow> control_fields \<Rightarrow> bool" where
  "control_ok l c \<longleftrightarrow>
     head_ok l (cf_object_format c) (cf_head_state c) (cf_head_target c) (cf_head_oid c)
     \<and> (\<forall>d. cf_policy_digest c = Some d \<longrightarrow> length d = 32)
     \<and> 0 \<le> cf_entry_count c \<and> cf_entry_count c \<le> max_manifest_entries l
     \<and> 0 \<le> cf_root_count c \<and> cf_root_count c \<le> max_roots l
     \<and> 0 \<le> cf_aggregate c \<and> cf_aggregate c \<le> max_aggregate_content_bytes l"

lemma valid_head_targetD:
  "valid_head_target l t \<Longrightarrow> len t \<le> max_path_bytes l \<and> t \<noteq> []"
  by (auto simp: valid_head_target_def is_ok_iff validate_symbolic_head_target_def Let_def result_simps
      starts_with_def bytes_of_def)

lemma code_ranges:
  "0 \<le> format_code f" "format_code f < 256" "0 \<le> head_code h" "head_code h < 256"
  by (simp_all add: format_code_def head_code_def)

lemma oid_size_pos: "0 < oid_size_of fmt"
  by (simp add: oid_size_of_def)

lemma head_oid_read:
  "(if hs = ''unborn'' then Inr ([], rd) else reader_take (oid_size_of fmt) lbl rd) = Inr (oid, r) \<longleftrightarrow>
     rd = oid @ r \<and> (if hs = ''unborn'' then oid = [] else len oid = oid_size_of fmt)"
  by (auto simp: reader_take_Inr oid_size_of_def)

lemma policy_read:
  "(if pc \<noteq> 0 then rbind (reader_take 32 lbl rd) (\<lambda>(d, r12). Inr (Some d, r12)) else Inr (None, rd)) = Inr (pd, r) \<longleftrightarrow>
     (case pd of None \<Rightarrow> pc = 0 \<and> rd = r | Some d \<Rightarrow> pc \<noteq> 0 \<and> length d = 32 \<and> rd = d @ r)"
  by (cases pd) (auto simp: reader_take_Inr rbind_Inr_iff)

lemma target_check:
  "(if hs = h then validate_symbolic_head_target t l err else Inr ()) = Inr () \<longleftrightarrow>
     (hs = h \<longrightarrow> valid_head_target l t)"
  by (simp add: validator_iffs)

lemma unborn_check:
  "(if hs = ''unborn'' then rbind (raise_if (oid \<noteq> [] \<or> t = []) e) (\<lambda>_. validate_symbolic_head_target t l err)
    else Inr ()) = Inr () \<longleftrightarrow> (hs = ''unborn'' \<longrightarrow> oid = [] \<and> t \<noteq> [] \<and> valid_head_target l t)"
  by (simp add: validator_iffs result_simps)

lemma parse_controlD:
  assumes "parse_control p l = Inr c"
  shows "p = control_bytes c \<and> control_ok l c"
proof -
  from assms obtain fmt ic hs target oid ec rc ag pc r pd where
    rd: "p = be_bytes 1 (format_code fmt) @ be_bytes 1 ic @ be_bytes 1 (head_code hs) @ be_bytes 1 0
       @ be_bytes 4 (len target) @ target @ oid @ be_bytes 4 ec @ be_bytes 4 rc @ be_bytes 8 ag
       @ be_bytes 1 pc @ r"
    and pol: "pc = 0 \<or> pc = 1"
      "case pd of None \<Rightarrow> pc = 0 \<and> r = [] | Some d \<Rightarrow> pc \<noteq> 0 \<and> length d = 32 \<and> r = d @ []"
    and c: "c = \<lparr> cf_object_format = fmt, cf_has_index = (ic \<noteq> 0), cf_head_state = hs,
           cf_head_target = target, cf_head_oid = oid, cf_policy_digest = pd,
           cf_entry_count = ec, cf_root_count = rc, cf_aggregate = ag \<rparr>"
    and ic: "ic = 0 \<or> ic = 1"
    and hd: "fmt = ''sha1'' \<or> fmt = ''sha256''" "hs = ''unborn'' \<or> hs = ''detached'' \<or> hs = ''symbolic''"
      "if hs = ''unborn'' then oid = [] else len oid = oid_size_of fmt"
      "hs = ''unborn'' \<longrightarrow> oid = [] \<and> target \<noteq> [] \<and> valid_head_target l target"
      "hs = ''detached'' \<longrightarrow> target = []" "hs = ''symbolic'' \<longrightarrow> valid_head_target l target"
      "oid = [] \<or> list_ex (\<lambda>b. b \<noteq> 0) oid"
    and rest: "0 \<le> ec" "ec \<le> max_manifest_entries l" "0 \<le> rc" "rc \<le> max_roots l"
      "0 \<le> ag" "ag \<le> max_aggregate_content_bytes l"
    unfolding parse_control_def
    by (clarsimp simp: result_simps field_iffs head_oid_read policy_read target_check unborn_check table_iffs
       Let_def not_le not_less split del: if_split option.split simp del: One_nat_def append_Nil2)
  have "p = control_bytes c"
    using rd pol c ic by (cases pd) (auto simp: control_bytes_def policy_bytes_def)
  moreover have "head_ok l fmt hs target oid"
    using hd(1,2) unfolding head_ok_def
    by (elim disjE; use hd oid_size_pos [of fmt] in \<open>force simp: list_ex_iff\<close>)
  ultimately show ?thesis using c pol rest by (auto simp: control_ok_def split: option.splits)
qed

lemma parse_controlI:
  assumes l: "limits_ok l" and ok: "control_ok l c"
  shows "parse_control (control_bytes c) l = Inr c"
proof -
  note lim = limits_okD [OF l]
  obtain fmt hi hs target oid pd ec rc ag where c: "c = \<lparr> cf_object_format = fmt, cf_has_index = hi,
      cf_head_state = hs, cf_head_target = target, cf_head_oid = oid, cf_policy_digest = pd,
      cf_entry_count = ec, cf_root_count = rc, cf_aggregate = ag \<rparr>"
    by (cases c)
  have hd: "head_ok l fmt hs target oid" using ok by (simp add: c control_ok_def)
  have names: "dget format_names (format_code fmt) = Some fmt" "dget head_state_names (head_code hs) = Some hs"
    "dict_index format_oid_sizes fmt = Inr (oid_size_of fmt)"
    using hd by (simp_all add: table_iffs head_ok_def)
  have tgt: "len target \<le> max_path_bytes l"
    using hd l valid_head_targetD [of l target]
    by (auto simp: head_ok_def limits_ok_def is_ok_iff limits_post_init_def limit_bounds_def result_simps
        split: if_splits)
  then have t32: "len target < 4294967296" using lim by linarith
  have bounds: "ec < 4294967296" "rc < 4294967296" "ag < 18446744073709551616"
    using ok lim by (simp_all add: c control_ok_def)
  have oidr: "(if hs = ''unborn'' then Inr ([], oid @ r) else reader_take (oid_size_of fmt) lbl (oid @ r)) = Inr (oid, r)" for r lbl
    using hd by (auto simp: head_oid_read head_ok_def)
  have tc: "(if hs = ''symbolic'' then validate_symbolic_head_target target l err else Inr ()) = Inr ()"
    "(if hs = ''unborn'' then rbind (raise_if (oid \<noteq> [] \<or> target = []) e) (\<lambda>_. validate_symbolic_head_target target l err)
      else Inr ()) = Inr ()" "\<not> (hs = ''detached'' \<and> target \<noteq> [])" "oid \<noteq> [] \<longrightarrow> list_ex (\<lambda>b. b \<noteq> 0) oid" for err e
    using hd valid_head_targetD [of l target] unfolding target_check unborn_check
    by (auto simp: head_ok_def list_ex_iff split: if_splits)
  have pr: "\<exists>pc. 0 \<le> pc \<and> pc < 256 \<and> pc \<in> {0, 1} \<and> (\<exists>r. policy_bytes pd = be_bytes 1 pc @ r \<and>
      (\<forall>lbl. (if pc \<noteq> 0 then rbind (reader_take 32 lbl r) (\<lambda>(d, r12). Inr (Some d, r12)) else Inr (None, r)) = Inr (pd, [])))"
  proof (cases pd)
    case None
    then show ?thesis by (auto simp: policy_bytes_def)
  next
    case (Some d)
    then have "length d = 32" using ok by (simp add: c control_ok_def)
    then show ?thesis using Some
      by (intro exI [of _ 1]) (auto simp: policy_bytes_def reader_take_def)
  qed
  then obtain pc r where pc: "0 \<le> pc" "pc < 256" "pc \<in> {0, 1}" and pb: "policy_bytes pd = be_bytes 1 pc @ r"
    and pread: "\<And>lbl. (if pc \<noteq> 0 then rbind (reader_take 32 lbl r) (\<lambda>(d, r12). Inr (Some d, r12)) else Inr (None, r)) = Inr (pd, [])"
    by blast
  obtain ic :: int where ic: "(if hi then 1 else 0) = ic" "0 \<le> ic" "ic < 256" "ic \<in> {0, 1}" "(ic \<noteq> 0) = hi"
    by (cases hi) auto
  show ?thesis
    using ok lim tgt t32 bounds names code_ranges tc pc oidr pread ic(2-) unfolding parse_control_def control_bytes_def
    by (simp add: c pb ic(1) u8.get_put u32.get_put u64.get_put reader_take_len control_ok_def
        del: One_nat_def split del: if_split) (use ic pc tc(3,4) in \<open>auto simp: rbind_Inr_iff\<close>)
qed

subsection \<open>The envelope\<close>

definition section_bytes :: "(bytes \<Rightarrow> bytes) \<Rightarrow> int \<Rightarrow> bytes \<Rightarrow> bytes" where
  "section_bytes sha256 i p = be_bytes 4 i @ be_bytes 8 (len p) @ sha256 p @ p"

fun sections_bytes :: "(bytes \<Rightarrow> bytes) \<Rightarrow> int \<Rightarrow> bytes list \<Rightarrow> bytes" where
  "sections_bytes sha256 i [] = []"
| "sections_bytes sha256 i (p # ps) = section_bytes sha256 i p @ sections_bytes sha256 (i + 1) ps"

lemma slice_0: "slice xs 0 b = take (nat b) xs"
  by (simp add: slice_def)

lemma split3:
  assumes "44 \<le> length view"
  obtains a b c rest where "view = a @ b @ c @ rest" "length a = 4" "length b = 8" "length c = 32"
proof (rule that)
  have "take 44 view = take 4 view @ take 8 (drop 4 view) @ take 32 (drop 12 view)"
    using take_add [of 4 40 view] take_add [of 8 32 "drop 4 view"] by simp
  then show "view = take 4 view @ take 8 (drop 4 view) @ take 32 (drop 12 view) @ drop 44 view"
    using append_take_drop_id [of 44 view] by simp
qed (use assms in auto)

lemma append_eq_split: "length a = length a' \<Longrightarrow> a @ x = a' @ y \<longleftrightarrow> a = a' \<and> x = y"
  by simp

lemma parse_sections_from_Inr:
  assumes sha: "\<And>x. length (sha256 x) = 32"
  shows "1 \<le> i \<Longrightarrow> i + len bounds \<le> 5 \<Longrightarrow> \<forall>b \<in> set bounds. b < 18446744073709551616 \<Longrightarrow>
    parse_sections_from sha256 i bounds view = Inr (ds, ps) \<longleftrightarrow>
      view = sections_bytes sha256 i ps \<and> ds = map sha256 ps \<and> list_all2 (\<lambda>p b. len p \<le> b) ps bounds"
proof (induction bounds arbitrary: i view ds ps)
  case Nil
  then show ?case by (auto simp: rbind_Inr_iff)
next
  case (Cons b bs)
  show ?case
  proof (cases "len view < 44")
    case True
    then show ?thesis
      by (auto simp: rbind_Inr_iff SECTION_HEADER_LEN_def list_all2_Cons2 section_bytes_def sha)
  next
    case False
    then have "44 \<le> length view" by simp
    then obtain u v w rest where view: "view = u @ v @ w @ rest"
      and ln: "length u = 4" "length v = 8" "length w = 32" by (rule split3)
    let ?n = "int_from_bytes v"
    have n0: "0 \<le> ?n" using int_from_bytes_bounds [of v] by simp
    have hdr: "slice view 0 4 = u" "slice view 4 12 = v" "slice view 12 44 = w" "drop 44 view = rest"
      by (simp_all add: view slice_def ln)
    have ueq: "u = be_bytes 4 i \<longleftrightarrow> int_from_bytes u = i"
      using Cons.prems ln by (intro be_bytes_eq_iff) simp_all
    have IH: "parse_sections_from sha256 (i + 1) bs r = Inr (ds', ps') \<longleftrightarrow>
        r = sections_bytes sha256 (i + 1) ps' \<and> ds' = map sha256 ps' \<and> list_all2 (\<lambda>p b. len p \<le> b) ps' bs" for r ds' ps'
      using Cons.prems by (intro Cons.IH) auto
    have lhs: "parse_sections_from sha256 i (b # bs) view = Inr (ds, ps) \<longleftrightarrow>
       int_from_bytes u = i \<and> ?n \<le> b \<and> ?n \<le> len rest \<and> sha256 (take (nat ?n) rest) = w \<and>
       (\<exists>ds' ps'. drop (nat ?n) rest = sections_bytes sha256 (i + 1) ps' \<and> ds' = map sha256 ps'
          \<and> list_all2 (\<lambda>p b. len p \<le> b) ps' bs \<and> ds = w # ds' \<and> ps = take (nat ?n) rest # ps')"
      using False Cons.prems IH
      by (auto simp: rbind_Inr_iff SECTION_HEADER_LEN_def Let_def hdr)
    have "view = sections_bytes sha256 i (p # ps') \<longleftrightarrow>
       u = be_bytes 4 i \<and> v = be_bytes 8 (len p) \<and> w = sha256 p \<and> rest = p @ sections_bytes sha256 (i + 1) ps'" for p ps'
      by (simp add: view section_bytes_def ln sha)
    moreover have "len p \<le> b \<Longrightarrow> v = be_bytes 8 (len p) \<longleftrightarrow> ?n = len p" for p :: bytes
      using Cons.prems ln by (intro be_bytes_eq_iff) auto
    ultimately have rhs: "view = sections_bytes sha256 i (p # ps') \<and> len p \<le> b \<longleftrightarrow>
       int_from_bytes u = i \<and> ?n = len p \<and> len p \<le> b \<and> w = sha256 p \<and> rest = p @ sections_bytes sha256 (i + 1) ps'" for p ps'
      using ueq by auto
    show ?thesis unfolding lhs
    proof (intro iffI; elim conjE exE)
      fix ds' ps'
      assume a: "int_from_bytes u = i" "?n \<le> b" "?n \<le> len rest" "sha256 (take (nat ?n) rest) = w"
        "drop (nat ?n) rest = sections_bytes sha256 (i + 1) ps'" "ds' = map sha256 ps'"
        "list_all2 (\<lambda>p b. len p \<le> b) ps' bs" "ds = w # ds'" "ps = take (nat ?n) rest # ps'"
      have ln: "len (take (nat ?n) rest) = ?n" using a(3) n0 by simp
      have "rest = take (nat ?n) rest @ sections_bytes sha256 (i + 1) ps'"
        using a(5) append_take_drop_id [of "nat ?n" rest] by simp
      then have "view = sections_bytes sha256 i (take (nat ?n) rest # ps') \<and> len (take (nat ?n) rest) \<le> b"
        using a ln rhs [of "take (nat ?n) rest" ps'] by metis
      then show "view = sections_bytes sha256 i ps \<and> ds = map sha256 ps \<and> list_all2 (\<lambda>p b. len p \<le> b) ps (b # bs)"
        using a by (simp del: sections_bytes.simps)
    next
      assume b: "view = sections_bytes sha256 i ps" "ds = map sha256 ps" "list_all2 (\<lambda>p b. len p \<le> b) ps (b # bs)"
      then obtain p ps' where p: "ps = p # ps'" "len p \<le> b" "list_all2 (\<lambda>p b. len p \<le> b) ps' bs"
        by (auto simp: list_all2_Cons2)
      have r: "int_from_bytes u = i" "?n = len p" "w = sha256 p" "rest = p @ sections_bytes sha256 (i + 1) ps'"
        using rhs [of p ps'] b(1) p by simp_all
      then show "int_from_bytes u = i \<and> ?n \<le> b \<and> ?n \<le> len rest \<and> sha256 (take (nat ?n) rest) = w \<and>
         (\<exists>ds' ps'. drop (nat ?n) rest = sections_bytes sha256 (i + 1) ps' \<and> ds' = map sha256 ps'
          \<and> list_all2 (\<lambda>p b. len p \<le> b) ps' bs \<and> ds = w # ds' \<and> ps = take (nat ?n) rest # ps')"
        using b p by simp
    qed
  qed
qed

lemma frame_sections_Inr:
  "frame_sections sha256 [(1, c), (2, x), (3, m), (4, r)] = Inr body \<longleftrightarrow>
     (\<forall>p \<in> {c, x, m, r}. len p < 18446744073709551616) \<and> body = sections_bytes sha256 1 [c, x, m, r]"
  by (auto simp: rbind_Inr_iff u32_bytes_Inr u64_bytes_Inr section_bytes_def)

definition header_bytes :: bytes where
  "header_bytes = MAGIC @ be_bytes 4 1 @ be_bytes 4 1 @ be_bytes 4 4"

lemma length_MAGIC [simp]: "length MAGIC = 8"
  by (simp add: MAGIC_def bytes_of_def)

lemma length_header_bytes [simp]: "length header_bytes = 20"
  by (simp add: header_bytes_def)

lemma frame_envelope_Inr:
  "frame_envelope sha256 [(1, c), (2, x), (3, m), (4, r)] = Inr data \<longleftrightarrow>
     (\<forall>p \<in> {c, x, m, r}. len p < 18446744073709551616) \<and> data = header_bytes @ sections_bytes sha256 1 [c, x, m, r]"
  by (auto simp: frame_envelope_def rbind_Inr_iff u32_bytes_Inr frame_sections_Inr header_bytes_def
      simp del: frame_sections.simps sections_bytes.simps)

lemma header_check:
  "len data \<ge> 20 \<and> slice data 0 8 = MAGIC \<and> int_from_bytes (slice data 8 12) = 1
     \<and> int_from_bytes (slice data 12 16) = 1 \<and> int_from_bytes (slice data 16 20) = 4 \<longleftrightarrow>
   data = header_bytes @ drop 20 data" (is "?L \<longleftrightarrow> ?R")
proof
  assume ?L
  have "take 20 data = take 8 data @ take 4 (drop 8 data) @ take 4 (drop 12 data) @ take 4 (drop 16 data)"
    using take_add [of 8 12 data] take_add [of 4 8 "drop 8 data"] take_add [of 4 4 "drop 12 data"] by simp
  moreover have "take 4 (drop 8 data) = be_bytes 4 1" "take 4 (drop 12 data) = be_bytes 4 1" "take 4 (drop 16 data) = be_bytes 4 4"
    using \<open>?L\<close> by (subst be_bytes_eq_iff; simp add: slice_def)+
  ultimately have "take 20 data = header_bytes"
    using \<open>?L\<close> by (simp add: header_bytes_def slice_def)
  then show ?R using append_take_drop_id [of 20 data] by simp
next
  assume ?R
  then obtain rest where d: "data = MAGIC @ be_bytes 4 1 @ be_bytes 4 1 @ be_bytes 4 4 @ rest"
    by (metis append_assoc header_bytes_def)
  show ?L by (simp add: d slice_def int_from_be_bytes)
qed

subsection \<open>Roots\<close>

lemma chunks_concat: "0 < n \<Longrightarrow> \<forall>r \<in> set rs. length r = n \<Longrightarrow> chunks n (concat rs) = rs"
proof (induction rs)
  case (Cons r rs)
  then show ?case by (subst chunks.simps) auto
qed (simp add: chunks.simps)

lemma concat_chunks: "0 < n \<Longrightarrow> concat (chunks n xs) = xs"
proof (induction n xs rule: chunks.induct)
  case (1 n xs)
  then show ?case by (subst chunks.simps) simp
qed

lemma chunks_lengths: "0 < n \<Longrightarrow> length xs = k * n \<Longrightarrow> (\<forall>r \<in> set (chunks n xs). length r = n) \<and> length (chunks n xs) = k"
proof (induction k arbitrary: xs)
  case 0
  then show ?case by (simp add: chunks.simps)
next
  case (Suc k)
  then have "xs \<noteq> []" "n \<le> length xs" "length (drop n xs) = k * n" by auto
  moreover from this Suc.prems have "chunks n xs = take n xs # chunks n (drop n xs)"
    by (subst chunks.simps) simp
  ultimately show ?case using Suc.IH [of "drop n xs"] Suc.prems by simp
qed

lemma expected_roots_sorted:
  "sort (remdups (expected_roots oid ies)) = expected_roots oid ies" "distinct (expected_roots oid ies)"
  by (simp_all add: expected_roots_def sorted_sort_id)

end
