(* ===== verification/Worktree_Artifact_Roundtrip.thy ===== *)
theory Worktree_Artifact_Roundtrip
  imports Worktree_Artifact_Parsers
begin

section \<open>Correctness of the worktree artifact codec\<close>

text \<open>
  The decoder accepts exactly the bytes of the snapshots that satisfy \<open>snapshot_ok\<close>, and
  the encoder produces exactly those bytes. The two round trips of the codec (what is
  encoded decodes to the snapshot, what is decoded re-encodes to the same bytes) are
  corollaries.
\<close>

subsection \<open>Snapshots and their bytes\<close>

definition control_of :: "verified_artifact \<Rightarrow> control_fields" where
  "control_of v =
     \<lparr> cf_object_format = va_object_format v, cf_has_index = (va_index_bytes v \<noteq> None),
       cf_head_state = va_head_state v, cf_head_target = va_head_target v, cf_head_oid = va_head_oid v,
       cf_policy_digest = va_policy_digest v, cf_entry_count = len (va_entries v),
       cf_root_count = len (va_root_oids v), cf_aggregate = aggregate_content (va_entries v) \<rparr>"

definition payloads_of :: "verified_artifact \<Rightarrow> bytes list" where
  "payloads_of v =
     [control_bytes (control_of v), (case va_index_bytes v of None \<Rightarrow> [] | Some x \<Rightarrow> x),
      concat (map entry_bytes (va_entries v)), concat (va_root_oids v)]"

definition artifact_bytes :: "(bytes \<Rightarrow> bytes) \<Rightarrow> verified_artifact \<Rightarrow> bytes" where
  "artifact_bytes sha256 v = header_bytes @ sections_bytes sha256 1 (payloads_of v)"

definition section_limits :: "artifact_limits \<Rightarrow> int list" where
  "section_limits l = [max_control_bytes l, max_index_bytes l, max_manifest_bytes l, max_roots_bytes l]"

definition index_ok :: "(string \<Rightarrow> bytes \<Rightarrow> bytes) \<Rightarrow> artifact_limits \<Rightarrow> verified_artifact \<Rightarrow> bool" where
  "index_ok hash_new l v \<longleftrightarrow>
     (case va_index_bytes v of
        None \<Rightarrow> va_index_entries v = []
      | Some x \<Rightarrow> len x \<le> max_exact_index_bytes l
          \<and> parse_index hash_new x (va_object_format v) l WorktreeArtifactDecodeError = Inr (va_index_entries v))"

definition snapshot_ok :: "(string \<Rightarrow> bytes \<Rightarrow> bytes) \<Rightarrow> artifact_limits \<Rightarrow> verified_artifact \<Rightarrow> bool" where
  "snapshot_ok hash_new l v \<longleftrightarrow>
     control_ok l (control_of v) \<and> list_all2 (\<lambda>p b. len p \<le> b) (payloads_of v) (section_limits l)
     \<and> index_ok hash_new l v \<and> manifest_ok l manifest_start (va_entries v)
     \<and> (list_ex allowed_ignored (va_entries v) \<longrightarrow> va_policy_digest v \<noteq> None)
     \<and> va_root_oids v = expected_roots (va_head_oid v) (va_index_entries v)
     \<and> (\<forall>r \<in> set (va_root_oids v). len r = oid_size_of (va_object_format v) \<and> list_ex (\<lambda>b. b \<noteq> 0) r)
     \<and> va_has_index v = (va_index_bytes v \<noteq> None)"

definition source_state :: "(bytes \<Rightarrow> bytes) \<Rightarrow> verified_artifact \<Rightarrow> bytes" where
  "source_state sha256 v = sha256 (SOURCE_DOMAIN @ [0] @ concat (map sha256 (payloads_of v)))"

subsection \<open>What the decoder accepts\<close>

lemma parse_sections_Inr:
  assumes sha: "\<And>x. length (sha256 x) = 32" and l: "limits_ok l"
  shows "parse_sections sha256 data l = Inr (ds, ps) \<longleftrightarrow>
    drop 20 data = sections_bytes sha256 1 ps \<and> ds = map sha256 ps
    \<and> list_all2 (\<lambda>p b. len p \<le> b) ps (section_limits l)"
proof -
  have "parse_sections sha256 data l = parse_sections_from sha256 1 (section_limits l) (drop 20 data)"
    by (simp only: parse_sections_def section_limits_def ENVELOPE_HEADER_LEN_def nat_numeral)
  moreover have "1 + len (section_limits l) \<le> 5" "\<forall>b \<in> set (section_limits l). b < 18446744073709551616"
    using limits_okD [OF l] by (simp_all add: section_limits_def)
  ultimately show ?thesis using parse_sections_from_Inr [OF sha] by simp
qed

lemma list_all2_4: "list_all2 P ps [a, b, c, d] \<longleftrightarrow>
    (\<exists>p q r s. ps = [p, q, r, s] \<and> P p a \<and> P q b \<and> P r c \<and> P s d)"
  by (auto simp: list_all2_Cons2)

lemma compute_source_state_map:
  assumes "\<And>x. length (sha256 x) = 32"
  shows "compute_source_state_sha256 sha256 (map sha256 ps) = Inr (sha256 (SOURCE_DOMAIN @ [0] @ concat (map sha256 ps)))"
  by (simp add: compute_source_state_sha256_def assms list_ex_iff rbind_Inr_iff)

lemma roots_check:
  assumes n: "n = oid_size_of fmt"
  shows "len p = k * n \<and> roots = chunks (nat n) p \<and> \<not> (sort (remdups roots) \<noteq> roots \<or> list_ex (\<lambda>r. \<not> list_ex (\<lambda>b. b \<noteq> 0) r) roots)
      \<and> roots = expected_roots oid ies \<longleftrightarrow>
    p = concat roots \<and> k = len roots \<and> roots = expected_roots oid ies
      \<and> (\<forall>r \<in> set roots. len r = n \<and> list_ex (\<lambda>b. b \<noteq> 0) r)" (is "?L \<longleftrightarrow> ?R")
proof -
  have n0: "0 < n" by (simp add: n oid_size_pos)
  then have nn: "0 < nat n" "int (nat n) = n" by simp_all
  show ?thesis
  proof
    assume L: ?L
    have "0 \<le> k * n" using L by (metis of_nat_0_le_iff)
    then have k: "0 \<le> k" using n0 by (simp add: zero_le_mult_iff)
    then have "len p = int (nat k * nat n)" using L n0 by simp
    then have "length p = nat k * nat n" by linarith
    from chunks_lengths [OF nn(1) this] have "\<forall>r \<in> set roots. length r = nat n" "length roots = nat k"
      using L by simp_all
    then show ?R using L concat_chunks [OF nn(1), of p] k nn(2) by (auto simp: list_ex_iff)
  next
    assume R: ?R
    then have "\<forall>r \<in> set roots. length r = nat n" using nn(2) by (metis nat_int)
    moreover from this have "length (concat roots) = length roots * nat n"
      by (induction roots) auto
    ultimately show ?L using R chunks_concat [OF nn(1), of roots] nn(2) expected_roots_sorted [of oid ies]
      by (auto simp: list_ex_iff)
  qed
qed



lemma decode_stages:
  "decode_worktree_artifact sha256 hash_new data l = Inr v \<longleftrightarrow>
    len data \<le> max_total_bytes l
    \<and> (20 \<le> len data \<and> slice data 0 8 = MAGIC \<and> int_from_bytes (slice data 8 12) = 1
       \<and> int_from_bytes (slice data 12 16) = 1 \<and> int_from_bytes (slice data 16 20) = 4)
    \<and> (\<exists>ds ps. parse_sections sha256 data l = Inr (ds, ps)
    \<and> (\<exists>c. parse_control (ps ! 0) l = Inr c
      \<and> \<not> (\<not> cf_has_index c \<and> ps ! 1 \<noteq> []) \<and> \<not> (cf_has_index c \<and> max_exact_index_bytes l < len (ps ! 1))
    \<and> (\<exists>ies. (case if cf_has_index c then Some (ps ! 1) else None of None \<Rightarrow> Inr []
        | Some x \<Rightarrow> parse_index hash_new x (cf_object_format c) l WorktreeArtifactDecodeError) = Inr ies
    \<and> (\<exists>es fa. parse_manifest (ps ! 2) l = Inr (es, fa) \<and> \<not> (list_ex allowed_ignored es \<and> cf_policy_digest c = None)
      \<and> len es = cf_entry_count c \<and> fa = cf_aggregate c
    \<and> (\<exists>n. dict_index format_oid_sizes (cf_object_format c) = Inr n
      \<and> len (ps ! 3) = cf_root_count c * n
      \<and> \<not> (sort (remdups (chunks (nat n) (ps ! 3))) \<noteq> chunks (nat n) (ps ! 3)
         \<or> list_ex (\<lambda>r. \<not> list_ex (\<lambda>b. b \<noteq> 0) r) (chunks (nat n) (ps ! 3)))
      \<and> chunks (nat n) (ps ! 3) = expected_roots (cf_head_oid c) ies
    \<and> (\<exists>src. compute_source_state_sha256 sha256 ds = Inr src
    \<and> \<lparr> va_object_format = cf_object_format c, va_has_index = cf_has_index c,
           va_index_bytes = (if cf_has_index c then Some (ps ! 1) else None),
           va_index_entries = ies, va_head_state = cf_head_state c,
           va_head_target = cf_head_target c, va_head_oid = cf_head_oid c,
           va_policy_digest = cf_policy_digest c, va_entries = es, va_root_oids = chunks (nat n) (ps ! 3),
           va_source_state_sha256 = src, va_total_bytes = len data \<rparr> = v))))))"
  unfolding decode_worktree_artifact_def
  by (simp only: rbind_Inr_iff raise_if_Inr Let_def split_paired_Ex prod.case not_less
      ENVELOPE_HEADER_LEN_def length_MAGIC ex_simps simp_thms sum.inject conj_assoc of_nat_numeral)

lemma decodeD:
  assumes sha: "\<And>x. length (sha256 x) = 32" and l: "limits_ok l"
    and dec: "decode_worktree_artifact sha256 hash_new data l = Inr v"
  shows "snapshot_ok hash_new l v \<and> data = artifact_bytes sha256 v \<and> len data \<le> max_total_bytes l
    \<and> va_source_state_sha256 v = source_state sha256 v \<and> va_total_bytes v = len data"
proof -
  from dec [unfolded decode_stages header_check] obtain ds ps c ies es fa n src where
    tot: "len data \<le> max_total_bytes l" and d: "data = header_bytes @ drop 20 data"
    and sec: "parse_sections sha256 data l = Inr (ds, ps)"
    and con: "parse_control (ps ! 0) l = Inr c"
    and idx: "\<not> (\<not> cf_has_index c \<and> ps ! 1 \<noteq> [])" "\<not> (cf_has_index c \<and> max_exact_index_bytes l < len (ps ! 1))"
      "(case if cf_has_index c then Some (ps ! 1) else None of None \<Rightarrow> Inr []
        | Some x \<Rightarrow> parse_index hash_new x (cf_object_format c) l WorktreeArtifactDecodeError) = Inr ies"
    and man: "parse_manifest (ps ! 2) l = Inr (es, fa)" "\<not> (list_ex allowed_ignored es \<and> cf_policy_digest c = None)"
      "len es = cf_entry_count c" "fa = cf_aggregate c"
    and n: "dict_index format_oid_sizes (cf_object_format c) = Inr n"
    and rts: "len (ps ! 3) = cf_root_count c * n"
      "\<not> (sort (remdups (chunks (nat n) (ps ! 3))) \<noteq> chunks (nat n) (ps ! 3)
         \<or> list_ex (\<lambda>r. \<not> list_ex (\<lambda>b. b \<noteq> 0) r) (chunks (nat n) (ps ! 3)))"
      "chunks (nat n) (ps ! 3) = expected_roots (cf_head_oid c) ies"
    and src: "compute_source_state_sha256 sha256 ds = Inr src"
    and v: "\<lparr> va_object_format = cf_object_format c, va_has_index = cf_has_index c,
           va_index_bytes = (if cf_has_index c then Some (ps ! 1) else None),
           va_index_entries = ies, va_head_state = cf_head_state c,
           va_head_target = cf_head_target c, va_head_oid = cf_head_oid c,
           va_policy_digest = cf_policy_digest c, va_entries = es, va_root_oids = chunks (nat n) (ps ! 3),
           va_source_state_sha256 = src, va_total_bytes = len data \<rparr> = v"
    by (elim exE conjE) (rule that)
  from sec [unfolded parse_sections_Inr [OF sha l]] obtain p x m r where ps: "ps = [p, x, m, r]"
    and sb: "drop 20 data = sections_bytes sha256 1 ps" and ds: "ds = map sha256 ps"
    and bnd: "list_all2 (\<lambda>p b. len p \<le> b) ps (section_limits l)"
    by (auto simp: section_limits_def list_all2_4 simp del: sections_bytes.simps)
  have vs: "va_object_format v = cf_object_format c" "va_has_index v = cf_has_index c"
    "va_index_bytes v = (if cf_has_index c then Some x else None)" "va_index_entries v = ies"
    "va_head_state v = cf_head_state c" "va_head_target v = cf_head_target c" "va_head_oid v = cf_head_oid c"
    "va_policy_digest v = cf_policy_digest c" "va_entries v = es" "va_root_oids v = chunks (nat n) r"
    "va_source_state_sha256 v = src" "va_total_bytes v = len data"
    by (simp_all add: v [symmetric] ps)
  have con': "p = control_bytes c" "control_ok l c" using parse_controlD [OF con] by (simp_all add: ps)
  have n': "n = oid_size_of (cf_object_format c)" using n by (simp add: table_iffs)
  have man': "m = concat (map entry_bytes es)" "fa = aggregate_content es" "manifest_ok l manifest_start es"
    using man(1) [unfolded parse_manifest_Inr [OF l]] by (simp_all add: ps)
  have rts': "r = concat (va_root_oids v)" "cf_root_count c = len (va_root_oids v)"
    "va_root_oids v = expected_roots (cf_head_oid c) ies" "\<forall>r \<in> set (va_root_oids v). len r = n \<and> list_ex (\<lambda>b. b \<noteq> 0) r"
    using roots_check [OF n', of "ps ! 3" "cf_root_count c" "va_root_oids v" "cf_head_oid c" ies] rts by (simp_all add: ps vs(10))
  have c: "control_of v = c"
    using man' man rts' vs by (cases c) (auto simp: control_of_def)
  have pay: "payloads_of v = ps"
    using idx(1) by (auto simp: payloads_of_def ps c con'(1) man'(1) rts'(1) [symmetric] vs(3,9))
  have "snapshot_ok hash_new l v"
    unfolding snapshot_ok_def pay c
    using con'(2) bnd man'(3) man(2) rts'(3,4) n' idx by (auto simp: index_ok_def vs(1-5,7-9) ps)
  moreover have "data = artifact_bytes sha256 v"
    using d sb by (simp add: artifact_bytes_def pay del: sections_bytes.simps)
  moreover have "src = source_state sha256 v"
    using src compute_source_state_map [OF sha, where ps = ps] by (simp add: source_state_def pay ds)
  ultimately show ?thesis using tot vs(11,12) by simp
qed

lemma decodeI:
  assumes sha: "\<And>x. length (sha256 x) = 32" and l: "limits_ok l" and ok: "snapshot_ok hash_new l v"
    and tot: "len (artifact_bytes sha256 v) \<le> max_total_bytes l"
  shows "decode_worktree_artifact sha256 hash_new (artifact_bytes sha256 v) l =
    Inr (v\<lparr>va_source_state_sha256 := source_state sha256 v, va_total_bytes := len (artifact_bytes sha256 v)\<rparr>)"
proof -
  let ?d = "artifact_bytes sha256 v" and ?ps = "payloads_of v" and ?c = "control_of v"
  let ?n = "oid_size_of (va_object_format v)"
  have hdr: "?d = header_bytes @ drop 20 ?d" and sb: "drop 20 ?d = sections_bytes sha256 1 ?ps"
    by (simp_all add: artifact_bytes_def del: sections_bytes.simps)
  have sec: "parse_sections sha256 ?d l = Inr (map sha256 ?ps, ?ps)"
    using ok by (simp add: parse_sections_Inr [OF sha l] sb snapshot_ok_def)
  have con: "parse_control (?ps ! 0) l = Inr ?c"
    using ok parse_controlI [OF l] by (simp add: payloads_of_def snapshot_ok_def)
  have x: "?ps ! 1 = (case va_index_bytes v of None \<Rightarrow> [] | Some x \<Rightarrow> x)" "cf_has_index ?c = (va_index_bytes v \<noteq> None)"
    by (simp_all add: payloads_of_def control_of_def)
  have iok: "index_ok hash_new l v" using ok by (simp add: snapshot_ok_def)
  have idx: "(case if cf_has_index ?c then Some (?ps ! 1) else None of None \<Rightarrow> Inr []
        | Some x \<Rightarrow> parse_index hash_new x (cf_object_format ?c) l WorktreeArtifactDecodeError) = Inr (va_index_entries v)"
    "\<not> (cf_has_index ?c \<and> max_exact_index_bytes l < len (?ps ! 1))" "\<not> (\<not> cf_has_index ?c \<and> ?ps ! 1 \<noteq> [])"
    "(if cf_has_index ?c then Some (?ps ! 1) else None) = va_index_bytes v"
    using iok unfolding x by (auto simp: index_ok_def control_of_def split: option.splits)
  have man: "parse_manifest (?ps ! 2) l = Inr (va_entries v, cf_aggregate ?c)"
    using ok by (simp add: parse_manifest_Inr [OF l] payloads_of_def control_of_def snapshot_ok_def)
  have n: "dict_index format_oid_sizes (cf_object_format ?c) = Inr ?n"
    using ok by (simp add: table_iffs snapshot_ok_def control_ok_def head_ok_def control_of_def)
  have rts: "len (?ps ! 3) = cf_root_count ?c * ?n" "va_root_oids v = chunks (nat ?n) (?ps ! 3)"
    "\<not> (sort (remdups (va_root_oids v)) \<noteq> va_root_oids v \<or> list_ex (\<lambda>r. \<not> list_ex (\<lambda>b. b \<noteq> 0) r) (va_root_oids v))"
    "va_root_oids v = expected_roots (cf_head_oid ?c) (va_index_entries v)"
    using roots_check [OF refl, where fmt = "va_object_format v" and p = "?ps ! 3" and k = "cf_root_count ?c"
        and roots = "va_root_oids v" and oid = "cf_head_oid ?c" and ies = "va_index_entries v"] ok
    by (simp_all add: snapshot_ok_def payloads_of_def control_of_def)
  have pol: "\<not> (list_ex allowed_ignored (va_entries v) \<and> cf_policy_digest ?c = None)" "len (va_entries v) = cf_entry_count ?c"
    using ok by (auto simp: snapshot_ok_def control_of_def)
  have src: "compute_source_state_sha256 sha256 (map sha256 ?ps) = Inr (source_state sha256 v)"
    by (simp add: compute_source_state_map [OF sha] source_state_def)
  have v: "va_has_index v = cf_has_index ?c" using ok by (simp add: x snapshot_ok_def)
  show ?thesis unfolding decode_stages header_check
    by (intro conjI exI; (rule tot hdr sec con idx man pol n rts(1) rts(3) [unfolded rts(2)] rts(4) [unfolded rts(2)] src refl)?)
       (use v idx(4) rts(2) in \<open>auto simp: control_of_def\<close>)
qed

subsection \<open>What the encoder produces\<close>

abbreviation index_payload_of :: "artifact_input \<Rightarrow> bytes" where
  "index_payload_of a \<equiv> (case index_bytes a of None \<Rightarrow> [] | Some ib \<Rightarrow> ib)"

abbreviation sorted_entries :: "artifact_input \<Rightarrow> manifest_entry list" where
  "sorted_entries a \<equiv> sort_key raw_path (entries a)"

lemma encode_stages:
  "encode_worktree_artifact sha256 hash_new a l = Inr data \<longleftrightarrow>
    dget format_codes (object_format a) \<noteq> None \<and> dget head_state_codes (head_state a) \<noteq> None
    \<and> (\<exists>n. dict_index format_oid_sizes (object_format a) = Inr n
    \<and> (\<exists>u. validate_head a n l = Inr u)
    \<and> \<not> (case policy_digest a of None \<Rightarrow> False | Some d \<Rightarrow> length d \<noteq> 32)
    \<and> len (index_payload_of a) \<le> max_exact_index_bytes l
    \<and> (\<exists>ies. (case index_bytes a of None \<Rightarrow> Inr []
         | Some ib \<Rightarrow> parse_index hash_new (index_payload_of a) (object_format a) l WorktreeArtifactEncodeError) = Inr ies
      \<and> len (entries a) \<le> max_manifest_entries l \<and> len (root_oids a) \<le> max_roots l
      \<and> (\<exists>u. check_all (\<lambda>e. validate_entry_shape e l WorktreeArtifactEncodeError) (entries a) = Inr u)
      \<and> (\<exists>u. check_manifest_order (sorted_entries a) [] = Inr u)
      \<and> aggregate_content (sorted_entries a) \<le> max_aggregate_content_bytes l
      \<and> \<not> (list_ex allowed_ignored (sorted_entries a) \<and> policy_digest a = None)
      \<and> (\<exists>u. check_all (\<lambda>r. raise_if (len r \<noteq> n \<or> \<not> list_ex (\<lambda>b. b \<noteq> 0) r)
                (WorktreeArtifactEncodeError ''root object ID is invalid'')) (root_oids a) = Inr u)
      \<and> length (remdups (root_oids a)) = length (root_oids a)
      \<and> set (root_oids a) = set (expected_roots (head_oid a) ies)
      \<and> \<not> list_ex (\<lambda>(n, b). b < n)
           (zip [control_length a n, len (index_payload_of a), manifest_length (sorted_entries a), len (expected_roots (head_oid a) ies) * n]
                [max_control_bytes l, max_index_bytes l, max_manifest_bytes l, max_roots_bytes l])
      \<and> 20 + 4 * 44 + sum_list [control_length a n, len (index_payload_of a), manifest_length (sorted_entries a),
             len (expected_roots (head_oid a) ies) * n] \<le> max_total_bytes l
    \<and> (\<exists>control. build_control_payload a (len (sorted_entries a)) (len (expected_roots (head_oid a) ies))
          (aggregate_content (sorted_entries a)) = Inr control
    \<and> (\<exists>manifest. build_manifest_payload (sorted_entries a) = Inr manifest
    \<and> (\<exists>encoded. frame_envelope sha256 [(1, control), (2, index_payload_of a), (3, manifest),
           (4, concat (expected_roots (head_oid a) ies))] = Inr encoded
       \<and> len encoded = 20 + 4 * 44 + sum_list [control_length a n, len (index_payload_of a), manifest_length (sorted_entries a),
             len (expected_roots (head_oid a) ies) * n]
       \<and> encoded = data)))))"
  unfolding encode_worktree_artifact_def
  by (simp only: rbind_Inr_iff raise_if_Inr Let_def split_paired_Ex prod.case not_less
      ENVELOPE_HEADER_LEN_def SECTION_HEADER_LEN_def ex_simps simp_thms sum.inject conj_assoc of_nat_numeral)

definition snapshot_of :: "artifact_input \<Rightarrow> index_entry list \<Rightarrow> verified_artifact" where
  "snapshot_of a ies =
     \<lparr> va_object_format = object_format a, va_has_index = (index_bytes a \<noteq> None), va_index_bytes = index_bytes a,
       va_index_entries = ies, va_head_state = head_state a, va_head_target = head_target a,
       va_head_oid = head_oid a, va_policy_digest = policy_digest a, va_entries = sorted_entries a,
       va_root_oids = expected_roots (head_oid a) ies, va_source_state_sha256 = [], va_total_bytes = 0 \<rparr>"

lemma head_ok_target:
  assumes "limits_ok l" "head_ok l fmt hs target oid"
  shows "len target \<le> max_path_bytes l" "len target < 4294967296"
proof -
  show "len target \<le> max_path_bytes l"
    using assms valid_head_targetD [of l target]
    by (auto simp: head_ok_def limits_ok_def is_ok_iff limits_post_init_def limit_bounds_def result_simps split: if_splits)
  then show "len target < 4294967296" using limits_okD(1) [OF assms(1)] by linarith
qed

lemma validate_head_Inr:
  assumes l: "limits_ok l" and names: "dget format_codes (object_format a) \<noteq> None" "dget head_state_codes (head_state a) \<noteq> None"
  shows "validate_head a (oid_size_of (object_format a)) l = Inr u \<longleftrightarrow>
    head_ok l (object_format a) (head_state a) (head_target a) (head_oid a)" (is "?L \<longleftrightarrow> ?R")
proof
  assume ?L
  then show ?R using names oid_size_pos [of "object_format a"]
    by (auto simp: validate_head_def head_ok_def table_iffs result_simps validator_iffs list_ex_iff split: if_splits)
next
  assume R: ?R
  show ?L using R head_ok_target(2) [OF l R]
    by (auto simp: validate_head_def head_ok_def result_simps validator_iffs list_ex_iff split: if_splits)
qed

lemma build_control_payload_Inr:
  assumes "head_ok l (object_format a) (head_state a) (head_target a) (head_oid a)" "limits_ok l"
  shows "build_control_payload a ec rc ag = Inr p \<longleftrightarrow>
    0 \<le> ec \<and> ec < 4294967296 \<and> 0 \<le> rc \<and> rc < 4294967296 \<and> 0 \<le> ag \<and> ag < 18446744073709551616
    \<and> p = control_bytes \<lparr> cf_object_format = object_format a, cf_has_index = (index_bytes a \<noteq> None), cf_head_state = head_state a,
        cf_head_target = head_target a, cf_head_oid = head_oid a, cf_policy_digest = policy_digest a,
        cf_entry_count = ec, cf_root_count = rc, cf_aggregate = ag \<rparr>"
  using assms(1) head_ok_target [OF assms(2,1)]
  by (auto simp: build_control_payload_def rbind_Inr_iff u32_bytes_Inr u64_bytes_Inr table_iffs head_ok_def control_bytes_def
      policy_bytes_def be_bytes_1 simp del: One_nat_def split: option.splits if_splits)

lemma control_length_bytes:
  assumes "head_ok l (object_format a) (head_state a) (head_target a) (head_oid a)"
    and "\<forall>d. policy_digest a = Some d \<longrightarrow> length d = 32"
  shows "control_length a (oid_size_of (object_format a)) = len (control_bytes (control_of (snapshot_of a ies)))"
  using assms by (auto simp: control_length_def control_bytes_def control_of_def snapshot_of_def policy_bytes_def head_ok_def
      split: option.splits if_splits)

lemma manifest_checks:
  "len (entries a) \<le> max_manifest_entries l
    \<and> (\<exists>u. check_all (\<lambda>e. validate_entry_shape e l WorktreeArtifactEncodeError) (entries a) = Inr u)
    \<and> (\<exists>u. check_manifest_order (sorted_entries a) [] = Inr u)
    \<and> aggregate_content (sorted_entries a) \<le> max_aggregate_content_bytes l \<longleftrightarrow>
   len (sorted_entries a) \<le> max_manifest_entries l \<and> manifest_ok l manifest_start (sorted_entries a)
    \<and> aggregate_content (sorted_entries a) \<le> max_aggregate_content_bytes l"
proof -
  have "sorted_wrt (<) (map raw_path (sorted_entries a)) \<longleftrightarrow> distinct (map raw_path (sorted_entries a))"
    by (simp add: strict_sorted_iff)
  moreover have "aggregate_content (sorted_entries a) \<le> max_aggregate_content_bytes l \<Longrightarrow> aggregates_ok l 0 (sorted_entries a)"
    by (rule aggregates_okI) simp
  ultimately show ?thesis
    by (auto simp: manifest_ok_iff check_all_unit validator_iffs check_manifest_order_Inr ascending_iff)
qed

lemma len_artifact_bytes:
  assumes "\<And>x. length (sha256 x) = 32"
  shows "len (artifact_bytes sha256 v) = 20 + 4 * 44 + sum_list (map len (payloads_of v))"
  by (simp add: artifact_bytes_def payloads_of_def section_bytes_def assms)

lemma root_checks:
  assumes "distinct xs" "set xs = set (expected_roots oid ies)"
  shows "len xs = len (expected_roots oid ies)"
  using assms distinct_card [of xs] distinct_card [of "expected_roots oid ies"] expected_roots_sorted(2) [of oid ies] by simp

lemma section_checks:
  assumes "head_ok l (object_format a) (head_state a) (head_target a) (head_oid a)"
    and "\<forall>d. policy_digest a = Some d \<longrightarrow> length d = 32"
    and "\<forall>r \<in> set (expected_roots (head_oid a) ies). len r = oid_size_of (object_format a)"
  shows "[control_length a (oid_size_of (object_format a)), len (index_payload_of a), manifest_length (sorted_entries a),
      len (expected_roots (head_oid a) ies) * oid_size_of (object_format a)] = map len (payloads_of (snapshot_of a ies))"
proof -
  have "len (concat rs) = len rs * n" if "\<forall>r \<in> set rs. len r = n" for rs :: "bytes list" and n
    using that by (induction rs) (auto simp: algebra_simps)
  from this [OF assms(3)] show ?thesis using control_length_bytes [OF assms(1,2), of ies]
    by (simp add: payloads_of_def manifest_length_bytes) (simp add: snapshot_of_def)
qed

lemma bounds_check:
  "\<not> list_ex (\<lambda>(n, b). b < n) (zip (map len (payloads_of v)) (section_limits l)) \<longleftrightarrow>
     list_all2 (\<lambda>p b. len p \<le> b) (payloads_of v) (section_limits l)"
  by (simp add: payloads_of_def section_limits_def not_less)

lemma assembly:
  assumes l: "limits_ok l" and ok: "snapshot_ok hash_new l (snapshot_of a ies)"
  shows "build_control_payload a (len (sorted_entries a)) (len (expected_roots (head_oid a) ies)) (aggregate_content (sorted_entries a))
      = Inr (payloads_of (snapshot_of a ies) ! 0)"
    "build_manifest_payload (sorted_entries a) = Inr (payloads_of (snapshot_of a ies) ! 2)"
    "frame_envelope sha256 [(1, payloads_of (snapshot_of a ies) ! 0), (2, index_payload_of a),
      (3, payloads_of (snapshot_of a ies) ! 2), (4, concat (expected_roots (head_oid a) ies))]
     = Inr (artifact_bytes sha256 (snapshot_of a ies))"
proof -
  let ?v = "snapshot_of a ies"
  note lim = limits_okD [OF l]
  have c: "control_ok l (control_of ?v)" and bnd: "list_all2 (\<lambda>p b. len p \<le> b) (payloads_of ?v) (section_limits l)"
    and man: "manifest_ok l manifest_start (sorted_entries a)"
    using ok by (simp_all add: snapshot_ok_def) (simp add: snapshot_of_def)
  have hd: "head_ok l (object_format a) (head_state a) (head_target a) (head_oid a)"
    using c by (simp add: control_ok_def control_of_def snapshot_of_def)
  show "build_control_payload a (len (sorted_entries a)) (len (expected_roots (head_oid a) ies)) (aggregate_content (sorted_entries a))
      = Inr (payloads_of ?v ! 0)"
    using c lim by (simp add: build_control_payload_Inr [OF hd l] payloads_of_def control_ok_def)
      (simp add: control_of_def snapshot_of_def)
  have "\<forall>e \<in> set (sorted_entries a). len (raw_path e) < 4294967296 \<and> len (content e) < 4294967296"
    using man lim(1,2) by (auto simp: manifest_ok_iff dest!: valid_shapeD)
  moreover from this have "\<forall>e \<in> set (sorted_entries a). len (derived_parent (raw_path e)) < 4294967296"
    using derived_parent_le by (meson le_less_trans of_nat_le_iff)
  ultimately show "build_manifest_payload (sorted_entries a) = Inr (payloads_of ?v ! 2)"
    by (simp add: build_manifest_payload_Inr payloads_of_def snapshot_of_def)
  have "payloads_of ?v = [payloads_of ?v ! 0, index_payload_of a, payloads_of ?v ! 2, concat (expected_roots (head_oid a) ies)]"
    by (simp add: payloads_of_def) (simp add: snapshot_of_def)
  moreover have "\<forall>p \<in> set (payloads_of ?v). len p < 18446744073709551616"
    using bnd lim(7-10) by (auto simp: section_limits_def list_all2_4)
  ultimately show "frame_envelope sha256 [(1, payloads_of ?v ! 0), (2, index_payload_of a), (3, payloads_of ?v ! 2),
      (4, concat (expected_roots (head_oid a) ies))] = Inr (artifact_bytes sha256 ?v)"
    unfolding frame_envelope_Inr artifact_bytes_def by (metis (no_types, lifting) list.set(1,2))
qed

lemma encode_index:
  "(case index_bytes a of None \<Rightarrow> Inr []
         | Some ib \<Rightarrow> parse_index hash_new (index_payload_of a) (object_format a) l WorktreeArtifactEncodeError) = Inr ies
     \<and> len (index_payload_of a) \<le> max_exact_index_bytes l \<longleftrightarrow>
   index_ok hash_new l (snapshot_of a ies) \<and> len (index_payload_of a) \<le> max_exact_index_bytes l"
  using parse_index_any_err [of hash_new _ "object_format a" l WorktreeArtifactEncodeError ies WorktreeArtifactDecodeError]
  by (cases "index_bytes a") (auto simp: index_ok_def snapshot_of_def)

lemma encodeI:
  assumes sha: "\<And>x. length (sha256 x) = 32" and l: "limits_ok l" and ok: "snapshot_ok hash_new l (snapshot_of a ies)"
    and roots: "distinct (root_oids a)" "set (root_oids a) = set (expected_roots (head_oid a) ies)"
    and tot: "len (artifact_bytes sha256 (snapshot_of a ies)) \<le> max_total_bytes l"
  shows "encode_worktree_artifact sha256 hash_new a l = Inr (artifact_bytes sha256 (snapshot_of a ies))"
proof -
  let ?v = "snapshot_of a ies" and ?n = "oid_size_of (object_format a)"
  have con: "control_ok l (control_of ?v)" and bnd: "list_all2 (\<lambda>p b. len p \<le> b) (payloads_of ?v) (section_limits l)"
    and idx: "index_ok hash_new l ?v" and man: "manifest_ok l manifest_start (sorted_entries a)"
    and pol: "\<not> (list_ex allowed_ignored (sorted_entries a) \<and> policy_digest a = None)"
    and rts: "\<forall>r \<in> set (expected_roots (head_oid a) ies). len r = ?n \<and> list_ex (\<lambda>b. b \<noteq> 0) r"
    using ok by (simp_all add: snapshot_ok_def) (simp_all add: snapshot_of_def, blast?)
  have hd: "head_ok l (object_format a) (head_state a) (head_target a) (head_oid a)"
    and pd: "\<forall>d. policy_digest a = Some d \<longrightarrow> length d = 32"
    and cnt: "len (sorted_entries a) \<le> max_manifest_entries l" "len (expected_roots (head_oid a) ies) \<le> max_roots l"
      "aggregate_content (sorted_entries a) \<le> max_aggregate_content_bytes l"
    using con by (simp_all add: control_ok_def control_of_def snapshot_of_def)
  have names: "dget format_codes (object_format a) \<noteq> None" "dget head_state_codes (head_state a) \<noteq> None"
    "dict_index format_oid_sizes (object_format a) = Inr ?n"
    using hd by (auto simp: table_iffs head_ok_def)
  have xl: "len (index_payload_of a) \<le> max_exact_index_bytes l"
    using idx l by (auto simp: index_ok_def snapshot_of_def limits_ok_def is_ok_iff limits_post_init_def limit_bounds_def
        result_simps split: option.splits)
  have vh: "validate_head a ?n l = Inr ()" using validate_head_Inr [OF l names(1,2)] hd by simp
  have ix: "(case index_bytes a of None \<Rightarrow> Inr []
         | Some ib \<Rightarrow> parse_index hash_new (index_payload_of a) (object_format a) l WorktreeArtifactEncodeError) = Inr ies"
    using encode_index [where a = a and hash_new = hash_new and l = l and ies = ies] xl idx by blast
  have mc: "len (entries a) \<le> max_manifest_entries l"
    "check_all (\<lambda>e. validate_entry_shape e l WorktreeArtifactEncodeError) (entries a) = Inr ()"
    "check_manifest_order (sorted_entries a) [] = Inr ()"
    using manifest_checks [of a l] cnt(1,3) man by auto
  have rc: "check_all (\<lambda>r. raise_if (len r \<noteq> ?n \<or> \<not> list_ex (\<lambda>b. b \<noteq> 0) r)
                (WorktreeArtifactEncodeError ''root object ID is invalid'')) (root_oids a) = Inr ()"
    using rts by (simp add: check_all_unit roots(2))
  have rl: "len (root_oids a) \<le> max_roots l" using root_checks [OF roots] cnt(2) by simp
  have rn: "\<forall>r \<in> set (expected_roots (head_oid a) ies). len r = ?n" using rts by blast
  note sc = section_checks [OF hd pd rn]
  note al = len_artifact_bytes [OF sha, where v = ?v]
  show ?thesis unfolding encode_stages
  proof (intro conjI exI; (rule names vh xl ix mc cnt(3) pol rc rl roots(2) assembly [OF l ok] refl)?)
  qed (use pd roots(1) tot al in \<open>auto simp: distinct_card sc al bounds_check [unfolded section_limits_def] bnd [unfolded section_limits_def]
      remdups_id_iff_distinct split: option.splits\<close>)
qed

text \<open>The checks of the encoder, with the object-ID size and the index entries they establish.\<close>

definition encode_checks ::
  "(string \<Rightarrow> bytes \<Rightarrow> bytes) \<Rightarrow> artifact_input \<Rightarrow> artifact_limits \<Rightarrow> artifact_error + (int \<times> index_entry list)" where
  "encode_checks hash_new a l =
     rbind (raise_if (dget format_codes (object_format a) = None)
              (WorktreeArtifactEncodeError ''object format is unsupported'')) (\<lambda>_.
     rbind (raise_if (dget head_state_codes (head_state a) = None)
              (WorktreeArtifactEncodeError ''HEAD state is unsupported'')) (\<lambda>_.
     rbind (dict_index format_oid_sizes (object_format a)) (\<lambda>n.
     rbind (validate_head a n l) (\<lambda>_.
     rbind (raise_if (case policy_digest a of None \<Rightarrow> False | Some d \<Rightarrow> length d \<noteq> 32)
              (WorktreeArtifactEncodeError ''policy digest must be 32 raw bytes'')) (\<lambda>_.
     rbind (raise_if (len (index_payload_of a) > max_exact_index_bytes l)
              (WorktreeArtifactEncodeError ''exact index exceeds maximum bytes'')) (\<lambda>_.
     rbind (case index_bytes a of
              None \<Rightarrow> Inr []
            | Some ib \<Rightarrow> parse_index hash_new (index_payload_of a) (object_format a) l WorktreeArtifactEncodeError)
       (\<lambda>ies.
     rbind (raise_if (len (entries a) > max_manifest_entries l)
              (WorktreeArtifactEncodeError ''manifest entry count exceeds maximum'')) (\<lambda>_.
     rbind (raise_if (len (root_oids a) > max_roots l)
              (WorktreeArtifactEncodeError ''root count exceeds maximum'')) (\<lambda>_.
     rbind (check_all (\<lambda>e. validate_entry_shape e l WorktreeArtifactEncodeError) (entries a)) (\<lambda>_.
     rbind (check_manifest_order (sorted_entries a) []) (\<lambda>_.
     rbind (raise_if (aggregate_content (sorted_entries a) > max_aggregate_content_bytes l)
              (WorktreeArtifactEncodeError ''aggregate content exceeds maximum bytes'')) (\<lambda>_.
     rbind (raise_if (list_ex allowed_ignored (sorted_entries a) \<and> policy_digest a = None)
              (WorktreeArtifactEncodeError ''ignored entries require a policy digest'')) (\<lambda>_.
     rbind (check_all (\<lambda>r. raise_if (len r \<noteq> n \<or> \<not> list_ex (\<lambda>b. b \<noteq> 0) r)
                          (WorktreeArtifactEncodeError ''root object ID is invalid'')) (root_oids a)) (\<lambda>_.
     rbind (raise_if (length (remdups (root_oids a)) \<noteq> length (root_oids a))
              (WorktreeArtifactEncodeError ''root object ID is duplicated'')) (\<lambda>_.
     rbind (raise_if (set (root_oids a) \<noteq> set (expected_roots (head_oid a) ies))
              (WorktreeArtifactEncodeError ''roots do not exactly match HEAD and index object IDs'')) (\<lambda>_.
     rbind (raise_if (list_ex (\<lambda>(n, b). n > b)
              (zip [control_length a n, len (index_payload_of a), manifest_length (sorted_entries a), len (expected_roots (head_oid a) ies) * n]
                [max_control_bytes l, max_index_bytes l, max_manifest_bytes l, max_roots_bytes l]))
              (WorktreeArtifactEncodeError ''artifact section exceeds maximum bytes'')) (\<lambda>_.
     rbind (raise_if (20 + 4 * 44 + sum_list [control_length a n, len (index_payload_of a), manifest_length (sorted_entries a),
             len (expected_roots (head_oid a) ies) * n] > max_total_bytes l)
              (WorktreeArtifactEncodeError ''artifact exceeds maximum total bytes'')) (\<lambda>_.
     Inr (n, ies)))))))))))))))))))"

definition encode_build :: "(bytes \<Rightarrow> bytes) \<Rightarrow> artifact_input \<Rightarrow> int \<times> index_entry list \<Rightarrow> artifact_error + bytes" where
  "encode_build sha256 a = (\<lambda>(n, ies).
     rbind (build_control_payload a (len (sorted_entries a)) (len (expected_roots (head_oid a) ies))
              (aggregate_content (sorted_entries a))) (\<lambda>control.
     rbind (build_manifest_payload (sorted_entries a)) (\<lambda>manifest.
     rbind (frame_envelope sha256 [(1, control), (2, index_payload_of a), (3, manifest),
              (4, concat (expected_roots (head_oid a) ies))]) (\<lambda>encoded.
     rbind (raise_if (len encoded \<noteq> 20 + 4 * 44 + sum_list [control_length a n, len (index_payload_of a),
              manifest_length (sorted_entries a), len (expected_roots (head_oid a) ies) * n])
              (AssertionError ''artifact framing length changed after preflight'')) (\<lambda>_.
     Inr encoded)))))"

lemma rbind_assoc: "rbind (rbind m f) g = rbind m (\<lambda>x. rbind (f x) g)"
  by (cases m) simp_all

lemma encode_split: "encode_worktree_artifact sha256 hash_new a l = rbind (encode_checks hash_new a l) (encode_build sha256 a)"
  by (simp only: encode_worktree_artifact_def encode_checks_def encode_build_def rbind_assoc rbind.simps Let_def prod.case
      ENVELOPE_HEADER_LEN_def SECTION_HEADER_LEN_def)

lemma encode_checks_Inr:
  assumes sha: "\<And>x. length (sha256 x) = 32" and l: "limits_ok l" and enc: "encode_checks hash_new a l = Inr (n, ies)"
  shows "snapshot_ok hash_new l (snapshot_of a ies)" "distinct (root_oids a)"
    "set (root_oids a) = set (expected_roots (head_oid a) ies)"
    "len (artifact_bytes sha256 (snapshot_of a ies)) \<le> max_total_bytes l"
proof -
  from enc [unfolded encode_checks_def rbind_Inr_iff] obtain u u1 u2 u3 where
    names: "dget format_codes (object_format a) \<noteq> None" "dget head_state_codes (head_state a) \<noteq> None"
      "dict_index format_oid_sizes (object_format a) = Inr n"
    and vh: "validate_head a n l = Inr u"
    and pd: "\<not> (case policy_digest a of None \<Rightarrow> False | Some d \<Rightarrow> length d \<noteq> 32)"
    and xl: "len (index_payload_of a) \<le> max_exact_index_bytes l"
    and ix: "(case index_bytes a of None \<Rightarrow> Inr []
         | Some ib \<Rightarrow> parse_index hash_new (index_payload_of a) (object_format a) l WorktreeArtifactEncodeError) = Inr ies"
    and mc: "len (entries a) \<le> max_manifest_entries l" "len (root_oids a) \<le> max_roots l"
      "check_all (\<lambda>e. validate_entry_shape e l WorktreeArtifactEncodeError) (entries a) = Inr u1"
      "check_manifest_order (sorted_entries a) [] = Inr u2"
      "aggregate_content (sorted_entries a) \<le> max_aggregate_content_bytes l"
    and pol: "\<not> (list_ex allowed_ignored (sorted_entries a) \<and> policy_digest a = None)"
    and rc: "check_all (\<lambda>r. raise_if (len r \<noteq> n \<or> \<not> list_ex (\<lambda>b. b \<noteq> 0) r)
                (WorktreeArtifactEncodeError ''root object ID is invalid'')) (root_oids a) = Inr u3"
    and roots: "length (remdups (root_oids a)) = length (root_oids a)" "set (root_oids a) = set (expected_roots (head_oid a) ies)"
    and sb: "\<not> list_ex (\<lambda>(n, b). b < n)
           (zip [control_length a n, len (index_payload_of a), manifest_length (sorted_entries a), len (expected_roots (head_oid a) ies) * n]
                [max_control_bytes l, max_index_bytes l, max_manifest_bytes l, max_roots_bytes l])"
    and tot: "20 + 4 * 44 + sum_list [control_length a n, len (index_payload_of a), manifest_length (sorted_entries a),
             len (expected_roots (head_oid a) ies) * n] \<le> max_total_bytes l"
    by (simp only: raise_if_Inr not_less sum.inject prod.inject simp_thms) (elim exE conjE, rule that; simp only: simp_thms)
  let ?v = "snapshot_of a ies"
  have n: "n = oid_size_of (object_format a)" using names(3) by (simp add: table_iffs)
  have hd: "head_ok l (object_format a) (head_state a) (head_target a) (head_oid a)"
    using vh validate_head_Inr [OF l names(1,2)] by (simp add: n)
  have pd': "\<forall>d. policy_digest a = Some d \<longrightarrow> length d = 32" using pd by auto
  have dst: "distinct (root_oids a)" using roots(1) by simp
  have rts: "\<forall>r \<in> set (expected_roots (head_oid a) ies). len r = n \<and> list_ex (\<lambda>b. b \<noteq> 0) r"
    using rc by (simp add: check_all_unit roots(2))
  then have rn: "\<forall>r \<in> set (expected_roots (head_oid a) ies). len r = oid_size_of (object_format a)" by (simp add: n)
  note sc = section_checks [OF hd pd' rn]
  have man: "len (sorted_entries a) \<le> max_manifest_entries l" "manifest_ok l manifest_start (sorted_entries a)"
    using manifest_checks [of a l] mc by blast+
  have con: "control_ok l (control_of ?v)"
    using hd pd' man(1) mc(2,5) root_checks [OF dst roots(2)] aggregate_content_nonneg [of "sorted_entries a"]
    by (simp add: control_ok_def control_of_def snapshot_of_def)
  have bnd: "list_all2 (\<lambda>p b. len p \<le> b) (payloads_of ?v) (section_limits l)"
    using sb by (simp only: n sc bounds_check section_limits_def [symmetric] not_not)
  have idx: "index_ok hash_new l ?v"
    using encode_index [where a = a and hash_new = hash_new and l = l and ies = ies] xl ix by blast
  have ok: "snapshot_ok hash_new l ?v"
    unfolding snapshot_ok_def using con bnd idx man(2) pol rts n by (auto simp: snapshot_of_def)
  show "snapshot_ok hash_new l ?v" by (rule ok)
  show "distinct (root_oids a)" by (rule dst)
  show "set (root_oids a) = set (expected_roots (head_oid a) ies)" by (rule roots(2))
  show "len (artifact_bytes sha256 ?v) \<le> max_total_bytes l"
    using tot len_artifact_bytes [OF sha, where v = ?v] by (simp only: n sc)
qed

lemma encodeD:
  assumes sha: "\<And>x. length (sha256 x) = 32" and l: "limits_ok l"
    and chk: "encode_checks hash_new a l = Inr (n, ies)"
  shows "encode_worktree_artifact sha256 hash_new a l = Inr (artifact_bytes sha256 (snapshot_of a ies))"
  by (rule encodeI [OF sha l encode_checks_Inr [OF sha l chk]])

lemma encode_Inr:
  assumes sha: "\<And>x. length (sha256 x) = 32" and l: "limits_ok l"
  shows "encode_worktree_artifact sha256 hash_new a l = Inr data \<longleftrightarrow>
    (\<exists>ies. snapshot_ok hash_new l (snapshot_of a ies) \<and> distinct (root_oids a)
    \<and> set (root_oids a) = set (expected_roots (head_oid a) ies)
    \<and> data = artifact_bytes sha256 (snapshot_of a ies) \<and> len data \<le> max_total_bytes l)" (is "?L \<longleftrightarrow> ?R")
proof
  assume L: ?L
  then obtain n ies where chk: "encode_checks hash_new a l = Inr (n, ies)"
    by (auto simp: encode_split rbind_Inr_iff)
  show ?R using encode_checks_Inr [OF sha l chk] encodeD [OF sha l chk] L by auto
qed (auto intro: encodeI [OF sha l])


subsection \<open>Errors\<close>

abbreviation decode_error :: "artifact_error \<Rightarrow> bool" where
  "decode_error e \<equiv> (\<exists>m. e = WorktreeArtifactDecodeError m)"

abbreviation encode_error :: "artifact_error \<Rightarrow> bool" where
  "encode_error e \<equiv> (\<exists>m. e = WorktreeArtifactEncodeError m)"

lemma validators_raise [raises_intros]:
  assumes "\<And>m. K (err m)"
  shows "only_raises K (validate_raw_path p l err)" "only_raises K (validate_symbolic_head_target t l err)"
    "only_raises K (validate_entry_shape e l err)" "only_raises K (validate_topology p present err)"
proof -
  show r: "only_raises K (validate_raw_path p l err)" for p
    unfolding validate_raw_path_def by (intro raises_intros assms)
  show "only_raises K (validate_symbolic_head_target t l err)" "only_raises K (validate_entry_shape e l err)"
    "only_raises K (validate_topology p present err)"
    unfolding validate_symbolic_head_target_def validate_entry_shape_def validate_topology_def
    by (intro raises_intros assms r)+
qed

lemma parse_index_entry_raises [raises_intros]:
  "(\<And>m. K (err m)) \<Longrightarrow> only_raises K (parse_index_entry v n l err pk rg)"
  unfolding parse_index_entry_def by (intro raises_intros) simp_all

lemma parse_index_entries_raises [raises_intros]:
  "(\<And>m. K (err m)) \<Longrightarrow> only_raises K (parse_index_entries k v n l err pk rg)"
  by (induction k arbitrary: pk rg) (auto intro!: raises_intros)

lemma parse_index_extensions_raises [raises_intros]:
  "(\<And>m. K (err m)) \<Longrightarrow> only_raises K (parse_index_extensions b err rg)"
proof (induction b err rg rule: parse_index_extensions.induct)
  case (1 b err rg)
  then show ?case by (subst parse_index_extensions.simps) (auto intro!: raises_intros simp: Let_def)
qed

lemma parse_index_raises [raises_intros]:
  "fmt \<in> {''sha1'', ''sha256''} \<Longrightarrow> (\<And>m. K (err m)) \<Longrightarrow> only_raises K (parse_index h ib fmt l err)"
  unfolding parse_index_def
  by (intro raises_intros) (auto simp: only_raises_def dict_index_def format_oid_sizes_def)

lemma readers_raise [raises_intros]:
  "only_raises decode_error (reader_take n lbl r)" "only_raises decode_error (reader_u8 lbl r)"
  "only_raises decode_error (reader_u32 lbl r)" "only_raises decode_error (reader_u64 lbl r)"
  by (auto simp: only_raises_def reader_take_def reader_u8_def reader_u32_def reader_u64_def reader_uint_def rbind_Inl_iff split: if_splits)

lemma parse_control_raises [raises_intros]: "only_raises decode_error (parse_control p l)"
  unfolding parse_control_def
  by (intro raises_intros) (auto simp: only_raises_def dict_index_def format_names_Some format_oid_sizes_def)

lemma parse_manifest_round_raises: "only_raises decode_error (parse_manifest_round l s)"
  unfolding parse_manifest_round_def by (intro raises_intros) auto

lemma parse_manifest_loop_raises: "only_raises decode_error (parse_manifest_loop l s)"
proof (induction l s rule: parse_manifest_loop.induct)
  case (1 l s)
  then show ?case using parse_manifest_round_raises [of l s]
    by (subst parse_manifest_loop.simps) (auto simp: only_raises_def split: sum.splits)
qed

lemma parse_manifest_raises [raises_intros]: "only_raises decode_error (parse_manifest p l)"
  unfolding parse_manifest_def by (intro raises_intros parse_manifest_loop_raises)

lemma parse_sections_from_raises: "only_raises decode_error (parse_sections_from sha256 i bs view)"
  by (induction bs arbitrary: i view) (auto intro!: raises_intros simp: Let_def)

lemma parse_sections_raises [raises_intros]: "only_raises decode_error (parse_sections sha256 view l)"
  unfolding parse_sections_def by (rule parse_sections_from_raises)

lemma parse_sections_digests:
  "parse_sections_from sha256 i bs view = Inr (ds, ps) \<Longrightarrow> \<forall>d \<in> set ds. length d = 32"
  by (induction bs arbitrary: i view ds ps)
     (auto simp: result_simps Let_def slice_def SECTION_HEADER_LEN_def)

lemma parse_control_format: "parse_control p l = Inr c \<Longrightarrow> cf_object_format c \<in> {''sha1'', ''sha256''}"
  by (drule parse_controlD) (simp add: control_ok_def head_ok_def)

lemma check_manifest_order_raises [raises_intros]: "only_raises encode_error (check_manifest_order es present)"
  by (induction es arbitrary: present) (auto intro!: raises_intros)

lemma validate_head_raises [raises_intros]: "only_raises encode_error (validate_head a n l)"
  unfolding validate_head_def by (intro raises_intros) auto

end
