(* ===== verification/Worktree_Artifact_Properties.thy ===== *)
theory Worktree_Artifact_Properties
  imports Worktree_Artifact_Roundtrip
begin

section \<open>Properties of the worktree artifact codec\<close>

text \<open>
  The round trips, the error discipline, the path safety of accepted artifacts and the
  soundness of the Git index validator, with a concrete snapshot at which they apply.
  The only fact used about \<^verbatim>\<open>hashlib.sha256\<close> is that its digests have 32 bytes; nothing is
  assumed about \<^verbatim>\<open>hashlib.new\<close>.
\<close>

subsection \<open>A concrete snapshot\<close>

definition sample_sha256 :: "bytes \<Rightarrow> bytes" where
  "sample_sha256 x = replicate 32 7"

definition sample_hash :: "string \<Rightarrow> bytes \<Rightarrow> bytes" where
  "sample_hash fmt x = replicate 20 9"

definition sample_index :: bytes where
  "sample_index = bytes_of ''DIRC'' @ [0, 0, 0, 2, 0, 0, 0, 1] @ replicate 24 0 @ [0, 0, 0x81, 0xA4] @ replicate 12 0
     @ replicate 20 1 @ [0, 1] @ bytes_of ''a'' @ [0] @ replicate 20 9"

definition sample_input :: artifact_input where
  "sample_input = \<lparr> object_format = ''sha1'', head_state = ''detached'', head_target = [], head_oid = replicate 20 2,
     index_bytes = Some sample_index,
     entries = [\<lparr> raw_path = bytes_of ''d/f'', kind = File, content = bytes_of ''hi'', executable = True,
                  allowed_ignored = False, nlink = 1, privilege_bits = False \<rparr>,
                \<lparr> raw_path = bytes_of ''d'', kind = Directory, content = [], executable = False,
                  allowed_ignored = False, nlink = 1, privilege_bits = False \<rparr>],
     root_oids = [replicate 20 2, replicate 20 1], policy_digest = None \<rparr>"

lemma sample_encodes: "is_ok (encode_worktree_artifact sample_sha256 sample_hash sample_input DEFAULT_ARTIFACT_LIMITS)"
  by code_simp

lemma limits_ok_default: "limits_ok DEFAULT_ARTIFACT_LIMITS"
  by code_simp

definition sample_data :: bytes where
  "sample_data = (case encode_worktree_artifact sample_sha256 sample_hash sample_input DEFAULT_ARTIFACT_LIMITS of
     Inl e \<Rightarrow> [] | Inr d \<Rightarrow> d)"

definition sample_snapshot :: verified_artifact where
  "sample_snapshot = (case decode_worktree_artifact sample_sha256 sample_hash sample_data DEFAULT_ARTIFACT_LIMITS of
     Inl e \<Rightarrow> snapshot_of sample_input [] | Inr v \<Rightarrow> v)"

lemma sample_encoded: "encode_worktree_artifact sample_sha256 sample_hash sample_input DEFAULT_ARTIFACT_LIMITS = Inr sample_data"
  using sample_encodes unfolding sample_data_def by (cases "encode_worktree_artifact sample_sha256 sample_hash sample_input DEFAULT_ARTIFACT_LIMITS") auto

lemma sample_sha256_length: "length (sample_sha256 x) = 32"
  by (simp add: sample_sha256_def)

lemma sample_decoded: "decode_worktree_artifact sample_sha256 sample_hash sample_data DEFAULT_ARTIFACT_LIMITS = Inr sample_snapshot"
proof -
  have "is_ok (decode_worktree_artifact sample_sha256 sample_hash sample_data DEFAULT_ARTIFACT_LIMITS)" by code_simp
  then show ?thesis unfolding sample_snapshot_def
    by (cases "decode_worktree_artifact sample_sha256 sample_hash sample_data DEFAULT_ARTIFACT_LIMITS") auto
qed

lemmas sample_facts = sample_sha256_length limits_ok_default

subsection \<open>Round trips\<close>

text \<open>C1: Encoding then decoding. Whatever \<^verbatim>\<open>encode_worktree_artifact\<close> returns is accepted by
  \<^verbatim>\<open>decode_worktree_artifact\<close> under the same limits, and the verified snapshot has the object format,
  HEAD, index bytes, policy digest and total size of the input, its manifest entries sorted by
  path and its root object IDs sorted.\<close>

theorem encode_decode:
  assumes sha: "\<And>x. length (sha256 x) = 32" and l: "limits_ok l"
    and enc: "encode_worktree_artifact sha256 hash_new a l = Inr data"
  shows "\<exists>v. decode_worktree_artifact sha256 hash_new data l = Inr v
    \<and> va_object_format v = object_format a \<and> va_head_state v = head_state a
    \<and> va_head_target v = head_target a \<and> va_head_oid v = head_oid a
    \<and> va_index_bytes v = index_bytes a \<and> va_policy_digest v = policy_digest a
    \<and> va_entries v = sort_key raw_path (entries a) \<and> va_root_oids v = sort (root_oids a)
    \<and> va_total_bytes v = len data"
proof -
  from enc [unfolded encode_Inr [OF sha l]] obtain ies where
    ok: "snapshot_ok hash_new l (snapshot_of a ies)" and d: "distinct (root_oids a)"
      "set (root_oids a) = set (expected_roots (head_oid a) ies)"
    and data: "data = artifact_bytes sha256 (snapshot_of a ies)" "len data \<le> max_total_bytes l" by blast
  have "sort (root_oids a) = expected_roots (head_oid a) ies"
    using d expected_roots_sorted [of "head_oid a" ies]
    by (intro sorted_distinct_set_unique) (auto simp: expected_roots_def)
  with decodeI [OF sha l ok] data show ?thesis by (auto simp: snapshot_of_def)
qed

lemma encode_decode_witness:
  "\<exists>v. decode_worktree_artifact sample_sha256 sample_hash sample_data DEFAULT_ARTIFACT_LIMITS = Inr v
     \<and> va_entries v = sort_key raw_path (entries sample_input) \<and> va_root_oids v = [replicate 20 1, replicate 20 2]"
proof -
  have "sort (root_oids sample_input) = [replicate 20 1, replicate 20 2]" by code_simp
  then show ?thesis using encode_decode [OF sample_facts sample_encoded] by auto
qed

definition input_of :: "verified_artifact \<Rightarrow> artifact_input" where
  "input_of v = \<lparr> object_format = va_object_format v, head_state = va_head_state v, head_target = va_head_target v,
     head_oid = va_head_oid v, index_bytes = va_index_bytes v, entries = va_entries v,
     root_oids = va_root_oids v, policy_digest = va_policy_digest v \<rparr>"

lemma payloads_of_cong:
  "control_of (v\<lparr>va_source_state_sha256 := s, va_total_bytes := t\<rparr>) = control_of v"
  "payloads_of (v\<lparr>va_source_state_sha256 := s, va_total_bytes := t\<rparr>) = payloads_of v"
  "index_ok hash_new l (v\<lparr>va_source_state_sha256 := s, va_total_bytes := t\<rparr>) = index_ok hash_new l v"
  by (simp_all add: payloads_of_def control_of_def index_ok_def split: option.split)

lemma artifact_bytes_cong:
  "artifact_bytes sha256 (v\<lparr>va_source_state_sha256 := s, va_total_bytes := t\<rparr>) = artifact_bytes sha256 v"
  by (simp add: artifact_bytes_def payloads_of_cong)

lemma snapshot_ok_cong:
  "snapshot_ok hash_new l (v\<lparr>va_source_state_sha256 := s, va_total_bytes := t\<rparr>) = snapshot_ok hash_new l v"
  by (simp add: snapshot_ok_def payloads_of_cong)

lemma snapshot_of_input_of:
  assumes "snapshot_ok hash_new l v"
  shows "snapshot_of (input_of v) (va_index_entries v) = v\<lparr>va_source_state_sha256 := [], va_total_bytes := 0\<rparr>"
proof -
  have "sorted (map raw_path (va_entries v))"
    using assms by (auto simp: snapshot_ok_def manifest_ok_iff ascending_iff strict_sorted_iff)
  then have "sort_key raw_path (va_entries v) = va_entries v" by (rule sort_key_id_if_sorted)
  then show ?thesis using assms by (simp add: snapshot_of_def input_of_def snapshot_ok_def)
qed

text \<open>C2: Decoding then encoding. The envelope is canonical: whatever \<^verbatim>\<open>decode_worktree_artifact\<close>
  accepts is exactly what \<^verbatim>\<open>encode_worktree_artifact\<close> produces from the verified snapshot.\<close>

theorem decode_encode:
  assumes sha: "\<And>x. length (sha256 x) = 32" and l: "limits_ok l"
    and dec: "decode_worktree_artifact sha256 hash_new data l = Inr v"
  shows "encode_worktree_artifact sha256 hash_new (input_of v) l = Inr data"
proof -
  have ok: "snapshot_ok hash_new l v" and d: "data = artifact_bytes sha256 v" "len data \<le> max_total_bytes l"
    using decodeD [OF sha l dec] by blast+
  have "va_root_oids v = expected_roots (va_head_oid v) (va_index_entries v)" using ok by (simp add: snapshot_ok_def)
  then show ?thesis unfolding encode_Inr [OF sha l]
    using ok d snapshot_of_input_of [OF ok] expected_roots_sorted(2)
    by (intro exI [of _ "va_index_entries v"]) (simp add: snapshot_ok_cong artifact_bytes_cong, simp add: input_of_def)
qed

lemma decode_encode_witness:
  "encode_worktree_artifact sample_sha256 sample_hash (input_of sample_snapshot) DEFAULT_ARTIFACT_LIMITS = Inr sample_data"
  by (rule decode_encode [OF sample_facts sample_decoded])

subsection \<open>Errors\<close>

lemma control_format_raises: "parse_control p l = Inr c \<Longrightarrow> only_raises K (dict_index format_oid_sizes (cf_object_format c))"
  by (drule parse_control_format) (auto simp: only_raises_def dict_index_def format_oid_sizes_def)

lemma sections_digests_raise:
  "parse_sections sha256 view l = Inr x \<Longrightarrow> x = (ds, ps) \<Longrightarrow> only_raises K (compute_source_state_sha256 sha256 ds)"
  unfolding parse_sections_def
  by (hypsubst, drule parse_sections_digests) (auto simp: only_raises_def compute_source_state_sha256_def rbind_Inl_iff list_ex_iff)

text \<open>C32: The decoder fails closed. On any input and any limits, the only exception it raises is
  \<^verbatim>\<open>WorktreeArtifactDecodeError\<close>: no lookup, conversion or digest-length error escapes.\<close>

theorem decode_errors:
  assumes "decode_worktree_artifact sha256 hash_new data l = Inl e"
  shows "\<exists>m. e = WorktreeArtifactDecodeError m"
proof -
  have "only_raises decode_error (decode_worktree_artifact sha256 hash_new data l)"
    unfolding decode_worktree_artifact_def
    by (intro raises_intros; ((rule exI, rule refl)
        | (erule control_format_raises, assumption?) | (erule sections_digests_raise, assumption)
        | (erule parse_control_format)))
  then show ?thesis using assms by (auto simp: only_raises_def)
qed

lemma decode_errors_witness:
  "\<exists>e. decode_worktree_artifact sample_sha256 sample_hash (sample_data @ [0]) DEFAULT_ARTIFACT_LIMITS = Inl e
     \<and> (\<exists>m. e = WorktreeArtifactDecodeError m)"
proof -
  have "\<not> is_ok (decode_worktree_artifact sample_sha256 sample_hash (sample_data @ [0]) DEFAULT_ARTIFACT_LIMITS)" by code_simp
  then obtain e where "decode_worktree_artifact sample_sha256 sample_hash (sample_data @ [0]) DEFAULT_ARTIFACT_LIMITS = Inl e"
    by (cases "decode_worktree_artifact sample_sha256 sample_hash (sample_data @ [0]) DEFAULT_ARTIFACT_LIMITS") auto
  with decode_errors [OF this] show ?thesis by blast
qed

text \<open>C33: The preflight of the encoder is sound. Under limits that \<^verbatim>\<open>ArtifactLimits\<close> accepts, the only exception
  \<^verbatim>\<open>encode_worktree_artifact\<close> raises is \<^verbatim>\<open>WorktreeArtifactEncodeError\<close>: no field overflows its width,
  no table lookup fails and the framed length always equals the length computed before framing.\<close>

theorem encode_errors:
  assumes sha: "\<And>x. length (sha256 x) = 32" and l: "limits_ok l"
    and enc: "encode_worktree_artifact sha256 hash_new a l = Inl e"
  shows "\<exists>m. e = WorktreeArtifactEncodeError m"
proof -
  have "only_raises encode_error (encode_checks hash_new a l)"
    unfolding encode_checks_def
    by (intro raises_intros) (auto simp: only_raises_def dict_index_def format_codes_def format_oid_sizes_def split: if_splits)
  moreover have "encode_checks hash_new a l \<noteq> Inr (n, ies)" for n ies
    using encodeD [OF sha l] enc by auto
  ultimately show ?thesis using enc
    by (cases "encode_checks hash_new a l") (auto simp: encode_split only_raises_def)
qed

lemma encode_errors_witness:
  "\<exists>e. encode_worktree_artifact sample_sha256 sample_hash (sample_input\<lparr>root_oids := []\<rparr>) DEFAULT_ARTIFACT_LIMITS = Inl e
     \<and> (\<exists>m. e = WorktreeArtifactEncodeError m)"
proof -
  let ?r = "encode_worktree_artifact sample_sha256 sample_hash (sample_input\<lparr>root_oids := []\<rparr>) DEFAULT_ARTIFACT_LIMITS"
  have "\<not> is_ok ?r" by code_simp
  then obtain e where "?r = Inl e" by (cases ?r) auto
  with encode_errors [OF sample_facts this] show ?thesis by blast
qed


subsection \<open>What an accepted artifact guarantees\<close>

lemma valid_raw_path_iff:
  "valid_raw_path l p \<longleftrightarrow> len p \<le> max_path_bytes l \<and> p \<noteq> [] \<and> \<not> starts_with p [47] \<and> 0 \<notin> set p
     \<and> len (split_on 47 p) \<le> max_depth l
     \<and> (\<forall>c \<in> set (split_on 47 p). c \<notin> {[], bytes_of ''.'', bytes_of ''..'', bytes_of ''.git''})"
  unfolding valid_raw_path_def is_ok_iff validate_raw_path_def Let_def rbind_Inr_iff raise_if_Inr list_ex_iff
  by (simp only: ex_simps simp_thms not_less de_Morgan_disj bex_simps conj_assoc)

lemma valid_parentsD:
  "valid_parents present p \<Longrightarrow> 0 < i \<Longrightarrow> i < length (split_on 47 p) \<Longrightarrow>
     dget present (join_on 47 (take i (split_on 47 p))) = Some Directory"
  by (auto simp: valid_parents_def is_ok_iff validate_topology_def Let_def check_all_unit)

lemma parents_ok_entry:
  "parents_ok present es \<Longrightarrow> e \<in> set es \<Longrightarrow> 0 < i \<Longrightarrow> i < length (split_on 47 (raw_path e)) \<Longrightarrow>
     dget present (join_on 47 (take i (split_on 47 (raw_path e)))) = Some Directory
     \<or> (\<exists>d \<in> set es. kind d = Directory \<and> raw_path d = join_on 47 (take i (split_on 47 (raw_path e))))"
proof (induction es arbitrary: present)
  case (Cons x es)
  show ?case
  proof (cases "e = x")
    case True
    then show ?thesis using Cons.prems valid_parentsD [of present "raw_path x" i] by simp
  next
    case False
    then have "e \<in> set es" using Cons.prems by simp
    from Cons.IH [of "dset present (raw_path x) (kind x)", OF _ this Cons.prems(3,4)] Cons.prems(1)
    show ?thesis by (auto split: if_splits)
  qed
qed simp

text \<open>C31: No path of an accepted artifact escapes the worktree. Every manifest path is relative, bounded, free of NUL
  bytes and of empty, \<^verbatim>\<open>.\<close>, \<^verbatim>\<open>..\<close> and \<^verbatim>\<open>.git\<close> components; every proper ancestor of it is itself a directory entry of
  the manifest (so no path goes through a symbolic link or a file); and the paths are strictly increasing.\<close>

theorem decode_paths_safe:
  assumes sha: "\<And>x. length (sha256 x) = 32" and l: "limits_ok l"
    and dec: "decode_worktree_artifact sha256 hash_new data l = Inr v"
  shows "sorted_wrt (<) (map raw_path (va_entries v))
    \<and> (\<forall>e \<in> set (va_entries v).
        len (raw_path e) \<le> max_path_bytes l \<and> raw_path e \<noteq> [] \<and> 0 \<notin> set (raw_path e) \<and> hd (raw_path e) \<noteq> 47
        \<and> (\<forall>c \<in> set (split_on 47 (raw_path e)). c \<notin> {[], bytes_of ''.'', bytes_of ''..'', bytes_of ''.git''})
        \<and> (\<forall>i. 0 < i \<and> i < length (split_on 47 (raw_path e)) \<longrightarrow>
             (\<exists>d \<in> set (va_entries v). kind d = Directory
                \<and> raw_path d = join_on 47 (take i (split_on 47 (raw_path e))))))"
proof -
  have m: "manifest_ok l manifest_start (va_entries v)"
    using decodeD [OF sha l dec] by (simp add: snapshot_ok_def)
  have asc: "sorted_wrt (<) (map raw_path (va_entries v))" and par: "parents_ok [] (va_entries v)"
    and shp: "\<forall>e \<in> set (va_entries v). valid_shape l e"
    using m by (simp_all add: manifest_ok_iff ascending_iff)
  have "valid_raw_path l (raw_path e) \<and> (\<forall>i. 0 < i \<and> i < length (split_on 47 (raw_path e)) \<longrightarrow>
      (\<exists>d \<in> set (va_entries v). kind d = Directory \<and> raw_path d = join_on 47 (take i (split_on 47 (raw_path e)))))"
    if "e \<in> set (va_entries v)" for e
    using shp that valid_shapeD parents_ok_entry [OF par that] by fastforce
  moreover have "\<not> starts_with p [47] \<Longrightarrow> p \<noteq> [] \<Longrightarrow> hd p \<noteq> 47" for p :: bytes
    by (cases p) (auto simp: starts_with_def)
  ultimately show ?thesis using asc unfolding valid_raw_path_iff by blast
qed

lemma decode_paths_safe_witness:
  "sorted_wrt (<) (map raw_path (va_entries sample_snapshot))
     \<and> (\<exists>d \<in> set (va_entries sample_snapshot). kind d = Directory \<and> raw_path d = bytes_of ''d'')"
proof -
  have "\<exists>e \<in> set (va_entries sample_snapshot). 1 < length (split_on 47 (raw_path e))
      \<and> join_on 47 (take 1 (split_on 47 (raw_path e))) = bytes_of ''d''"
    by code_simp
  then obtain e where e: "e \<in> set (va_entries sample_snapshot)" "1 < length (split_on 47 (raw_path e))"
    "join_on 47 (take 1 (split_on 47 (raw_path e))) = bytes_of ''d''" by blast
  note s = decode_paths_safe [OF sample_facts sample_decoded]
  then have "0 < (1 :: nat) \<and> 1 < length (split_on 47 (raw_path e)) \<longrightarrow>
      (\<exists>d \<in> set (va_entries sample_snapshot). kind d = Directory \<and> raw_path d = join_on 47 (take 1 (split_on 47 (raw_path e))))"
    using e(1) by blast
  then have "\<exists>d \<in> set (va_entries sample_snapshot). kind d = Directory \<and> raw_path d = bytes_of ''d''"
    unfolding e(3) using e(2) by (simp only: zero_less_one simp_thms)
  with s show ?thesis by blast
qed

definition index_entry_ok :: "artifact_limits \<Rightarrow> int \<Rightarrow> index_entry \<Rightarrow> bool" where
  "index_entry_ok l n e \<longleftrightarrow>
     valid_raw_path l (ix_raw_path e) \<and> ix_mode e \<in> {0x81A4, 0x81ED, 0xA000} \<and> len (ix_object_id e) = n
     \<and> (\<exists>b \<in> set (ix_object_id e). b \<noteq> 0) \<and> 0 \<le> ix_stage e \<and> ix_stage e \<le> 3"

definition index_precedes :: "bytes \<times> int \<Rightarrow> bytes \<times> int \<Rightarrow> bool" where
  "index_precedes a b \<longleftrightarrow> fst a < fst b \<or> fst a = fst b \<and> 0 < snd a \<and> snd a < snd b"

lemma stage_range: "0 \<le> drop_bit 12 ((f :: int) AND 0x3000)" "drop_bit 12 (f AND 0x3000) \<le> 3"
proof -
  have x: "0 \<le> x \<Longrightarrow> 0 \<le> x div 4096" "x \<le> 0x3000 \<Longrightarrow> x div 4096 \<le> 3" for x :: int by linarith+
  have r: "0 \<le> f AND 0x3000" "f AND 0x3000 \<le> 0x3000" by (simp_all add: AND_upper2')
  from r(1) [THEN x(1)] r(2) [THEN x(2)] show "0 \<le> drop_bit 12 (f AND 0x3000)" "drop_bit 12 (f AND 0x3000) \<le> 3"
    by (simp_all add: drop_bit_eq_div)
qed

lemma index_key_order:
  "k \<noteq> p \<Longrightarrow> \<not> index_entry_key_less k p \<Longrightarrow> \<not> (fst k = fst p \<and> (snd k = 0 \<or> snd p = 0)) \<Longrightarrow> 0 \<le> snd p \<Longrightarrow>
     index_precedes p k"
  by (cases k; cases p) (auto simp: index_entry_key_less_def index_precedes_def)

lemma parse_index_entry_sound:
  assumes p: "parse_index_entry v n l err pk rg = Inr (e, rest)" and n: "0 \<le> n" and pk: "\<forall>k. pk = Some k \<longrightarrow> 0 \<le> snd k"
  shows "index_entry_ok l n e \<and> (\<forall>k. pk = Some k \<longrightarrow> index_precedes k (ix_raw_path e, ix_stage e))"
proof -
  let ?fl = "int_from_bytes (slice rg (40 + n) (40 + n + 2))"
  from p [unfolded parse_index_entry_def Let_def rbind_Inr_iff raise_if_Inr validator_iffs split_paired_Ex prod.case list_ex_iff not_less]
  obtain path u and pad :: int and r where
    st: "40 + n + 2 \<le> len rg" "valid_raw_path l path"
      "\<not> int_from_bytes (slice rg 24 28) \<notin> set index_mode_regular" "\<not> \<not> (\<exists>b \<in> set (slice rg 40 (40 + n)). b \<noteq> 0)"
    and prev: "(case pk of None \<Rightarrow> Inr ()
             | Some prev \<Rightarrow>
                 rbind (raise_if ((path, drop_bit 12 (?fl AND 0x3000)) = prev) (err ''Git index entry key is duplicated'')) (\<lambda>_.
                 rbind (raise_if (index_entry_key_less (path, drop_bit 12 (?fl AND 0x3000)) prev)
                          (err ''Git index entries are not canonically ordered'')) (\<lambda>_.
                 raise_if (path = fst prev \<and> (drop_bit 12 (?fl AND 0x3000) = 0 \<or> snd prev = 0))
                   (err ''Git index stage zero cannot coexist with conflict stages'')))) = Inr u"
    and e: "Inr (\<lparr> ix_raw_path = path, ix_mode = int_from_bytes (slice rg 24 28), ix_object_id = slice rg 40 (40 + n),
             ix_stage = drop_bit 12 (?fl AND 0x3000),
             ix_intent_to_add = (pad AND 0x2000 \<noteq> 0), ix_skip_worktree = (pad AND 0x4000 \<noteq> 0),
             ix_assume_unchanged = (?fl AND 0x8000 \<noteq> 0) \<rparr>, r) = (Inr (e, rest) :: artifact_error + _)"
    by (elim exE conjE) (rule that)
  have e: "ix_raw_path e = path" "ix_mode e = int_from_bytes (slice rg 24 28)" "ix_object_id e = slice rg 40 (40 + n)"
      "ix_stage e = drop_bit 12 (?fl AND 0x3000)"
    using e by auto
  have st5: "\<forall>k. pk = Some k \<longrightarrow> (path, drop_bit 12 (?fl AND 0x3000)) \<noteq> k
         \<and> \<not> index_entry_key_less (path, drop_bit 12 (?fl AND 0x3000)) k
         \<and> \<not> (path = fst k \<and> (drop_bit 12 (?fl AND 0x3000) = 0 \<or> snd k = 0))"
    using prev by (auto simp: rbind_Inr_iff)
  have "len (slice rg 40 (40 + n)) = n" using st(1) n by (simp add: slice_def)
  then have "index_entry_ok l n e"
    using st stage_range [of ?fl] by (simp add: index_entry_ok_def e index_mode_regular_def)
  moreover have "index_precedes k (ix_raw_path e, ix_stage e)" if "pk = Some k" for k
    using st5 that pk by (intro index_key_order) (auto simp: e)
  ultimately show ?thesis by blast
qed

lemma index_precedes_trans: "index_precedes a b \<Longrightarrow> index_precedes b c \<Longrightarrow> index_precedes a c"
  by (auto simp: index_precedes_def)

lemma parse_index_entries_sound:
  assumes "parse_index_entries k v n l err pk rg = Inr (es, rest)" "0 \<le> n" "\<forall>q. pk = Some q \<longrightarrow> 0 \<le> snd q"
  shows "length es = k \<and> (\<forall>e \<in> set es. index_entry_ok l n e) \<and> sorted_wrt index_precedes (map (\<lambda>e. (ix_raw_path e, ix_stage e)) es)
    \<and> (\<forall>q. pk = Some q \<longrightarrow> (\<forall>e \<in> set es. index_precedes q (ix_raw_path e, ix_stage e)))"
  using assms
proof (induction k arbitrary: pk rg es)
  case (Suc k)
  from Suc.prems(1) obtain e rg' es' where e: "parse_index_entry v n l err pk rg = Inr (e, rg')"
    and es': "parse_index_entries k v n l err (Some (ix_raw_path e, ix_stage e)) rg' = Inr (es', rest)" and es: "es = e # es'"
    by (auto simp: rbind_Inr_iff)
  note s = parse_index_entry_sound [OF e Suc.prems(2,3)]
  have "0 \<le> ix_stage e" using s by (simp add: index_entry_ok_def)
  with Suc.IH [OF es' Suc.prems(2)] s show ?case
    by (auto simp: es intro: index_precedes_trans)
qed simp

text \<open>C34: What the Git index validator establishes: it returns as many entries as the header counts, each with a safe
  path, a supported mode, a non-zero object ID of the size of the object format and a stage of 0 to 3; the entries are strictly ordered by path
  and stage, and a path with a stage-zero entry has no conflict stages.\<close>

theorem parse_index_sound:
  assumes "parse_index hash_new ib fmt l err = Inr es"
  shows "len es = int_from_bytes (slice ib 8 12)
    \<and> (\<forall>e \<in> set es. index_entry_ok l (oid_size_of fmt) e)
    \<and> sorted_wrt index_precedes (map (\<lambda>e. (ix_raw_path e, ix_stage e)) es)
    \<and> hash_new fmt (take (length ib - nat (oid_size_of fmt)) ib) = drop (length ib - nat (oid_size_of fmt)) ib"
proof -
  from assms obtain n rest where n: "dict_index format_oid_sizes fmt = Inr n" and big: "12 \<le> len ib - n"
    and h: "hash_new fmt (take (nat (len ib - n)) ib) = drop (nat (len ib - n)) ib"
    and es: "parse_index_entries (nat (int_from_bytes (slice ib 8 12))) (int_from_bytes (slice ib 4 8)) n l err None
      (slice ib 12 (len ib - n)) = Inr (es, rest)"
    unfolding parse_index_def Let_def by (auto simp: result_simps not_less)
  have n': "n = oid_size_of fmt" using n by (simp add: table_iffs)
  have "nat (len ib - n) = length ib - nat n" using big n' oid_size_pos [of fmt] by (simp add: nat_diff_distrib)
  with h parse_index_entries_sound [OF es] oid_size_pos [of fmt] int_from_bytes_bounds [of "slice ib 8 12"]
  show ?thesis by (simp add: n')
qed

lemma parse_index_sound_witness:
  "\<exists>e. parse_index sample_hash sample_index ''sha1'' DEFAULT_ARTIFACT_LIMITS WorktreeArtifactDecodeError = Inr [e]
     \<and> index_entry_ok DEFAULT_ARTIFACT_LIMITS 20 e"
proof -
  let ?r = "parse_index sample_hash sample_index ''sha1'' DEFAULT_ARTIFACT_LIMITS WorktreeArtifactDecodeError"
  have "case ?r of Inl _ \<Rightarrow> False | Inr es \<Rightarrow> length es = 1" by code_simp
  then obtain e where r: "?r = Inr [e]" by (auto simp: length_Suc_conv split: sum.splits)
  from parse_index_sound [OF this] show ?thesis using r by (simp add: oid_size_of_def)
qed

end
