(* ===== verification/Encrypted_Uploads.thy ===== *)
theory Encrypted_Uploads
  imports Yinshi_Prelude
begin

section \<open>Encrypted runner uploads\<close>

text \<open>
  Model of \<^verbatim>\<open>services/encrypted_uploads.py\<close>: an owner-scoped, bounded, in-memory assembly of
  file uploads from retry-safe chunks. The manager is a record; every method takes the
  manager and returns its result and the manager afterwards. Readings of the clock and
  the fresh identifier of \<^verbatim>\<open>uuid.uuid4().hex\<close> are arguments, in the order in which the method
  makes them. \<open>hexdigest\<close> is \<^verbatim>\<open>hashlib.sha256(...).hexdigest()\<close>. Dropping an upload removes its
  entry; the overwriting of the dropped \<^verbatim>\<open>bytearray\<close> with zeros has no effect on the state of the manager and is not modelled.
\<close>

subsection \<open>State\<close>

definition UPLOAD_BYTES_MAX :: int where "UPLOAD_BYTES_MAX = 50 * 1024 * 1024"
definition UPLOAD_BYTES_RESERVED_MAX :: int where "UPLOAD_BYTES_RESERVED_MAX = 100 * 1024 * 1024"
definition UPLOAD_COUNT_MAX :: nat where "UPLOAD_COUNT_MAX = 8"
definition UPLOAD_CHUNK_BYTES_MAX :: int where "UPLOAD_CHUNK_BYTES_MAX = 24000"
definition UPLOAD_LIFETIME_SECONDS :: clock where "UPLOAD_LIFETIME_SECONDS = 15 * 60"

record encrypted_upload =
  eu_id :: string
  eu_purpose :: string
  eu_filename :: string
  eu_size_bytes :: int
  eu_next_chunk_index :: int

record completed_upload =
  cu_purpose :: string
  cu_filename :: string
  cu_data :: bytes

record upload_state =
  us_id :: string
  us_user_id :: string
  us_purpose :: string
  us_filename :: string
  us_size_bytes :: int
  us_sha256_hex :: string
  us_expires_at :: clock
  us_data :: bytes
  us_chunk_digests :: "(int \<times> string) list"

record upload_manager =
  uploads :: "(string, upload_state) pydict"

definition new_upload_manager :: upload_manager where
  "new_upload_manager = \<lparr> uploads = [] \<rparr>"

subsection \<open>Validators\<close>

definition validate_user_id :: "string \<Rightarrow> py_error + unit" where
  "validate_user_id user_id =
     raise_if (user_id = [] \<or> length user_id > 256) (ValueErr ''encrypted upload user_id is invalid'')"

definition validate_upload_id :: "string \<Rightarrow> py_error + unit" where
  "validate_upload_id upload_id =
     raise_if (length upload_id \<noteq> 32 \<or> \<not> is_lower_hex upload_id) (ValueErr ''encrypted upload ID is invalid'')"

definition validate_metadata :: "string \<Rightarrow> string \<Rightarrow> int \<Rightarrow> string \<Rightarrow> py_error + unit" where
  "validate_metadata purpose filename size_bytes sha256_hex =
     rbind (raise_if (purpose \<noteq> ''pi_config'') (ValueErr ''encrypted upload purpose is unsupported'')) (\<lambda>_.
     rbind (raise_if (filename = [] \<or> length filename > 255 \<or> filename \<noteq> str_strip filename
                      \<or> CHR ''/'' \<in> set filename \<or> CHR 0x5C \<in> set filename
                      \<or> \<not> ends_with (map ascii_lower filename) ''.zip'')
              (ValueErr ''encrypted upload filename must be a simple zip name'')) (\<lambda>_.
     rbind (raise_if (\<not> (1 \<le> size_bytes \<and> size_bytes \<le> UPLOAD_BYTES_MAX))
              (ValueErr ''encrypted upload size is invalid'')) (\<lambda>_.
     raise_if (length sha256_hex \<noteq> 64 \<or> \<not> is_lower_hex sha256_hex)
       (ValueErr ''encrypted upload SHA-256 is invalid''))))"

definition public_upload :: "upload_state \<Rightarrow> encrypted_upload" where
  "public_upload s =
     \<lparr> eu_id = us_id s, eu_purpose = us_purpose s, eu_filename = us_filename s,
       eu_size_bytes = us_size_bytes s, eu_next_chunk_index = int (length (us_chunk_digests s)) \<rparr>"

subsection \<open>Operations\<close>

definition expired :: "clock \<Rightarrow> upload_state \<Rightarrow> bool" where
  "expired now s \<longleftrightarrow> us_expires_at s \<le> now"

definition reap_expired :: "clock \<Rightarrow> upload_manager \<Rightarrow> upload_manager" where
  "reap_expired now m =
     \<lparr> uploads = filter (\<lambda>(k, s). \<not> expired now s) (uploads m) \<rparr>"

definition reserved_bytes :: "upload_manager \<Rightarrow> int" where
  "reserved_bytes m = sum_list (map us_size_bytes (dvalues (uploads m)))"

definition upload_start ::
  "string \<Rightarrow> string \<Rightarrow> string \<Rightarrow> int \<Rightarrow> string \<Rightarrow> clock \<Rightarrow> string \<Rightarrow> clock \<Rightarrow> upload_manager
     \<Rightarrow> (py_error + encrypted_upload) \<times> upload_manager" where
  "upload_start user_id purpose filename size_bytes sha256_hex now fresh_id now' m =
     (case rbind (validate_user_id user_id) (\<lambda>_. validate_metadata purpose filename size_bytes sha256_hex) of
        Inl e \<Rightarrow> (Inl e, m)
      | Inr _ \<Rightarrow>
          let m1 = reap_expired now m in
          if length (uploads m1) \<ge> UPLOAD_COUNT_MAX then
            (Inl (RuntimeErr ''encrypted upload count limit reached''), m1)
          else if reserved_bytes m1 + size_bytes > UPLOAD_BYTES_RESERVED_MAX then
            (Inl (RuntimeErr ''encrypted upload byte limit reached''), m1)
          else if dget (uploads m1) fresh_id \<noteq> None then
            (Inl (RuntimeErr ''encrypted upload ID collision''), m1)
          else
            let s = \<lparr> us_id = fresh_id, us_user_id = user_id, us_purpose = purpose, us_filename = filename,
                      us_size_bytes = size_bytes, us_sha256_hex = sha256_hex,
                      us_expires_at = now' + UPLOAD_LIFETIME_SECONDS, us_data = [], us_chunk_digests = [] \<rparr>
            in (Inr (public_upload s), m1\<lparr>uploads := dset (uploads m1) fresh_id s\<rparr>))"

definition owned_upload ::
  "string \<Rightarrow> string \<Rightarrow> clock \<Rightarrow> upload_manager \<Rightarrow> (py_error + upload_state) \<times> upload_manager" where
  "owned_upload user_id upload_id now m =
     (case rbind (validate_user_id user_id) (\<lambda>_. validate_upload_id upload_id) of
        Inl e \<Rightarrow> (Inl e, m)
      | Inr _ \<Rightarrow>
          let m1 = reap_expired now m in
          (case dget (uploads m1) upload_id of
             None \<Rightarrow> (Inl (LookupErr ''encrypted upload not found''), m1)
           | Some s \<Rightarrow>
               if us_user_id s \<noteq> user_id then (Inl (LookupErr ''encrypted upload not found''), m1)
               else (Inr s, m1)))"

definition upload_append ::
  "(bytes \<Rightarrow> string) \<Rightarrow> string \<Rightarrow> string \<Rightarrow> int \<Rightarrow> bytes \<Rightarrow> clock \<Rightarrow> clock \<Rightarrow> upload_manager
     \<Rightarrow> (py_error + encrypted_upload) \<times> upload_manager" where
  "upload_append hexdigest user_id upload_id chunk_index chunk now now' m =
     (case owned_upload user_id upload_id now m of
        (Inl e, m1) \<Rightarrow> (Inl e, m1)
      | (Inr s, m1) \<Rightarrow>
          if chunk_index < 0 then
            (Inl (ValueErr ''encrypted upload chunk_index must be non-negative''), m1)
          else if chunk = [] \<or> int (length chunk) > UPLOAD_CHUNK_BYTES_MAX then
            (Inl (ValueErr ''encrypted upload chunk has an invalid length''), m1)
          else
            let chunk_digest = hexdigest chunk;
                next_chunk_index = int (length (us_chunk_digests s))
            in
            if chunk_index < next_chunk_index then
              (let (stored_length, stored_digest) = us_chunk_digests s ! nat chunk_index in
               if stored_length \<noteq> int (length chunk) \<or> stored_digest \<noteq> chunk_digest
               then (Inl (ValueErr ''encrypted upload retry does not match stored chunk''), m1)
               else (Inr (public_upload s), m1))
            else if chunk_index \<noteq> next_chunk_index then
              (Inl (ValueErr ''encrypted upload chunk sequence is not contiguous''), m1)
            else if int (length (us_data s)) + int (length chunk) > us_size_bytes s then
              (Inl (ValueErr ''encrypted upload exceeds declared size''), m1)
            else
              let s' = s\<lparr> us_data := us_data s @ chunk,
                         us_chunk_digests := us_chunk_digests s @ [(int (length chunk), chunk_digest)],
                         us_expires_at := now' + UPLOAD_LIFETIME_SECONDS \<rparr>
              in (Inr (public_upload s'), m1\<lparr>uploads := dset (uploads m1) upload_id s'\<rparr>))"

definition upload_complete ::
  "(bytes \<Rightarrow> string) \<Rightarrow> string \<Rightarrow> string \<Rightarrow> clock \<Rightarrow> upload_manager
     \<Rightarrow> (py_error + completed_upload) \<times> upload_manager" where
  "upload_complete hexdigest user_id upload_id now m =
     (case owned_upload user_id upload_id now m of
        (Inl e, m1) \<Rightarrow> (Inl e, m1)
      | (Inr s, m1) \<Rightarrow>
          let m2 = m1\<lparr>uploads := dpop (uploads m1) upload_id\<rparr> in
          if int (length (us_data s)) \<noteq> us_size_bytes s then
            (Inl (ValueErr ''encrypted upload size does not match declaration''), m2)
          else if hexdigest (us_data s) \<noteq> us_sha256_hex s then
            (Inl (ValueErr ''encrypted upload digest does not match declaration''), m2)
          else
            (Inr \<lparr> cu_purpose = us_purpose s, cu_filename = us_filename s, cu_data = us_data s \<rparr>, m2))"

definition upload_cancel ::
  "string \<Rightarrow> string \<Rightarrow> upload_manager \<Rightarrow> (py_error + unit) \<times> upload_manager" where
  "upload_cancel user_id upload_id m =
     (case rbind (validate_user_id user_id) (\<lambda>_. validate_upload_id upload_id) of
        Inl e \<Rightarrow> (Inl e, m)
      | Inr _ \<Rightarrow>
          (case dget (uploads m) upload_id of
             None \<Rightarrow> (Inr (), m)
           | Some s \<Rightarrow>
               if us_user_id s \<noteq> user_id then (Inl (LookupErr ''encrypted upload not found''), m)
               else (Inr (), \<lparr> uploads = dpop (uploads m) upload_id \<rparr>)))"

subsection \<open>Invariant\<close>

text \<open>
  What is kept of an upload: the metadata passed validation, and the buffer is the
  concatenation of the accepted chunks, whose lengths and digests are recorded.
\<close>

definition chunks_recorded :: "(bytes \<Rightarrow> string) \<Rightarrow> upload_state \<Rightarrow> bytes list \<Rightarrow> bool" where
  "chunks_recorded hexdigest s cs \<longleftrightarrow>
     us_data s = concat cs \<and> us_chunk_digests s = map (\<lambda>c. (int (length c), hexdigest c)) cs
     \<and> (\<forall>c \<in> set cs. c \<noteq> [] \<and> int (length c) \<le> UPLOAD_CHUNK_BYTES_MAX)"

definition upload_ok :: "(bytes \<Rightarrow> string) \<Rightarrow> string \<Rightarrow> upload_state \<Rightarrow> bool" where
  "upload_ok hexdigest k s \<longleftrightarrow>
     us_id s = k \<and> is_ok (validate_user_id (us_user_id s))
     \<and> is_ok (validate_metadata (us_purpose s) (us_filename s) (us_size_bytes s) (us_sha256_hex s))
     \<and> int (length (us_data s)) \<le> us_size_bytes s \<and> (\<exists>cs. chunks_recorded hexdigest s cs)"

definition uploads_inv :: "(bytes \<Rightarrow> string) \<Rightarrow> upload_manager \<Rightarrow> bool" where
  "uploads_inv hexdigest m \<longleftrightarrow>
     dict_ok (uploads m) \<and> dict.every (upload_ok hexdigest) (uploads m)
     \<and> length (uploads m) \<le> UPLOAD_COUNT_MAX \<and> reserved_bytes m \<le> UPLOAD_BYTES_RESERVED_MAX"

lemma upload_ok_size: "upload_ok hexdigest k s \<Longrightarrow> 1 \<le> us_size_bytes s \<and> us_size_bytes s \<le> UPLOAD_BYTES_MAX"
  by (simp add: upload_ok_def is_ok_iff validate_metadata_def result_simps)

lemma inv_sizes: "uploads_inv hexdigest m \<Longrightarrow> (k, s) \<in> set (uploads m) \<Longrightarrow> 0 \<le> us_size_bytes s"
  using upload_ok_size [of hexdigest k s] by (auto simp: uploads_inv_def dict.every_def)

lemma inv_dget: "uploads_inv hexdigest m \<Longrightarrow> dget (uploads m) k = Some s \<Longrightarrow> upload_ok hexdigest k s"
  by (simp add: uploads_inv_def dict.every_def)

lemma inv_filter:
  assumes inv: "uploads_inv hexdigest m" and m': "uploads m' = filter P (uploads m)"
  shows "uploads_inv hexdigest m'"
proof -
  have "dict.every (upload_ok hexdigest) (uploads m')"
    using inv by (auto simp: m' uploads_inv_def dict.every_def dict_ok_filter)
  moreover have "length (uploads m') \<le> UPLOAD_COUNT_MAX"
    using inv unfolding m' uploads_inv_def by (blast intro: le_trans [OF length_filter_le])
  moreover have "reserved_bytes m' \<le> reserved_bytes m"
    using sum_filter_le [of "uploads m" "\<lambda>p. us_size_bytes (snd p)" P] inv_sizes [OF inv]
    by (force simp: m' reserved_bytes_def comp_def)
  ultimately show ?thesis using inv by (simp add: uploads_inv_def m' dict_ok_filter)
qed

lemma reap_inv: "uploads_inv hexdigest m \<Longrightarrow> uploads_inv hexdigest (reap_expired now m)"
  by (erule inv_filter) (simp add: reap_expired_def)

lemma pop_inv: "uploads_inv hexdigest m \<Longrightarrow> uploads m' = dpop (uploads m) k \<Longrightarrow> uploads_inv hexdigest m'"
  by (erule inv_filter) (simp add: AList.delete_eq)

lemma add_inv:
  assumes inv: "uploads_inv hexdigest m" and "upload_ok hexdigest k s" "dget (uploads m) k = None"
    and "length (uploads m) < UPLOAD_COUNT_MAX" "reserved_bytes m + us_size_bytes s \<le> UPLOAD_BYTES_RESERVED_MAX"
  shows "uploads_inv hexdigest (m\<lparr>uploads := dset (uploads m) k s\<rparr>)"
  using assms by (auto simp: uploads_inv_def dict.every_def length_dset dset_absent reserved_bytes_def split: if_splits)

lemma replace_inv:
  assumes inv: "uploads_inv hexdigest m" and "upload_ok hexdigest k s'" "dget (uploads m) k = Some s"
    and "us_size_bytes s' = us_size_bytes s"
  shows "uploads_inv hexdigest (m\<lparr>uploads := dset (uploads m) k s'\<rparr>)"
  using assms map_dvalues_dset [of "uploads m" k s us_size_bytes s']
  by (auto simp: uploads_inv_def dict.every_def length_dset reserved_bytes_def)

lemma owned_upload_Inr:
  "owned_upload user k now m = (Inr s, m1) \<longleftrightarrow>
     is_ok (validate_user_id user) \<and> is_ok (validate_upload_id k) \<and> m1 = reap_expired now m
     \<and> dget (uploads m1) k = Some s \<and> us_user_id s = user"
  by (auto simp: owned_upload_def is_ok_iff Let_def result_simps rbind_Inl_iff split: sum.splits option.splits if_splits)

lemma owned_upload_state:
  "owned_upload user k now m = (r, m1) \<Longrightarrow> m1 = m \<or> m1 = reap_expired now m"
  by (auto simp: owned_upload_def Let_def split: sum.splits option.splits if_splits)

lemma owned_inv: "uploads_inv hexdigest m \<Longrightarrow> owned_upload user k now m = (r, m1) \<Longrightarrow> uploads_inv hexdigest m1"
  using owned_upload_state reap_inv by blast

lemma start_inv:
  assumes "uploads_inv hexdigest m"
  shows "uploads_inv hexdigest (snd (upload_start user purpose filename sz sha now fresh now' m))"
proof (cases "rbind (validate_user_id user) (\<lambda>_. validate_metadata purpose filename sz sha)")
  case (Inr u)
  have "upload_ok hexdigest fresh \<lparr> us_id = fresh, us_user_id = user, us_purpose = purpose, us_filename = filename,
      us_size_bytes = sz, us_sha256_hex = sha, us_expires_at = now' + UPLOAD_LIFETIME_SECONDS, us_data = [], us_chunk_digests = [] \<rparr>"
    using Inr by (auto simp: upload_ok_def is_ok_iff rbind_Inr_iff chunks_recorded_def validate_metadata_def)
  then show ?thesis using Inr reap_inv [OF assms, of now]
    by (auto simp: upload_start_def Let_def not_le not_less intro!: add_inv)
qed (simp add: upload_start_def assms)

lemma chunks_recorded_snoc:
  "chunks_recorded hexdigest s cs \<Longrightarrow> c \<noteq> [] \<Longrightarrow> int (length c) \<le> UPLOAD_CHUNK_BYTES_MAX \<Longrightarrow>
     chunks_recorded hexdigest (s\<lparr>us_data := us_data s @ c,
       us_chunk_digests := us_chunk_digests s @ [(int (length c), hexdigest c)], us_expires_at := t\<rparr>) (cs @ [c])"
  by (auto simp: chunks_recorded_def)

lemma append_inv:
  assumes "uploads_inv hexdigest m"
  shows "uploads_inv hexdigest (snd (upload_append hexdigest user k i c now now' m))"
proof -
  obtain r m1 where own: "owned_upload user k now m = (r, m1)" by (cases "owned_upload user k now m")
  have inv1: "uploads_inv hexdigest m1" using owned_inv [OF assms own] .
  show ?thesis
  proof (cases r)
    case (Inr s)
    have s: "dget (uploads m1) k = Some s" using own Inr by (auto simp: owned_upload_Inr)
    have ok: "upload_ok hexdigest k s" using inv_dget [OF inv1 s] .
    have "upload_ok hexdigest k (s\<lparr>us_data := us_data s @ c,
        us_chunk_digests := us_chunk_digests s @ [(int (length c), hexdigest c)], us_expires_at := now' + UPLOAD_LIFETIME_SECONDS\<rparr>)"
      if "c \<noteq> []" "int (length c) \<le> UPLOAD_CHUNK_BYTES_MAX" "int (length (us_data s)) + int (length c) \<le> us_size_bytes s"
      using ok that chunks_recorded_snoc [of hexdigest s _ c] by (auto simp: upload_ok_def)
    then show ?thesis using inv1 s
      by (auto simp: upload_append_def own Inr Let_def not_less intro!: replace_inv split: prod.splits)
  qed (simp add: upload_append_def own inv1)
qed

lemma complete_inv:
  assumes "uploads_inv hexdigest m"
  shows "uploads_inv hexdigest (snd (upload_complete hexdigest user k now m))"
proof -
  obtain r m1 where own: "owned_upload user k now m = (r, m1)" by (cases "owned_upload user k now m")
  then show ?thesis using owned_inv [OF assms own]
    by (auto simp: upload_complete_def Let_def split: sum.splits elim!: pop_inv)
qed

lemma cancel_inv:
  assumes "uploads_inv hexdigest m"
  shows "uploads_inv hexdigest (snd (upload_cancel user k m))"
  using assms by (auto simp: upload_cancel_def split: sum.splits option.splits intro: pop_inv)


subsection \<open>Runs of the manager\<close>

inductive upload_step :: "(bytes \<Rightarrow> string) \<Rightarrow> upload_manager \<Rightarrow> upload_manager \<Rightarrow> bool" for hexdigest where
  step_start: "upload_step hexdigest m (snd (upload_start user purpose filename sz sha now fresh now' m))"
| step_append: "upload_step hexdigest m (snd (upload_append hexdigest user k i c now now' m))"
| step_complete: "upload_step hexdigest m (snd (upload_complete hexdigest user k now m))"
| step_cancel: "upload_step hexdigest m (snd (upload_cancel user k m))"

interpretation uploads: safe_system "\<lambda>m. m = new_upload_manager" "upload_step h" "uploads_inv h" for h
proof
  show "uploads_inv h m" if "m = new_upload_manager" for m
    using that by (simp add: uploads_inv_def new_upload_manager_def dict.every_def reserved_bytes_def UPLOAD_BYTES_RESERVED_MAX_def)
  show "uploads_inv h n" if "uploads_inv h m" "upload_step h m n" for m n
    using that(2,1) by cases (auto intro: start_inv append_inv complete_inv cancel_inv)
qed

text \<open>C36: In every run of the upload manager, whatever the callers, clocks and identifiers: at most
  eight uploads and 100 MiB of declared size are held, every upload is stored under its own ID, has not received
  more than its declared size, which is at most 50 MiB, and its buffer is exactly the concatenation
  of the accepted chunks, whose lengths and digests are the recorded ones.\<close>

theorem uploads_bounded:
  assumes "reach (\<lambda>m. m = new_upload_manager) (upload_step hexdigest) m"
  shows "length (uploads m) \<le> 8 \<and> reserved_bytes m \<le> 104857600
    \<and> (\<forall>k s. dget (uploads m) k = Some s \<longrightarrow>
        us_id s = k \<and> int (length (us_data s)) \<le> us_size_bytes s \<and> us_size_bytes s \<le> 52428800
        \<and> (\<exists>cs. us_data s = concat cs \<and> us_chunk_digests s = map (\<lambda>c. (int (length c), hexdigest c)) cs))"
proof -
  have inv: "uploads_inv hexdigest m" by (rule uploads.reach_inv [OF assms])
  have "us_id s = k \<and> int (length (us_data s)) \<le> us_size_bytes s \<and> us_size_bytes s \<le> 52428800
        \<and> (\<exists>cs. us_data s = concat cs \<and> us_chunk_digests s = map (\<lambda>c. (int (length c), hexdigest c)) cs)"
    if "dget (uploads m) k = Some s" for k s
    using inv_dget [OF inv that] upload_ok_size [of hexdigest k s]
    by (auto simp: upload_ok_def chunks_recorded_def UPLOAD_BYTES_MAX_def)
  then show ?thesis using inv by (simp add: uploads_inv_def UPLOAD_COUNT_MAX_def UPLOAD_BYTES_RESERVED_MAX_def)
qed

subsection \<open>A whole upload\<close>

definition owns :: "upload_manager \<Rightarrow> string \<Rightarrow> string \<Rightarrow> upload_state \<Rightarrow> bool" where
  "owns m user k s \<longleftrightarrow> dict_ok (uploads m) \<and> dget (uploads m) k = Some s \<and> us_user_id s = user
     \<and> is_ok (validate_user_id user) \<and> is_ok (validate_upload_id k)"

lemma reap_dget:
  "dict_ok (uploads m) \<Longrightarrow> dget (uploads m) k = Some s \<Longrightarrow> \<not> expired now s \<Longrightarrow> dget (uploads (reap_expired now m)) k = Some s"
  by (simp add: reap_expired_def dget_filter)

lemma reap_dict_ok: "dict_ok (uploads m) \<Longrightarrow> dict_ok (uploads (reap_expired now m))"
  by (simp add: reap_expired_def dict_ok_filter)

lemma owns_owned: "owns m user k s \<Longrightarrow> \<not> expired now s \<Longrightarrow> owned_upload user k now m = (Inr s, reap_expired now m)"
  by (simp add: owns_def owned_upload_Inr reap_dget)

lemma append_accepts:
  assumes own: "owns m user k s" and live: "\<not> expired now s" and cs: "chunks_recorded hexdigest s cs"
    and c: "c \<noteq> []" "int (length c) \<le> UPLOAD_CHUNK_BYTES_MAX" "int (length (us_data s)) + int (length c) \<le> us_size_bytes s"
  shows "\<exists>s'. owns (snd (upload_append hexdigest user k (int (length cs)) c now now' m)) user k s'
    \<and> chunks_recorded hexdigest s' (cs @ [c]) \<and> us_expires_at s' = now' + UPLOAD_LIFETIME_SECONDS
    \<and> us_size_bytes s' = us_size_bytes s \<and> us_sha256_hex s' = us_sha256_hex s
    \<and> us_purpose s' = us_purpose s \<and> us_filename s' = us_filename s"
proof -
  let ?s = "s\<lparr>us_data := us_data s @ c, us_chunk_digests := us_chunk_digests s @ [(int (length c), hexdigest c)],
    us_expires_at := now' + UPLOAD_LIFETIME_SECONDS\<rparr>"
  have n: "length (us_chunk_digests s) = length cs" using cs by (simp add: chunks_recorded_def)
  have "snd (upload_append hexdigest user k (int (length cs)) c now now' m)
      = (reap_expired now m)\<lparr>uploads := dset (uploads (reap_expired now m)) k ?s\<rparr>"
    using c by (simp add: upload_append_def owns_owned [OF own live] Let_def n)
  moreover have "owns \<dots> user k ?s"
    using own by (simp add: owns_def reap_dict_ok)
  ultimately show ?thesis using chunks_recorded_snoc [OF cs c(1,2)] by (intro exI [of _ ?s]) simp
qed

text \<open>The client's chunk calls in order, each with the two clock readings it makes.\<close>

fun send_chunks ::
  "(bytes \<Rightarrow> string) \<Rightarrow> string \<Rightarrow> string \<Rightarrow> nat \<Rightarrow> (bytes \<times> clock \<times> clock) list \<Rightarrow> upload_manager \<Rightarrow> upload_manager" where
  "send_chunks hexdigest user k i [] m = m"
| "send_chunks hexdigest user k i ((c, now, now') # rest) m =
     send_chunks hexdigest user k (Suc i) rest (snd (upload_append hexdigest user k (int i) c now now' m))"

fun in_time :: "clock \<Rightarrow> (bytes \<times> clock \<times> clock) list \<Rightarrow> clock \<Rightarrow> bool" where
  "in_time expiry [] finish \<longleftrightarrow> finish < expiry"
| "in_time expiry ((c, now, now') # rest) finish \<longleftrightarrow> now < expiry \<and> in_time (now' + UPLOAD_LIFETIME_SECONDS) rest finish"

lemma send_chunks_complete:
  assumes "owns m user k s" "chunks_recorded hexdigest s cs" "in_time (us_expires_at s) xs finish"
    and "\<forall>(c, t) \<in> set xs. c \<noteq> [] \<and> int (length c) \<le> UPLOAD_CHUNK_BYTES_MAX"
    and "int (length (concat (cs @ map fst xs))) = us_size_bytes s" "hexdigest (concat (cs @ map fst xs)) = us_sha256_hex s"
  shows "fst (upload_complete hexdigest user k finish (send_chunks hexdigest user k (length cs) xs m)) =
    Inr \<lparr> cu_purpose = us_purpose s, cu_filename = us_filename s, cu_data = concat (cs @ map fst xs) \<rparr>"
  using assms
proof (induction xs arbitrary: m s cs)
  case Nil
  then have "owned_upload user k finish m = (Inr s, reap_expired finish m)" by (simp add: owns_owned expired_def)
  then show ?case using Nil.prems by (simp add: upload_complete_def Let_def chunks_recorded_def)
next
  case (Cons x xs)
  obtain c now now' where x: "x = (c, now, now')" by (cases x)
  have live: "\<not> expired now s" using Cons.prems(3) by (simp add: x expired_def)
  have len: "int (length (us_data s)) + int (length c) \<le> us_size_bytes s"
    using Cons.prems(2,5) by (simp add: x chunks_recorded_def)
  obtain s' where s': "owns (snd (upload_append hexdigest user k (int (length cs)) c now now' m)) user k s'"
    "chunks_recorded hexdigest s' (cs @ [c])" "us_expires_at s' = now' + UPLOAD_LIFETIME_SECONDS"
    "us_size_bytes s' = us_size_bytes s" "us_sha256_hex s' = us_sha256_hex s" "us_purpose s' = us_purpose s" "us_filename s' = us_filename s"
    using append_accepts [OF Cons.prems(1) live Cons.prems(2), of c now'] Cons.prems(4) len by (auto simp: x)
  show ?case using Cons.IH [OF s'(1,2)] Cons.prems(3-6) s' by (simp add: x)
qed

text \<open>C40: A whole upload. After a successful \<^verbatim>\<open>start\<close>, sending the chunks of a file in order and then
  \<^verbatim>\<open>complete\<close>, each call within the lifetime renewed by the previous one, returns exactly the file, provided its size and
  digest are the declared ones and every chunk is within the chunk limit.\<close>

theorem upload_roundtrip:
  assumes start: "upload_start user purpose filename sz sha now k now' m = (Inr u, m1)" and "dict_ok (uploads m)"
    and k: "is_ok (validate_upload_id k)"
    and xs: "\<forall>(c, t) \<in> set xs. c \<noteq> [] \<and> int (length c) \<le> UPLOAD_CHUNK_BYTES_MAX"
    and time: "in_time (now' + UPLOAD_LIFETIME_SECONDS) xs finish"
    and content: "int (length (concat (map fst xs))) = sz" "hexdigest (concat (map fst xs)) = sha"
  shows "fst (upload_complete hexdigest user k finish (send_chunks hexdigest user k 0 xs m1)) =
    Inr \<lparr> cu_purpose = purpose, cu_filename = filename, cu_data = concat (map fst xs) \<rparr>"
proof -
  let ?s = "\<lparr> us_id = k, us_user_id = user, us_purpose = purpose, us_filename = filename, us_size_bytes = sz,
    us_sha256_hex = sha, us_expires_at = now' + UPLOAD_LIFETIME_SECONDS, us_data = [], us_chunk_digests = [] \<rparr>"
  have "is_ok (validate_user_id user)" "m1 = (reap_expired now m)\<lparr>uploads := dset (uploads (reap_expired now m)) k ?s\<rparr>"
    using start by (auto simp: upload_start_def Let_def is_ok_iff rbind_Inr_iff split: sum.splits if_splits)
  then have "owns m1 user k ?s" using assms(2) k by (simp add: owns_def reap_dict_ok)
  moreover have "chunks_recorded hexdigest ?s []" by (simp add: chunks_recorded_def)
  ultimately show ?thesis
    using send_chunks_complete [of m1 user k ?s hexdigest "[]" xs finish] xs time content by simp
qed


subsection \<open>A concrete upload\<close>

definition sample_hex :: "bytes \<Rightarrow> string" where
  "sample_hex d = replicate 64 (if d = [1, 2, 3] then CHR ''a'' else CHR ''b'')"

definition sample_id :: string where
  "sample_id = replicate 32 (CHR ''0'')"

definition sample_started :: upload_manager where
  "sample_started = snd (upload_start ''alice'' ''pi_config'' ''pi.ZIP'' 3 (replicate 64 (CHR ''a'')) 0 sample_id 1 new_upload_manager)"

definition sample_half :: upload_manager where
  "sample_half = snd (upload_append sample_hex ''alice'' sample_id 0 [1, 2] 2 3 sample_started)"

definition sample_state :: upload_state where
  "sample_state = \<lparr> us_id = sample_id, us_user_id = ''alice'', us_purpose = ''pi_config'', us_filename = ''pi.ZIP'', us_size_bytes = 3,
     us_sha256_hex = replicate 64 (CHR ''a''), us_expires_at = 903, us_data = [1, 2],
     us_chunk_digests = [(2, replicate 64 (CHR ''b''))] \<rparr>"

lemma sample_start_ok:
  "fst (upload_start ''alice'' ''pi_config'' ''pi.ZIP'' 3 (replicate 64 (CHR ''a'')) 0 sample_id 1 new_upload_manager)
    = Inr \<lparr> eu_id = sample_id, eu_purpose = ''pi_config'', eu_filename = ''pi.ZIP'', eu_size_bytes = 3, eu_next_chunk_index = 0 \<rparr>"
  by code_simp

lemma sample_owned: "owns sample_half ''alice'' sample_id sample_state"
  by code_simp


lemma sample_live: "\<not> expired 4 sample_state"
  by (simp add: expired_def sample_state_def)

lemma sample_chunks: "chunks_recorded sample_hex sample_state [[1, 2]]"
  by (simp add: chunks_recorded_def sample_state_def sample_hex_def UPLOAD_CHUNK_BYTES_MAX_def)

lemma sample_reach: "reach (\<lambda>m. m = new_upload_manager) (upload_step sample_hex) sample_half"
  unfolding sample_half_def sample_started_def 
  by (rule reach_step, rule reach_step, rule reach_init, rule refl, rule step_start, rule step_append)

lemma uploads_bounded_witness:
  "length (uploads sample_half) \<le> 8 \<and> (\<exists>cs. us_data sample_state = concat cs)"
  using uploads_bounded [OF sample_reach] sample_owned unfolding owns_def by blast

lemma upload_roundtrip_witness:
  "fst (upload_complete sample_hex ''alice'' sample_id 6
      (send_chunks sample_hex ''alice'' sample_id 0 [([1, 2], 2, 3), ([3], 4, 5)] sample_started)) =
    Inr \<lparr> cu_purpose = ''pi_config'', cu_filename = ''pi.ZIP'', cu_data = [1, 2, 3] \<rparr>"
proof -
  have "is_ok (validate_upload_id sample_id)" by code_simp
  moreover have "upload_start ''alice'' ''pi_config'' ''pi.ZIP'' 3 (replicate 64 (CHR ''a'')) 0 sample_id 1 new_upload_manager
      = (Inr \<lparr> eu_id = sample_id, eu_purpose = ''pi_config'', eu_filename = ''pi.ZIP'', eu_size_bytes = 3, eu_next_chunk_index = 0 \<rparr>, sample_started)"
    unfolding sample_started_def by (rule prod_eqI) (simp_all add: sample_start_ok)
  ultimately show ?thesis
    using upload_roundtrip [where xs = "[([1, 2], 2, 3), ([3], 4, 5)]" and hexdigest = sample_hex and finish = 6]
    by (force simp: new_upload_manager_def UPLOAD_CHUNK_BYTES_MAX_def UPLOAD_LIFETIME_SECONDS_def sample_hex_def)
qed

subsection \<open>Retries and isolation\<close>

text \<open>Chunk retries are idempotent and safe. Resending a chunk the manager already accepted changes nothing of the upload and reports the
  same progress; a different chunk under that index is refused, with the upload unchanged, unless both its length and its
  digest agree with the accepted one; and an index beyond the next one is refused.\<close>

theorem append_retry:
  assumes own: "owns m user k s" and live: "\<not> expired now s" and cs: "chunks_recorded hexdigest s cs"
    and c: "c \<noteq> []" "int (length c) \<le> UPLOAD_CHUNK_BYTES_MAX"
  shows "(i < length cs \<longrightarrow>
      upload_append hexdigest user k (int i) (cs ! i) now now' m = (Inr (public_upload s), reap_expired now m))
    \<and> (i < length cs \<and> (length c \<noteq> length (cs ! i) \<or> hexdigest c \<noteq> hexdigest (cs ! i)) \<longrightarrow>
      upload_append hexdigest user k (int i) c now now' m
        = (Inl (ValueErr ''encrypted upload retry does not match stored chunk''), reap_expired now m))
    \<and> (length cs < i \<longrightarrow>
      upload_append hexdigest user k (int i) c now now' m
        = (Inl (ValueErr ''encrypted upload chunk sequence is not contiguous''), reap_expired now m))
    \<and> dget (uploads (reap_expired now m)) k = Some s"
proof -
  have d: "us_chunk_digests s = map (\<lambda>c. (int (length c), hexdigest c)) cs"
    and w: "i < length cs \<Longrightarrow> cs ! i \<noteq> [] \<and> int (length (cs ! i)) \<le> UPLOAD_CHUNK_BYTES_MAX"
    using cs by (auto simp: chunks_recorded_def)
  have "dget (uploads (reap_expired now m)) k = Some s" using own live by (simp add: owns_def reap_dget)
  then show ?thesis using c w
    by (auto simp: upload_append_def owns_owned [OF own live] Let_def d)
qed

lemma append_retry_witness:
  "upload_append sample_hex ''alice'' sample_id 0 [1, 2] 4 5 sample_half = (Inr (public_upload sample_state), reap_expired 4 sample_half)
   \<and> fst (upload_append sample_hex ''alice'' sample_id 0 [3] 4 5 sample_half)
     = Inl (ValueErr ''encrypted upload retry does not match stored chunk'')"
  using append_retry [OF sample_owned sample_live sample_chunks, of "[3]" 0 5] by (simp add: UPLOAD_CHUNK_BYTES_MAX_def)

lemma validate_errors:
  "validate_user_id u = Inl e \<Longrightarrow> \<exists>x. e = ValueErr x" "validate_upload_id k = Inl e \<Longrightarrow> \<exists>x. e = ValueErr x"
  by (simp_all add: validate_user_id_def validate_upload_id_def)

lemma foreign_owned:
  assumes "dict_ok (uploads m)" "dget (uploads m) k = Some s" "us_user_id s \<noteq> user" "\<not> expired now s"
  shows "\<exists>e m1. owned_upload user k now m = (Inl e, m1) \<and> dget (uploads m1) k = Some s
     \<and> (e = LookupErr ''encrypted upload not found'' \<or> (\<exists>x. e = ValueErr x))"
  using assms reap_dget [OF assms(1,2,4)]
  by (auto simp: owned_upload_def Let_def rbind_Inl_iff dest: validate_errors split: sum.splits)

text \<open>Uploads are isolated by owner. A caller other than the owner of a live upload can neither extend, read nor discard it: every
  such call raises (a lookup error that does not tell the upload from a missing one, or a validation error) and
  leaves the upload as it was.\<close>

theorem upload_isolated:
  assumes d: "dict_ok (uploads m)" "dget (uploads m) k = Some s" and foreign: "us_user_id s \<noteq> user" and live: "\<not> expired now s"
  shows "\<exists>e. fst (upload_append hexdigest user k i c now now' m) = Inl e
      \<and> fst (upload_complete hexdigest user k now m) = Inl e
      \<and> (e = LookupErr ''encrypted upload not found'' \<or> (\<exists>x. e = ValueErr x))
      \<and> dget (uploads (snd (upload_append hexdigest user k i c now now' m))) k = Some s
      \<and> dget (uploads (snd (upload_complete hexdigest user k now m))) k = Some s
      \<and> fst (upload_cancel user k m) = Inl e \<and> snd (upload_cancel user k m) = m"
proof -
  obtain e m1 where own: "owned_upload user k now m = (Inl e, m1)" and m1: "dget (uploads m1) k = Some s"
    and e: "e = LookupErr ''encrypted upload not found'' \<or> (\<exists>x. e = ValueErr x)"
    using foreign_owned [OF d foreign live] by blast
  have "upload_cancel user k m = (Inl e, m)"
    using own reap_dget [OF d live] d foreign
    by (auto simp: upload_cancel_def owned_upload_def Let_def split: sum.splits)
  then show ?thesis using own m1 e by (auto simp: upload_append_def upload_complete_def)
qed

lemma upload_isolated_witness:
  "\<exists>e. fst (upload_append sample_hex ''mallory'' sample_id 1 [3] 4 5 sample_half) = Inl e
     \<and> dget (uploads (snd (upload_complete sample_hex ''mallory'' sample_id 4 sample_half))) sample_id = Some sample_state"
proof -
  have "dict_ok (uploads sample_half)" "dget (uploads sample_half) sample_id = Some sample_state" "us_user_id sample_state \<noteq> ''mallory''"
    using sample_owned by (auto simp: owns_def sample_state_def)
  from upload_isolated [OF this sample_live, of sample_hex 1 "[3]" 5] show ?thesis by blast
qed

subsection \<open>Consumption\<close>

text \<open>\<^verbatim>\<open>complete\<close> consumes. Once the owner's call reaches the upload, the upload is gone whatever the outcome, the result is
  the data only when size and digest match the declaration, and no other upload is affected beyond expiry.\<close>

theorem complete_consumes:
  assumes own: "owns m user k s" and live: "\<not> expired now s"
  shows "dget (uploads (snd (upload_complete hexdigest user k now m))) k = None
    \<and> (\<forall>k'. k' \<noteq> k \<longrightarrow> dget (uploads (snd (upload_complete hexdigest user k now m))) k' = dget (uploads (reap_expired now m)) k')
    \<and> (is_ok (fst (upload_complete hexdigest user k now m)) \<longleftrightarrow>
         int (length (us_data s)) = us_size_bytes s \<and> hexdigest (us_data s) = us_sha256_hex s)"
  by (auto simp: upload_complete_def owns_owned [OF own live] Let_def)

lemma complete_consumes_witness:
  "dget (uploads (snd (upload_complete sample_hex ''alice'' sample_id 4 sample_half))) sample_id = None
   \<and> \<not> is_ok (fst (upload_complete sample_hex ''alice'' sample_id 4 sample_half))"
  using complete_consumes [OF sample_owned sample_live, of sample_hex] by (simp add: sample_state_def)

end
