(* ===== verification/Uuid_Text.thy ===== *)
theory Uuid_Text
  imports Byte_Codec
begin

section \<open>UUID text\<close>

text \<open>
  What the services use of Python's \<^verbatim>\<open>uuid.UUID\<close>: parsing a string, the canonical text
  \<^verbatim>\<open>str(uuid.UUID(...))\<close> and the conversion from and to sixteen bytes. The parser follows the
  library: \<^verbatim>\<open>urn:\<close> and \<^verbatim>\<open>uuid:\<close> are removed, braces stripped, hyphens removed, and the 32 remaining
  characters are read with \<^verbatim>\<open>int(hex, 16)\<close>, which also accepts surrounding blanks, a sign, a \<^verbatim>\<open>0x\<close>
  prefix and single underscores between digits.
\<close>

subsection \<open>Hexadecimal digits\<close>

definition hex_digits :: string where "hex_digits = ''0123456789abcdef''"

definition digit_value :: "char \<Rightarrow> nat option" where
  "digit_value c = (let n = (of_char c :: nat) in
     if 48 \<le> n \<and> n \<le> 57 then Some (n - 48)
     else if 97 \<le> n \<and> n \<le> 102 then Some (n - 87)
     else if 65 \<le> n \<and> n \<le> 70 then Some (n - 55) else None)"

text \<open>\<open>%0nx\<close>: the \<open>n\<close> lowest hexadecimal digits.\<close>

fun hex_of :: "nat \<Rightarrow> nat \<Rightarrow> string" where
  "hex_of 0 v = []"
| "hex_of (Suc n) v = hex_of n (v div 16) @ [hex_digits ! (v mod 16)]"

text \<open>Digits with single underscores between them; \<open>after\<close> tells that a digit precedes.\<close>

fun read_digits :: "nat \<Rightarrow> bool \<Rightarrow> string \<Rightarrow> nat option" where
  "read_digits v after [] = (if after then Some v else None)"
| "read_digits v after (c # cs) =
     (if c = CHR ''_'' then (if after then read_digits v False cs else None)
      else (case digit_value c of None \<Rightarrow> None | Some d \<Rightarrow> read_digits (16 * v + d) True cs))"

definition int_base16 :: "string \<Rightarrow> int option" where
  "int_base16 s =
     (let t = str_strip s;
          neg = starts_with t ''-'';
          u = (if starts_with t ''-'' \<or> starts_with t ''+'' then tl t else t);
          w = (if starts_with u ''0x'' \<or> starts_with u ''0X'' then
                 (if starts_with (drop 2 u) ''_'' then drop 3 u else drop 2 u)
               else u)
      in case read_digits 0 False w of None \<Rightarrow> None | Some v \<Rightarrow> Some (if neg then - int v else int v))"

subsection \<open>Parsing and printing\<close>

fun remove_all :: "nat \<Rightarrow> string \<Rightarrow> string \<Rightarrow> string" where
  "remove_all fuel pat [] = []"
| "remove_all 0 pat (c # cs) = c # cs"
| "remove_all (Suc fuel) pat (c # cs) =
     (if starts_with (c # cs) pat then remove_all fuel pat (drop (length pat) (c # cs))
      else c # remove_all fuel pat cs)"

definition str_remove :: "string \<Rightarrow> string \<Rightarrow> string" where
  "str_remove pat s = remove_all (length s) pat s"

definition strip_braces :: "string \<Rightarrow> string" where
  "strip_braces s = rev (dropWhile (\<lambda>c. c = CHR ''{'' \<or> c = CHR ''}'') (rev (dropWhile (\<lambda>c. c = CHR ''{'' \<or> c = CHR ''}'') s)))"

definition uuid_value :: "string \<Rightarrow> nat option" where
  "uuid_value s =
     (let h = filter (\<lambda>c. c \<noteq> CHR ''-'') (strip_braces (str_remove ''uuid:'' (str_remove ''urn:'' s))) in
      if length h \<noteq> 32 then None
      else (case int_base16 h of None \<Rightarrow> None
            | Some v \<Rightarrow> if 0 \<le> v \<and> v < 2 ^ 128 then Some (nat v) else None))"

definition hyphenate :: "string \<Rightarrow> string" where
  "hyphenate h = take 8 h @ ''-'' @ take 4 (drop 8 h) @ ''-'' @ take 4 (drop 12 h) @ ''-''
     @ take 4 (drop 16 h) @ ''-'' @ drop 20 h"

definition uuid_str :: "nat \<Rightarrow> string" where
  "uuid_str v = hyphenate (hex_of 32 v)"

definition uuid_bytes :: "nat \<Rightarrow> bytes" where
  "uuid_bytes v = be_bytes 16 (int v)"

definition uuid_of_bytes :: "bytes \<Rightarrow> nat" where
  "uuid_of_bytes b = nat (int_from_bytes b)"

text \<open>The canonical form of a UUID.\<close>

definition canonical_uuid :: "string \<Rightarrow> bool" where
  "canonical_uuid s \<longleftrightarrow> (\<exists>v. v < 2 ^ 128 \<and> s = uuid_str v)"

subsection \<open>Lemmas\<close>

lemma length_hex_of [simp]: "length (hex_of n v) = n"
  by (induction n arbitrary: v) auto

lemma hex_digit_mem: "d < 16 \<Longrightarrow> hex_digits ! d \<in> set hex_digits"
  by (rule nth_mem) (simp add: hex_digits_def)

lemma digit_value_hex:
  assumes "d < 16"
  shows "digit_value (hex_digits ! d) = Some d"
proof -
  have "list_all (\<lambda>d. digit_value (hex_digits ! d) = Some d) [0..<16]" by code_simp
  then show ?thesis using assms by (simp add: list_all_iff)
qed

lemma hex_of_chars: "c \<in> set (hex_of n v) \<Longrightarrow> c \<in> set hex_digits"
proof (induction n arbitrary: v)
  case (Suc n)
  then show ?case using hex_digit_mem [of "v mod 16"] by auto
qed simp

lemma hex_digits_chars:
  assumes "c \<in> set hex_digits"
  shows "c \<noteq> CHR ''-''" "c \<noteq> CHR ''_''" "c \<noteq> CHR ''u''" "c \<noteq> CHR ''x''" "c \<noteq> CHR ''X''" "c \<noteq> CHR ''+''" "c \<noteq> CHR ''{''"
    "c \<noteq> CHR ''}''" "\<not> is_space c"
  using assms by (auto simp: hex_digits_def is_space_def)

lemma read_digits_append:
  "xs \<noteq> [] \<Longrightarrow> \<forall>c \<in> set xs. c \<in> set hex_digits \<Longrightarrow> read_digits v a xs = Some w \<Longrightarrow>
     read_digits v a (xs @ ys) = read_digits w True ys"
proof (induction xs arbitrary: v a)
  case (Cons x xs)
  have x: "x \<noteq> CHR ''_''" using Cons.prems(2) hex_digits_chars(2) by auto
  show ?case
  proof (cases "xs = []")
    case True
    then show ?thesis using Cons.prems x by (auto split: option.splits)
  next
    case False
    then show ?thesis using Cons x by (auto split: option.splits)
  qed
qed simp

lemma read_hex_of: "0 < n \<Longrightarrow> v < 16 ^ n \<Longrightarrow> read_digits 0 a (hex_of n v) = Some v"
proof (induction n arbitrary: v)
  case (Suc n)
  have nx: "hex_digits ! (v mod 16) \<noteq> CHR ''_''"
    using hex_digits_chars(2) [OF hex_digit_mem, of "v mod 16"] by simp
  show ?case
  proof (cases n)
    case 0
    then show ?thesis using Suc.prems nx digit_value_hex [of v] by simp
  next
    case (Suc k)
    have "v div 16 < 16 ^ n" using Suc.prems by (simp add: less_mult_imp_div_less mult.commute)
    then have "read_digits 0 a (hex_of n (v div 16)) = Some (v div 16)" using Suc.IH [of "v div 16"] Suc by simp
    then have "read_digits 0 a (hex_of n (v div 16) @ [hex_digits ! (v mod 16)]) = read_digits (v div 16) True [hex_digits ! (v mod 16)]"
      using Suc hex_of_chars by (intro read_digits_append) (auto simp: hex_digit_mem)
    then show ?thesis using nx digit_value_hex [of "v mod 16"] by simp
  qed
qed simp


lemma starts_with_hd: "starts_with (c # cs) (p # ps) \<Longrightarrow> c = p"
  by (simp add: starts_with_def)

lemma remove_all_id: "p \<notin> set s \<Longrightarrow> remove_all fuel (p # ps) s = s"
  by (induction fuel "p # ps" s rule: remove_all.induct) (auto dest: starts_with_hd)

lemma str_strip_id: "\<forall>c \<in> set s. \<not> is_space c \<Longrightarrow> str_strip s = s"
proof -
  assume a: "\<forall>c \<in> set s. \<not> is_space c"
  then have "dropWhile is_space s = s" by (cases s) simp_all
  moreover from a have "dropWhile is_space (rev s) = rev s" by (cases "rev s") auto
  ultimately show ?thesis by (simp add: str_strip_def)
qed

lemma strip_braces_id: "\<forall>c \<in> set s. c \<noteq> CHR ''{'' \<and> c \<noteq> CHR ''}'' \<Longrightarrow> strip_braces s = s"
proof -
  let ?P = "\<lambda>c. c = CHR ''{'' \<or> c = CHR ''}''"
  assume a: "\<forall>c \<in> set s. c \<noteq> CHR ''{'' \<and> c \<noteq> CHR ''}''"
  then have "dropWhile ?P s = s" by (cases s) simp_all
  moreover from a have "dropWhile ?P (rev s) = rev s" by (cases "rev s") auto
  ultimately show ?thesis by (simp add: strip_braces_def)
qed

lemma int_base16_hex_of:
  assumes "0 < n" "v < 16 ^ n"
  shows "int_base16 (hex_of n v) = Some (int v)"
proof -
  let ?s = "hex_of n v"
  have h: "c \<in> set ?s \<Longrightarrow> c \<in> set hex_digits" for c by (rule hex_of_chars)
  have strip: "str_strip ?s = ?s" using h hex_digits_chars(9) by (blast intro: str_strip_id)
  have "\<not> starts_with ?s [CHR ''-'']" "\<not> starts_with ?s [CHR ''+'']"
    using h hex_digits_chars(1,6) by (cases ?s; force simp: starts_with_def)+
  moreover have "\<not> starts_with ?s ''0x''" "\<not> starts_with ?s ''0X''"
    using h hex_digits_chars(4,5) by (cases ?s; cases "tl ?s"; force simp: starts_with_def)+
  ultimately show ?thesis using read_hex_of [OF assms, of False] by (simp add: int_base16_def strip)
qed

lemma hyphenate_chars: "set (hyphenate h) \<subseteq> insert (CHR ''-'') (set h)"
  by (auto simp: hyphenate_def dest: in_set_takeD in_set_dropD)

lemma filter_hyphenate:
  assumes "CHR ''-'' \<notin> set h"
  shows "filter (\<lambda>c. c \<noteq> CHR ''-'') (hyphenate h) = h"
proof -
  have f: "filter (\<lambda>c. c \<noteq> CHR ''-'') (take a (drop b h)) = take a (drop b h)" for a b
    using assms by (intro filter_True) (auto dest: in_set_takeD in_set_dropD)
  have g: "filter (\<lambda>c. c \<noteq> CHR ''-'') (drop b h) = drop b h" for b
    using assms by (intro filter_True) (auto dest: in_set_dropD)
  have "h = take 8 h @ take 4 (drop 8 h) @ take 4 (drop 12 h) @ take 4 (drop 16 h) @ drop 20 h"
    using append_take_drop_id [of 8 h] append_take_drop_id [of 4 "drop 8 h"] append_take_drop_id [of 4 "drop 12 h"]
      append_take_drop_id [of 4 "drop 16 h"] by (simp add: drop_drop)
  then show ?thesis using f [of 8 0] by (simp add: hyphenate_def f g)
qed

lemma uuid_value_str: "v < 2 ^ 128 \<Longrightarrow> uuid_value (uuid_str v) = Some v"
proof -
  assume v: "v < 2 ^ 128"
  let ?h = "hex_of 32 v"
  have c: "c \<in> set (uuid_str v) \<Longrightarrow> c = CHR ''-'' \<or> c \<in> set hex_digits" for c
    using hyphenate_chars [of ?h] hex_of_chars by (auto simp: uuid_str_def)
  then have u: "CHR ''u'' \<notin> set (uuid_str v)" using hex_digits_chars(3) by fastforce
  have "strip_braces (uuid_str v) = uuid_str v"
    using c hex_digits_chars(7,8) by (intro strip_braces_id) force
  moreover have "filter (\<lambda>c. c \<noteq> CHR ''-'') (uuid_str v) = ?h"
    unfolding uuid_str_def using hex_of_chars hex_digits_chars(1) by (blast intro: filter_hyphenate)
  moreover have "int_base16 ?h = Some (int v)" using v by (intro int_base16_hex_of) simp_all
  ultimately show ?thesis using v by (simp add: uuid_value_def str_remove_def remove_all_id [OF u])
qed

lemma canonical_uuid_iff: "canonical_uuid s \<longleftrightarrow> (\<exists>v. uuid_value s = Some v \<and> uuid_str v = s)"
proof -
  have "uuid_value s = Some v \<Longrightarrow> v < 2 ^ 128" for v
    by (auto simp: uuid_value_def Let_def split: if_splits option.splits)
  then show ?thesis using uuid_value_str by (auto simp: canonical_uuid_def)
qed

lemma uuid_of_bytes_bytes: "v < 2 ^ 128 \<Longrightarrow> uuid_of_bytes (uuid_bytes v) = v"
proof -
  assume "v < 2 ^ 128"
  then have "int v < 256 ^ 16" by simp
  then show ?thesis by (simp add: uuid_of_bytes_def uuid_bytes_def int_from_be_bytes)
qed

lemma length_uuid_bytes [simp]: "length (uuid_bytes v) = 16"
  by (simp add: uuid_bytes_def)

lemma uuid_of_bytes_bound: "length b = 16 \<Longrightarrow> uuid_of_bytes b < 2 ^ 128"
  using int_from_bytes_bounds [of b] by (simp add: uuid_of_bytes_def nat_less_iff)

lemma uuid_str_inj: "v < 2 ^ 128 \<Longrightarrow> w < 2 ^ 128 \<Longrightarrow> uuid_str v = uuid_str w \<Longrightarrow> v = w"
  using uuid_value_str by (metis option.inject)

end
