(* ===== verification/Runner_Relay.thy ===== *)
theory Runner_Relay
  imports Uuid_Text
begin

section \<open>The runner relay\<close>

text \<open>
  Model of \<^verbatim>\<open>services/runner_relay.py\<close>: the single-use transfer grants of the control database and
  the in-memory broker that routes opaque ciphertext between one outbound connection per
  runner and its bounded clients.

  The broker's coroutines hold its lock for short regions and await sends and closes outside
  them; other coroutines run in between. Every locked region is one function of the broker
  state, so that a run is a sequence of regions in any order. What a region leaves to be sent or
  closed after the lock is released is returned as a list of effects; the region a coroutine
  enters afterwards (registration finished or failed, attachment or quiescence failed) is a
  function of its own. Objects compared with \<^verbatim>\<open>is\<close> carry an identity from the counter \<open>b_next\<close>;
  sockets are given by the caller. The order in which a Python set is enumerated and the clock
  readings are arguments.
\<close>

type_synonym socket = nat

datatype relay_error =
    RelayAuthorizationError string
  | RelayValueError string
  | RelayIntegrityError

definition RUNNER_PREFIX_LENGTH :: nat where "RUNNER_PREFIX_LENGTH = 16"
definition RELAY_FRAME_BYTES_MAX :: nat where "RELAY_FRAME_BYTES_MAX = 65535"
definition RELAY_QUEUE_FRAMES_MAX :: nat where "RELAY_QUEUE_FRAMES_MAX = 16"
definition RUNNER_SESSIONS_MAX :: nat where "RUNNER_SESSIONS_MAX = 32"
definition RETIRED_TRANSFERS_MAX :: nat where "RETIRED_TRANSFERS_MAX = 128"
definition RETIRED_TRANSFER_TTL_SECONDS :: clock where "RETIRED_TRANSFER_TTL_SECONDS = 300"

record transfer_grant =
  tg_transfer_id :: string
  tg_runner_id :: string
  tg_expires_at :: int
  tg_max_session_bytes :: int

subsection \<open>Grants\<close>

definition require_transfer_id :: "string \<Rightarrow> relay_error + string" where
  "require_transfer_id transfer_id =
     (if transfer_id = [] then Inl (RelayValueError ''transfer_id must not be empty'')
      else case uuid_value transfer_id of
             None \<Rightarrow> Inl (RelayValueError ''transfer_id must be a UUID'')
           | Some v \<Rightarrow>
               if uuid_str v \<noteq> transfer_id then Inl (RelayValueError ''transfer_id must be canonical'')
               else Inr (uuid_str v))"

text \<open>\<open>hexdigest\<close> is the hexadecimal SHA-256 of the ASCII text.\<close>

definition capability_hash :: "(string \<Rightarrow> string) \<Rightarrow> string \<Rightarrow> relay_error + string" where
  "capability_hash hexdigest capability =
     (if capability = [] then Inl (RelayValueError ''capability must not be empty'')
      else if length capability > 8192 then Inl (RelayValueError ''capability is too large'')
      else if list_ex (\<lambda>c. (of_char c :: nat) \<ge> 128) capability then Inl (RelayValueError ''UnicodeEncodeError'')
      else Inr (hexdigest capability))"

record grant_row =
  gr_user_id :: string
  gr_runner_id :: string
  gr_capability_hash :: string
  gr_expires_at :: int
  gr_max_session_bytes :: int
  gr_claimed_at :: "int option"

record runner_row =
  rr_revoked_at :: "string option"
  rr_runner_token_hash :: "string option"

text \<open>The tables \<^verbatim>\<open>runner_transfer_grants\<close> (by primary key), \<^verbatim>\<open>user_runners\<close> and \<^verbatim>\<open>users\<close>.\<close>

record control_db =
  transfer_grants :: "(string, grant_row) pydict"
  user_runners :: "(string, runner_row) pydict"
  users :: "string list"

record capability_claims =
  cc_user_id :: string
  cc_runner_id :: string
  cc_transfer_id :: string
  cc_issued_at :: int
  cc_expires_at :: int
  cc_max_session_bytes :: int

text \<open>A statement that violates the primary key, the unique capability hash or a foreign key raises and the transaction is not committed.\<close>

definition store_runner_transfer_grant ::
  "(string \<Rightarrow> string) \<Rightarrow> string \<Rightarrow> capability_claims \<Rightarrow> control_db \<Rightarrow> (relay_error + unit) \<times> control_db" where
  "store_runner_transfer_grant hexdigest capability claims db =
     (case capability_hash hexdigest capability of
        Inl e \<Rightarrow> (Inl e, db)
      | Inr h \<Rightarrow>
          let kept = filter (\<lambda>(k, g). \<not> gr_expires_at g \<le> cc_issued_at claims) (transfer_grants db) in
          if dget kept (cc_transfer_id claims) \<noteq> None
             \<or> list_ex (\<lambda>g. gr_capability_hash g = h) (dvalues kept)
             \<or> cc_user_id claims \<notin> set (users db) \<or> dget (user_runners db) (cc_runner_id claims) = None
          then (Inl RelayIntegrityError, db)
          else (Inr (), db\<lparr>transfer_grants := dset kept (cc_transfer_id claims)
                 \<lparr> gr_user_id = cc_user_id claims, gr_runner_id = cc_runner_id claims, gr_capability_hash = h,
                   gr_expires_at = cc_expires_at claims, gr_max_session_bytes = cc_max_session_bytes claims,
                   gr_claimed_at = None \<rparr>\<rparr>))"

definition claim_runner_transfer_grant ::
  "(string \<Rightarrow> string) \<Rightarrow> string \<Rightarrow> string \<Rightarrow> int \<Rightarrow> control_db \<Rightarrow> (relay_error + transfer_grant) \<times> control_db" where
  "claim_runner_transfer_grant hexdigest transfer_id capability now db =
     (case rbind (require_transfer_id transfer_id) (\<lambda>tid.
           rbind (capability_hash hexdigest capability) (\<lambda>h.
           rbind (raise_if (now < 0) (RelayValueError ''current_time must be a non-negative integer'')) (\<lambda>_.
           Inr (tid, h)))) of
        Inl e \<Rightarrow> (Inl e, db)
      | Inr (tid, h) \<Rightarrow>
          (case dget (transfer_grants db) tid of
             None \<Rightarrow> (Inl (RelayAuthorizationError ''Runner relay grant was not found''), db)
           | Some g \<Rightarrow>
               (case dget (user_runners db) (gr_runner_id g) of
                  None \<Rightarrow> (Inl (RelayAuthorizationError ''Runner relay grant was not found''), db)
                | Some runner \<Rightarrow>
                    if gr_expires_at g \<le> now then
                      (Inl (RelayAuthorizationError ''Runner relay grant has expired''), db)
                    else if gr_claimed_at g \<noteq> None then
                      (Inl (RelayAuthorizationError ''Runner relay grant was already claimed''), db)
                    else if rr_revoked_at runner \<noteq> None \<or> rr_runner_token_hash runner = None then
                      (Inl (RelayAuthorizationError ''Runner relay grant was revoked''), db)
                    else if gr_capability_hash g \<noteq> h then
                      (Inl (RelayAuthorizationError ''Runner relay capability does not match''), db)
                    else
                      (Inr \<lparr> tg_transfer_id = tid, tg_runner_id = gr_runner_id g, tg_expires_at = gr_expires_at g,
                             tg_max_session_bytes = gr_max_session_bytes g \<rparr>,
                       db\<lparr>transfer_grants := dset (transfer_grants db) tid (g\<lparr>gr_claimed_at := Some now\<rparr>)\<rparr>))))"

subsection \<open>Broker state\<close>

record runner_conn =
  rc_id :: nat
  rc_websocket :: socket
  rc_ready :: bool
  rc_sessions :: "string list"
  rc_retired :: "(string, clock) pydict"

record maintenance =
  mt_id :: nat
  mt_job_id :: string
  mt_acknowledged :: "bool option"

record client_conn =
  cl_websocket :: socket
  cl_grant :: transfer_grant
  cl_queue :: "bytes list"
  cl_ciphertext_bytes :: int

record broker =
  b_next :: nat
  b_runners :: "(string, runner_conn) pydict"
  b_maintenance :: "(string, maintenance) pydict"
  b_clients :: "(string, client_conn) pydict"

definition new_broker :: broker where
  "new_broker = \<lparr> b_next = 0, b_runners = [], b_maintenance = [], b_clients = [] \<rparr>"

datatype relay_effect =
    CloseSocket socket int string
  | SendText socket string
  | SendBytes socket bytes
  | EndQueue socket "bytes list"

definition quoted :: "string \<Rightarrow> string" where
  "quoted s = CHR 0x22 # s @ [CHR 0x22]"

definition control_message :: "string \<Rightarrow> string \<Rightarrow> string \<Rightarrow> string" where
  "control_message key ident type = ''{'' @ quoted key @ '':'' @ quoted ident @ '','' @ quoted ''type'' @ '':'' @ quoted type @ ''}''"

subsection \<open>Helpers of the broker\<close>

definition prune_retired_transfers :: "clock \<Rightarrow> runner_conn \<Rightarrow> runner_conn" where
  "prune_retired_transfers now r =
     r\<lparr>rc_retired := dropWhile (\<lambda>(t, retired_at). \<not> (now - retired_at \<le> RETIRED_TRANSFER_TTL_SECONDS)) (rc_retired r)\<rparr>"

definition retire_transfer :: "clock \<Rightarrow> string \<Rightarrow> runner_conn \<Rightarrow> runner_conn" where
  "retire_transfer now transfer_id r =
     (let r1 = prune_retired_transfers now r;
          marked = dpop (rc_retired r1) transfer_id @ [(transfer_id, now)]
      in r1\<lparr>rc_retired := drop (length marked - RETIRED_TRANSFERS_MAX) marked\<rparr>)"

function close_client_queue :: "bytes list \<Rightarrow> bytes list" where
  "close_client_queue q =
     (if length q \<ge> RELAY_QUEUE_FRAMES_MAX then close_client_queue (tl q) else q @ [[]])"
  by pat_completeness auto
termination
  by (relation "measure length") (auto simp: RELAY_QUEUE_FRAMES_MAX_def)

declare close_client_queue.simps [simp del]

definition record_bytes :: "nat \<Rightarrow> client_conn \<Rightarrow> relay_error + client_conn" where
  "record_bytes count c =
     (if count < 1 then Inl (RelayValueError ''Relay ciphertext byte count must be positive'')
      else if cl_ciphertext_bytes c + int count > tg_max_session_bytes (cl_grant c) then
        Inl (RelayAuthorizationError ''Runner relay session exceeded byte limit'')
      else Inr (c\<lparr>cl_ciphertext_bytes := cl_ciphertext_bytes c + int count\<rparr>))"

text \<open>Popping the clients of a runner's sessions, closing their queues.\<close>

fun pop_clients :: "string list \<Rightarrow> (string, client_conn) pydict \<Rightarrow> (string, client_conn) pydict \<times> client_conn list" where
  "pop_clients [] clients = (clients, [])"
| "pop_clients (t # ts) clients =
     (case dget clients t of
        None \<Rightarrow> pop_clients ts clients
      | Some c \<Rightarrow>
          (case pop_clients ts (dpop clients t) of
             (clients', gone) \<Rightarrow> (clients', c\<lparr>cl_queue := close_client_queue (cl_queue c)\<rparr> # gone)))"

definition close_effects :: "int \<Rightarrow> string \<Rightarrow> client_conn list \<Rightarrow> relay_effect list" where
  "close_effects code reason gone =
     map (\<lambda>c. EndQueue (cl_websocket c) (cl_queue c)) gone @ map (\<lambda>c. CloseSocket (cl_websocket c) code reason) gone"

definition session_discard :: "string \<Rightarrow> runner_conn \<Rightarrow> runner_conn" where
  "session_discard t r = r\<lparr>rc_sessions := removeAll t (rc_sessions r)\<rparr>"

subsection \<open>Runner connections\<close>

definition is_runner_connected :: "string \<Rightarrow> broker \<Rightarrow> relay_error + bool" where
  "is_runner_connected runner_id b =
     (if runner_id = [] then Inl (RelayValueError ''runner_id must not be empty'')
      else Inr (case dget (b_runners b) runner_id of None \<Rightarrow> False | Some r \<Rightarrow> rc_ready r))"

text \<open>
  The first locked region of \<^verbatim>\<open>register_runner\<close>, with the identity of the candidate connection
  and the messages to send. \<open>durable\<close> is the job of the running durable maintenance operation.
\<close>

definition register_runner_begin ::
  "string \<Rightarrow> socket \<Rightarrow> string option \<Rightarrow> string list \<Rightarrow> broker \<Rightarrow> (relay_error + (nat \<times> relay_effect list)) \<times> broker" where
  "register_runner_begin runner_id websocket durable order b =
     (if runner_id = [] then (Inl (RelayValueError ''runner_id must not be empty''), b)
      else
        let candidate = \<lparr> rc_id = b_next b, rc_websocket = websocket, rc_ready = False, rc_sessions = [], rc_retired = [] \<rparr>;
            previous = dget (b_runners b) runner_id;
            (clients, gone) = (case previous of None \<Rightarrow> (b_clients b, []) | Some p \<Rightarrow> pop_clients order (b_clients b));
            existing = dget (b_maintenance b) runner_id;
            (maint, job) = (case (existing, durable) of
                (Some m, _) \<Rightarrow> (b_maintenance b, Some (mt_job_id m))
              | (None, Some j) \<Rightarrow>
                  (dset (b_maintenance b) runner_id \<lparr> mt_id = b_next b + 1, mt_job_id = j, mt_acknowledged = Some False \<rparr>, Some j)
              | (None, None) \<Rightarrow> (b_maintenance b, None))
        in (Inr (b_next b,
               map (\<lambda>c. EndQueue (cl_websocket c) (cl_queue c)) gone
               @ (case previous of None \<Rightarrow> [] | Some p \<Rightarrow> [CloseSocket (rc_websocket p) 4001 ''Runner connection replaced''])
               @ map (\<lambda>c. CloseSocket (cl_websocket c) 4002 ''Runner connection replaced'') gone
               @ (case job of None \<Rightarrow> [] | Some j \<Rightarrow> [SendText websocket (control_message ''job_id'' j ''quiesce'')])),
            \<lparr> b_next = b_next b + 2, b_runners = dset (b_runners b) runner_id candidate,
              b_maintenance = maint, b_clients = clients \<rparr>))"

definition register_runner_finish :: "string \<Rightarrow> nat \<Rightarrow> broker \<Rightarrow> broker" where
  "register_runner_finish runner_id candidate b =
     (case dget (b_runners b) runner_id of
        None \<Rightarrow> b
      | Some r \<Rightarrow> if rc_id r = candidate then b\<lparr>b_runners := dset (b_runners b) runner_id (r\<lparr>rc_ready := True\<rparr>)\<rparr> else b)"

definition register_runner_fail :: "string \<Rightarrow> nat \<Rightarrow> broker \<Rightarrow> broker" where
  "register_runner_fail runner_id candidate b =
     (case dget (b_runners b) runner_id of
        None \<Rightarrow> b
      | Some r \<Rightarrow> if rc_id r = candidate then b\<lparr>b_runners := dpop (b_runners b) runner_id\<rparr> else b)"

definition unregister_runner ::
  "string \<Rightarrow> socket \<Rightarrow> string list \<Rightarrow> broker \<Rightarrow> relay_effect list \<times> broker" where
  "unregister_runner runner_id websocket order b =
     (case dget (b_runners b) runner_id of
        None \<Rightarrow> ([], b)
      | Some r \<Rightarrow>
          if rc_websocket r \<noteq> websocket then ([], b)
          else let (clients, gone) = pop_clients order (b_clients b) in
            (close_effects 4002 ''Runner disconnected'' gone,
             b\<lparr>b_runners := dpop (b_runners b) runner_id, b_clients := clients\<rparr>))"

definition disconnect_runner :: "string \<Rightarrow> string list \<Rightarrow> broker \<Rightarrow> relay_effect list \<times> broker" where
  "disconnect_runner runner_id order b =
     (let b1 = b\<lparr>b_runners := dpop (b_runners b) runner_id, b_maintenance := dpop (b_maintenance b) runner_id\<rparr> in
      case dget (b_runners b) runner_id of
        None \<Rightarrow> ([], b1)
      | Some r \<Rightarrow>
          let (clients, gone) = pop_clients order (b_clients b) in
          (map (\<lambda>c. EndQueue (cl_websocket c) (cl_queue c)) gone
           @ CloseSocket (rc_websocket r) 4003 ''Runner revoked''
           # map (\<lambda>c. CloseSocket (cl_websocket c) 4003 ''Runner revoked'') gone,
           b1\<lparr>b_clients := clients\<rparr>))"

subsection \<open>Maintenance\<close>

text \<open>The sessions of a quiescing runner: \<open>order\<close> pairs each transfer with the clock reading made when it is retired.\<close>

fun quiesce_sessions ::
  "(string \<times> clock) list \<Rightarrow> runner_conn \<Rightarrow> (string, client_conn) pydict
     \<Rightarrow> runner_conn \<times> (string, client_conn) pydict \<times> client_conn list" where
  "quiesce_sessions [] r clients = (r, clients, [])"
| "quiesce_sessions ((t, now) # rest) r clients =
     (let r1 = retire_transfer now t (session_discard t r) in
      case dget clients t of
        None \<Rightarrow> quiesce_sessions rest r1 clients
      | Some c \<Rightarrow>
          (case quiesce_sessions rest r1 (dpop clients t) of
             (r2, clients', gone) \<Rightarrow> (r2, clients', c\<lparr>cl_queue := close_client_queue (cl_queue c)\<rparr> # gone)))"

datatype quiesce_outcome = AlreadyQuiesced | Awaiting nat "relay_effect list"

definition quiesce_runner_begin ::
  "string \<Rightarrow> string \<Rightarrow> real \<Rightarrow> (string \<times> clock) list \<Rightarrow> broker \<Rightarrow> (relay_error + quiesce_outcome) \<times> broker" where
  "quiesce_runner_begin runner_id job_id timeout_seconds order b =
     (case rbind (raise_if (runner_id = []) (RelayValueError ''runner_id must not be empty'')) (\<lambda>_.
           rbind (require_transfer_id job_id) (\<lambda>job.
           rbind (raise_if (\<not> (0 < timeout_seconds \<and> timeout_seconds \<le> 300))
                    (RelayValueError ''timeout_seconds must be between 0 and 300'')) (\<lambda>_.
           case dget (b_runners b) runner_id of
             None \<Rightarrow> Inl (RelayAuthorizationError ''Runner is not connected'')
           | Some r \<Rightarrow>
               (case dget (b_maintenance b) runner_id of
                  None \<Rightarrow> Inr (job, r, None)
                | Some m \<Rightarrow>
                    if mt_job_id m \<noteq> job then Inl (RelayAuthorizationError ''Runner maintenance is already active'')
                    else Inr (job, r, Some m))))) of
        Inl e \<Rightarrow> (Inl e, b)
      | Inr (job, r, existing) \<Rightarrow>
          if (case existing of None \<Rightarrow> False | Some m \<Rightarrow> mt_acknowledged m = None \<or> mt_acknowledged m = Some True)
          then (Inr AlreadyQuiesced, b)
          else
            let m = (case existing of
                       None \<Rightarrow> \<lparr> mt_id = b_next b, mt_job_id = job, mt_acknowledged = Some False \<rparr>
                     | Some m \<Rightarrow> m);
                (r', clients, gone) = quiesce_sessions order r (b_clients b)
            in (Inr (Awaiting (mt_id m)
                  (close_effects 4006 ''Runner entered maintenance'' gone
                   @ [SendText (rc_websocket r) (control_message ''job_id'' job ''quiesce'')])),
                \<lparr> b_next = b_next b + 1, b_runners = dset (b_runners b) runner_id r',
                  b_maintenance = dset (b_maintenance b) runner_id m, b_clients = clients \<rparr>))"

definition quiesce_runner_fail :: "string \<Rightarrow> nat \<Rightarrow> broker \<Rightarrow> broker" where
  "quiesce_runner_fail runner_id maint b =
     (case dget (b_maintenance b) runner_id of
        None \<Rightarrow> b
      | Some m \<Rightarrow> if mt_id m = maint then b\<lparr>b_maintenance := dpop (b_maintenance b) runner_id\<rparr> else b)"

definition runner_quiesced :: "string \<Rightarrow> string \<Rightarrow> broker \<Rightarrow> (relay_error + unit) \<times> broker" where
  "runner_quiesced runner_id job_id b =
     (case require_transfer_id job_id of
        Inl e \<Rightarrow> (Inl e, b)
      | Inr job \<Rightarrow>
          (case dget (b_maintenance b) runner_id of
             None \<Rightarrow> (Inl (RelayAuthorizationError ''Runner maintenance acknowledgement mismatched''), b)
           | Some m \<Rightarrow>
               if mt_job_id m \<noteq> job then
                 (Inl (RelayAuthorizationError ''Runner maintenance acknowledgement mismatched''), b)
               else if mt_acknowledged m = Some False then
                 (Inr (), b\<lparr>b_maintenance := dset (b_maintenance b) runner_id (m\<lparr>mt_acknowledged := Some True\<rparr>)\<rparr>)
               else (Inr (), b)))"

definition release_maintenance :: "string \<Rightarrow> string \<Rightarrow> broker \<Rightarrow> (relay_error + unit) \<times> broker" where
  "release_maintenance runner_id job_id b =
     (case rbind (raise_if (runner_id = []) (RelayValueError ''runner_id must not be empty'')) (\<lambda>_. require_transfer_id job_id) of
        Inl e \<Rightarrow> (Inl e, b)
      | Inr job \<Rightarrow>
          (case dget (b_maintenance b) runner_id of
             None \<Rightarrow> (Inl (RelayAuthorizationError ''Runner maintenance release mismatched''), b)
           | Some m \<Rightarrow>
               if mt_job_id m \<noteq> job then (Inl (RelayAuthorizationError ''Runner maintenance release mismatched''), b)
               else if mt_acknowledged m = Some False then
                 (Inl (RelayAuthorizationError ''Runner maintenance is not quiesced''), b)
               else (Inr (), b\<lparr>b_maintenance := dpop (b_maintenance b) runner_id\<rparr>)))"

subsection \<open>Clients\<close>

definition attach_client_begin ::
  "transfer_grant \<Rightarrow> socket \<Rightarrow> broker \<Rightarrow> (relay_error + relay_effect list) \<times> broker" where
  "attach_client_begin grant websocket b =
     (case dget (b_runners b) (tg_runner_id grant) of
        None \<Rightarrow> (Inl (RelayAuthorizationError ''Runner is not connected''), b)
      | Some r \<Rightarrow>
          if \<not> rc_ready r then (Inl (RelayAuthorizationError ''Runner is not connected''), b)
          else if dget (b_maintenance b) (tg_runner_id grant) \<noteq> None then
            (Inl (RelayAuthorizationError ''Runner maintenance is active''), b)
          else if length (rc_sessions r) \<ge> RUNNER_SESSIONS_MAX then
            (Inl (RelayAuthorizationError ''Runner session limit was reached''), b)
          else if dget (b_clients b) (tg_transfer_id grant) \<noteq> None then
            (Inl (RelayAuthorizationError ''Runner relay client is already attached''), b)
          else
            (Inr [SendText (rc_websocket r) (control_message ''transfer_id'' (tg_transfer_id grant) ''open'')],
             b\<lparr> b_runners := dset (b_runners b) (tg_runner_id grant)
                  (r\<lparr>rc_sessions := List.insert (tg_transfer_id grant) (rc_sessions r)\<rparr>),
                b_clients := dset (b_clients b) (tg_transfer_id grant)
                  \<lparr> cl_websocket = websocket, cl_grant = grant, cl_queue = [], cl_ciphertext_bytes = 0 \<rparr> \<rparr>))"

text \<open>Removing one client from its runner, as three methods do.\<close>

definition drop_session :: "clock \<Rightarrow> string \<Rightarrow> string \<Rightarrow> broker \<Rightarrow> broker" where
  "drop_session now runner_id t b =
     (case dget (b_runners b) runner_id of
        None \<Rightarrow> b
      | Some r \<Rightarrow> b\<lparr>b_runners := dset (b_runners b) runner_id (retire_transfer now t (session_discard t r))\<rparr>)"

definition detach_client ::
  "string \<Rightarrow> socket \<Rightarrow> clock \<Rightarrow> broker \<Rightarrow> (relay_error + relay_effect list) \<times> broker" where
  "detach_client transfer_id websocket now b =
     (case require_transfer_id transfer_id of
        Inl e \<Rightarrow> (Inl e, b)
      | Inr t \<Rightarrow>
          (case dget (b_clients b) t of
             None \<Rightarrow> (Inr [], b)
           | Some c \<Rightarrow>
               if cl_websocket c \<noteq> websocket then (Inr [], b)
               else
                 (Inr (EndQueue (cl_websocket c) (close_client_queue (cl_queue c))
                       # (case dget (b_runners b) (tg_runner_id (cl_grant c)) of
                            None \<Rightarrow> []
                          | Some r \<Rightarrow> [SendText (rc_websocket r) (control_message ''transfer_id'' t ''close'')])),
                  drop_session now (tg_runner_id (cl_grant c)) t (b\<lparr>b_clients := dpop (b_clients b) t\<rparr>))))"

definition client_frame ::
  "string \<Rightarrow> bytes \<Rightarrow> broker \<Rightarrow> (relay_error + relay_effect list) \<times> broker" where
  "client_frame transfer_id ciphertext b =
     (case require_transfer_id transfer_id of
        Inl e \<Rightarrow> (Inl e, b)
      | Inr t \<Rightarrow>
          if \<not> (1 \<le> length ciphertext \<and> length ciphertext \<le> RELAY_FRAME_BYTES_MAX) then
            (Inl (RelayValueError ''Relay ciphertext frame has an invalid length''), b)
          else (case dget (b_clients b) t of
             None \<Rightarrow> (Inl (RelayAuthorizationError ''Runner relay client is not attached''), b)
           | Some c \<Rightarrow>
               (case dget (b_runners b) (tg_runner_id (cl_grant c)) of
                  None \<Rightarrow> (Inl (RelayAuthorizationError ''Runner is not connected''), b)
                | Some r \<Rightarrow>
                    (case record_bytes (length ciphertext) c of
                       Inl e \<Rightarrow> (Inl e, b)
                     | Inr c' \<Rightarrow>
                         (Inr [SendBytes (rc_websocket r) (uuid_bytes (the (uuid_value t)) @ ciphertext)],
                          b\<lparr>b_clients := dset (b_clients b) t c'\<rparr>)))))"

definition runner_closed_transfer ::
  "string \<Rightarrow> string \<Rightarrow> clock \<Rightarrow> broker \<Rightarrow> (relay_error + relay_effect list) \<times> broker" where
  "runner_closed_transfer runner_id transfer_id now b =
     (case require_transfer_id transfer_id of
        Inl e \<Rightarrow> (Inl e, b)
      | Inr t \<Rightarrow>
          (case dget (b_runners b) runner_id of
             None \<Rightarrow> (Inl (RelayAuthorizationError ''Runner relay transfer is not attached''), b)
           | Some r \<Rightarrow>
               (case dget (b_clients b) t of
                  None \<Rightarrow> (Inr [], b)
                | Some c \<Rightarrow>
                    if tg_runner_id (cl_grant c) \<noteq> runner_id then
                      (Inl (RelayAuthorizationError ''Runner relay transfer is not attached''), b)
                    else
                      (Inr [EndQueue (cl_websocket c) (close_client_queue (cl_queue c)),
                            CloseSocket (cl_websocket c) 4004 ''Runner rejected transfer''],
                       drop_session now runner_id t (b\<lparr>b_clients := dpop (b_clients b) t\<rparr>)))))"

definition runner_frame ::
  "string \<Rightarrow> bytes \<Rightarrow> clock \<Rightarrow> broker \<Rightarrow> (relay_error + relay_effect list) \<times> broker" where
  "runner_frame runner_id framed now b =
     (if \<not> (RUNNER_PREFIX_LENGTH < length framed \<and> length framed \<le> RUNNER_PREFIX_LENGTH + RELAY_FRAME_BYTES_MAX) then
        (Inl (RelayValueError ''Runner relay frame has an invalid length''), b)
      else
        let t = uuid_str (uuid_of_bytes (take RUNNER_PREFIX_LENGTH framed));
            ciphertext = drop RUNNER_PREFIX_LENGTH framed
        in
        case dget (b_runners b) runner_id of
          None \<Rightarrow> (Inl (RelayAuthorizationError ''Runner relay frame has no attached client''), b)
        | Some r \<Rightarrow>
            (case (case dget (b_clients b) t of
                     None \<Rightarrow> None
                   | Some c \<Rightarrow> if tg_runner_id (cl_grant c) \<noteq> runner_id then None else Some c) of
               None \<Rightarrow>
                 let r' = prune_retired_transfers now r;
                     b' = b\<lparr>b_runners := dset (b_runners b) runner_id r'\<rparr>
                 in (if dget (rc_retired r') t \<noteq> None then (Inr [], b')
                     else (Inl (RelayAuthorizationError ''Runner relay frame has no attached client''), b'))
             | Some c \<Rightarrow>
                 let close_reason =
                   (if cl_ciphertext_bytes c + int (length ciphertext) > tg_max_session_bytes (cl_grant c)
                    then Some ''Runner relay session exceeded byte limit''
                    else if length (cl_queue c) \<ge> RELAY_QUEUE_FRAMES_MAX
                    then Some ''Runner relay client exceeded backpressure'' else None)
                 in
                 (case close_reason of
                    None \<Rightarrow>
                      (case record_bytes (length ciphertext) c of
                         Inl e \<Rightarrow> (Inl e, b)
                       | Inr c' \<Rightarrow> (Inr [], b\<lparr>b_clients := dset (b_clients b) t (c'\<lparr>cl_queue := cl_queue c' @ [ciphertext]\<rparr>)\<rparr>))
                  | Some reason \<Rightarrow>
                      (Inr [EndQueue (cl_websocket c) (close_client_queue (cl_queue c)),
                            SendText (rc_websocket r) (control_message ''transfer_id'' t ''close''),
                            CloseSocket (cl_websocket c) 4005 reason],
                       drop_session now runner_id t (b\<lparr>b_clients := dpop (b_clients b) t\<rparr>)))))"

text \<open>
  One round of \<^verbatim>\<open>send_client_frames\<close> on an attached client: nothing while the queue is empty, the
  end of the task when the client is gone or the empty closing frame arrives.
\<close>

datatype sender_outcome = SenderDone | SenderWaits | SenderSends relay_effect

definition send_client_frames_round :: "string \<Rightarrow> broker \<Rightarrow> (relay_error + sender_outcome) \<times> broker" where
  "send_client_frames_round transfer_id b =
     (case require_transfer_id transfer_id of
        Inl e \<Rightarrow> (Inl e, b)
      | Inr t \<Rightarrow>
          (case dget (b_clients b) t of
             None \<Rightarrow> (Inr SenderDone, b)
           | Some c \<Rightarrow>
               (case cl_queue c of
                  [] \<Rightarrow> (Inr SenderWaits, b)
                | ciphertext # rest \<Rightarrow>
                    (Inr (if ciphertext = [] then SenderDone else SenderSends (SendBytes (cl_websocket c) ciphertext)),
                     b\<lparr>b_clients := dset (b_clients b) t (c\<lparr>cl_queue := rest\<rparr>)\<rparr>))))"

end
