(* ===== verification/Runner_Relay_Properties.thy ===== *)
theory Runner_Relay_Properties
  imports Runner_Relay
begin

section \<open>Correctness of the runner relay\<close>

text \<open>
  The invariant that ties runners, sessions and clients together, its preservation by
  every locked region in any order, and the routing, fencing and grant properties that
  rest on it.
\<close>

subsection \<open>Invariant\<close>

definition runner_ok ::
  "(string \<Rightarrow> maintenance option) \<Rightarrow> (string \<Rightarrow> client_conn option) \<Rightarrow> string \<Rightarrow> runner_conn \<Rightarrow> bool" where
  "runner_ok maint clients rid r \<longleftrightarrow>
     distinct (rc_sessions r) \<and> length (rc_sessions r) \<le> RUNNER_SESSIONS_MAX \<and> length (rc_retired r) \<le> RETIRED_TRANSFERS_MAX
     \<and> (rc_sessions r \<noteq> [] \<longrightarrow> rc_ready r \<and> maint rid = None)
     \<and> (\<forall>t \<in> set (rc_sessions r). \<exists>c. clients t = Some c \<and> tg_runner_id (cl_grant c) = rid)"

definition client_ok :: "(string \<Rightarrow> runner_conn option) \<Rightarrow> string \<Rightarrow> client_conn \<Rightarrow> bool" where
  "client_ok runners t c \<longleftrightarrow>
     tg_transfer_id (cl_grant c) = t \<and> 0 \<le> cl_ciphertext_bytes c
     \<and> cl_ciphertext_bytes c \<le> max 0 (tg_max_session_bytes (cl_grant c))
     \<and> length (cl_queue c) \<le> RELAY_QUEUE_FRAMES_MAX \<and> [] \<notin> set (cl_queue c)
     \<and> (\<exists>r. runners (tg_runner_id (cl_grant c)) = Some r \<and> t \<in> set (rc_sessions r))"

definition broker_inv :: "broker \<Rightarrow> bool" where
  "broker_inv b \<longleftrightarrow>
     dict_ok (b_runners b) \<and> dict_ok (b_clients b) \<and> dict_ok (b_maintenance b)
     \<and> (\<forall>rid r. dget (b_runners b) rid = Some r \<longrightarrow> runner_ok (dget (b_maintenance b)) (dget (b_clients b)) rid r)
     \<and> (\<forall>t c. dget (b_clients b) t = Some c \<longrightarrow> client_ok (dget (b_runners b)) t c)"

lemma inv_runner: "broker_inv b \<Longrightarrow> dget (b_runners b) rid = Some r \<Longrightarrow> runner_ok (dget (b_maintenance b)) (dget (b_clients b)) rid r"
  by (simp add: broker_inv_def)

lemma inv_client: "broker_inv b \<Longrightarrow> dget (b_clients b) t = Some c \<Longrightarrow> client_ok (dget (b_runners b)) t c"
  by (simp add: broker_inv_def)

text \<open>A client is in the session set of its runner and of no other.\<close>

lemma inv_session_iff:
  assumes "broker_inv b" "dget (b_runners b) rid = Some r"
  shows "t \<in> set (rc_sessions r) \<longleftrightarrow> (\<exists>c. dget (b_clients b) t = Some c \<and> tg_runner_id (cl_grant c) = rid)"
  using inv_runner [OF assms] inv_client [OF assms(1)] assms(2) by (fastforce simp: runner_ok_def client_ok_def)

subsection \<open>Helpers\<close>

lemma pop_clients_dget: "dget (fst (pop_clients ts cs)) t = (if t \<in> set ts then None else dget cs t)"
  by (induction ts cs rule: pop_clients.induct) (auto split: option.splits prod.splits)

lemma pop_clients_dict_ok: "dict_ok cs \<Longrightarrow> dict_ok (fst (pop_clients ts cs))"
  by (induction ts cs rule: pop_clients.induct) (auto split: option.splits prod.splits)

lemma prune_sel [simp]:
  "rc_sessions (prune_retired_transfers now r) = rc_sessions r" "rc_ready (prune_retired_transfers now r) = rc_ready r"
  "rc_websocket (prune_retired_transfers now r) = rc_websocket r" "rc_id (prune_retired_transfers now r) = rc_id r"
  by (simp_all add: prune_retired_transfers_def)

lemma prune_length: "length (rc_retired (prune_retired_transfers now r)) \<le> length (rc_retired r)"
  by (simp add: prune_retired_transfers_def length_dropWhile_le)

lemma retire_sel [simp]:
  "rc_sessions (retire_transfer now t r) = rc_sessions r" "rc_ready (retire_transfer now t r) = rc_ready r"
  "rc_websocket (retire_transfer now t r) = rc_websocket r" "rc_id (retire_transfer now t r) = rc_id r"
  by (simp_all add: retire_transfer_def Let_def)

lemma retire_length: "length (rc_retired (retire_transfer now t r)) \<le> RETIRED_TRANSFERS_MAX"
  by (simp add: retire_transfer_def Let_def)

lemma discard_sel [simp]:
  "rc_sessions (session_discard t r) = removeAll t (rc_sessions r)" "rc_ready (session_discard t r) = rc_ready r"
  "rc_websocket (session_discard t r) = rc_websocket r" "rc_id (session_discard t r) = rc_id r"
  by (simp_all add: session_discard_def)

lemma filter_removeAll: "filter (\<lambda>x. x \<notin> A) (removeAll t xs) = filter (\<lambda>x. x \<notin> insert t A) xs"
  by (induction xs) auto

lemma quiesce_sessions_sel:
  assumes "quiesce_sessions order r cs = (r', cs', gone)"
  shows "rc_sessions r' = filter (\<lambda>t. t \<notin> fst ` set order) (rc_sessions r)" "rc_ready r' = rc_ready r"
    "rc_websocket r' = rc_websocket r" "rc_id r' = rc_id r"
    "(cs', gone) = pop_clients (map fst order) cs"
    "length (rc_retired r) \<le> RETIRED_TRANSFERS_MAX \<Longrightarrow> length (rc_retired r') \<le> RETIRED_TRANSFERS_MAX"
proof -
  have "rc_sessions r' = filter (\<lambda>t. t \<notin> fst ` set order) (rc_sessions r) \<and> rc_ready r' = rc_ready r
    \<and> rc_websocket r' = rc_websocket r \<and> rc_id r' = rc_id r \<and> (cs', gone) = pop_clients (map fst order) cs
    \<and> (length (rc_retired r) \<le> RETIRED_TRANSFERS_MAX \<longrightarrow> length (rc_retired r') \<le> RETIRED_TRANSFERS_MAX)"
    using assms
  proof (induction order r cs arbitrary: r' cs' gone rule: quiesce_sessions.induct)
    case (1 r clients)
    then show ?case by simp
  next
    case (2 t now rest r clients)
    show ?case
    proof (cases "dget clients t")
      case None
      then have "quiesce_sessions rest (retire_transfer now t (session_discard t r)) clients = (r', cs', gone)"
        using 2(3) by simp
      from 2(1) [OF refl None this] show ?thesis
        using retire_length [of now t "session_discard t r"] None by (simp add: filter_removeAll)
    next
      case (Some c)
      obtain r2 cs2 g2 where q: "quiesce_sessions rest (retire_transfer now t (session_discard t r)) (dpop clients t) = (r2, cs2, g2)"
        by (cases "quiesce_sessions rest (retire_transfer now t (session_discard t r)) (dpop clients t)") auto
      have eq: "r' = r2" "cs' = cs2" "gone = c\<lparr>cl_queue := close_client_queue (cl_queue c)\<rparr> # g2"
        using 2(3) Some q by simp_all
      have pc: "pop_clients (map fst rest) (dpop clients t) = (cs2, g2)" using 2(2) [OF refl Some q] by simp
      show ?thesis using 2(2) [OF refl Some q] Some retire_length [of now t "session_discard t r"]
        by (simp add: eq filter_removeAll pc)
    qed
  qed
  then show "rc_sessions r' = filter (\<lambda>t. t \<notin> fst ` set order) (rc_sessions r)" "rc_ready r' = rc_ready r"
    "rc_websocket r' = rc_websocket r" "rc_id r' = rc_id r"
    "(cs', gone) = pop_clients (map fst order) cs"
    "length (rc_retired r) \<le> RETIRED_TRANSFERS_MAX \<Longrightarrow> length (rc_retired r') \<le> RETIRED_TRANSFERS_MAX"
    by blast+
qed

lemma record_bytes_Inr:
  "record_bytes n c = Inr c' \<longleftrightarrow> 1 \<le> n \<and> cl_ciphertext_bytes c + int n \<le> tg_max_session_bytes (cl_grant c)
     \<and> c' = c\<lparr>cl_ciphertext_bytes := cl_ciphertext_bytes c + int n\<rparr>"
  by (auto simp: record_bytes_def)

lemma close_client_queue_eq: "close_client_queue q = drop (length q - 15) q @ [[]]"
proof (induction q rule: close_client_queue.induct)
  case (1 q)
  show ?case
  proof (cases "length q \<ge> 16")
    case True
    then have "q \<noteq> []" by auto
    then obtain x q' where q: "q = x # q'" by (cases q) auto
    with True obtain k where "length q' = 15 + k" by (auto simp: le_iff_add)
    then show ?thesis using 1 q by (subst close_client_queue.simps) (simp add: RELAY_QUEUE_FRAMES_MAX_def)
  next
    case False
    then show ?thesis by (subst close_client_queue.simps) (simp add: RELAY_QUEUE_FRAMES_MAX_def)
  qed
qed

lemma require_transfer_id_Inr: "require_transfer_id t = Inr t' \<longleftrightarrow> canonical_uuid t \<and> t' = t"
proof -
  have "canonical_uuid t \<Longrightarrow> t \<noteq> []" by (auto simp: canonical_uuid_def uuid_str_def hyphenate_def)
  then show ?thesis by (auto simp: require_transfer_id_def canonical_uuid_iff split: option.splits)
qed


subsection \<open>Preservation\<close>

definition sessions_of :: "broker \<Rightarrow> string \<Rightarrow> string list" where
  "sessions_of b rid = (case dget (b_runners b) rid of None \<Rightarrow> [] | Some r \<Rightarrow> rc_sessions r)"

lemma inv_sessions_of:
  "broker_inv b \<Longrightarrow> t \<in> set (sessions_of b rid) \<longleftrightarrow> (\<exists>c. dget (b_clients b) t = Some c \<and> tg_runner_id (cl_grant c) = rid)"
proof (cases "dget (b_runners b) rid")
  case None
  assume "broker_inv b"
  then show ?thesis using None inv_client [of b t] by (force simp: sessions_of_def client_ok_def)
qed (simp add: sessions_of_def inv_session_iff)

text \<open>A region that clears every session of one runner, replacing or removing the runner.\<close>

lemma clear_runner_inv:
  assumes inv: "broker_inv b" and ord: "set order = set (sessions_of b rid)"
    and r: "dget (b_runners b') = (dget (b_runners b))(rid := x)"
      "\<And>r'. x = Some r' \<Longrightarrow> rc_sessions r' = [] \<and> length (rc_retired r') \<le> RETIRED_TRANSFERS_MAX"
    and c: "\<And>t. dget (b_clients b') t = (if t \<in> set order then None else dget (b_clients b) t)"
    and m: "\<And>rid'. rid' \<noteq> rid \<Longrightarrow> dget (b_maintenance b') rid' = dget (b_maintenance b) rid'"
    and ok: "dict_ok (b_runners b')" "dict_ok (b_clients b')" "dict_ok (b_maintenance b')"
  shows "broker_inv b'"
proof -
  have "runner_ok (dget (b_maintenance b')) (dget (b_clients b')) rid' r'" if "dget (b_runners b') rid' = Some r'" for rid' r'
  proof (cases "rid' = rid")
    case True
    then show ?thesis using that r by (auto simp: runner_ok_def)
  next
    case False
    then have r': "dget (b_runners b) rid' = Some r'" using that r(1) by simp
    have "t \<notin> set order" if "t \<in> set (rc_sessions r')" for t
      using that inv_session_iff [OF inv r'] inv_sessions_of [OF inv, of t rid] ord False by auto
    then show ?thesis using inv_runner [OF inv r'] False m by (auto simp: runner_ok_def c)
  qed
  moreover have "client_ok (dget (b_runners b')) t k" if "dget (b_clients b') t = Some k" for t k
  proof -
    have k: "dget (b_clients b) t = Some k" "t \<notin> set order" using that c by (auto split: if_splits)
    then have "tg_runner_id (cl_grant k) \<noteq> rid" using inv_sessions_of [OF inv, of t rid] ord by auto
    then show ?thesis using inv_client [OF inv k(1)] by (simp add: client_ok_def r(1))
  qed
  ultimately show ?thesis using ok by (simp add: broker_inv_def)
qed

lemma replace_runner_inv:
  assumes inv: "broker_inv b" and r: "dget (b_runners b) rid = Some r" and r': "rc_sessions r' = rc_sessions r"
    "rc_ready r \<longrightarrow> rc_ready r'" "length (rc_retired r') \<le> RETIRED_TRANSFERS_MAX"
  shows "broker_inv (b\<lparr>b_runners := dset (b_runners b) rid r'\<rparr>)"
proof -
  have "runner_ok (dget (b_maintenance b)) (dget (b_clients b)) rid' q" if "dget (dset (b_runners b) rid r') rid' = Some q" for rid' q
    using that inv_runner [OF inv] inv_runner [OF inv r] r' by (cases "rid' = rid") (auto simp: runner_ok_def)
  moreover have "client_ok (dget (dset (b_runners b) rid r')) t c" if "dget (b_clients b) t = Some c" for t c
    using inv_client [OF inv that] r r'(1) by (auto simp: client_ok_def)
  ultimately show ?thesis using inv by (simp add: broker_inv_def)
qed

lemma update_client_inv:
  assumes inv: "broker_inv b" and c: "dget (b_clients b) t = Some c" "cl_grant c' = cl_grant c"
    and c': "0 \<le> cl_ciphertext_bytes c'" "cl_ciphertext_bytes c' \<le> max 0 (tg_max_session_bytes (cl_grant c))"
      "length (cl_queue c') \<le> RELAY_QUEUE_FRAMES_MAX" "[] \<notin> set (cl_queue c')"
  shows "broker_inv (b\<lparr>b_clients := dset (b_clients b) t c'\<rparr>)"
proof -
  have "client_ok (dget (b_runners b)) t c'" using inv_client [OF inv c(1)] c c' by (simp add: client_ok_def)
  moreover have "runner_ok (dget (b_maintenance b)) (dget (dset (b_clients b) t c')) rid r" if "dget (b_runners b) rid = Some r" for rid r
    using inv_runner [OF inv that] c by (fastforce simp: runner_ok_def)
  ultimately show ?thesis using inv by (simp add: broker_inv_def)
qed

lemma maintenance_inv:
  assumes inv: "broker_inv b" and m: "\<And>rid. maint rid \<noteq> None \<Longrightarrow> dget (b_maintenance b) rid \<noteq> None"
    and b': "b_runners b' = b_runners b" "b_clients b' = b_clients b" "dget (b_maintenance b') = maint" "dict_ok (b_maintenance b')"
  shows "broker_inv b'"
proof -
  have "maint rid = None" if "dget (b_maintenance b) rid = None" for rid using m that by blast
  then show ?thesis using inv b' by (auto simp: broker_inv_def runner_ok_def)
qed

lemma drop_client_inv:
  assumes inv: "broker_inv b" and c: "dget (b_clients b) t = Some c"
  shows "broker_inv (drop_session now (tg_runner_id (cl_grant c)) t (b\<lparr>b_clients := dpop (b_clients b) t\<rparr>))"
proof -
  let ?rid = "tg_runner_id (cl_grant c)"
  obtain r where r: "dget (b_runners b) ?rid = Some r" "t \<in> set (rc_sessions r)"
    using inv_client [OF inv c] by (auto simp: client_ok_def)
  let ?r = "retire_transfer now t (session_discard t r)"
  have other: "t \<notin> set (rc_sessions r')" if "dget (b_runners b) rid' = Some r'" "rid' \<noteq> ?rid" for rid' r'
    using inv_session_iff [OF inv that(1), of t] c that(2) by auto
  have "runner_ok (dget (b_maintenance b)) (dget (dpop (b_clients b) t)) rid' r'"
    if "dget (dset (b_runners b) ?rid ?r) rid' = Some r'" for rid' r'
  proof (cases "rid' = ?rid")
    case True
    then have r': "r' = ?r" using that by simp
    have "length (removeAll t (rc_sessions r)) \<le> RUNNER_SESSIONS_MAX"
      using inv_runner [OF inv r(1)] unfolding runner_ok_def removeAll_filter_not_eq by (blast intro: le_trans [OF length_filter_le])
    then show ?thesis using inv_runner [OF inv r(1)] retire_length [of now t "session_discard t r"] True
      by (auto simp: runner_ok_def r' distinct_removeAll)
  next
    case False
    then have "dget (b_runners b) rid' = Some r'" using that by simp
    then show ?thesis using inv_runner [OF inv] other False by (auto simp: runner_ok_def)
  qed
  moreover have "client_ok (dget (dset (b_runners b) ?rid ?r)) t' c'" if "dget (dpop (b_clients b) t) t' = Some c'" for t' c'
    using that inv_client [OF inv, of t' c'] r by (auto simp: client_ok_def split: if_splits)
  ultimately show ?thesis using inv r by (simp add: broker_inv_def drop_session_def)
qed

subsection \<open>Every region preserves the invariant\<close>

lemma register_begin_inv:
  assumes "broker_inv b" "set order = set (sessions_of b rid)"
  shows "broker_inv (snd (register_runner_begin rid ws durable order b))"
proof (cases "rid = []")
  case False
  define b' where "b' = snd (register_runner_begin rid ws durable order b)"
  have "pop_clients order (b_clients b) = (b_clients b, [])" if "dget (b_runners b) rid = None"
    using assms(2) that by (simp add: sessions_of_def)
  then have "b_clients b' = fst (pop_clients order (b_clients b))"
    using False by (auto simp: b'_def register_runner_begin_def Let_def split: option.splits prod.splits)
  moreover have "b_runners b' = dset (b_runners b) rid
      \<lparr> rc_id = b_next b, rc_websocket = ws, rc_ready = False, rc_sessions = [], rc_retired = [] \<rparr>"
    using False by (auto simp: b'_def register_runner_begin_def Let_def split: option.splits prod.splits)
  moreover have "dict_ok (b_maintenance b')" "\<And>rid'. rid' \<noteq> rid \<Longrightarrow> dget (b_maintenance b') rid' = dget (b_maintenance b) rid'"
    using False assms(1) by (auto simp: b'_def register_runner_begin_def Let_def broker_inv_def split: option.splits prod.splits)
  ultimately have "broker_inv b'" using assms
    by (intro clear_runner_inv [OF assms, of b'])
       (auto simp: pop_clients_dget pop_clients_dict_ok broker_inv_def fun_eq_iff)
  then show ?thesis by (simp add: b'_def)
qed (simp add: register_runner_begin_def assms)

lemma register_finish_inv:
  assumes inv: "broker_inv b"
  shows "broker_inv (register_runner_finish rid k b)"
proof (cases "dget (b_runners b) rid")
  case (Some r)
  then show ?thesis using inv inv_runner [OF inv Some]
    by (auto simp: register_runner_finish_def runner_ok_def intro!: replace_runner_inv [OF inv Some])
qed (simp add: register_runner_finish_def inv)

text \<open>A registration fails only while its candidate is not ready, so the candidate has no session.\<close>

lemma register_fail_inv:
  assumes inv: "broker_inv b" and k: "\<And>r. dget (b_runners b) rid = Some r \<Longrightarrow> rc_id r = k \<Longrightarrow> \<not> rc_ready r"
  shows "broker_inv (register_runner_fail rid k b)"
proof (cases "dget (b_runners b) rid")
  case (Some r)
  show ?thesis
  proof (cases "rc_id r = k")
    case True
    then have "sessions_of b rid = []" using k [OF Some] inv_runner [OF inv Some] Some
      by (auto simp: sessions_of_def runner_ok_def)
    then have "broker_inv (b\<lparr>b_runners := dpop (b_runners b) rid\<rparr>)"
      using inv by (intro clear_runner_inv [OF inv, where order = "[]" and rid = rid and x = None])
        (auto simp: broker_inv_def fun_eq_iff)
    then show ?thesis by (simp add: register_runner_fail_def Some True)
  qed (simp add: register_runner_fail_def Some inv)
qed (simp add: register_runner_fail_def inv)

lemma unregister_inv:
  assumes "broker_inv b" "set order = set (sessions_of b rid)"
  shows "broker_inv (snd (unregister_runner rid ws order b))"
proof (cases "dget (b_runners b) rid")
  case (Some r)
  have "broker_inv (b\<lparr>b_runners := dpop (b_runners b) rid, b_clients := fst (pop_clients order (b_clients b))\<rparr>)"
    using assms by (intro clear_runner_inv [OF assms, where x = None])
      (auto simp: pop_clients_dget pop_clients_dict_ok broker_inv_def fun_eq_iff)
  then show ?thesis using assms Some by (auto simp: unregister_runner_def Let_def split: prod.splits)
qed (simp add: unregister_runner_def assms)

lemma disconnect_inv:
  assumes "broker_inv b" "set order = set (sessions_of b rid)"
  shows "broker_inv (snd (disconnect_runner rid order b))"
proof -
  define b' where "b' = snd (disconnect_runner rid order b)"
  have "pop_clients order (b_clients b) = (b_clients b, [])" if "dget (b_runners b) rid = None"
    using assms(2) that by (simp add: sessions_of_def)
  then have "b_clients b' = fst (pop_clients order (b_clients b))" "b_runners b' = dpop (b_runners b) rid"
    "b_maintenance b' = dpop (b_maintenance b) rid"
    by (auto simp: b'_def disconnect_runner_def Let_def split: option.splits prod.splits)
  then have "broker_inv b'" using assms
    by (intro clear_runner_inv [OF assms, where x = None])
      (auto simp: pop_clients_dget pop_clients_dict_ok broker_inv_def fun_eq_iff)
  then show ?thesis by (simp add: b'_def)
qed

lemma quiesce_begin_inv:
  assumes inv: "broker_inv b" and ord: "set (map fst order) = set (sessions_of b rid)"
  shows "broker_inv (snd (quiesce_runner_begin rid job tmo order b))"
proof (cases "dget (b_runners b) rid")
  case None
  then have "snd (quiesce_runner_begin rid job tmo order b) = b"
    by (auto simp: quiesce_runner_begin_def split: sum.splits prod.splits simp: rbind_Inr_iff rbind_Inl_iff)
  then show ?thesis using inv by simp
next
  case (Some r)
  obtain r' cs gone where q: "quiesce_sessions order r (b_clients b) = (r', cs, gone)"
    by (cases "quiesce_sessions order r (b_clients b)") auto
  have "rc_sessions r' = []"
    using quiesce_sessions_sel(1) [OF q] ord Some by (auto simp: sessions_of_def)
  moreover have "length (rc_retired r') \<le> RETIRED_TRANSFERS_MAX"
    using quiesce_sessions_sel(6) [OF q] inv_runner [OF inv Some] by (simp add: runner_ok_def)
  moreover have cs: "cs = fst (pop_clients (map fst order) (b_clients b))"
    using quiesce_sessions_sel(5) [OF q] by (metis fst_conv)
  ultimately have "broker_inv \<lparr> b_next = n, b_runners = dset (b_runners b) rid r', b_maintenance = dset (b_maintenance b) rid m, b_clients = cs \<rparr>" for n m
    using inv by (intro clear_runner_inv [OF inv ord, where x = "Some r'"])
      (auto simp: pop_clients_dget pop_clients_dict_ok broker_inv_def fun_eq_iff)
  then show ?thesis using inv
    by (auto simp: quiesce_runner_begin_def Some q Let_def rbind_Inr_iff split: sum.splits prod.splits option.splits if_splits)
qed

lemma maintenance_pop_inv:
  assumes "broker_inv b"
  shows "broker_inv (b\<lparr>b_maintenance := dpop (b_maintenance b) rid\<rparr>)"
  using assms by (intro maintenance_inv [OF assms]) (auto simp: broker_inv_def split: if_splits)

lemma maintenance_ack_inv:
  assumes "broker_inv b" "dget (b_maintenance b) rid = Some m"
  shows "broker_inv (b\<lparr>b_maintenance := dset (b_maintenance b) rid m'\<rparr>)"
  using assms(2) by (intro maintenance_inv [OF assms(1)]) (use assms(1) in \<open>auto simp: broker_inv_def split: if_splits\<close>)

lemma quiesce_fail_inv: "broker_inv b \<Longrightarrow> broker_inv (quiesce_runner_fail rid k b)"
  by (auto simp: quiesce_runner_fail_def maintenance_pop_inv split: option.splits)

lemma quiesced_inv: "broker_inv b \<Longrightarrow> broker_inv (snd (runner_quiesced rid job b))"
  by (auto simp: runner_quiesced_def split: option.splits sum.splits intro: maintenance_ack_inv)

lemma release_inv: "broker_inv b \<Longrightarrow> broker_inv (snd (release_maintenance rid job b))"
  by (auto simp: release_maintenance_def maintenance_pop_inv split: option.splits sum.splits)

lemma attach_inv:
  assumes inv: "broker_inv b"
  shows "broker_inv (snd (attach_client_begin g ws b))"
proof (cases "\<exists>r. dget (b_runners b) (tg_runner_id g) = Some r \<and> rc_ready r \<and> dget (b_maintenance b) (tg_runner_id g) = None
    \<and> length (rc_sessions r) < RUNNER_SESSIONS_MAX \<and> dget (b_clients b) (tg_transfer_id g) = None")
  case True
  let ?t = "tg_transfer_id g" and ?rid = "tg_runner_id g"
  let ?c = "\<lparr> cl_websocket = ws, cl_grant = g, cl_queue = [], cl_ciphertext_bytes = 0 \<rparr>"
  obtain r where r: "dget (b_runners b) ?rid = Some r" "rc_ready r" "dget (b_maintenance b) ?rid = None"
    "length (rc_sessions r) < RUNNER_SESSIONS_MAX" "dget (b_clients b) ?t = None" using True by blast
  let ?r = "r\<lparr>rc_sessions := List.insert ?t (rc_sessions r)\<rparr>"
  have b': "snd (attach_client_begin g ws b) = b\<lparr>b_runners := dset (b_runners b) ?rid ?r, b_clients := dset (b_clients b) ?t ?c\<rparr>"
    using r by (simp add: attach_client_begin_def)
  have new: "?t \<notin> set (rc_sessions q)" if "dget (b_runners b) rid = Some q" for rid q
    using inv_session_iff [OF inv that, of ?t] r(5) by simp
  have "runner_ok (dget (b_maintenance b)) (dget (dset (b_clients b) ?t ?c)) rid q"
    if "dget (dset (b_runners b) ?rid ?r) rid = Some q" for rid q
    using that inv_runner [OF inv r(1)] inv_runner [OF inv, of rid q] new r
    by (cases "rid = ?rid") (auto simp: runner_ok_def)
  moreover have "client_ok (dget (dset (b_runners b) ?rid ?r)) t c" if "dget (dset (b_clients b) ?t ?c) t = Some c" for t c
    using that inv_client [OF inv, of t c] r by (cases "t = ?t") (auto simp: client_ok_def)
  ultimately show ?thesis using inv by (simp add: broker_inv_def b')
next
  case False
  then have "snd (attach_client_begin g ws b) = b"
    by (auto simp: attach_client_begin_def not_le split: option.splits)
  then show ?thesis using inv by simp
qed

lemma detach_inv: "broker_inv b \<Longrightarrow> broker_inv (snd (detach_client t ws now b))"
  by (auto simp: detach_client_def split: sum.splits option.splits intro: drop_client_inv)

lemma client_frame_inv:
  assumes inv: "broker_inv b"
  shows "broker_inv (snd (client_frame t ct b))"
proof -
  have "broker_inv (b\<lparr>b_clients := dset (b_clients b) t' c'\<rparr>)"
    if "dget (b_clients b) t' = Some c" "record_bytes n c = Inr c'" for t' c c' n
    using that inv_client [OF inv that(1)]
    by (intro update_client_inv [OF inv that(1)]) (auto simp: record_bytes_Inr client_ok_def)
  then show ?thesis using inv by (auto simp: client_frame_def split: sum.splits option.splits)
qed

lemma closed_transfer_inv: "broker_inv b \<Longrightarrow> broker_inv (snd (runner_closed_transfer rid t now b))"
  by (auto simp: runner_closed_transfer_def split: sum.splits option.splits intro: drop_client_inv)

lemma runner_frame_inv:
  assumes inv: "broker_inv b"
  shows "broker_inv (snd (runner_frame rid f now b))"
proof -
  have enq: "broker_inv (b\<lparr>b_clients := dset (b_clients b) t (c'\<lparr>cl_queue := cl_queue c' @ [x]\<rparr>)\<rparr>)"
    if "dget (b_clients b) t = Some c" "record_bytes n c = Inr c'" "\<not> length (cl_queue c) \<ge> RELAY_QUEUE_FRAMES_MAX" "x \<noteq> []" for t c c' n x
    using that inv_client [OF inv that(1)]
    by (intro update_client_inv [OF inv that(1)]) (auto simp: record_bytes_Inr client_ok_def)
  have prune: "broker_inv (b\<lparr>b_runners := dset (b_runners b) rid (prune_retired_transfers now r)\<rparr>)"
    if "dget (b_runners b) rid = Some r" for r
    using inv_runner [OF inv that] prune_length [of now r]
    by (intro replace_runner_inv [OF inv that]) (auto simp: runner_ok_def)
  have drop: "drop RUNNER_PREFIX_LENGTH f \<noteq> []" if "RUNNER_PREFIX_LENGTH < length f" using that by simp
  show ?thesis using inv enq prune drop_client_inv [OF inv] drop
    by (auto simp: runner_frame_def Let_def split: option.splits sum.splits if_splits)
qed

lemma sender_inv:
  assumes inv: "broker_inv b"
  shows "broker_inv (snd (send_client_frames_round t b))"
proof -
  have "broker_inv (b\<lparr>b_clients := dset (b_clients b) t' (c\<lparr>cl_queue := rest\<rparr>)\<rparr>)"
    if "dget (b_clients b) t' = Some c" "cl_queue c = x # rest" for t' c x rest
    using that inv_client [OF inv that(1)]
    by (intro update_client_inv [OF inv that(1)]) (auto simp: client_ok_def)
  then show ?thesis using inv by (auto simp: send_client_frames_round_def split: sum.splits option.splits list.splits)
qed

subsection \<open>Runs of the broker\<close>

text \<open>Locked regions in any order; the coroutines determine which regions can fail.\<close>

inductive broker_step :: "broker \<Rightarrow> broker \<Rightarrow> bool" where
  bs_register: "set order = set (sessions_of b rid) \<Longrightarrow> broker_step b (snd (register_runner_begin rid ws durable order b))"
| bs_register_finish: "broker_step b (register_runner_finish rid k b)"
| bs_register_fail: "(\<And>r. dget (b_runners b) rid = Some r \<Longrightarrow> rc_id r = k \<Longrightarrow> \<not> rc_ready r) \<Longrightarrow>
    broker_step b (register_runner_fail rid k b)"
| bs_unregister: "set order = set (sessions_of b rid) \<Longrightarrow> broker_step b (snd (unregister_runner rid ws order b))"
| bs_disconnect: "set order = set (sessions_of b rid) \<Longrightarrow> broker_step b (snd (disconnect_runner rid order b))"
| bs_quiesce: "set (map fst order) = set (sessions_of b rid) \<Longrightarrow> broker_step b (snd (quiesce_runner_begin rid job tmo order b))"
| bs_quiesce_fail: "broker_step b (quiesce_runner_fail rid k b)"
| bs_quiesced: "broker_step b (snd (runner_quiesced rid job b))"
| bs_release: "broker_step b (snd (release_maintenance rid job b))"
| bs_attach: "broker_step b (snd (attach_client_begin g ws b))"
| bs_detach: "broker_step b (snd (detach_client t ws now b))"
| bs_client_frame: "broker_step b (snd (client_frame t ct b))"
| bs_closed_transfer: "broker_step b (snd (runner_closed_transfer rid t now b))"
| bs_runner_frame: "broker_step b (snd (runner_frame rid f now b))"
| bs_sender: "broker_step b (snd (send_client_frames_round t b))"

lemmas region_invs = register_begin_inv register_finish_inv register_fail_inv unregister_inv disconnect_inv quiesce_begin_inv
  quiesce_fail_inv quiesced_inv release_inv attach_inv detach_inv client_frame_inv closed_transfer_inv runner_frame_inv sender_inv

interpretation relay: safe_system "\<lambda>b. b = new_broker" broker_step broker_inv
proof
  show "broker_inv b" if "b = new_broker" for b
    using that by (simp add: broker_inv_def new_broker_def)
  show "broker_inv b'" if "broker_inv b" "broker_step b b'" for b b'
    using that(2,1) by cases (auto intro: region_invs)
qed


subsection \<open>A concrete broker\<close>

definition sample_transfer :: string where "sample_transfer = uuid_str 5"

definition sample_grant :: transfer_grant where
  "sample_grant = \<lparr> tg_transfer_id = sample_transfer, tg_runner_id = ''r1'', tg_expires_at = 100, tg_max_session_bytes = 1000 \<rparr>"

definition sample_registered :: broker where
  "sample_registered = register_runner_finish ''r1'' 0 (snd (register_runner_begin ''r1'' 11 None [] new_broker))"

definition sample_attached :: broker where
  "sample_attached = snd (attach_client_begin sample_grant 22 sample_registered)"

definition sample_fenced :: broker where
  "sample_fenced = snd (quiesce_runner_begin ''r1'' (uuid_str 9) 10 [(sample_transfer, 3)] sample_attached)"

definition sample_client :: client_conn where
  "sample_client = \<lparr> cl_websocket = 22, cl_grant = sample_grant, cl_queue = [], cl_ciphertext_bytes = 0 \<rparr>"

lemma sample_canonical: "canonical_uuid sample_transfer"
  unfolding canonical_uuid_def sample_transfer_def by (intro exI [of _ 5]) simp

lemma sample_broker_reach: "reach (\<lambda>b. b = new_broker) broker_step sample_attached"
proof -
  have "reach (\<lambda>b. b = new_broker) broker_step (snd (register_runner_begin ''r1'' 11 None [] new_broker))"
    by (rule reach_step, rule reach_init, rule refl, rule bs_register) (simp add: sessions_of_def new_broker_def)
  then show ?thesis unfolding sample_attached_def sample_registered_def
    by (rule reach_step [OF reach_step]) (rule bs_register_finish bs_attach)+
qed

lemma sample_attached_client: "dget (b_clients sample_attached) sample_transfer = Some sample_client"
  by code_simp

lemma sample_fenced_reach: "reach (\<lambda>b. b = new_broker) broker_step sample_fenced"
proof -
  have "set (map fst [(sample_transfer, 3 :: clock)]) = set (sessions_of sample_attached ''r1'')" by code_simp
  then show ?thesis unfolding sample_fenced_def by (rule reach_step [OF sample_broker_reach bs_quiesce])
qed

subsection \<open>Properties\<close>

text \<open>C13: In every interleaving of the broker's locked regions, clients and runner sessions agree: an attached client is
  registered under its own transfer ID, in the session set of its runner, which is connected, ready and not under
  maintenance; every session of a runner has its client; a runner has at most 32 sessions and 128 retirement
  markers; and a client's traffic stays within its byte budget and its queue within 16 frames.\<close>

theorem relay_consistent:
  assumes "reach (\<lambda>b. b = new_broker) broker_step b"
  shows "(\<forall>t c. dget (b_clients b) t = Some c \<longrightarrow>
      tg_transfer_id (cl_grant c) = t \<and> length (cl_queue c) \<le> 16
      \<and> cl_ciphertext_bytes c \<le> max 0 (tg_max_session_bytes (cl_grant c))
      \<and> (\<exists>r. dget (b_runners b) (tg_runner_id (cl_grant c)) = Some r \<and> rc_ready r \<and> t \<in> set (rc_sessions r))
      \<and> dget (b_maintenance b) (tg_runner_id (cl_grant c)) = None)
    \<and> (\<forall>rid r. dget (b_runners b) rid = Some r \<longrightarrow>
      length (rc_sessions r) \<le> 32 \<and> length (rc_retired r) \<le> 128
      \<and> (\<forall>t \<in> set (rc_sessions r). \<exists>c. dget (b_clients b) t = Some c \<and> tg_runner_id (cl_grant c) = rid))"
proof -
  have inv: "broker_inv b" by (rule relay.reach_inv [OF assms])
  have "\<exists>r. dget (b_runners b) (tg_runner_id (cl_grant c)) = Some r \<and> rc_ready r \<and> t \<in> set (rc_sessions r)
      \<and> dget (b_maintenance b) (tg_runner_id (cl_grant c)) = None" if "dget (b_clients b) t = Some c" for t c
    using inv_client [OF inv that] inv_runner [OF inv, of "tg_runner_id (cl_grant c)"] by (auto simp: client_ok_def runner_ok_def)
  moreover have "tg_transfer_id (cl_grant c) = t \<and> length (cl_queue c) \<le> 16 \<and> cl_ciphertext_bytes c \<le> max 0 (tg_max_session_bytes (cl_grant c))"
    if "dget (b_clients b) t = Some c" for t c
    using inv_client [OF inv that] by (simp add: client_ok_def RELAY_QUEUE_FRAMES_MAX_def)
  moreover have "length (rc_sessions r) \<le> 32 \<and> length (rc_retired r) \<le> 128
      \<and> (\<forall>t \<in> set (rc_sessions r). \<exists>c. dget (b_clients b) t = Some c \<and> tg_runner_id (cl_grant c) = rid)"
    if "dget (b_runners b) rid = Some r" for rid r
    using inv_runner [OF inv that] by (simp add: runner_ok_def RUNNER_SESSIONS_MAX_def RETIRED_TRANSFERS_MAX_def)
  ultimately show ?thesis by blast
qed

lemma relay_consistent_witness:
  "\<exists>r. dget (b_runners sample_attached) ''r1'' = Some r \<and> rc_ready r \<and> sample_transfer \<in> set (rc_sessions r)"
  using relay_consistent [OF sample_broker_reach] sample_attached_client by (force simp: sample_client_def sample_grant_def)

text \<open>C35: The maintenance fence. While a runner is under maintenance, in any reachable state, it has no client, and no client can be attached to it.\<close>

theorem maintenance_fence:
  assumes "reach (\<lambda>b. b = new_broker) broker_step b" "dget (b_maintenance b) rid = Some m"
  shows "(\<forall>t c. dget (b_clients b) t = Some c \<longrightarrow> tg_runner_id (cl_grant c) \<noteq> rid)
    \<and> (\<forall>g ws. tg_runner_id g = rid \<longrightarrow> (\<exists>e. attach_client_begin g ws b = (Inl (RelayAuthorizationError e), b)))"
proof -
  have inv: "broker_inv b" by (rule relay.reach_inv [OF assms(1)])
  have "tg_runner_id (cl_grant c) \<noteq> rid" if "dget (b_clients b) t = Some c" for t c
    using inv_client [OF inv that] inv_runner [OF inv, of "tg_runner_id (cl_grant c)"] assms(2)
    by (auto simp: client_ok_def runner_ok_def)
  moreover have "\<exists>e. attach_client_begin g ws b = (Inl (RelayAuthorizationError e), b)" if "tg_runner_id g = rid" for g ws
    using assms(2) that by (auto simp: attach_client_begin_def split: option.splits)
  ultimately show ?thesis by blast
qed

lemma maintenance_fence_witness:
  "\<exists>e. attach_client_begin sample_grant 33 sample_fenced = (Inl (RelayAuthorizationError e), sample_fenced)"
proof -
  have "dget (b_maintenance sample_fenced) ''r1'' \<noteq> None" by code_simp
  then obtain m where "dget (b_maintenance sample_fenced) ''r1'' = Some m" by auto
  from maintenance_fence [OF sample_fenced_reach this] show ?thesis by (simp add: sample_grant_def)
qed

text \<open>Frames of a runner reach only its own clients. If processing a runner's frame changes what is queued for a client that stays attached, the
  client belongs to that runner, its transfer ID is the one in the frame's prefix, and the frame's payload was appended to its queue.\<close>

theorem runner_frame_isolated:
  assumes "dget (b_clients b) t = Some c" "dget (b_clients (snd (runner_frame rid f now b))) t = Some c'" "c' \<noteq> c"
  shows "tg_runner_id (cl_grant c) = rid \<and> t = uuid_str (uuid_of_bytes (take 16 f))
    \<and> cl_queue c' = cl_queue c @ [drop 16 f] \<and> cl_ciphertext_bytes c' = cl_ciphertext_bytes c + int (length f - 16)"
  using assms
  by (auto simp: runner_frame_def drop_session_def Let_def record_bytes_Inr RUNNER_PREFIX_LENGTH_def
      split: option.splits sum.splits if_splits)

lemma runner_frame_isolated_witness:
  "\<exists>c'. dget (b_clients (snd (runner_frame ''r1'' (uuid_bytes 5 @ [7, 8]) 4 sample_attached))) sample_transfer = Some c'
     \<and> cl_queue c' = [[7, 8]] \<and> tg_runner_id (cl_grant sample_client) = ''r1''"
proof -
  have "dget (b_clients (snd (runner_frame ''r1'' (uuid_bytes 5 @ [7, 8]) 4 sample_attached))) sample_transfer
      = Some (sample_client\<lparr>cl_ciphertext_bytes := 2, cl_queue := [[7, 8]]\<rparr>)" by code_simp
  moreover from runner_frame_isolated [OF sample_attached_client this]
  have "tg_runner_id (cl_grant sample_client) = ''r1''" by (simp add: sample_client_def)
  ultimately show ?thesis by simp
qed

lemma client_frame_effects:
  "client_frame t ct b = (Inr es, b') \<Longrightarrow> canonical_uuid t \<and> (\<exists>c r c'. dget (b_clients b) t = Some c
     \<and> dget (b_runners b) (tg_runner_id (cl_grant c)) = Some r \<and> record_bytes (length ct) c = Inr c'
     \<and> es = [SendBytes (rc_websocket r) (uuid_bytes (the (uuid_value t)) @ ct)] \<and> b' = b\<lparr>b_clients := dset (b_clients b) t c'\<rparr>)"
  by (auto simp: client_frame_def require_transfer_id_Inr split: sum.splits option.splits if_splits)

lemma prefix_identifies:
  assumes "canonical_uuid t"
  shows "uuid_str (uuid_of_bytes (uuid_bytes (the (uuid_value t)))) = t"
proof -
  obtain v where v: "v < 2 ^ 128" "t = uuid_str v" using assms by (auto simp: canonical_uuid_def)
  have "the (uuid_value t) = v" using uuid_value_str [OF v(1)] v(2) by simp
  then show ?thesis using uuid_of_bytes_bytes [OF v(1)] v(2) by simp
qed

text \<open>Routing round trip. The sixteen bytes the broker puts before a client's frame route the runner's answer back to that client:
  an answer under the same prefix that fits the budget and the queue is appended to the queue of exactly this client.\<close>

theorem frame_routing:
  assumes send: "client_frame t ct b = (Inr [SendBytes ws f], b1)"
    and c: "dget (b_clients b1) t = Some c"
    and x: "x \<noteq> []" "length x \<le> 65535" "cl_ciphertext_bytes c + int (length x) \<le> tg_max_session_bytes (cl_grant c)"
      "length (cl_queue c) < 16"
  shows "drop 16 f = ct \<and> runner_frame (tg_runner_id (cl_grant c)) (take 16 f @ x) now b1 =
    (Inr [], b1\<lparr>b_clients := dset (b_clients b1) t (c\<lparr>cl_ciphertext_bytes := cl_ciphertext_bytes c + int (length x),
       cl_queue := cl_queue c @ [x]\<rparr>)\<rparr>)"
proof -
  from client_frame_effects [OF send] obtain c0 r c1 where t: "canonical_uuid t" and c0: "dget (b_clients b) t = Some c0"
    "dget (b_runners b) (tg_runner_id (cl_grant c0)) = Some r" "record_bytes (length ct) c0 = Inr c1"
    and f: "f = uuid_bytes (the (uuid_value t)) @ ct" and b1: "b1 = b\<lparr>b_clients := dset (b_clients b) t c1\<rparr>" by auto
  have cc: "c = c1" "cl_grant c1 = cl_grant c0" using c c0 by (auto simp: b1 record_bytes_Inr)
  have pre: "uuid_str (uuid_of_bytes (take 16 f)) = t" "length (take 16 f) = 16" "drop 16 f = ct"
    using prefix_identifies [OF t] by (simp_all add: f)
  have "record_bytes (length x) c = Inr (c\<lparr>cl_ciphertext_bytes := cl_ciphertext_bytes c + int (length x)\<rparr>)"
    using x by (cases x) (auto simp: record_bytes_Inr)
  moreover have "dget (b_runners b1) (tg_runner_id (cl_grant c)) = Some r" using c0 cc by (simp add: b1)
  ultimately show ?thesis using pre x c
    by (cases x) (simp_all add: runner_frame_def Let_def RUNNER_PREFIX_LENGTH_def RELAY_FRAME_BYTES_MAX_def RELAY_QUEUE_FRAMES_MAX_def)
qed

lemma frame_routing_witness:
  "\<exists>f b1. client_frame sample_transfer [1, 2, 3] sample_attached = (Inr [SendBytes 11 f], b1)
     \<and> fst (runner_frame ''r1'' (take 16 f @ [9]) 6 b1) = Inr []"
proof -
  let ?b1 = "snd (client_frame sample_transfer [1, 2, 3] sample_attached)"
  have "fst (client_frame sample_transfer [1, 2, 3] sample_attached) = Inr [SendBytes 11 (uuid_bytes 5 @ [1, 2, 3])]" by code_simp
  then have send: "client_frame sample_transfer [1, 2, 3] sample_attached = (Inr [SendBytes 11 (uuid_bytes 5 @ [1, 2, 3])], ?b1)"
    by (simp add: prod_eq_iff)
  have c: "dget (b_clients ?b1) sample_transfer = Some (sample_client\<lparr>cl_ciphertext_bytes := 3\<rparr>)"
    using client_frame_effects [OF send] sample_attached_client by (auto simp: record_bytes_Inr sample_client_def)
  have "tg_runner_id (cl_grant (sample_client\<lparr>cl_ciphertext_bytes := 3\<rparr>)) = ''r1''"
    "[9 :: byte] \<noteq> []" "length [9 :: byte] \<le> 65535" "length (cl_queue (sample_client\<lparr>cl_ciphertext_bytes := 3\<rparr>)) < 16"
    "cl_ciphertext_bytes (sample_client\<lparr>cl_ciphertext_bytes := 3\<rparr>) + int (length [9 :: byte])
       \<le> tg_max_session_bytes (cl_grant (sample_client\<lparr>cl_ciphertext_bytes := 3\<rparr>))"
    by (simp_all add: sample_client_def sample_grant_def)
  from frame_routing [OF send c this(2,3,5,4), of 6] this(1)
  have "fst (runner_frame ''r1'' (take 16 (uuid_bytes 5 @ [1, 2, 3]) @ [9]) 6 ?b1) = Inr []" by (simp only: fst_conv)
  with send show ?thesis by blast
qed

lemma dropWhile_snoc: "\<not> P x \<Longrightarrow> dropWhile P (xs @ [x]) = dropWhile P xs @ [x]"
  by (induction xs) auto

lemma dget_snoc: "t \<notin> fst ` set xs \<Longrightarrow> dget (xs @ [(t, v)]) t = Some v"
  by (induction xs) auto

lemma retire_then_prune:
  assumes "now' - now \<le> RETIRED_TRANSFER_TTL_SECONDS"
  shows "dget (rc_retired (prune_retired_transfers now' (retire_transfer now t r))) t = Some now"
proof -
  let ?xs = "dpop (rc_retired (prune_retired_transfers now r)) t"
  have "rc_retired (retire_transfer now t r) = drop (Suc (length ?xs) - RETIRED_TRANSFERS_MAX) ?xs @ [(t, now)]"
    by (simp add: retire_transfer_def Let_def RETIRED_TRANSFERS_MAX_def)
  moreover have "t \<notin> fst ` set ?xs" by (auto simp: AList.delete_eq)
  then have "t \<notin> fst ` set (dropWhile P (drop n ?xs))" for P n
    by (force dest: set_dropWhileD in_set_dropD)
  ultimately show ?thesis using assms
    by (subst prune_retired_transfers_def) (simp add: dropWhile_snoc dget_snoc del: map_of_append)
qed

text \<open>Late traffic is absorbed. After a client detaches from a connected runner, frames that the runner still sends for that transfer within five
  minutes are dropped silently instead of failing the runner's connection.\<close>

theorem late_frame_absorbed:
  assumes inv: "broker_inv b" and c: "dget (b_clients b) t = Some c" "cl_websocket c = ws"
    and t: "canonical_uuid t" and late: "now' - now \<le> 300" and x: "x \<noteq> []" "length x \<le> 65535"
  shows "fst (runner_frame (tg_runner_id (cl_grant c)) (uuid_bytes (the (uuid_value t)) @ x) now' (snd (detach_client t ws now b))) = Inr []"
proof -
  obtain r where r: "dget (b_runners b) (tg_runner_id (cl_grant c)) = Some r" using inv_client [OF inv c(1)] by (auto simp: client_ok_def)
  have "require_transfer_id t = Inr t" using t by (simp add: require_transfer_id_Inr)
  then have b': "snd (detach_client t ws now b) =
      b\<lparr>b_clients := dpop (b_clients b) t,
        b_runners := dset (b_runners b) (tg_runner_id (cl_grant c)) (retire_transfer now t (session_discard t r))\<rparr>"
    using c r by (simp add: detach_client_def drop_session_def)
  show ?thesis using x prefix_identifies [OF t] retire_then_prune [of now' now t "session_discard t r"] late
    by (cases x) (simp_all add: b' runner_frame_def Let_def RUNNER_PREFIX_LENGTH_def RELAY_FRAME_BYTES_MAX_def RETIRED_TRANSFER_TTL_SECONDS_def)
qed

lemma late_frame_absorbed_witness:
  "fst (runner_frame ''r1'' (uuid_bytes (the (uuid_value sample_transfer)) @ [1]) 20 (snd (detach_client sample_transfer 22 5 sample_attached))) = Inr []"
  using late_frame_absorbed [OF relay.reach_inv [OF sample_broker_reach] sample_attached_client _ sample_canonical, of 22 20 5 "[1]"]
  by (simp add: sample_client_def sample_grant_def)

text \<open>Grants are single use. A successful claim was made with the exact capability, before expiry and for an unrevoked runner; after it, no
  claim of the same transfer succeeds, whatever capability and time it presents, and the other grants are untouched.\<close>

theorem claim_single_use:
  assumes "claim_runner_transfer_grant hexdigest tid cap now db = (Inr g, db')"
  shows "(\<exists>row. dget (transfer_grants db) tid = Some row \<and> gr_capability_hash row = hexdigest cap \<and> now < gr_expires_at row
      \<and> gr_claimed_at row = None \<and> tg_runner_id g = gr_runner_id row \<and> tg_max_session_bytes g = gr_max_session_bytes row)
    \<and> tg_transfer_id g = tid
    \<and> (\<forall>cap' now'. \<not> is_ok (fst (claim_runner_transfer_grant hexdigest tid cap' now' db')))
    \<and> (\<forall>k. k \<noteq> tid \<longrightarrow> dget (transfer_grants db') k = dget (transfer_grants db) k)"
proof -
  from assms obtain row runner where row: "dget (transfer_grants db) tid = Some row" "gr_capability_hash row = hexdigest cap"
    "now < gr_expires_at row" "gr_claimed_at row = None" and t: "canonical_uuid tid"
    and g: "g = \<lparr> tg_transfer_id = tid, tg_runner_id = gr_runner_id row, tg_expires_at = gr_expires_at row,
       tg_max_session_bytes = gr_max_session_bytes row \<rparr>"
    and db': "db' = db\<lparr>transfer_grants := dset (transfer_grants db) tid (row\<lparr>gr_claimed_at := Some now\<rparr>)\<rparr>"
    by (auto simp: claim_runner_transfer_grant_def rbind_Inr_iff require_transfer_id_Inr capability_hash_def
        split: sum.splits option.splits if_splits prod.splits)
  have "\<not> is_ok (fst (claim_runner_transfer_grant hexdigest tid cap' now' db'))" for cap' now'
    using t by (auto simp: claim_runner_transfer_grant_def db' rbind_Inr_iff require_transfer_id_Inr
        split: sum.splits option.splits if_splits prod.splits)
  then show ?thesis using row by (auto simp: g db')
qed

definition sample_db :: control_db where
  "sample_db = \<lparr> transfer_grants = [(sample_transfer, \<lparr> gr_user_id = ''u'', gr_runner_id = ''r1'', gr_capability_hash = ''cap'',
       gr_expires_at = 50, gr_max_session_bytes = 10, gr_claimed_at = None \<rparr>)],
     user_runners = [(''r1'', \<lparr> rr_revoked_at = None, rr_runner_token_hash = Some ''tok'' \<rparr>)], users = [''u''] \<rparr>"

lemma claim_single_use_witness:
  "\<exists>g db'. claim_runner_transfer_grant (\<lambda>x. x) sample_transfer ''cap'' 1 sample_db = (Inr g, db')
     \<and> \<not> is_ok (fst (claim_runner_transfer_grant (\<lambda>x. x) sample_transfer ''cap'' 2 db'))"
proof -
  let ?r = "claim_runner_transfer_grant (\<lambda>x. x) sample_transfer ''cap'' 1 sample_db"
  have "is_ok (fst ?r)" by code_simp
  then obtain g db' where r: "?r = (Inr g, db')" by (cases ?r) (auto simp: is_ok_iff)
  from claim_single_use [OF this] r show ?thesis by blast
qed

text \<open>Closing a client queue never blocks and always ends it: the newest fifteen frames are kept and the empty frame that stops the sender comes last.\<close>

theorem close_queue_ends:
  "close_client_queue q = drop (length q - 15) q @ [[]] \<and> length (close_client_queue q) \<le> 16"
  by (simp add: close_client_queue_eq)

end
