(* ===== verification/Json_Text.thy ===== *)
theory Json_Text
  imports Uuid_Text
begin

section \<open>JSON text\<close>

text \<open>
  What the journals use of Python's \<^verbatim>\<open>json\<close> and of UTF-8: JSON values, the text that
  \<^verbatim>\<open>json.dumps(value, separators=(",", ":"))\<close> produces with or without \<^verbatim>\<open>sort_keys\<close> (non-ASCII and
  control characters are escaped, as by default), and the number of bytes a character takes in
  UTF-8. A Python string whose characters matter is the list of its code points.
\<close>

type_synonym utext = "nat list"

definition ascii :: "string \<Rightarrow> utext" where
  "ascii s = map of_char s"

datatype json =
    JNull
  | JBool bool
  | JInt int
  | JFloat utext
  | JStr utext
  | JList "json list"
  | JObj "(utext \<times> json) list"

definition jget :: "json \<Rightarrow> string \<Rightarrow> json option" where
  "jget j k = (case j of JObj kvs \<Rightarrow> map_of kvs (ascii k) | _ \<Rightarrow> None)"

text \<open>\<^verbatim>\<open>bool(value)\<close>.\<close>

fun json_truthy :: "json \<Rightarrow> bool" where
  "json_truthy JNull = False"
| "json_truthy (JBool b) = b"
| "json_truthy (JInt i) = (i \<noteq> 0)"
| "json_truthy (JFloat t) = (t \<noteq> ascii ''0.0'' \<and> t \<noteq> ascii ''-0.0'')"
| "json_truthy (JStr s) = (s \<noteq> [])"
| "json_truthy (JList xs) = (xs \<noteq> [])"
| "json_truthy (JObj kvs) = (kvs \<noteq> [])"

subsection \<open>Serialisation\<close>

definition hex4 :: "nat \<Rightarrow> utext" where
  "hex4 v = [92, 117] @ ascii (hex_of 4 v)"

definition escape_char :: "nat \<Rightarrow> utext" where
  "escape_char c =
     (if c = 34 then [92, 34] else if c = 92 then [92, 92] else if c = 10 then [92, 110]
      else if c = 13 then [92, 114] else if c = 9 then [92, 116] else if c = 12 then [92, 102]
      else if c = 8 then [92, 98] else if 32 \<le> c \<and> c \<le> 126 then [c]
      else if c < 0x10000 then hex4 c
      else hex4 (0xD800 + (c - 0x10000) div 1024) @ hex4 (0xDC00 + (c - 0x10000) mod 1024))"

definition dumps_string :: "utext \<Rightarrow> utext" where
  "dumps_string s = [34] @ concat (map escape_char s) @ [34]"

fun nat_text :: "nat \<Rightarrow> utext" where
  "nat_text n = (if n < 10 then [48 + n] else nat_text (n div 10) @ [48 + n mod 10])"

declare nat_text.simps [simp del]

definition int_text :: "int \<Rightarrow> utext" where
  "int_text i = (if i < 0 then 45 # nat_text (nat (- i)) else nat_text (nat i))"

fun comma_join :: "utext list \<Rightarrow> utext" where
  "comma_join [] = []"
| "comma_join [x] = x"
| "comma_join (x # xs) = x @ [44] @ comma_join xs"

fun dumps :: "bool \<Rightarrow> json \<Rightarrow> utext" where
  "dumps sort_keys JNull = ascii ''null''"
| "dumps sort_keys (JBool b) = (if b then ascii ''true'' else ascii ''false'')"
| "dumps sort_keys (JInt i) = int_text i"
| "dumps sort_keys (JFloat t) = t"
| "dumps sort_keys (JStr s) = dumps_string s"
| "dumps sort_keys (JList xs) = [91] @ comma_join (map (dumps sort_keys) xs) @ [93]"
| "dumps sort_keys (JObj kvs) =
     (let items = map (\<lambda>(k, v). (k, dumps sort_keys v)) kvs;
          ordered = (if sort_keys then sort_key fst items else items)
      in [123] @ comma_join (map (\<lambda>(k, t). dumps_string k @ [58] @ t) ordered) @ [125])"

subsection \<open>UTF-8\<close>

text \<open>Bytes of one character; surrogates cannot be encoded.\<close>

definition utf8_len :: "nat \<Rightarrow> nat option" where
  "utf8_len c =
     (if c < 0x80 then Some 1 else if c < 0x800 then Some 2
      else if 0xD800 \<le> c \<and> c \<le> 0xDFFF then None
      else if c < 0x10000 then Some 3 else Some 4)"

fun utf8_length :: "utext \<Rightarrow> nat option" where
  "utf8_length [] = Some 0"
| "utf8_length (c # cs) =
     (case utf8_len c of None \<Rightarrow> None
      | Some n \<Rightarrow> (case utf8_length cs of None \<Rightarrow> None | Some m \<Rightarrow> Some (n + m)))"

lemma utf8_length_append:
  "utf8_length (xs @ ys) = (case utf8_length xs of None \<Rightarrow> None
     | Some n \<Rightarrow> (case utf8_length ys of None \<Rightarrow> None | Some m \<Rightarrow> Some (n + m)))"
  by (induction xs) (auto split: option.splits)

lemma length_hex4 [simp]: "length (hex4 v) = 6"
  by (simp add: hex4_def ascii_def)

lemma escape_char_length: "1 \<le> length (escape_char c) \<and> length (escape_char c) \<le> 12"
  by (simp add: escape_char_def)

end
