(* ===== verification/Event_Page.thy ===== *)
theory Event_Page
  imports Yinshi_Prelude
begin

section \<open>Paged event logs\<close>

text \<open>
  Both journals let a client read an append-only log of numbered events in bounded pages from
  a cursor. The contract: from a cursor within the log a page is the next piece of the log, the
  returned cursor is the number of the event after it, and a page is empty only at the end. A
  client that keeps reading from the returned cursor then receives every event once, in
  order, and reaches the end.
\<close>

fun drain :: "('log \<Rightarrow> nat \<Rightarrow> 'e + ('ev list \<times> nat)) \<Rightarrow> nat \<Rightarrow> 'log \<Rightarrow> nat \<Rightarrow> 'e + ('ev list \<times> nat)" where
  "drain read 0 l c = Inr ([], c)"
| "drain read (Suc n) l c =
     rbind (read l c) (\<lambda>(evs, c'). rbind (drain read n l c') (\<lambda>(rest, c''). Inr (evs @ rest, c'')))"

locale event_pager =
  fixes read :: "'log \<Rightarrow> nat \<Rightarrow> 'e + ('ev list \<times> nat)"
    and base :: "'log \<Rightarrow> nat"
    and items :: "'log \<Rightarrow> 'ev list"
    and ok :: "'log \<Rightarrow> bool"
  assumes page: "ok l \<Longrightarrow> base l \<le> c \<Longrightarrow> c \<le> base l + length (items l) \<Longrightarrow>
    \<exists>k. read l c = Inr (take k (drop (c - base l) (items l)), c + k) \<and> c + k \<le> base l + length (items l)
      \<and> (c < base l + length (items l) \<longrightarrow> 0 < k)"
begin

lemma drain_all:
  "ok l \<Longrightarrow> base l \<le> c \<Longrightarrow> c \<le> base l + length (items l) \<Longrightarrow> base l + length (items l) - c \<le> n \<Longrightarrow>
     drain read n l c = Inr (drop (c - base l) (items l), base l + length (items l))"
proof (induction n arbitrary: c)
  case 0
  then show ?case by simp
next
  case (Suc n)
  let ?stop = "base l + length (items l)"
  from page [OF Suc.prems(1-3)] obtain k where k: "read l c = Inr (take k (drop (c - base l) (items l)), c + k)"
    "c + k \<le> ?stop" "c < ?stop \<longrightarrow> 0 < k" by blast
  have "drain read n l (c + k) = Inr (drop (c + k - base l) (items l), ?stop)"
    using Suc.prems k by (intro Suc.IH) auto
  moreover have "take k (drop (c - base l) (items l)) @ drop (c + k - base l) (items l) = drop (c - base l) (items l)"
    using append_take_drop_id [of k "drop (c - base l) (items l)"] Suc.prems(2) by (simp add: drop_drop add.commute)
  ultimately show ?case by (simp add: k(1))
qed

lemma read_progress: "ok l \<Longrightarrow> base l \<le> c \<Longrightarrow> c < base l + length (items l) \<Longrightarrow> \<exists>evs c'. read l c = Inr (evs, c') \<and> evs \<noteq> [] \<and> c < c'"
  using page [of l c] by auto

end

text \<open>
  The greedy choice both journals make: as many of the next events as fit, at least one. The
  sizes are those of the events from the cursor on.
\<close>

fun greedy :: "nat \<Rightarrow> nat \<Rightarrow> nat \<Rightarrow> nat \<Rightarrow> nat list \<Rightarrow> nat" where
  "greedy count_max bytes_max n b [] = 0"
| "greedy count_max bytes_max n b (s # ss) =
     (if n > 0 \<and> b + s > bytes_max then 0
      else if Suc n \<ge> count_max then 1
      else Suc (greedy count_max bytes_max (Suc n) (b + s) ss))"

lemma greedy_le: "greedy count_max bytes_max n b ss \<le> length ss"
  by (induction ss arbitrary: n b) auto

lemma greedy_pos: "ss \<noteq> [] \<Longrightarrow> 0 < greedy count_max bytes_max 0 b ss"
  by (cases ss) auto

lemma greedy_count: "n < count_max \<Longrightarrow> n + greedy count_max bytes_max n b ss \<le> count_max"
proof (induction ss arbitrary: n b)
  case (Cons s ss)
  then show ?case using Cons.IH [of "Suc n" "b + s"] by auto
qed simp

lemma greedy_bytes:
  "n > 0 \<Longrightarrow> b \<le> bytes_max \<Longrightarrow> b + sum_list (take (greedy count_max bytes_max n b ss) ss) \<le> bytes_max"
  by (induction ss arbitrary: n b) (auto simp: add.assoc [symmetric] not_less)

end
