(* ===== verification/Terminal_Journal.thy ===== *)
theory Terminal_Journal
  imports Json_Text Event_Page
begin

section \<open>The terminal journal\<close>

text \<open>
  Model of \<^verbatim>\<open>services/terminal_journal.py\<close>: multiplexed terminal channels whose bounded output is
  polled by reconnecting clients. A channel is a record; the journal holds the channels, the
  starts in progress and the closing flag. As in the relay, every locked region is one function
  and what a coroutine does between two regions can be interleaved with others. The sidecar
  socket, its reader and writer are not modelled: the lines read from it are arguments, the
  messages written to it are results. \<open>loads\<close> is UTF-8 decoding followed by \<^verbatim>\<open>json.loads\<close>.
\<close>

datatype terminal_error =
    TerminalNotFoundError string
  | TerminalLimitError string
  | TerminalCursorExpiredError string
  | TerminalConnectionError string
  | TerminalValueError string
  | TerminalRuntimeError string

definition TERMINAL_ID_LENGTH :: nat where "TERMINAL_ID_LENGTH = 32"
definition OUTPUT_EVENT_BYTES_MAX :: nat where "OUTPUT_EVENT_BYTES_MAX = 24000"
definition OUTPUT_BUFFER_BYTES_MAX :: int where "OUTPUT_BUFFER_BYTES_MAX = 1048576"
definition OUTPUT_EVENT_COUNT_MAX :: nat where "OUTPUT_EVENT_COUNT_MAX = 1000"
definition TERMINALS_PER_USER_MAX :: nat where "TERMINALS_PER_USER_MAX = 8"
definition EVENT_BATCH_BYTES_MAX :: nat where "EVENT_BATCH_BYTES_MAX = 48000"
definition EVENT_BATCH_COUNT_MAX :: nat where "EVENT_BATCH_COUNT_MAX = 100"

type_synonym terminal_event = "nat \<times> json \<times> nat"

record terminal_channel =
  tc_ref :: nat
  tc_id :: string
  tc_user_id :: string
  tc_workspace_id :: string
  tc_owner_id :: "string option"
  tc_attach_options :: json
  tc_events :: "terminal_event list"
  tc_next_sequence :: nat
  tc_event_bytes :: int
  tc_closed :: bool
  tc_activity :: clock

record terminal_journal =
  tj_next :: nat
  tj_idle_seconds :: int
  tj_scrollback_lines :: int
  tj_channels :: "(string, terminal_channel) pydict"
  tj_starting_by_user :: "(string, nat) pydict"
  tj_starting_by_owner :: "(string \<times> string) list"
  tj_closing :: bool

record terminal_event_batch =
  teb_terminal_id :: string
  teb_events :: "json list"
  teb_next_sequence :: nat
  teb_closed :: bool

definition new_terminal_journal :: "int \<Rightarrow> int \<Rightarrow> terminal_error + terminal_journal" where
  "new_terminal_journal scrollback_lines idle_seconds =
     rbind (raise_if (\<not> (100 \<le> scrollback_lines \<and> scrollback_lines \<le> 100000))
              (TerminalValueError ''terminal scrollback_lines must be between 100 and 100000'')) (\<lambda>_.
     rbind (raise_if (\<not> (60 \<le> idle_seconds \<and> idle_seconds \<le> 86400))
              (TerminalValueError ''terminal idle_seconds must be between 60 and 86400'')) (\<lambda>_.
     Inr \<lparr> tj_next = 0, tj_idle_seconds = idle_seconds, tj_scrollback_lines = scrollback_lines, tj_channels = [],
           tj_starting_by_user = [], tj_starting_by_owner = [], tj_closing = False \<rparr>))"

subsection \<open>Validators\<close>

definition validate_resource_id :: "string \<Rightarrow> string \<Rightarrow> terminal_error + unit" where
  "validate_resource_id value name =
     rbind (raise_if (length value \<noteq> TERMINAL_ID_LENGTH) (TerminalValueError (name @ '' must contain exactly 32 characters''))) (\<lambda>_.
     raise_if (\<not> is_lower_hex value) (TerminalValueError (name @ '' must be lowercase hexadecimal'')))"

definition validate_identity :: "string \<Rightarrow> string \<Rightarrow> terminal_error + unit" where
  "validate_identity value name =
     raise_if (value = [] \<or> length value > 256) (TerminalValueError (name @ '' has an invalid length''))"

definition validate_size :: "int \<Rightarrow> int \<Rightarrow> terminal_error + unit" where
  "validate_size cols rows =
     rbind (raise_if (\<not> (2 \<le> cols \<and> cols \<le> 500)) (TerminalValueError ''terminal cols must be between 2 and 500'')) (\<lambda>_.
     raise_if (\<not> (2 \<le> rows \<and> rows \<le> 500)) (TerminalValueError ''terminal rows must be between 2 and 500''))"

text \<open>Key sets of JSON objects are compared as sets.\<close>

definition validate_terminal_ready :: "json \<Rightarrow> string \<Rightarrow> terminal_error + unit" where
  "validate_terminal_ready message workspace_id =
     rbind (raise_if (case message of
                        JObj kvs \<Rightarrow> fst ` set kvs \<noteq> ascii ` {''id'', ''type'', ''cwd'', ''pid'', ''replay''}
                      | _ \<Rightarrow> True)
              (TerminalConnectionError ''sidecar terminal ready schema is invalid'')) (\<lambda>_.
     rbind (raise_if (jget message ''id'' \<noteq> Some (JStr (ascii workspace_id))
                      \<or> jget message ''type'' \<noteq> Some (JStr (ascii ''terminal_ready'')))
              (TerminalConnectionError ''sidecar terminal ready identity is invalid'')) (\<lambda>_.
     rbind (raise_if (case jget message ''cwd'' of
                        Some (JStr cwd) \<Rightarrow> \<not> starts_with cwd (ascii ''/'') \<or> length cwd > 4096
                      | _ \<Rightarrow> True)
              (TerminalConnectionError ''sidecar terminal ready cwd is invalid'')) (\<lambda>_.
     rbind (raise_if (case jget message ''pid'' of Some (JInt pid) \<Rightarrow> pid \<le> 0 | _ \<Rightarrow> True)
              (TerminalConnectionError ''sidecar terminal ready pid is invalid'')) (\<lambda>_.
     raise_if (case jget message ''replay'' of Some (JStr _) \<Rightarrow> False | _ \<Rightarrow> True)
       (TerminalConnectionError ''sidecar terminal ready replay is invalid'')))))"

definition decode_message :: "(bytes \<Rightarrow> json option) \<Rightarrow> bytes \<Rightarrow> terminal_error + json" where
  "decode_message loads line =
     rbind (raise_if (line = [] \<or> length line > 8 * 1024 * 1024)
              (TerminalValueError ''sidecar terminal message has an invalid length'')) (\<lambda>_.
     case loads line of
       None \<Rightarrow> Inl (TerminalValueError ''invalid JSON'')
     | Some message \<Rightarrow>
         rbind (raise_if (case jget message ''type'' of Some (JStr _) \<Rightarrow> False | _ \<Rightarrow> True)
                  (TerminalValueError ''sidecar terminal message must be a typed object'')) (\<lambda>_.
         Inr message))"

subsection \<open>Events of one channel\<close>

definition data_event :: "utext \<Rightarrow> json" where
  "data_event d = JObj [(ascii ''type'', JStr (ascii ''terminal_data'')), (ascii ''data'', JStr d)]"

fun split_data_loop :: "utext \<Rightarrow> json list \<Rightarrow> utext \<Rightarrow> nat \<Rightarrow> terminal_error + json list" where
  "split_data_loop [] chunks current current_bytes =
     Inr (chunks @ (if current \<noteq> [] \<or> chunks = [] then [data_event current] else []))"
| "split_data_loop (c # cs) chunks current current_bytes =
     (case utf8_len c of
        None \<Rightarrow> Inl (TerminalValueError ''surrogates not allowed'')
      | Some n \<Rightarrow>
          if current \<noteq> [] \<and> current_bytes + n > 20000
          then split_data_loop cs (chunks @ [data_event current]) [c] n
          else split_data_loop cs chunks (current @ [c]) (current_bytes + n))"

definition split_terminal_data :: "utext \<Rightarrow> terminal_error + json list" where
  "split_terminal_data data = split_data_loop data [] [] 0"

definition split_event :: "json \<Rightarrow> terminal_error + json list" where
  "split_event event =
     (case (jget event ''type'', jget event ''replay'', event) of
        (Some (JStr t), Some (JStr replay), JObj kvs) \<Rightarrow>
          if t = ascii ''terminal_ready'' then
            let ready_event = JObj (filter (\<lambda>(k, v). k \<noteq> ascii ''replay'') kvs @ [(ascii ''replay'', JStr [])]) in
            if replay = [] then Inr [ready_event]
            else rbind (split_terminal_data replay) (\<lambda>replay_events. Inr (ready_event # replay_events))
          else (case jget event ''data'' of
                  Some (JStr d) \<Rightarrow> if t = ascii ''terminal_data'' then split_terminal_data d else Inr [event]
                | _ \<Rightarrow> Inr [event])
      | (Some (JStr t), _, _) \<Rightarrow>
          (case jget event ''data'' of
             Some (JStr d) \<Rightarrow> if t = ascii ''terminal_data'' then split_terminal_data d else Inr [event]
           | _ \<Rightarrow> Inr [event])
      | _ \<Rightarrow> Inr [event])"

text \<open>The eviction loop; \<^verbatim>\<open>pop(0)\<close> of an empty list raises.\<close>

fun evict :: "terminal_event list \<Rightarrow> int \<Rightarrow> terminal_error + (terminal_event list \<times> int)" where
  "evict [] b = (if b > OUTPUT_BUFFER_BYTES_MAX then Inl (TerminalRuntimeError ''pop from empty list'') else Inr ([], b))"
| "evict ((s, e, n) # rest) b =
     (if b > OUTPUT_BUFFER_BYTES_MAX \<or> length ((s, e, n) # rest) > OUTPUT_EVENT_COUNT_MAX
      then evict rest (b - int n) else Inr ((s, e, n) # rest, b))"

definition append_event :: "json \<Rightarrow> clock \<Rightarrow> terminal_channel \<Rightarrow> (terminal_error + unit) \<times> terminal_channel" where
  "append_event event now ch =
     (let event_bytes = length (dumps True event) in
      if event_bytes > OUTPUT_EVENT_BYTES_MAX then
        (Inl (TerminalValueError ''terminal event exceeds the byte limit''), ch)
      else
        let ch1 = ch\<lparr> tc_next_sequence := tc_next_sequence ch + 1,
                      tc_events := tc_events ch @ [(tc_next_sequence ch, event, event_bytes)],
                      tc_event_bytes := tc_event_bytes ch + int event_bytes \<rparr>
        in case evict (tc_events ch1) (tc_event_bytes ch1) of
             Inl e \<Rightarrow> (Inl e, ch1)
           | Inr (kept, total_bytes) \<Rightarrow>
               let ch2 = ch1\<lparr>tc_events := kept, tc_event_bytes := total_bytes\<rparr> in
               if total_bytes < 0 then (Inl (TerminalRuntimeError ''AssertionError''), ch2)
               else (Inr (), ch2\<lparr>tc_activity := now\<rparr>))"

fun append_events :: "json list \<Rightarrow> clock \<Rightarrow> terminal_channel \<Rightarrow> (terminal_error + unit) \<times> terminal_channel" where
  "append_events [] now ch = (Inr (), ch)"
| "append_events (e # es) now ch =
     (case append_event e now ch of
        (Inl err, ch1) \<Rightarrow> (Inl err, ch1)
      | (Inr _, ch1) \<Rightarrow> append_events es now ch1)"

definition disconnected_event :: json where
  "disconnected_event =
     JObj [(ascii ''type'', JStr (ascii ''error'')), (ascii ''error'', JStr (ascii ''Terminal runtime disconnected''))]"

text \<open>
  One line of \<^verbatim>\<open>_read_output\<close>: whether the loop goes on, and the channel. Every way out of the loop
  closes the channel, after an error event has been appended.
\<close>

definition read_output_line ::
  "(bytes \<Rightarrow> json option) \<Rightarrow> bytes \<Rightarrow> clock \<Rightarrow> terminal_channel \<Rightarrow> bool \<times> terminal_channel" where
  "read_output_line loads line now ch =
     (let give_up = (\<lambda>c. (False, (snd (append_event disconnected_event now c))\<lparr>tc_closed := True\<rparr>)) in
      if line = [] then give_up ch
      else case decode_message loads line of
             Inl e \<Rightarrow> give_up ch
           | Inr message \<Rightarrow>
               if jget message ''type'' = Some (JStr (ascii ''init_status'')) then (True, ch)
               else case split_event message of
                      Inl e \<Rightarrow> give_up ch
                    | Inr evs \<Rightarrow>
                        (case append_events evs now ch of
                           (Inl e, ch1) \<Rightarrow> give_up ch1
                         | (Inr _, ch1) \<Rightarrow> (True, ch1)))"

text \<open>The selection loop of \<^verbatim>\<open>events\<close>.\<close>

fun select_events ::
  "terminal_event list \<Rightarrow> nat \<Rightarrow> json list \<Rightarrow> nat \<Rightarrow> terminal_error + (json list \<times> nat)" where
  "select_events [] cursor selected selected_bytes = Inr (selected, cursor)"
| "select_events ((sequence, event, event_bytes) # rest) cursor selected selected_bytes =
     (if sequence < cursor then select_events rest cursor selected selected_bytes
      else if sequence \<noteq> cursor then Inl (TerminalRuntimeError ''terminal journal sequence is not contiguous'')
      else if selected \<noteq> [] \<and> selected_bytes + event_bytes > EVENT_BATCH_BYTES_MAX then Inr (selected, cursor)
      else if length (selected @ [event]) \<ge> EVENT_BATCH_COUNT_MAX then Inr (selected @ [event], cursor + 1)
      else select_events rest (cursor + 1) (selected @ [event]) (selected_bytes + event_bytes))"

definition earliest_sequence :: "terminal_channel \<Rightarrow> nat" where
  "earliest_sequence ch = (case tc_events ch of [] \<Rightarrow> tc_next_sequence ch | (s, _) # _ \<Rightarrow> s)"

definition read_page :: "terminal_channel \<Rightarrow> nat \<Rightarrow> terminal_error + (json list \<times> nat)" where
  "read_page ch next_sequence =
     rbind (raise_if (next_sequence < earliest_sequence ch)
              (TerminalCursorExpiredError ''terminal output cursor expired'')) (\<lambda>_.
     rbind (raise_if (next_sequence > tc_next_sequence ch)
              (TerminalValueError ''terminal output cursor is ahead of the journal'')) (\<lambda>_.
     select_events (tc_events ch) next_sequence [] 0))"

subsection \<open>Requests on a channel\<close>

definition find_channel ::
  "string \<Rightarrow> string \<Rightarrow> string \<Rightarrow> bool \<Rightarrow> terminal_journal \<Rightarrow> terminal_error + terminal_channel" where
  "find_channel user_id workspace_id terminal_id allow_closed j =
     rbind (validate_identity user_id ''user_id'') (\<lambda>_.
     rbind (validate_resource_id workspace_id ''workspace_id'') (\<lambda>_.
     rbind (validate_resource_id terminal_id ''terminal_id'') (\<lambda>_.
     case dget (tj_channels j) terminal_id of
       None \<Rightarrow> Inl (TerminalNotFoundError ''terminal not found'')
     | Some ch \<Rightarrow>
         if tc_user_id ch \<noteq> user_id \<or> tc_workspace_id ch \<noteq> workspace_id \<or> (tc_closed ch \<and> \<not> allow_closed)
         then Inl (TerminalNotFoundError ''terminal not found'')
         else Inr ch)))"

definition put_channel :: "terminal_channel \<Rightarrow> terminal_journal \<Rightarrow> terminal_journal" where
  "put_channel ch j = j\<lparr>tj_channels := dset (tj_channels j) (tc_id ch) ch\<rparr>"

definition send_message ::
  "terminal_channel \<Rightarrow> json \<Rightarrow> clock \<Rightarrow> terminal_journal \<Rightarrow> (terminal_error + utext) \<times> terminal_journal" where
  "send_message ch message now j =
     (if tc_closed ch then (Inl (TerminalNotFoundError ''terminal is closed''), j)
      else (Inr (dumps False message @ [10]), put_channel (ch\<lparr>tc_activity := now\<rparr>) j))"

definition terminal_input ::
  "string \<Rightarrow> string \<Rightarrow> string \<Rightarrow> utext \<Rightarrow> clock \<Rightarrow> terminal_journal \<Rightarrow> (terminal_error + utext) \<times> terminal_journal" where
  "terminal_input user_id workspace_id terminal_id data now j =
     (case find_channel user_id workspace_id terminal_id False j of
        Inl e \<Rightarrow> (Inl e, j)
      | Inr ch \<Rightarrow>
          (case utf8_length data of
             None \<Rightarrow> (Inl (TerminalValueError ''surrogates not allowed''), j)
           | Some n \<Rightarrow>
               if data = [] \<or> n > 16384 then (Inl (TerminalValueError ''terminal input has an invalid length''), j)
               else send_message ch (JObj [(ascii ''type'', JStr (ascii ''terminal_input'')),
                      (ascii ''id'', JStr (ascii workspace_id)), (ascii ''data'', JStr data)]) now j))"

definition terminal_resize ::
  "string \<Rightarrow> string \<Rightarrow> string \<Rightarrow> int \<Rightarrow> int \<Rightarrow> clock \<Rightarrow> terminal_journal \<Rightarrow> (terminal_error + utext) \<times> terminal_journal" where
  "terminal_resize user_id workspace_id terminal_id cols rows now j =
     (case rbind (validate_size cols rows) (\<lambda>_. find_channel user_id workspace_id terminal_id False j) of
        Inl e \<Rightarrow> (Inl e, j)
      | Inr ch \<Rightarrow> send_message ch (JObj [(ascii ''type'', JStr (ascii ''terminal_resize'')),
            (ascii ''id'', JStr (ascii workspace_id)), (ascii ''cols'', JInt cols), (ascii ''rows'', JInt rows)]) now j)"

definition terminal_restart ::
  "string \<Rightarrow> string \<Rightarrow> string \<Rightarrow> clock \<Rightarrow> terminal_journal \<Rightarrow> (terminal_error + utext) \<times> terminal_journal" where
  "terminal_restart user_id workspace_id terminal_id now j =
     (case find_channel user_id workspace_id terminal_id False j of
        Inl e \<Rightarrow> (Inl e, j)
      | Inr ch \<Rightarrow> send_message ch (JObj [(ascii ''type'', JStr (ascii ''terminal_restart'')),
            (ascii ''id'', JStr (ascii workspace_id)), (ascii ''options'', tc_attach_options ch)]) now j)"

text \<open>\<^verbatim>\<open>events\<close>, after the wait for output: the page is read from the channel as it is then.\<close>

definition terminal_events ::
  "string \<Rightarrow> string \<Rightarrow> string \<Rightarrow> int \<Rightarrow> real \<Rightarrow> clock \<Rightarrow> terminal_journal
     \<Rightarrow> (terminal_error + terminal_event_batch) \<times> terminal_journal" where
  "terminal_events user_id workspace_id terminal_id next_sequence wait_seconds now j =
     (case rbind (raise_if (next_sequence < 0) (TerminalValueError ''next_sequence must be a non-negative integer'')) (\<lambda>_.
           rbind (raise_if (\<not> (0 \<le> wait_seconds \<and> wait_seconds \<le> 10))
                    (TerminalValueError ''wait_seconds must be between 0 and 10'')) (\<lambda>_.
           find_channel user_id workspace_id terminal_id True j)) of
        Inl e \<Rightarrow> (Inl e, j)
      | Inr ch \<Rightarrow>
          (case read_page ch (nat next_sequence) of
             Inl e \<Rightarrow> (Inl e, j)
           | Inr (evs, cursor) \<Rightarrow>
               (Inr \<lparr> teb_terminal_id = terminal_id, teb_events = evs, teb_next_sequence = cursor, teb_closed = tc_closed ch \<rparr>,
                put_channel (ch\<lparr>tc_activity := now\<rparr>) j)))"

definition terminal_close :: "string \<Rightarrow> string \<Rightarrow> string \<Rightarrow> terminal_journal \<Rightarrow> (terminal_error + unit) \<times> terminal_journal" where
  "terminal_close user_id workspace_id terminal_id j =
     (case find_channel user_id workspace_id terminal_id True j of
        Inl (TerminalNotFoundError m) \<Rightarrow> (Inr (), j)
      | Inl e \<Rightarrow> (Inl e, j)
      | Inr ch \<Rightarrow> (Inr (), j\<lparr>tj_channels := dpop (tj_channels j) terminal_id\<rparr>))"

subsection \<open>Starting a terminal\<close>

definition validate_start ::
  "string \<Rightarrow> string \<Rightarrow> string option \<Rightarrow> string \<Rightarrow> string \<Rightarrow> int \<Rightarrow> int \<Rightarrow> terminal_error + unit" where
  "validate_start user_id workspace_id owner_id socket_path cwd cols rows =
     rbind (validate_identity user_id ''user_id'') (\<lambda>_.
     rbind (validate_resource_id workspace_id ''workspace_id'') (\<lambda>_.
     rbind (case owner_id of None \<Rightarrow> Inr () | Some ow \<Rightarrow> validate_resource_id ow ''owner_id'') (\<lambda>_.
     rbind (raise_if (socket_path = []) (TerminalValueError ''socket_path must not be empty'')) (\<lambda>_.
     rbind (raise_if (cwd = []) (TerminalValueError ''cwd must not be empty'')) (\<lambda>_.
     validate_size cols rows)))))"

text \<open>One round of \<^verbatim>\<open>_claim_owner_start\<close>: \<open>None\<close> while another start of that owner is in progress.\<close>

definition claim_owner_start :: "string \<times> string \<Rightarrow> terminal_journal \<Rightarrow> terminal_journal option" where
  "claim_owner_start owner_key j =
     (if owner_key \<in> set (tj_starting_by_owner j) then None
      else Some (j\<lparr>tj_starting_by_owner := tj_starting_by_owner j @ [owner_key]\<rparr>))"

definition reap_idle_channels :: "clock \<Rightarrow> terminal_journal \<Rightarrow> terminal_channel list \<times> terminal_journal" where
  "reap_idle_channels now j =
     (let cutoff = now - real_of_int (tj_idle_seconds j) in
      (filter (\<lambda>ch. tc_activity ch < cutoff) (dvalues (tj_channels j)),
       j\<lparr>tj_channels := filter (\<lambda>(k, ch). \<not> tc_activity ch < cutoff) (tj_channels j)\<rparr>))"

definition reserve_start ::
  "string \<Rightarrow> string option \<Rightarrow> terminal_journal \<Rightarrow> (terminal_error + terminal_channel option) \<times> terminal_journal" where
  "reserve_start user_id owner_id j =
     (if tj_closing j then (Inl (TerminalRuntimeError ''terminal journal is closing''), j)
      else
        let channels = filter (\<lambda>(k, ch). \<not> (tc_user_id ch = user_id \<and> tc_closed ch)) (tj_channels j);
            replaced = (case owner_id of
                          None \<Rightarrow> None
                        | Some ow \<Rightarrow> find (\<lambda>ch. tc_user_id ch = user_id \<and> tc_owner_id ch = Some ow) (dvalues channels));
            active_count = length (filter (\<lambda>ch. tc_user_id ch = user_id \<and> \<not> tc_closed ch) (dvalues channels));
            retained_count = int active_count - (if replaced \<noteq> None then 1 else 0);
            starting_count = (case dget (tj_starting_by_user j) user_id of None \<Rightarrow> 0 | Some n \<Rightarrow> n);
            j1 = j\<lparr>tj_channels := channels\<rparr>
        in
        if retained_count + int starting_count \<ge> int TERMINALS_PER_USER_MAX
        then (Inl (TerminalLimitError ''terminal limit reached''), j1)
        else (Inr replaced, j1\<lparr>tj_starting_by_user := dset (tj_starting_by_user j) user_id (starting_count + 1)\<rparr>))"

text \<open>The handshake between the two regions: the channel with the first events of the ready message.\<close>

definition attach_options :: "string \<Rightarrow> string \<Rightarrow> int \<Rightarrow> int \<Rightarrow> int \<Rightarrow> json" where
  "attach_options workspace_id cwd cols rows scrollback_lines =
     JObj [(ascii ''workspaceId'', JStr (ascii workspace_id)), (ascii ''cwd'', JStr (ascii cwd)),
           (ascii ''cols'', JInt cols), (ascii ''rows'', JInt rows), (ascii ''scrollbackLines'', JInt scrollback_lines)]"

definition handshake ::
  "(bytes \<Rightarrow> json option) \<Rightarrow> bytes \<Rightarrow> bytes \<Rightarrow> string \<Rightarrow> string \<Rightarrow> string \<Rightarrow> string option \<Rightarrow> json \<Rightarrow> nat \<Rightarrow> clock
     \<Rightarrow> terminal_error + terminal_channel" where
  "handshake loads init_line ready_line terminal_id user_id workspace_id owner_id options ref now =
     rbind (raise_if (init_line = []) (TerminalConnectionError ''sidecar disconnected before terminal attach'')) (\<lambda>_.
     rbind (decode_message loads init_line) (\<lambda>init_message.
     rbind (raise_if (jget init_message ''type'' \<noteq> Some (JStr (ascii ''init_status''))
                      \<or> \<not> (case jget init_message ''success'' of None \<Rightarrow> False | Some v \<Rightarrow> json_truthy v))
              (TerminalConnectionError ''sidecar terminal initialization failed'')) (\<lambda>_.
     rbind (raise_if (ready_line = []) (TerminalConnectionError ''sidecar disconnected before terminal ready'')) (\<lambda>_.
     rbind (decode_message loads ready_line) (\<lambda>ready_message.
     rbind (raise_if (jget ready_message ''type'' = Some (JStr (ascii ''error'')))
              (TerminalConnectionError ''sidecar terminal attach failed'')) (\<lambda>_.
     rbind (validate_terminal_ready ready_message workspace_id) (\<lambda>_.
     rbind (split_event ready_message) (\<lambda>ready_events.
     let ch = \<lparr> tc_ref = ref, tc_id = terminal_id, tc_user_id = user_id, tc_workspace_id = workspace_id,
                tc_owner_id = owner_id, tc_attach_options = options, tc_events = [], tc_next_sequence = 0,
                tc_event_bytes = 0, tc_closed = False, tc_activity = now \<rparr>
     in case append_events ready_events now ch of (Inl e, ch1) \<Rightarrow> Inl e | (Inr _, ch1) \<Rightarrow> Inr ch1))))))))"

definition commit_start ::
  "terminal_channel \<Rightarrow> terminal_channel option \<Rightarrow> terminal_journal
     \<Rightarrow> (terminal_error + terminal_channel option) \<times> terminal_journal" where
  "commit_start ch replaced j =
     (if tj_closing j then (Inl (TerminalRuntimeError ''terminal journal is closing''), j)
      else if dget (tj_channels j) (tc_id ch) \<noteq> None then (Inl (TerminalRuntimeError ''terminal ID collision''), j)
      else
        let current = (case replaced of None \<Rightarrow> None | Some r \<Rightarrow> dget (tj_channels j) (tc_id r));
            replaced' = (case (replaced, current) of
                           (Some r, Some c) \<Rightarrow> if tc_ref c = tc_ref r then Some r else None
                         | _ \<Rightarrow> None);
            channels = (case replaced' of None \<Rightarrow> tj_channels j | Some r \<Rightarrow> dpop (tj_channels j) (tc_id r))
        in (Inr replaced', j\<lparr>tj_next := tj_next j + 1, tj_channels := dset channels (tc_id ch) (ch\<lparr>tc_ref := tj_next j\<rparr>)\<rparr>))"

definition release_start_state ::
  "string \<Rightarrow> bool \<Rightarrow> (string \<times> string) option \<Rightarrow> terminal_journal \<Rightarrow> (terminal_error + unit) \<times> terminal_journal" where
  "release_start_state user_id reservation_held owner_key j =
     (let count = (case dget (tj_starting_by_user j) user_id of None \<Rightarrow> 0 | Some n \<Rightarrow> n) in
      if reservation_held \<and> count = 0 then
        (Inl (TerminalRuntimeError ''terminal start reservation is missing''), j)
      else
        let j1 = (if \<not> reservation_held then j
                  else if count = 1 then j\<lparr>tj_starting_by_user := dpop (tj_starting_by_user j) user_id\<rparr>
                  else j\<lparr>tj_starting_by_user := dset (tj_starting_by_user j) user_id (count - 1)\<rparr>)
        in case owner_key of
             None \<Rightarrow> (Inr (), j1)
           | Some key \<Rightarrow>
               if key \<notin> set (tj_starting_by_owner j1) then
                 (Inl (TerminalRuntimeError ''terminal owner start reservation is missing''), j1)
               else (Inr (), j1\<lparr>tj_starting_by_owner := removeAll key (tj_starting_by_owner j1)\<rparr>))"

definition close_all :: "terminal_journal \<Rightarrow> terminal_channel list \<times> terminal_journal" where
  "close_all j = (dvalues (tj_channels j), j\<lparr>tj_closing := True, tj_channels := []\<rparr>)"

text \<open>The reader task or a close marks a channel that is still registered as closed.\<close>

definition mark_closed :: "string \<Rightarrow> terminal_journal \<Rightarrow> terminal_journal" where
  "mark_closed terminal_id j =
     (case dget (tj_channels j) terminal_id of
        None \<Rightarrow> j
      | Some ch \<Rightarrow> put_channel (ch\<lparr>tc_closed := True\<rparr>) j)"

end
