(* ===== verification/Terminal_Journal_Properties.thy ===== *)
theory Terminal_Journal_Properties
  imports Terminal_Journal
begin

section \<open>Correctness of the terminal journal\<close>

text \<open>
  The bounded buffer of a channel and its pages, the splitting of terminal output, and the
  limit on live terminals per account under every interleaving of starts and closes.
\<close>

subsection \<open>The bounded buffer\<close>

abbreviation event_sizes :: "terminal_event list \<Rightarrow> nat list" where
  "event_sizes evs \<equiv> map (\<lambda>(s, e, n). n) evs"

definition channel_ok :: "terminal_channel \<Rightarrow> bool" where
  "channel_ok ch \<longleftrightarrow>
     length (tc_events ch) \<le> tc_next_sequence ch
     \<and> map fst (tc_events ch) = [tc_next_sequence ch - length (tc_events ch) ..< tc_next_sequence ch]
     \<and> tc_event_bytes ch = int (sum_list (event_sizes (tc_events ch)))
     \<and> tc_event_bytes ch \<le> OUTPUT_BUFFER_BYTES_MAX \<and> length (tc_events ch) \<le> OUTPUT_EVENT_COUNT_MAX
     \<and> (\<forall>(s, e, n) \<in> set (tc_events ch). n = length (dumps True e) \<and> n \<le> OUTPUT_EVENT_BYTES_MAX)"

lemma evict_spec:
  "\<exists>k. evict evs (int (sum_list (event_sizes evs))) = Inr (drop k evs, int (sum_list (event_sizes (drop k evs))))
     \<and> int (sum_list (event_sizes (drop k evs))) \<le> OUTPUT_BUFFER_BYTES_MAX \<and> length (drop k evs) \<le> OUTPUT_EVENT_COUNT_MAX
     \<and> (\<forall>j<k. int (sum_list (event_sizes (drop j evs))) > OUTPUT_BUFFER_BYTES_MAX \<or> length (drop j evs) > OUTPUT_EVENT_COUNT_MAX)"
proof (induction evs)
  case Nil
  then show ?case by (intro exI [of _ 0]) (simp add: OUTPUT_BUFFER_BYTES_MAX_def)
next
  case (Cons x evs)
  obtain s e n where x: "x = (s, e, n)" by (cases x)
  show ?case
  proof (cases "int (sum_list (event_sizes (x # evs))) > OUTPUT_BUFFER_BYTES_MAX \<or> length (x # evs) > OUTPUT_EVENT_COUNT_MAX")
    case True
    from Cons.IH obtain k where k: "evict evs (int (sum_list (event_sizes evs))) = Inr (drop k evs, int (sum_list (event_sizes (drop k evs))))"
      "int (sum_list (event_sizes (drop k evs))) \<le> OUTPUT_BUFFER_BYTES_MAX" "length (drop k evs) \<le> OUTPUT_EVENT_COUNT_MAX"
      "\<forall>j<k. int (sum_list (event_sizes (drop j evs))) > OUTPUT_BUFFER_BYTES_MAX \<or> length (drop j evs) > OUTPUT_EVENT_COUNT_MAX"
      by blast
    have "\<forall>j<Suc k. int (sum_list (event_sizes (drop j (x # evs)))) > OUTPUT_BUFFER_BYTES_MAX \<or> length (drop j (x # evs)) > OUTPUT_EVENT_COUNT_MAX"
      using True k(4) by (metis (no_types, lifting) Suc_less_SucD drop0 drop_Suc_Cons not0_implies_Suc)
    then show ?thesis using True k by (intro exI [of _ "Suc k"]) (simp add: x)
  next
    case False
    then show ?thesis by (intro exI [of _ 0]) (simp add: x)
  qed
qed

lemma append_event_ok:
  assumes ok: "channel_ok ch" and small: "length (dumps True e) \<le> OUTPUT_EVENT_BYTES_MAX"
  shows "\<exists>k. append_event e now ch = (Inr (), ch\<lparr>tc_next_sequence := Suc (tc_next_sequence ch),
      tc_events := drop k (tc_events ch) @ [(tc_next_sequence ch, e, length (dumps True e))],
      tc_event_bytes := int (sum_list (event_sizes (drop k (tc_events ch) @ [(tc_next_sequence ch, e, length (dumps True e))]))),
      tc_activity := now\<rparr>)
    \<and> channel_ok (snd (append_event e now ch))"
proof -
  let ?n = "length (dumps True e)" and ?N = "tc_next_sequence ch"
  let ?evs = "tc_events ch @ [(?N, e, ?n)]"
  have sum: "tc_event_bytes ch + int ?n = int (sum_list (event_sizes ?evs))" using ok by (simp add: channel_ok_def)
  from evict_spec [of ?evs] obtain k where k: "evict ?evs (int (sum_list (event_sizes ?evs))) = Inr (drop k ?evs, int (sum_list (event_sizes (drop k ?evs))))"
    "int (sum_list (event_sizes (drop k ?evs))) \<le> OUTPUT_BUFFER_BYTES_MAX" "length (drop k ?evs) \<le> OUTPUT_EVENT_COUNT_MAX"
    "\<forall>j<k. int (sum_list (event_sizes (drop j ?evs))) > OUTPUT_BUFFER_BYTES_MAX \<or> length (drop j ?evs) > OUTPUT_EVENT_COUNT_MAX" by blast
  have "k \<le> length (tc_events ch)"
  proof (rule ccontr)
    assume "\<not> k \<le> length (tc_events ch)"
    then have "int (sum_list (event_sizes (drop (length (tc_events ch)) ?evs))) > OUTPUT_BUFFER_BYTES_MAX \<or> length (drop (length (tc_events ch)) ?evs) > OUTPUT_EVENT_COUNT_MAX"
      using k(4) [rule_format, of "length (tc_events ch)"] by (simp only: not_le)
    then show False using small by (simp add: OUTPUT_BUFFER_BYTES_MAX_def OUTPUT_EVENT_COUNT_MAX_def OUTPUT_EVENT_BYTES_MAX_def)
  qed
  then have d: "drop k ?evs = drop k (tc_events ch) @ [(?N, e, ?n)]" by simp
  let ?ch = "ch\<lparr>tc_next_sequence := Suc ?N, tc_events := drop k (tc_events ch) @ [(?N, e, ?n)],
      tc_event_bytes := int (sum_list (event_sizes (drop k (tc_events ch) @ [(?N, e, ?n)]))), tc_activity := now\<rparr>"
  have app: "append_event e now ch = (Inr (), ?ch)"
    using k(1) [unfolded d] small by (simp add: append_event_def Let_def sum)
  have seq: "map fst (drop k (tc_events ch)) = [?N - length (drop k (tc_events ch)) ..< ?N]"
    using ok \<open>k \<le> length (tc_events ch)\<close> by (simp add: channel_ok_def drop_map [symmetric] drop_upt)
  have "channel_ok ?ch"
    using ok k(2,3) [unfolded d] seq small by (auto simp: channel_ok_def dest: in_set_dropD)
  then show ?thesis using app by auto
qed

lemma append_event_large:
  "length (dumps True e) > OUTPUT_EVENT_BYTES_MAX \<Longrightarrow>
     append_event e now ch = (Inl (TerminalValueError ''terminal event exceeds the byte limit''), ch)"
  by (simp add: append_event_def)

lemma append_event_inv: "channel_ok ch \<Longrightarrow> channel_ok (snd (append_event e now ch))"
  using append_event_ok append_event_large by (metis not_le snd_conv)

lemma append_events_inv: "channel_ok ch \<Longrightarrow> channel_ok (snd (append_events es now ch))"
proof (induction es arbitrary: ch)
  case (Cons e es)
  then show ?case using append_event_inv [of ch e now] by (auto split: prod.splits sum.splits)
qed simp

subsection \<open>Pages\<close>

lemma upt_Cons_len:
  "map f (x # xs) = [b ..< b + length (x # xs)] \<longleftrightarrow> f x = b \<and> map f xs = [Suc b ..< Suc b + length xs]"
  by (simp add: upt_conv_Cons del: upt_Suc)

lemma channel_earliest: "channel_ok ch \<Longrightarrow> earliest_sequence ch = tc_next_sequence ch - length (tc_events ch)"
proof (cases "tc_events ch")
  case (Cons x xs)
  assume "channel_ok ch"
  then have "map fst (x # xs) = [tc_next_sequence ch - length (x # xs) ..< tc_next_sequence ch - length (x # xs) + length (x # xs)]"
    by (simp add: channel_ok_def Cons)
  then have "fst x = tc_next_sequence ch - length (x # xs)" unfolding upt_Cons_len by simp
  then show ?thesis by (cases x) (simp add: earliest_sequence_def Cons)
qed (simp add: earliest_sequence_def)

lemma select_skip:
  "map fst evs = [b ..< b + length evs] \<Longrightarrow> b \<le> c \<Longrightarrow> select_events evs c [] 0 = select_events (drop (c - b) evs) c [] 0"
proof (induction evs arbitrary: b)
  case (Cons x evs)
  obtain s e n where x: "x = (s, e, n)" by (cases x)
  have s: "s = b" "map fst evs = [Suc b ..< Suc b + length evs]" using Cons.prems(1) unfolding upt_Cons_len by (simp_all add: x)
  show ?case
  proof (cases "c = b")
    case False
    then have "Suc b \<le> c" using Cons.prems by simp
    then show ?thesis using Cons.IH [OF s(2)] s by (simp add: x drop_Cons' Suc_diff_le)
  qed simp
qed simp

lemma select_greedy:
  "map fst evs = [c ..< c + length evs] \<Longrightarrow> length sel < EVENT_BATCH_COUNT_MAX \<Longrightarrow>
     select_events evs c sel b =
       (let k = greedy EVENT_BATCH_COUNT_MAX EVENT_BATCH_BYTES_MAX (length sel) b (event_sizes evs)
        in Inr (sel @ map (\<lambda>(s, e, n). e) (take k evs), c + k))"
proof (induction evs arbitrary: c sel b)
  case (Cons x evs)
  obtain s e n where x: "x = (s, e, n)" by (cases x)
  have s: "s = c" "map fst evs = [Suc c ..< Suc c + length evs]" using Cons.prems(1) unfolding upt_Cons_len by (simp_all add: x)
  show ?case using Cons.IH [OF s(2), of "sel @ [e]" "b + n"] Cons.prems(2) s(1) by (auto simp: x Let_def)
qed simp

abbreviation channel_items :: "terminal_channel \<Rightarrow> json list" where
  "channel_items ch \<equiv> map (\<lambda>(s, e, n). e) (tc_events ch)"

lemma read_page_eq:
  assumes ok: "channel_ok ch" and c: "earliest_sequence ch \<le> c" "c \<le> tc_next_sequence ch"
  shows "read_page ch c =
    (let rest = drop (c - earliest_sequence ch) (tc_events ch);
         k = greedy EVENT_BATCH_COUNT_MAX EVENT_BATCH_BYTES_MAX 0 0 (event_sizes rest)
     in Inr (map (\<lambda>(s, e, n). e) (take k rest), c + k))"
proof -
  let ?b = "earliest_sequence ch" and ?evs = "tc_events ch"
  have b: "?b = tc_next_sequence ch - length ?evs" "length ?evs \<le> tc_next_sequence ch" "map fst ?evs = [?b ..< ?b + length ?evs]"
    using ok channel_earliest [OF ok] by (simp_all add: channel_ok_def)
  have "map fst (drop (c - ?b) ?evs) = [c ..< c + length (drop (c - ?b) ?evs)]"
    using b(3) c b(1,2) by (simp add: drop_map [symmetric] drop_upt)
  then show ?thesis
    using c select_skip [OF b(3) c(1)] select_greedy [of "drop (c - ?b) ?evs" c "[]" 0]
    by (simp add: read_page_def Let_def EVENT_BATCH_COUNT_MAX_def)
qed

interpretation terminal: event_pager read_page earliest_sequence channel_items channel_ok
proof
  fix ch c
  assume a: "channel_ok ch" "earliest_sequence ch \<le> c" "c \<le> earliest_sequence ch + length (channel_items ch)"
  let ?rest = "drop (c - earliest_sequence ch) (tc_events ch)"
  let ?k = "greedy EVENT_BATCH_COUNT_MAX EVENT_BATCH_BYTES_MAX 0 0 (event_sizes ?rest)"
  have e: "earliest_sequence ch + length (tc_events ch) = tc_next_sequence ch"
    using a(1) channel_earliest [OF a(1)] by (simp add: channel_ok_def)
  have "read_page ch c = Inr (take ?k (drop (c - earliest_sequence ch) (channel_items ch)), c + ?k)"
    using read_page_eq [OF a(1,2)] a(3) e by (simp add: Let_def take_map drop_map)
  moreover have "?k \<le> length ?rest" using greedy_le [of _ _ _ _ "event_sizes ?rest"] by simp
  moreover have "0 < ?k" if "c < earliest_sequence ch + length (channel_items ch)"
    using that a(2) by (intro greedy_pos) simp
  ultimately show "\<exists>k. read_page ch c = Inr (take k (drop (c - earliest_sequence ch) (channel_items ch)), c + k)
      \<and> c + k \<le> earliest_sequence ch + length (channel_items ch)
      \<and> (c < earliest_sequence ch + length (channel_items ch) \<longrightarrow> 0 < k)"
    using a(2,3) by (intro exI [of _ ?k]) auto
qed


text \<open>C24: A reconnecting client misses nothing. From any cursor that has not expired, a client that keeps asking for pages with the cursor of the
  previous page receives exactly the retained events from its cursor on, once each and in order, and arrives at the
  journal's next sequence number; every page on the way makes progress.\<close>

theorem terminal_pages_complete:
  assumes "channel_ok ch" "earliest_sequence ch \<le> c" "c \<le> tc_next_sequence ch" "tc_next_sequence ch - c \<le> n"
  shows "drain read_page n ch c = Inr (drop (c - earliest_sequence ch) (map (\<lambda>(s, e, b). e) (tc_events ch)), tc_next_sequence ch)
    \<and> (c < tc_next_sequence ch \<longrightarrow> (\<exists>evs c'. read_page ch c = Inr (evs, c') \<and> evs \<noteq> [] \<and> c < c'))"
proof -
  have e: "earliest_sequence ch + length (channel_items ch) = tc_next_sequence ch"
    using assms(1) channel_earliest [OF assms(1)] by (simp add: channel_ok_def)
  show ?thesis using terminal.drain_all [OF assms(1,2), of n] terminal.read_progress [OF assms(1,2)] assms(3,4) e by auto
qed

text \<open>Pages are bounded: at most 100 events, and at most 48000 serialized bytes unless the page is a single event.\<close>

theorem terminal_page_bounded:
  assumes ok: "channel_ok ch" and page: "read_page ch c = Inr (evs, c')"
  shows "length evs \<le> 100 \<and> c' = c + length evs
    \<and> (length evs \<le> 1 \<or> sum_list (map (\<lambda>e. length (dumps True e)) evs) \<le> 48000)"
proof -
  have c: "earliest_sequence ch \<le> c" "c \<le> tc_next_sequence ch" using page by (auto simp: read_page_def rbind_Inr_iff)
  let ?rest = "drop (c - earliest_sequence ch) (tc_events ch)"
  let ?k = "greedy EVENT_BATCH_COUNT_MAX EVENT_BATCH_BYTES_MAX 0 0 (event_sizes ?rest)"
  have evs: "evs = map (\<lambda>(s, e, n). e) (take ?k ?rest)" "c' = c + ?k" using page read_page_eq [OF ok c] by (simp_all add: Let_def)
  have len: "length evs = ?k" using greedy_le [of EVENT_BATCH_COUNT_MAX EVENT_BATCH_BYTES_MAX 0 0 "event_sizes ?rest"] by (simp add: evs)
  have "\<forall>x \<in> set ?rest. case x of (s, e, n) \<Rightarrow> n = length (dumps True e)"
    using ok by (auto simp: channel_ok_def dest: in_set_dropD)
  then have sizes: "map (\<lambda>e. length (dumps True e)) evs = take ?k (event_sizes ?rest)"
    by (auto simp: evs take_map dest!: in_set_takeD)
  have "sum_list (take ?k (event_sizes ?rest)) \<le> EVENT_BATCH_BYTES_MAX" if "\<not> ?k \<le> 1"
  proof (cases "event_sizes ?rest")
    case (Cons s ss)
    have "s \<le> EVENT_BATCH_BYTES_MAX"
    proof -
      have "s \<in> set (event_sizes (tc_events ch))" using Cons by (metis in_set_dropD drop_map list.set_intros(1))
      then show ?thesis using ok by (auto simp: channel_ok_def OUTPUT_EVENT_BYTES_MAX_def EVENT_BATCH_BYTES_MAX_def)
    qed
    then show ?thesis using Cons greedy_bytes [of 1 s EVENT_BATCH_BYTES_MAX EVENT_BATCH_COUNT_MAX ss]
      by (simp add: EVENT_BATCH_COUNT_MAX_def)
  qed simp
  then show ?thesis using len evs(2) sizes greedy_count [of 0 EVENT_BATCH_COUNT_MAX EVENT_BATCH_BYTES_MAX 0 "event_sizes ?rest"]
    by (auto simp: EVENT_BATCH_COUNT_MAX_def EVENT_BATCH_BYTES_MAX_def)
qed

text \<open>The output buffer is a bounded suffix of everything appended. Appending an event of at most 24000 serialized bytes always succeeds, gives it
  the next sequence number, keeps it, evicts only oldest events, and leaves at most 1000 events and 1 MiB; a larger event is refused and changes nothing.\<close>

theorem append_event_bounded:
  assumes ok: "channel_ok ch"
  shows "if length (dumps True e) \<le> 24000
    then \<exists>ch' k. append_event e now ch = (Inr (), ch') \<and> channel_ok ch' \<and> tc_next_sequence ch' = Suc (tc_next_sequence ch)
      \<and> tc_events ch' = drop k (tc_events ch) @ [(tc_next_sequence ch, e, length (dumps True e))]
      \<and> length (tc_events ch') \<le> 1000 \<and> sum_list (event_sizes (tc_events ch')) \<le> 1048576
    else append_event e now ch = (Inl (TerminalValueError ''terminal event exceeds the byte limit''), ch)"
proof (cases "length (dumps True e) \<le> 24000")
  case True
  with append_event_ok [OF ok, of e now] obtain ch' k where
    a: "append_event e now ch = (Inr (), ch')" and ok': "channel_ok ch'"
    and ch': "tc_next_sequence ch' = Suc (tc_next_sequence ch)"
      "tc_events ch' = drop k (tc_events ch) @ [(tc_next_sequence ch, e, length (dumps True e))]"
    by (auto simp: OUTPUT_EVENT_BYTES_MAX_def)
  have "length (tc_events ch') \<le> 1000" "sum_list (event_sizes (tc_events ch')) \<le> 1048576"
    using ok' by (simp_all add: channel_ok_def OUTPUT_EVENT_COUNT_MAX_def OUTPUT_BUFFER_BYTES_MAX_def)
  then show ?thesis using True a ok' ch' by auto
qed (simp add: append_event_large OUTPUT_EVENT_BYTES_MAX_def)

subsection \<open>Splitting terminal output\<close>

definition event_data :: "json \<Rightarrow> utext" where
  "event_data e = (case jget e ''data'' of Some (JStr d) \<Rightarrow> d | _ \<Rightarrow> [])"

lemma event_data_event [simp]: "event_data (data_event d) = d"
  by (simp add: event_data_def data_event_def jget_def ascii_def)

lemma split_loop_sound:
  assumes "split_data_loop cs chunks cur b = Inr evs" "utf8_length cur = Some b" "b \<le> 20000 \<or> length cur = 1"
  shows "\<exists>ds. evs = chunks @ map data_event ds \<and> concat ds = cur @ cs \<and> (ds = [] \<longrightarrow> chunks \<noteq> [])
    \<and> (\<forall>d \<in> set ds. \<exists>n. utf8_length d = Some n \<and> n \<le> 20000) \<and> (chunks \<noteq> [] \<or> cur \<noteq> [] \<or> cs \<noteq> [] \<longrightarrow> [] \<notin> set ds)"
  using assms
proof (induction cs chunks cur b rule: split_data_loop.induct)
  case (1 chunks cur b)
  have "utf8_length cur = Some b \<Longrightarrow> length cur = 1 \<Longrightarrow> b \<le> 4"
    by (cases cur) (auto simp: utf8_len_def split: if_splits option.splits)
  then have "b \<le> 20000" using 1 by force
  show ?case
  proof (cases "cur \<noteq> [] \<or> chunks = []")
    case True
    then show ?thesis using 1 \<open>b \<le> 20000\<close> by (intro exI [of _ "[cur]"]) auto
  next
    case False
    then show ?thesis using 1 by (intro exI [of _ "[]"]) auto
  qed
next
  case (2 c cs chunks cur b)
  obtain n where n: "utf8_len c = Some n" using 2(3) by (auto split: option.splits)
  have n4: "n \<le> 4" using n by (auto simp: utf8_len_def split: if_splits)
  show ?case
  proof (cases "cur \<noteq> [] \<and> b + n > 20000")
    case True
    have b: "b \<le> 20000" using 2(4,5) by (cases cur) (auto simp: utf8_len_def split: if_splits option.splits)
    have "split_data_loop cs (chunks @ [data_event cur]) [c] n = Inr evs" using 2(3) n True by simp
    from 2(1) [OF n True this] n4 obtain ds where ds: "evs = chunks @ data_event cur # map data_event ds" "concat ds = c # cs"
      "\<forall>d \<in> set ds. \<exists>n. utf8_length d = Some n \<and> n \<le> 20000" "[] \<notin> set ds" by (auto simp: n)
    show ?thesis using ds True 2(4) b by (intro exI [of _ "cur # ds"]) auto
  next
    case False
    have "split_data_loop cs chunks (cur @ [c]) (b + n) = Inr evs" using 2(3) n False by auto
    moreover have "utf8_length (cur @ [c]) = Some (b + n)" using 2(4) n by (simp add: utf8_length_append)
    moreover have "b + n \<le> 20000 \<or> length (cur @ [c]) = 1" using False by auto
    ultimately show ?thesis using 2(2) [OF n False] by auto
  qed
qed

text \<open>Splitting loses nothing. The chunks of a terminal output concatenate to the output, there is at least one, none is empty unless the output is, and
  each has at most 20000 bytes of UTF-8.\<close>

theorem split_terminal_data_lossless:
  assumes "split_terminal_data d = Inr evs"
  shows "evs \<noteq> [] \<and> concat (map event_data evs) = d \<and> (\<forall>e \<in> set evs. e = data_event (event_data e)
    \<and> (\<exists>n. utf8_length (event_data e) = Some n \<and> n \<le> 20000) \<and> (d \<noteq> [] \<longrightarrow> event_data e \<noteq> []))"
proof -
  from split_loop_sound [OF assms [unfolded split_terminal_data_def]] obtain ds where
    ds: "evs = map data_event ds" "concat ds = d" "ds \<noteq> []" "\<forall>d \<in> set ds. \<exists>n. utf8_length d = Some n \<and> n \<le> 20000"
    "d \<noteq> [] \<longrightarrow> [] \<notin> set ds" by auto
  have "map event_data evs = ds" by (simp add: ds(1) comp_def)
  then show ?thesis using ds by auto
qed

subsection \<open>Terminals per account\<close>

text \<open>
  Starts run concurrently: between its two locked regions a start holds a reservation and the
  channel it will replace, and between its end and the release it still counts. A start for a tab owner
  also holds the owner's key from its claim to its release. The state of the system is the journal, the reserved starts,
  the finished starts whose release is pending and the keys held; which start of an account holds which of the
  account's keys is left open.
\<close>

record terminal_system =
  ts_journal :: terminal_journal
  ts_reserved :: "(string \<times> terminal_channel option) list"
  ts_unreleased :: "string list"
  ts_owned :: "(string \<times> string) list"

inductive terminal_step :: "terminal_system \<Rightarrow> terminal_system \<Rightarrow> bool" where
  reserve: "reserve_start u ow (ts_journal s) = (Inr r, j) \<Longrightarrow>
    terminal_step s (s\<lparr>ts_journal := j, ts_reserved := (u, r) # ts_reserved s\<rparr>)"
| reserve_fail: "reserve_start u ow (ts_journal s) = (Inl e, j) \<Longrightarrow> terminal_step s (s\<lparr>ts_journal := j\<rparr>)"
| commit: "(u, r) \<in> set (ts_reserved s) \<Longrightarrow> tc_user_id ch = u \<Longrightarrow> commit_start ch r (ts_journal s) = (Inr r', j) \<Longrightarrow>
    terminal_step s (s\<lparr>ts_journal := j, ts_reserved := remove1 (u, r) (ts_reserved s), ts_unreleased := u # ts_unreleased s\<rparr>)"
| abort: "(u, r) \<in> set (ts_reserved s) \<Longrightarrow>
    terminal_step s (s\<lparr>ts_reserved := remove1 (u, r) (ts_reserved s), ts_unreleased := u # ts_unreleased s\<rparr>)"
| release: "u \<in> set (ts_unreleased s) \<Longrightarrow> key = None \<or> (\<exists>ow. key = Some (u, ow) \<and> (u, ow) \<in> set (ts_owned s)) \<Longrightarrow>
    release_start_state u True key (ts_journal s) = (res, j) \<Longrightarrow>
    terminal_step s (s\<lparr>ts_journal := j, ts_unreleased := remove1 u (ts_unreleased s),
      ts_owned := (case key of None \<Rightarrow> ts_owned s | Some k \<Rightarrow> remove1 k (ts_owned s))\<rparr>)"
| release_unreserved: "(u, ow) \<in> set (ts_owned s) \<Longrightarrow> release_start_state u False (Some (u, ow)) (ts_journal s) = (res, j) \<Longrightarrow>
    terminal_step s (s\<lparr>ts_journal := j, ts_owned := remove1 (u, ow) (ts_owned s)\<rparr>)"
| claim: "claim_owner_start key (ts_journal s) = Some j \<Longrightarrow> terminal_step s (s\<lparr>ts_journal := j, ts_owned := key # ts_owned s\<rparr>)"
| input: "terminal_step s (s\<lparr>ts_journal := snd (terminal_input u w t d now (ts_journal s))\<rparr>)"
| resize: "terminal_step s (s\<lparr>ts_journal := snd (terminal_resize u w t cols rows now (ts_journal s))\<rparr>)"
| restart: "terminal_step s (s\<lparr>ts_journal := snd (terminal_restart u w t now (ts_journal s))\<rparr>)"
| events: "terminal_step s (s\<lparr>ts_journal := snd (terminal_events u w t n secs now (ts_journal s))\<rparr>)"
| read_out: "dget (tj_channels (ts_journal s)) t = Some ch \<Longrightarrow>
    terminal_step s (s\<lparr>ts_journal := put_channel (snd (read_output_line loads line now ch)) (ts_journal s)\<rparr>)"
| mark: "terminal_step s (s\<lparr>ts_journal := mark_closed t (ts_journal s)\<rparr>)"
| close: "terminal_step s (s\<lparr>ts_journal := snd (terminal_close u w t (ts_journal s))\<rparr>)"
| reap: "terminal_step s (s\<lparr>ts_journal := snd (reap_idle_channels now (ts_journal s))\<rparr>)"
| shutdown: "terminal_step s (s\<lparr>ts_journal := snd (close_all (ts_journal s))\<rparr>)"

definition terminal_init :: "terminal_system \<Rightarrow> bool" where
  "terminal_init s \<longleftrightarrow> (\<exists>lines idle. new_terminal_journal lines idle = Inr (ts_journal s)) \<and> ts_reserved s = [] \<and> ts_unreleased s = [] \<and> ts_owned s = []"

definition live :: "string \<Rightarrow> (string, terminal_channel) pydict \<Rightarrow> nat set" where
  "live u d = tc_ref ` {ch \<in> set (dvalues d). tc_user_id ch = u \<and> \<not> tc_closed ch}"

definition replacing :: "string \<Rightarrow> (string \<times> terminal_channel option) list \<Rightarrow> nat set" where
  "replacing u rs = {tc_ref c | c. (u, Some c) \<in> set rs}"

definition starting_count :: "terminal_journal \<Rightarrow> string \<Rightarrow> nat" where
  "starting_count j u = (case dget (tj_starting_by_user j) u of None \<Rightarrow> 0 | Some n \<Rightarrow> n)"

definition channels_ok :: "nat \<Rightarrow> (string, terminal_channel) pydict \<Rightarrow> bool" where
  "channels_ok n d \<longleftrightarrow> dict_ok d
     \<and> (\<forall>(k, ch) \<in> set d. tc_id ch = k \<and> tc_ref ch < n)
     \<and> (\<forall>(k, ch) \<in> set d. \<forall>(k', ch') \<in> set d. tc_ref ch = tc_ref ch' \<longrightarrow> k = k')"

definition reserved_ok :: "nat \<Rightarrow> (string, terminal_channel) pydict \<Rightarrow> (string \<times> terminal_channel option) list \<Rightarrow> bool" where
  "reserved_ok n d rs \<longleftrightarrow> (\<forall>u c. (u, Some c) \<in> set rs \<longrightarrow> tc_ref c < n
     \<and> (\<forall>(k, ch) \<in> set d. tc_ref ch = tc_ref c \<longrightarrow> k = tc_id c))"

definition terminal_inv :: "terminal_system \<Rightarrow> bool" where
  "terminal_inv s \<longleftrightarrow>
     channels_ok (tj_next (ts_journal s)) (tj_channels (ts_journal s))
     \<and> reserved_ok (tj_next (ts_journal s)) (tj_channels (ts_journal s)) (ts_reserved s)
     \<and> (\<forall>u. starting_count (ts_journal s) u = length (filter (\<lambda>(v, r). v = u) (ts_reserved s)) + length (filter (\<lambda>v. v = u) (ts_unreleased s)))
     \<and> (\<forall>u. card (live u (tj_channels (ts_journal s)) - replacing u (ts_reserved s))
           + length (filter (\<lambda>(v, r). v = u) (ts_reserved s)) \<le> TERMINALS_PER_USER_MAX)"

lemma terminal_inv_owned [simp]: "terminal_inv (s\<lparr>ts_owned := ks\<rparr>) = terminal_inv s"
  by (simp add: terminal_inv_def)

definition owners_ok :: "terminal_system \<Rightarrow> bool" where
  "owners_ok s \<longleftrightarrow> distinct (ts_owned s) \<and> set (tj_starting_by_owner (ts_journal s)) = set (ts_owned s)"

text \<open>Operations that only update or drop channels.\<close>

definition same_channel :: "terminal_channel \<Rightarrow> terminal_channel \<Rightarrow> bool" where
  "same_channel ch ch' \<longleftrightarrow> tc_ref ch' = tc_ref ch \<and> tc_id ch' = tc_id ch \<and> tc_user_id ch' = tc_user_id ch \<and> (tc_closed ch \<longrightarrow> tc_closed ch')"

lemma same_channel_refl [simp]: "same_channel ch ch" by (simp add: same_channel_def)

lemma same_channel_trans: "same_channel a b \<Longrightarrow> same_channel b c \<Longrightarrow> same_channel a c" by (simp add: same_channel_def)

definition shrinks :: "(string, terminal_channel) pydict \<Rightarrow> (string, terminal_channel) pydict \<Rightarrow> bool" where
  "shrinks d d' \<longleftrightarrow> (dict_ok d \<longrightarrow> dict_ok d') \<and> (\<forall>(k, ch') \<in> set d'. \<exists>ch. (k, ch) \<in> set d \<and> same_channel ch ch')"

lemma finite_live [simp]: "finite (live u d)" by (simp add: live_def)

lemma shrinks_refl [simp]: "shrinks d d" by (auto simp: shrinks_def)

lemma shrinks_live: "shrinks d d' \<Longrightarrow> live u d' \<subseteq> live u d"
  by (fastforce simp: shrinks_def live_def same_channel_def image_iff)

lemma shrinks_channels_ok: "shrinks d d' \<Longrightarrow> channels_ok n d \<Longrightarrow> channels_ok n d'"
proof -
  assume s: "shrinks d d'" and ok: "channels_ok n d"
  have from_old: "\<exists>c. (k, c) \<in> set d \<and> tc_ref ch = tc_ref c \<and> tc_id ch = tc_id c" if "(k, ch) \<in> set d'" for k ch
    using s that unfolding shrinks_def same_channel_def by blast
  have "tc_id ch = k \<and> tc_ref ch < n" if "(k, ch) \<in> set d'" for k ch
    using from_old [OF that] ok unfolding channels_ok_def by fastforce
  moreover have "k = k'" if "(k, ch) \<in> set d'" "(k', ch') \<in> set d'" "tc_ref ch = tc_ref ch'" for k ch k' ch'
    using from_old [OF that(1)] from_old [OF that(2)] that(3) ok unfolding channels_ok_def by fastforce
  moreover have "dict_ok d'" using s ok by (simp add: shrinks_def channels_ok_def)
  ultimately show ?thesis unfolding channels_ok_def by blast
qed

lemma shrinks_reserved_ok: "shrinks d d' \<Longrightarrow> reserved_ok n d rs \<Longrightarrow> reserved_ok n d' rs"
  unfolding shrinks_def same_channel_def reserved_ok_def by fastforce

lemma shrinks_inv:
  assumes "terminal_inv s" "shrinks (tj_channels (ts_journal s)) (tj_channels j)" "tj_next j = tj_next (ts_journal s)"
    "tj_starting_by_user j = tj_starting_by_user (ts_journal s)"
  shows "terminal_inv (s\<lparr>ts_journal := j\<rparr>)"
proof -
  have "card (live u (tj_channels j) - replacing u (ts_reserved s)) \<le> card (live u (tj_channels (ts_journal s)) - replacing u (ts_reserved s))" for u
    by (intro card_mono Diff_mono shrinks_live [OF assms(2)]) auto
  then have "card (live u (tj_channels j) - replacing u (ts_reserved s)) + length (filter (\<lambda>(v, r). v = u) (ts_reserved s)) \<le> TERMINALS_PER_USER_MAX" for u
    using assms(1) unfolding terminal_inv_def by (meson add_right_mono order_trans)
  then show ?thesis
    using assms shrinks_channels_ok [OF assms(2)] shrinks_reserved_ok [OF assms(2)]
    by (simp add: terminal_inv_def starting_count_def)
qed

lemma shrinks_put:
  assumes "dget d t = Some ch" "same_channel ch ch'"
  shows "shrinks d (dset d t ch')"
proof -
  have "(k, c) \<in> set (dset d t ch') \<Longrightarrow> (k, c) = (t, ch') \<or> (k, c) \<in> set d" for k c
    by (induction d) (auto split: if_splits)
  then have "\<exists>c0. (k, c0) \<in> set d \<and> same_channel c0 c" if "(k, c) \<in> set (dset d t ch')" for k c
    using that assms(2) map_of_SomeD [OF assms(1)] same_channel_refl by (metis Pair_inject)
  then show ?thesis by (auto simp: shrinks_def)
qed

lemma shrinks_pop: "shrinks d (dpop d t)"
  by (auto simp: shrinks_def AList.delete_eq dict_ok_filter)

lemma shrinks_filter: "shrinks d (filter P d)"
  by (auto simp: shrinks_def dict_ok_filter)

lemma find_channel_Inr: "find_channel u w t allow j = Inr ch \<Longrightarrow> dget (tj_channels j) t = Some ch"
  by (auto simp: find_channel_def rbind_Inr_iff split: option.splits if_splits)

lemma channels_ok_id: "channels_ok n d \<Longrightarrow> dget d t = Some ch \<Longrightarrow> tc_id ch = t"
  by (fastforce simp: channels_ok_def dest: map_of_SomeD)

lemma append_event_keeps: "same_channel ch (snd (append_event e now ch))"
  by (auto simp: append_event_def Let_def same_channel_def split: sum.splits)

lemma append_events_keeps: "same_channel ch (snd (append_events es now ch))"
proof (induction es arbitrary: ch)
  case (Cons e es)
  obtain r ch1 where r: "append_event e now ch = (r, ch1)" by (cases "append_event e now ch")
  then have "same_channel ch ch1" using append_event_keeps [of ch e now] by simp
  then show ?case using Cons.IH [of ch1] same_channel_trans r by (cases r) auto
qed simp

lemma read_output_keeps: "same_channel ch (snd (read_output_line loads line now ch))"
proof -
  have "same_channel ch c \<Longrightarrow> same_channel ch ((snd (append_event disconnected_event now c))\<lparr>tc_closed := True\<rparr>)" for c
    using append_event_keeps [of c disconnected_event now] by (simp add: same_channel_def)
  then show ?thesis unfolding read_output_line_def Let_def
    using append_events_keeps [of ch _ now] by (auto split: sum.splits prod.splits) (metis snd_conv)+
qed

lemma put_inv:
  assumes inv: "terminal_inv s" and ch: "dget (tj_channels (ts_journal s)) t = Some ch" "same_channel ch ch'"
  shows "terminal_inv (s\<lparr>ts_journal := put_channel ch' (ts_journal s)\<rparr>)"
proof -
  have "tc_id ch' = t" using inv ch channels_ok_id by (auto simp: terminal_inv_def same_channel_def)
  then show ?thesis using shrinks_put [OF ch] by (intro shrinks_inv [OF inv]) (auto simp: put_channel_def)
qed

lemma send_inv:
  assumes "terminal_inv s" "dget (tj_channels (ts_journal s)) t = Some ch"
  shows "terminal_inv (s\<lparr>ts_journal := snd (send_message ch m now (ts_journal s))\<rparr>)"
proof -
  have "same_channel ch (ch\<lparr>tc_activity := now\<rparr>)" by (simp add: same_channel_def)
  then show ?thesis using put_inv [OF assms] assms(1) by (simp add: send_message_def)
qed


lemma live_card:
  assumes "channels_ok n d"
  shows "card (live u d) = length (filter (\<lambda>ch. tc_user_id ch = u \<and> \<not> tc_closed ch) (dvalues d))"
proof -
  let ?P = "\<lambda>ch. tc_user_id ch = u \<and> \<not> tc_closed ch"
  have "inj_on (tc_ref \<circ> snd) (set d)"
  proof (rule inj_onI)
    fix x y assume xy: "x \<in> set d" "y \<in> set d" "(tc_ref \<circ> snd) x = (tc_ref \<circ> snd) y"
    obtain k ch k' ch' where [simp]: "x = (k, ch)" "y = (k', ch')" by (cases x, cases y) auto
    have "k = k'" using assms xy unfolding channels_ok_def by fastforce
    then show "x = y" using xy assms eq_key_imp_eq_value [of d k ch ch'] by (simp add: channels_ok_def)
  qed
  moreover have "distinct d" using assms by (simp add: channels_ok_def distinct_map)
  ultimately have "distinct (map (tc_ref \<circ> snd) d)" by (simp add: distinct_map)
  then have "distinct (map tc_ref (filter ?P (dvalues d)))"
    using distinct_map_filter [of tc_ref "dvalues d" ?P] by simp
  moreover have "live u d = set (map tc_ref (filter ?P (dvalues d)))" by (auto simp: live_def)
  ultimately show ?thesis using distinct_card by fastforce
qed

lemma channels_ok_filter: "channels_ok n d \<Longrightarrow> channels_ok n (filter P d)"
  using shrinks_channels_ok shrinks_filter by blast

lemma replacing_Cons: "replacing u ((v, r) # rs) =
    (case r of Some c \<Rightarrow> if v = u then insert (tc_ref c) (replacing u rs) else replacing u rs | None \<Rightarrow> replacing u rs)"
  by (auto simp: replacing_def split: option.splits)

lemma replacing_remove: "replacing u rs \<subseteq> replacing u (remove1 (v, r) rs) \<union> replacing u [(v, r)]"
  by (auto simp: replacing_def in_set_remove1)

lemma count_remove: "(v, r) \<in> set rs \<Longrightarrow>
    length (filter (\<lambda>(w, q). w = u) (remove1 (v, r) rs)) = length (filter (\<lambda>(w, q). w = u) rs) - (if v = u then 1 else 0)"
  by (induction rs) (auto split: if_splits, metis (mono_tags, lifting) Suc_pred case_prod_conv filter_empty_conv length_greater_0_conv)

lemma reserved_pos: "(u, r) \<in> set rs \<Longrightarrow> 0 < length (filter (\<lambda>(w, q). w = u) rs)"
  by (induction rs) auto

lemma card_Diff_replacing: "finite A \<Longrightarrow> card (A - R) \<le> Suc (card (A - insert x R))"
  using card_Diff_singleton_if [of "A - R" x] by (auto simp: Diff_insert [symmetric] split: if_splits)

text \<open>The four steps of a start.\<close>

lemma reserved_ok_Cons:
  assumes ok: "channels_ok n d" "reserved_ok n d rs" and r: "\<And>c. r = Some c \<Longrightarrow> \<exists>k. (k, c) \<in> set d"
  shows "reserved_ok n d ((u, r) # rs)"
proof -
  have "tc_ref c < n \<and> (\<forall>(k, ch) \<in> set d. tc_ref ch = tc_ref c \<longrightarrow> k = tc_id c)" if c: "r = Some c" for c
  proof -
    obtain k where k: "(k, c) \<in> set d" using r c by blast
    then have kc: "k = tc_id c" "tc_ref c < n" using ok(1) unfolding channels_ok_def by blast+
    have "k' = k" if "(k', ch) \<in> set d" "tc_ref ch = tc_ref c" for k' ch
      using ok(1) k that unfolding channels_ok_def by blast
    then show ?thesis using kc by blast
  qed
  then show ?thesis using ok(2) unfolding reserved_ok_def by simp
qed

lemma channels_ok_snoc:
  assumes ok: "channels_ok n d" and new: "dget d (tc_id ch) = None" "tc_ref ch = n"
  shows "channels_ok (Suc n) (d @ [(tc_id ch, ch)])"
proof -
  have old: "tc_id c = k \<and> tc_ref c < n" if "(k, c) \<in> set d" for k c using ok that unfolding channels_ok_def by blast
  have inj: "k = k'" if "(k, c) \<in> set d" "(k', c') \<in> set d" "tc_ref c = tc_ref c'" for k c k' c'
    using ok that unfolding channels_ok_def by blast
  have "dict_ok (d @ [(tc_id ch, ch)])" using ok new(1) by (simp add: channels_ok_def map_of_eq_None_iff)
  moreover have "tc_id c = k \<and> tc_ref c < Suc n" if "(k, c) \<in> set (d @ [(tc_id ch, ch)])" for k c
    using that old [of k c] new(2) by auto
  moreover have "k = k'" if "(k, c) \<in> set (d @ [(tc_id ch, ch)])" "(k', c') \<in> set (d @ [(tc_id ch, ch)])" "tc_ref c = tc_ref c'" for k c k' c'
    using that inj [of k c k' c'] old [of k c] old [of k' c'] new(2) by auto
  ultimately show ?thesis unfolding channels_ok_def by blast
qed

lemma reserved_ok_snoc:
  assumes "reserved_ok n d rs" "tc_ref ch = n" "set rs' \<subseteq> set rs"
  shows "reserved_ok (Suc n) (d @ [(k, ch)]) rs'"
proof -
  have "tc_ref c < n \<and> (\<forall>(k, ch) \<in> set d. tc_ref ch = tc_ref c \<longrightarrow> k = tc_id c)" if "(u, Some c) \<in> set rs'" for u c
    using assms that unfolding reserved_ok_def by blast
  then show ?thesis unfolding reserved_ok_def using assms(2) by fastforce
qed

lemma reserve_inv:
  assumes inv: "terminal_inv s" and r: "reserve_start u ow (ts_journal s) = (Inr r, j)"
  shows "terminal_inv (s\<lparr>ts_journal := j, ts_reserved := (u, r) # ts_reserved s\<rparr>)"
proof -
  let ?d = "tj_channels (ts_journal s)" and ?n = "tj_next (ts_journal s)"
  let ?d' = "filter (\<lambda>(k, ch). \<not> (tc_user_id ch = u \<and> tc_closed ch)) ?d"
  let ?active = "length (filter (\<lambda>ch. tc_user_id ch = u \<and> \<not> tc_closed ch) (dvalues ?d'))"
  have ok: "channels_ok ?n ?d" "reserved_ok ?n ?d (ts_reserved s)" using inv by (simp_all add: terminal_inv_def)
  have sh: "shrinks ?d ?d'" by (rule shrinks_filter)
  have ok': "channels_ok ?n ?d'" "reserved_ok ?n ?d' (ts_reserved s)"
    using shrinks_channels_ok [OF sh ok(1)] shrinks_reserved_ok [OF sh ok(2)] by simp_all
  have j: "tj_channels j = ?d'" "tj_next j = ?n"
    "\<And>v. starting_count j v = starting_count (ts_journal s) v + (if v = u then 1 else 0)"
    and r': "r = (case ow of None \<Rightarrow> None | Some ow \<Rightarrow> find (\<lambda>ch. tc_user_id ch = u \<and> tc_owner_id ch = Some ow) (dvalues ?d'))"
    and lim: "int ?active - (if r \<noteq> None then 1 else 0) + int (starting_count (ts_journal s) u) < 8"
    using r by (auto simp: reserve_start_def starting_count_def Let_def TERMINALS_PER_USER_MAX_def cong: option.case_cong split: if_splits)
  have mem: "(\<exists>k. (k, c) \<in> set ?d') \<and> tc_ref c \<in> live u ?d'" if c: "r = Some c" for c
  proof -
    obtain ow' where "find (\<lambda>ch. tc_user_id ch = u \<and> tc_owner_id ch = Some ow') (dvalues ?d') = Some c"
      using r' c by (auto split: option.splits)
    then have "c \<in> set (dvalues ?d')" "tc_user_id c = u" by (auto dest: find_SomeD)
    then show ?thesis by (auto simp: live_def)
  qed
  have res: "reserved_ok ?n ?d' ((u, r) # ts_reserved s)"
    using reserved_ok_Cons [OF ok'] mem by blast
  have live: "card (live u ?d') = ?active" using live_card [OF ok'(1)] .
  have "card (live v ?d' - replacing v ((u, r) # ts_reserved s)) + length (filter (\<lambda>(w, q). w = v) ((u, r) # ts_reserved s)) \<le> TERMINALS_PER_USER_MAX" for v
  proof (cases "v = u")
    case True
    have "card (live u ?d' - replacing u ((u, r) # ts_reserved s)) \<le> card (live u ?d') - (if r \<noteq> None then 1 else 0)"
    proof (cases r)
      case (Some c)
      have "card (live u ?d' - replacing u ((u, r) # ts_reserved s)) \<le> card (live u ?d' - {tc_ref c})"
        by (intro card_mono) (auto simp: replacing_Cons Some)
      also have "\<dots> = card (live u ?d') - 1" using mem [OF Some] by (intro card_Diff_singleton) (simp only:)
      finally show ?thesis by (simp only: Some simp_thms if_True option.simps)
    qed (simp add: card_mono)
    moreover have "r \<noteq> None \<Longrightarrow> 0 < card (live u ?d')" using mem by (metis card_gt_0_iff emptyE finite_live option.exhaust)
    moreover have "int (card (live u ?d')) - (if r \<noteq> None then 1 else 0) + int (starting_count (ts_journal s) u) < 8" using lim by (simp only: live)
    ultimately show ?thesis using True inv by (auto simp: TERMINALS_PER_USER_MAX_def terminal_inv_def split: if_splits)
  next
    case False
    then have "card (live v ?d' - replacing v ((u, r) # ts_reserved s)) \<le> card (live v ?d - replacing v (ts_reserved s))"
      using shrinks_live [OF sh] by (intro card_mono) (auto simp: replacing_Cons split: option.splits)
    moreover have "card (live v ?d - replacing v (ts_reserved s)) + length (filter (\<lambda>(w, q). w = v) (ts_reserved s)) \<le> TERMINALS_PER_USER_MAX"
      using inv unfolding terminal_inv_def by blast
    ultimately show ?thesis using False by simp
  qed
  then show ?thesis using inv ok' res j by (simp add: terminal_inv_def)
qed


lemma ended_inv:
  assumes inv: "terminal_inv s" and m: "(u, r) \<in> set (ts_reserved s)"
    and ok: "channels_ok (tj_next j) (tj_channels j)" "reserved_ok (tj_next j) (tj_channels j) (remove1 (u, r) (ts_reserved s))"
    and start: "\<And>v. starting_count j v = starting_count (ts_journal s) v"
    and cards: "\<And>v. card (live v (tj_channels j) - replacing v (remove1 (u, r) (ts_reserved s)))
      \<le> card (live v (tj_channels (ts_journal s)) - replacing v (ts_reserved s)) + (if u = v then 1 else 0)"
  shows "terminal_inv (s\<lparr>ts_journal := j, ts_reserved := remove1 (u, r) (ts_reserved s), ts_unreleased := u # ts_unreleased s\<rparr>)"
proof -
  let ?count = "\<lambda>v rs. length (filter (\<lambda>(w, q :: terminal_channel option). w = v) rs)"
  have cnt: "?count v (remove1 (u, r) (ts_reserved s)) = ?count v (ts_reserved s) - (if u = v then 1 else 0)" for v by (rule count_remove [OF m])
  have pos: "0 < ?count u (ts_reserved s)" by (rule reserved_pos [OF m])
  have lim: "card (live v (tj_channels (ts_journal s)) - replacing v (ts_reserved s)) + ?count v (ts_reserved s) \<le> TERMINALS_PER_USER_MAX" for v
    using inv unfolding terminal_inv_def by blast
  have "card (live v (tj_channels j) - replacing v (remove1 (u, r) (ts_reserved s))) + ?count v (remove1 (u, r) (ts_reserved s)) \<le> TERMINALS_PER_USER_MAX" for v
    using cards [of v] lim [of v] cnt [of v] pos by (cases "u = v") (simp_all del: length_greater_0_conv)
  moreover have "starting_count j v = ?count v (remove1 (u, r) (ts_reserved s)) + length (filter (\<lambda>w. w = v) (u # ts_unreleased s))" for v
  proof -
    have "starting_count (ts_journal s) v = ?count v (ts_reserved s) + length (filter (\<lambda>w. w = v) (ts_unreleased s))"
      using inv unfolding terminal_inv_def by blast
    then show ?thesis using start [of v] cnt [of v] pos by (cases "u = v") (simp_all del: length_greater_0_conv)
  qed
  ultimately show ?thesis using ok by (simp add: terminal_inv_def)
qed

lemma abort_inv:
  assumes inv: "terminal_inv s" and m: "(u, r) \<in> set (ts_reserved s)"
  shows "terminal_inv (s\<lparr>ts_reserved := remove1 (u, r) (ts_reserved s), ts_unreleased := u # ts_unreleased s\<rparr>)"
proof -
  let ?d = "tj_channels (ts_journal s)" and ?rs = "ts_reserved s" and ?rs' = "remove1 (u, r) (ts_reserved s)"
  have "card (live v ?d - replacing v ?rs') \<le> card (live v ?d - replacing v ?rs) + (if u = v then 1 else 0)" for v
  proof -
    have "card (live v ?d - replacing v ?rs') \<le> Suc (card (live v ?d - insert (tc_ref c) (replacing v ?rs')))" for c
      by (rule card_Diff_replacing) simp
    moreover have "card (live v ?d - (replacing v ?rs' \<union> replacing v [(u, r)])) \<le> card (live v ?d - replacing v ?rs)"
      using replacing_remove [of v ?rs u r] by (intro card_mono) auto
    ultimately show ?thesis
      by (auto simp: replacing_Cons replacing_def [of _ "[]"] split: option.splits if_splits intro: order_trans)
  qed
  moreover have "reserved_ok (tj_next (ts_journal s)) ?d ?rs'"
    using inv unfolding terminal_inv_def reserved_ok_def by (meson notin_set_remove1)
  ultimately show ?thesis using inv ended_inv [OF inv m, of "ts_journal s"] by (simp add: terminal_inv_def)
qed

lemma release_start_inv:
  assumes inv: "terminal_inv s" and u: "u \<in> set (ts_unreleased s)" and r: "release_start_state u True ow (ts_journal s) = (res, j)"
  shows "terminal_inv (s\<lparr>ts_journal := j, ts_unreleased := remove1 u (ts_unreleased s)\<rparr>)"
proof -
  have pos: "0 < length (filter (\<lambda>v. v = u) (ts_unreleased s))" using u by (simp add: filter_empty_conv)
  then have "starting_count (ts_journal s) u > 0" using inv by (simp add: terminal_inv_def)
  then have j: "tj_channels j = tj_channels (ts_journal s)" "tj_next j = tj_next (ts_journal s)"
    "\<And>v. starting_count j v = starting_count (ts_journal s) v - (if v = u then 1 else 0)"
    using r by (auto simp: release_start_state_def starting_count_def Let_def split: if_splits option.splits)
  have "length (filter (\<lambda>w. w = v) (remove1 u (ts_unreleased s))) = length (filter (\<lambda>w. w = v) (ts_unreleased s)) - (if v = u then 1 else 0)" for v
    using u by (simp add: filter_remove1 length_remove1)
  then show ?thesis using inv j pos by (simp add: terminal_inv_def del: length_greater_0_conv)
qed

lemma commit_cases:
  assumes "commit_start ch r j0 = (Inr r', j)" "dict_ok (tj_channels j0)"
  shows "\<exists>d. (d = tj_channels j0 \<or> (\<exists>t. d = dpop (tj_channels j0) t)) \<and> dget d (tc_id ch) = None
    \<and> (\<forall>q. r = Some q \<longrightarrow> (\<forall>(k, c) \<in> set d. tc_ref c = tc_ref q \<longrightarrow> k \<noteq> tc_id q))
    \<and> j = j0\<lparr>tj_next := Suc (tj_next j0), tj_channels := d @ [(tc_id ch, ch\<lparr>tc_ref := tj_next j0\<rparr>)]\<rparr>"
proof -
  have n: "dget (tj_channels j0) (tc_id ch) = None" and nc: "\<not> tj_closing j0"
    using assms(1) by (simp_all add: commit_start_def split: if_splits)
  note absent = dset_absent [OF n] dset_absent [of "dpop (tj_channels j0) _" "tc_id ch"]
  show ?thesis
  proof (cases "\<exists>q c. r = Some q \<and> dget (tj_channels j0) (tc_id q) = Some c \<and> tc_ref c = tc_ref q")
    case True
    then obtain q c where q: "r = Some q" "dget (tj_channels j0) (tc_id q) = Some c" "tc_ref c = tc_ref q" by blast
    have "\<forall>(k, c) \<in> set (dpop (tj_channels j0) (tc_id q)). k \<noteq> tc_id q" by (auto simp: AList.delete_eq)
    then show ?thesis using assms(1) n nc q
      by (intro exI [of _ "dpop (tj_channels j0) (tc_id q)"]) (auto simp: commit_start_def Let_def absent)
  next
    case False
    have "tc_ref c \<noteq> tc_ref q" if "r = Some q" "(tc_id q, c) \<in> set (tj_channels j0)" for q c
      using False that map_of_is_SomeI [OF assms(2)] by blast
    moreover have "j = j0\<lparr>tj_next := Suc (tj_next j0), tj_channels := tj_channels j0 @ [(tc_id ch, ch\<lparr>tc_ref := tj_next j0\<rparr>)]\<rparr>"
      using assms(1) n nc False by (cases r) (auto simp: commit_start_def Let_def absent split: option.splits)
    ultimately show ?thesis using n by (intro exI [of _ "tj_channels j0"]) auto
  qed
qed

lemma commit_inv:
  assumes inv: "terminal_inv s" and m: "(u, r) \<in> set (ts_reserved s)" and u: "tc_user_id ch = u"
    and c: "commit_start ch r (ts_journal s) = (Inr r', j)"
  shows "terminal_inv (s\<lparr>ts_journal := j, ts_reserved := remove1 (u, r) (ts_reserved s), ts_unreleased := u # ts_unreleased s\<rparr>)"
proof -
  let ?d = "tj_channels (ts_journal s)" and ?n = "tj_next (ts_journal s)" and ?rs = "ts_reserved s" and ?rs' = "remove1 (u, r) (ts_reserved s)"
  let ?new = "ch\<lparr>tc_ref := ?n\<rparr>"
  have ok: "channels_ok ?n ?d" "reserved_ok ?n ?d ?rs" using inv by (simp_all add: terminal_inv_def)
  obtain d where d: "d = ?d \<or> (\<exists>t. d = dpop ?d t)" "dget d (tc_id ch) = None"
    and gone: "\<And>q. r = Some q \<Longrightarrow> \<forall>(k, c) \<in> set d. tc_ref c = tc_ref q \<longrightarrow> k \<noteq> tc_id q"
    and j: "j = (ts_journal s)\<lparr>tj_next := Suc ?n, tj_channels := d @ [(tc_id ch, ?new)]\<rparr>"
    using commit_cases [OF c] ok(1) by (auto simp: channels_ok_def)
  have sh: "shrinks ?d d" using d(1) shrinks_pop by auto
  have okd: "channels_ok ?n d" "reserved_ok ?n d ?rs" using shrinks_channels_ok [OF sh ok(1)] shrinks_reserved_ok [OF sh ok(2)] by simp_all
  have ok': "channels_ok (Suc ?n) (tj_channels j)" using channels_ok_snoc [OF okd(1), of ?new] d(2) by (simp add: j)
  have res: "reserved_ok (Suc ?n) (tj_channels j) ?rs'" using reserved_ok_snoc [OF okd(2), of ?new ?rs'] by (simp add: j set_remove1_subset)
  have notlive: "tc_ref q \<notin> live v d" if "r = Some q" for q v
    using gone [OF that] okd(2) m that unfolding reserved_ok_def live_def by fastforce
  then have disj: "replacing v [(u, r)] \<inter> live v d = {}" for v by (auto simp: replacing_def)
  have live: "live v (tj_channels j) \<subseteq> live v d \<union> (if v = u then {?n} else {})" for v using u by (auto simp: live_def j)
  have "card (live v (tj_channels j) - replacing v ?rs') \<le> card (live v ?d - replacing v ?rs) + (if v = u then 1 else 0)" for v
  proof -
    have "live v (tj_channels j) - replacing v ?rs' \<subseteq> (live v ?d - replacing v ?rs) \<union> (if v = u then {?n} else {})"
      using live [of v] shrinks_live [OF sh, of v] replacing_remove [of v ?rs u r] disj [of v] by blast
    then have "card (live v (tj_channels j) - replacing v ?rs') \<le> card ((live v ?d - replacing v ?rs) \<union> (if v = u then {?n} else {}))"
      by (intro card_mono) auto
    also have "\<dots> \<le> card (live v ?d - replacing v ?rs) + card (if v = u then {?n} else {})" by (rule card_Un_le)
    finally show ?thesis by auto
  qed
  then show ?thesis using ok' res by (intro ended_inv [OF inv m]) (auto simp: j starting_count_def eq_commute)
qed


lemma update_inv:
  assumes inv: "terminal_inv s"
  shows "terminal_inv (s\<lparr>ts_journal := snd (terminal_input u w t d now (ts_journal s))\<rparr>)"
    "terminal_inv (s\<lparr>ts_journal := snd (terminal_resize u w t cols rows now (ts_journal s))\<rparr>)"
    "terminal_inv (s\<lparr>ts_journal := snd (terminal_restart u w t now (ts_journal s))\<rparr>)"
    "terminal_inv (s\<lparr>ts_journal := snd (terminal_events u w t n secs now (ts_journal s))\<rparr>)"
    "terminal_inv (s\<lparr>ts_journal := mark_closed t (ts_journal s)\<rparr>)"
    "terminal_inv (s\<lparr>ts_journal := snd (terminal_close u w t (ts_journal s))\<rparr>)"
    "terminal_inv (s\<lparr>ts_journal := snd (reap_idle_channels now (ts_journal s))\<rparr>)"
    "terminal_inv (s\<lparr>ts_journal := snd (close_all (ts_journal s))\<rparr>)"
proof -
  have same: "same_channel ch (ch\<lparr>tc_activity := now\<rparr>)" "same_channel ch (ch\<lparr>tc_closed := True\<rparr>)" for ch by (simp_all add: same_channel_def)
  show "terminal_inv (s\<lparr>ts_journal := snd (terminal_input u w t d now (ts_journal s))\<rparr>)"
    using send_inv [OF inv] inv by (auto simp: terminal_input_def split: sum.splits option.splits dest!: find_channel_Inr)
  show "terminal_inv (s\<lparr>ts_journal := snd (terminal_resize u w t cols rows now (ts_journal s))\<rparr>)"
    using send_inv [OF inv] inv by (auto simp: terminal_resize_def rbind_Inr_iff split: sum.splits dest!: find_channel_Inr)
  show "terminal_inv (s\<lparr>ts_journal := snd (terminal_restart u w t now (ts_journal s))\<rparr>)"
    using send_inv [OF inv] inv by (auto simp: terminal_restart_def split: sum.splits dest!: find_channel_Inr)
  show "terminal_inv (s\<lparr>ts_journal := snd (terminal_events u w t n secs now (ts_journal s))\<rparr>)"
    using put_inv [OF inv _ same(1)] inv by (auto simp: terminal_events_def rbind_Inr_iff split: sum.splits dest!: find_channel_Inr)
  show "terminal_inv (s\<lparr>ts_journal := mark_closed t (ts_journal s)\<rparr>)"
    using put_inv [OF inv _ same(2)] inv by (auto simp: mark_closed_def split: option.splits)
  show "terminal_inv (s\<lparr>ts_journal := snd (terminal_close u w t (ts_journal s))\<rparr>)"
    using inv by (auto simp: terminal_close_def shrinks_pop split: sum.splits terminal_error.splits intro!: shrinks_inv [OF inv])
  show "terminal_inv (s\<lparr>ts_journal := snd (reap_idle_channels now (ts_journal s))\<rparr>)"
    by (intro shrinks_inv [OF inv]) (simp_all add: reap_idle_channels_def Let_def shrinks_filter)
  show "terminal_inv (s\<lparr>ts_journal := snd (close_all (ts_journal s))\<rparr>)"
    by (intro shrinks_inv [OF inv]) (simp_all add: close_all_def shrinks_def)
qed

lemma reserve_fail_inv:
  assumes inv: "terminal_inv s" and r: "reserve_start u ow (ts_journal s) = (Inl e, j)"
  shows "terminal_inv (s\<lparr>ts_journal := j\<rparr>)"
  using r by (intro shrinks_inv [OF inv]) (auto simp: reserve_start_def Let_def shrinks_filter split: if_splits)

text \<open>The keys of the tab owners: only a claim adds one, and only a release takes one away.\<close>

lemma unreleased_count: "terminal_inv s \<Longrightarrow> u \<in> set (ts_unreleased s) \<Longrightarrow> starting_count (ts_journal s) u > 0"
  by (auto simp: terminal_inv_def filter_empty_conv)

lemma release_start_done:
  assumes "held \<longrightarrow> starting_count j u > 0" "key = None \<or> (\<exists>k. key = Some k \<and> k \<in> set (tj_starting_by_owner j))"
  shows "\<exists>j'. release_start_state u held key j = (Inr (), j')
    \<and> tj_starting_by_owner j' = (case key of None \<Rightarrow> tj_starting_by_owner j | Some k \<Rightarrow> removeAll k (tj_starting_by_owner j))"
  using assms by (auto simp: release_start_state_def starting_count_def Let_def)

lemma send_owner [simp]: "tj_starting_by_owner (snd (send_message ch m now j)) = tj_starting_by_owner j"
  by (simp add: send_message_def put_channel_def)

lemma update_owner [simp]:
  "tj_starting_by_owner (put_channel ch j) = tj_starting_by_owner j"
  "tj_starting_by_owner (snd (terminal_input u w t d now j)) = tj_starting_by_owner j"
  "tj_starting_by_owner (snd (terminal_resize u w t cols rows now j)) = tj_starting_by_owner j"
  "tj_starting_by_owner (snd (terminal_restart u w t now j)) = tj_starting_by_owner j"
  "tj_starting_by_owner (snd (terminal_events u w t n secs now j)) = tj_starting_by_owner j"
  "tj_starting_by_owner (mark_closed t j) = tj_starting_by_owner j"
  "tj_starting_by_owner (snd (terminal_close u w t j)) = tj_starting_by_owner j"
  "tj_starting_by_owner (snd (reap_idle_channels now j)) = tj_starting_by_owner j"
  "tj_starting_by_owner (snd (close_all j)) = tj_starting_by_owner j"
proof -
  show put: "tj_starting_by_owner (put_channel ch j) = tj_starting_by_owner j" for ch by (simp add: put_channel_def)
  show "tj_starting_by_owner (snd (terminal_input u w t d now j)) = tj_starting_by_owner j" by (simp add: terminal_input_def split: sum.split option.split)
  show "tj_starting_by_owner (snd (terminal_resize u w t cols rows now j)) = tj_starting_by_owner j" by (simp add: terminal_resize_def split: sum.split)
  show "tj_starting_by_owner (snd (terminal_restart u w t now j)) = tj_starting_by_owner j" by (simp add: terminal_restart_def split: sum.split)
  show "tj_starting_by_owner (snd (terminal_events u w t n secs now j)) = tj_starting_by_owner j"
    by (simp add: terminal_events_def put split: sum.split prod.split)
  show "tj_starting_by_owner (mark_closed t j) = tj_starting_by_owner j" by (simp add: mark_closed_def put split: option.split)
  show "tj_starting_by_owner (snd (terminal_close u w t j)) = tj_starting_by_owner j" by (simp add: terminal_close_def split: sum.split terminal_error.split)
  show "tj_starting_by_owner (snd (reap_idle_channels now j)) = tj_starting_by_owner j" by (simp add: reap_idle_channels_def Let_def)
  show "tj_starting_by_owner (snd (close_all j)) = tj_starting_by_owner j" by (simp add: close_all_def)
qed

lemma start_owner:
  "reserve_start u ow j = (r, j') \<Longrightarrow> tj_starting_by_owner j' = tj_starting_by_owner j"
  "commit_start ch q j = (r', j') \<Longrightarrow> tj_starting_by_owner j' = tj_starting_by_owner j"
  by (auto simp: reserve_start_def commit_start_def Let_def split: if_splits)

lemma owners_step:
  assumes "terminal_step s t" "terminal_inv s" "owners_ok s"
  shows "owners_ok t"
  using assms(1)
proof cases
  case (claim key j)
  have "key \<notin> set (tj_starting_by_owner (ts_journal s))" "tj_starting_by_owner j = tj_starting_by_owner (ts_journal s) @ [key]"
    using claim(2) unfolding claim_owner_start_def by (simp_all split: if_split_asm) force
  then show ?thesis using assms(3) by (simp add: claim(1) owners_ok_def)
next
  case (release u key res j)
  have "key = None \<or> (\<exists>k. key = Some k \<and> k \<in> set (tj_starting_by_owner (ts_journal s)))" using release(3) assms(3) by (auto simp: owners_ok_def)
  then show ?thesis using release_start_done [of True "ts_journal s" u key] unreleased_count [OF assms(2) release(2)] release(1,4) assms(3)
    by (auto simp: owners_ok_def split: option.splits)
next
  case (release_unreserved u ow res j)
  have "(u, ow) \<in> set (tj_starting_by_owner (ts_journal s))" using release_unreserved(2) assms(3) by (simp add: owners_ok_def)
  then show ?thesis using release_start_done [of False "ts_journal s" u "Some (u, ow)"] release_unreserved assms(3) by (auto simp: owners_ok_def)
next
  case (reserve u ow r j)
  then show ?thesis using assms(3) start_owner(1) [OF reserve(2)] by (simp add: owners_ok_def)
next
  case (reserve_fail u ow e j)
  then show ?thesis using assms(3) start_owner(1) [OF reserve_fail(2)] by (simp add: owners_ok_def)
next
  case (commit u r ch r' j)
  then show ?thesis using assms(3) start_owner(2) [OF commit(4)] by (simp add: owners_ok_def)
qed (use assms(3) in \<open>simp_all add: owners_ok_def\<close>)

lemma release_unreserved_inv:
  assumes inv: "terminal_inv s" and r: "release_start_state u False key (ts_journal s) = (res, j)"
  shows "terminal_inv (s\<lparr>ts_journal := j\<rparr>)"
  using r by (intro shrinks_inv [OF inv]) (auto simp: release_start_state_def Let_def split: if_splits option.splits)

lemma claim_inv: "terminal_inv s \<Longrightarrow> claim_owner_start key (ts_journal s) = Some j \<Longrightarrow> terminal_inv (s\<lparr>ts_journal := j\<rparr>)"
  by (auto simp: claim_owner_start_def split: if_splits intro!: shrinks_inv)

interpretation terminals: safe_system terminal_init terminal_step "\<lambda>s. terminal_inv s \<and> owners_ok s"
proof
  fix s assume "terminal_init s"
  then have "tj_channels (ts_journal s) = []" "tj_starting_by_user (ts_journal s) = []" "ts_reserved s = []" "ts_unreleased s = []"
    "tj_starting_by_owner (ts_journal s) = []" "ts_owned s = []"
    by (auto simp: terminal_init_def new_terminal_journal_def rbind_Inr_iff dest: sym)
  then show "terminal_inv s \<and> owners_ok s" by (simp add: terminal_inv_def owners_ok_def channels_ok_def reserved_ok_def live_def starting_count_def)
next
  fix s t assume "terminal_inv s \<and> owners_ok s" and st: "terminal_step s t"
  then have inv: "terminal_inv s" "owners_ok s" by simp_all
  from st have "terminal_inv t"
    by cases (simp_all add: reserve_inv [OF inv(1)] reserve_fail_inv [OF inv(1)] commit_inv [OF inv(1)] abort_inv [OF inv(1)] release_start_inv [OF inv(1)]
      release_unreserved_inv [OF inv(1)] claim_inv [OF inv(1)] update_inv [OF inv(1)] put_inv [OF inv(1) _ read_output_keeps])
  then show "terminal_inv t \<and> owners_ok t" using owners_step [OF st inv] by simp
qed

text \<open>C14: An account never has more than eight live terminals. In every state the journal can reach, however the starts, replacements, failures, reads,
  closes, reapings and releases of all its clients are interleaved, the live channels of an account are at most eight; no two starts hold the key of the same tab
  owner; and a start that ends, with or without a reservation and with or without an owner's key, always finds what it has to release.\<close>

theorem terminal_limit:
  assumes "reach terminal_init terminal_step s"
  shows "length (filter (\<lambda>ch. tc_user_id ch = u \<and> \<not> tc_closed ch) (dvalues (tj_channels (ts_journal s)))) \<le> 8
    \<and> distinct (ts_owned s)
    \<and> (u \<in> set (ts_unreleased s) \<longrightarrow> fst (release_start_state u True None (ts_journal s)) = Inr ())
    \<and> (u \<in> set (ts_unreleased s) \<and> (u, ow) \<in> set (ts_owned s) \<longrightarrow> fst (release_start_state u True (Some (u, ow)) (ts_journal s)) = Inr ())
    \<and> ((u, ow) \<in> set (ts_owned s) \<longrightarrow> fst (release_start_state u False (Some (u, ow)) (ts_journal s)) = Inr ())"
proof -
  have inv: "terminal_inv s" "owners_ok s" using terminals.reach_inv [OF assms] by simp_all
  let ?L = "live u (tj_channels (ts_journal s))" and ?R = "replacing u (ts_reserved s)"
  have fin: "?R \<subseteq> (\<lambda>(w, q). tc_ref (the q)) ` set (filter (\<lambda>(w, q). w = u) (ts_reserved s))"
    by (force simp: replacing_def image_iff)
  then have "card ?R \<le> length (filter (\<lambda>(w, q). w = u) (ts_reserved s))"
    using card_mono [OF _ fin] card_image_le [of "set (filter (\<lambda>(w, q). w = u) (ts_reserved s))"] card_length le_trans by blast
  moreover have "card ?L \<le> card (?L - ?R) + card ?R"
    using finite_subset [OF fin] card_Un_le [of "?L - ?R" ?R] card_mono [of "(?L - ?R) \<union> ?R" ?L] by (simp add: sup_commute)
  moreover have "card (?L - ?R) + length (filter (\<lambda>(w, q). w = u) (ts_reserved s)) \<le> 8"
    using inv(1) unfolding terminal_inv_def TERMINALS_PER_USER_MAX_def by blast
  moreover have "card ?L = length (filter (\<lambda>ch. tc_user_id ch = u \<and> \<not> tc_closed ch) (dvalues (tj_channels (ts_journal s))))"
    using inv(1) live_card unfolding terminal_inv_def by blast
  moreover have "fst (release_start_state u held key (ts_journal s)) = Inr ()"
    if "held \<longrightarrow> u \<in> set (ts_unreleased s)" "key = None \<or> (\<exists>k. key = Some k \<and> k \<in> set (ts_owned s))" for held key
    using release_start_done [of held "ts_journal s" u key] unreleased_count [OF inv(1)] inv(2) that unfolding owners_ok_def by fastforce
  ultimately show ?thesis using inv(2) by (auto simp: owners_ok_def)
qed


subsection \<open>Output that cannot be journaled\<close>

text \<open>The characters of the basic plane that UTF-8 stores in three bytes: each is six bytes of escaped JSON.\<close>

definition three_bytes :: "nat \<Rightarrow> bool" where
  "three_bytes c \<longleftrightarrow> 0x800 \<le> c \<and> c < 0x10000 \<and> \<not> (0xD800 \<le> c \<and> c \<le> 0xDFFF)"

lemma escape_wide: "three_bytes c \<Longrightarrow> length (escape_char c) = 6 \<and> utf8_len c = Some 3"
  by (auto simp: three_bytes_def escape_char_def utf8_len_def)

lemma wide_text_size: "\<forall>c \<in> set d. three_bytes c \<Longrightarrow> length (concat (map escape_char d)) = 6 * length d"
  by (induction d) (auto simp: escape_wide)

lemma wide_event_size: "\<forall>c \<in> set d. three_bytes c \<Longrightarrow> length (dumps True (data_event d)) = 6 * length d + 34"
  using wide_text_size [of d] by (simp add: data_event_def ascii_def dumps_string_def) (simp add: escape_char_def)

lemma split_wide: "\<forall>c \<in> set d. three_bytes c \<Longrightarrow> 3 * length d + b \<le> 20000 \<Longrightarrow> cur @ d \<noteq> [] \<Longrightarrow>
    split_data_loop d [] cur b = Inr [data_event (cur @ d)]"
proof (induction d arbitrary: cur b)
  case (Cons c d)
  then show ?case using Cons.IH [of "b + 3" "cur @ [c]"] by (simp add: escape_wide)
qed simp

text \<open>C37: Output is cut at 20000 bytes of UTF-8 but journaled as escaped ASCII JSON of at most 24000 bytes, so output that UTF-8 stores compactly does not fit: a
  message of terminal data as the sidecar sends it, with its \<^verbatim>\<open>id\<close>, its \<^verbatim>\<open>type\<close> and between 3995 and 6666 characters that are three bytes long in UTF-8
  (most CJK text), is a single chunk that is refused, and the channel is closed without it.\<close>

theorem wide_output_disconnects:
  assumes "3995 \<le> length d" "length d \<le> 6666" "\<forall>c \<in> set d. three_bytes c" "line \<noteq> []" "length line \<le> 8 * 1024 * 1024"
    and "loads line = Some (JObj [(ascii ''id'', JStr i), (ascii ''type'', JStr (ascii ''terminal_data'')), (ascii ''data'', JStr d)])"
  shows "split_event (JObj [(ascii ''id'', JStr i), (ascii ''type'', JStr (ascii ''terminal_data'')), (ascii ''data'', JStr d)]) = Inr [data_event d]
    \<and> read_output_line loads line now ch = (False, (snd (append_event disconnected_event now ch))\<lparr>tc_closed := True\<rparr>)"
proof -
  let ?e = "JObj [(ascii ''id'', JStr i), (ascii ''type'', JStr (ascii ''terminal_data'')), (ascii ''data'', JStr d)]"
  have get: "jget ?e ''type'' = Some (JStr (ascii ''terminal_data''))" "jget ?e ''replay'' = None" "jget ?e ''data'' = Some (JStr d)"
    by (simp_all add: jget_def ascii_def)
  have split: "split_event ?e = Inr [data_event d]"
    using split_wide [OF assms(3), of 0 "[]"] assms(1,2) by (cases "d = []") (simp_all add: split_event_def get split_terminal_data_def)
  have "append_event (data_event d) now ch = (Inl (TerminalValueError ''terminal event exceeds the byte limit''), ch)"
    using assms(1) by (intro append_event_large) (simp add: wide_event_size [OF assms(3)] OUTPUT_EVENT_BYTES_MAX_def)
  moreover have "decode_message loads line = Inr ?e" using assms(4-6) by (simp add: decode_message_def get)
  moreover have "ascii ''terminal_data'' \<noteq> ascii ''init_status''" by (simp add: ascii_def)
  ultimately show ?thesis using assms(4) split by (simp add: read_output_line_def get)
qed

subsection \<open>Concrete instances\<close>

definition sample_terminal_journal :: terminal_journal where
  "sample_terminal_journal = \<lparr> tj_next = 0, tj_idle_seconds = 600, tj_scrollback_lines = 1000, tj_channels = [],
     tj_starting_by_user = [], tj_starting_by_owner = [], tj_closing = False \<rparr>"

definition sample_channel :: terminal_channel where
  "sample_channel = \<lparr> tc_ref = 0, tc_id = ''t'', tc_user_id = ''u'', tc_workspace_id = ''w'', tc_owner_id = None, tc_attach_options = JNull,
     tc_events = [(4, data_event [104, 105], 36), (5, data_event [33], 35)], tc_next_sequence = 6, tc_event_bytes = 71, tc_closed = False, tc_activity = 0 \<rparr>"

definition sample_system :: terminal_system where
  "sample_system = \<lparr> ts_journal = sample_terminal_journal\<lparr>tj_next := 1, tj_channels := [(''t'', sample_channel)], tj_starting_by_user := [(''u'', 1)],
       tj_starting_by_owner := [(''u'', ''o'')]\<rparr>,
     ts_reserved = [], ts_unreleased = [''u''], ts_owned = [(''u'', ''o'')] \<rparr>"

lemma sample_system_reach: "reach terminal_init terminal_step sample_system"
proof -
  let ?s0 = "\<lparr> ts_journal = sample_terminal_journal, ts_reserved = [], ts_unreleased = [], ts_owned = [] \<rparr>"
  let ?j = "sample_terminal_journal\<lparr>tj_starting_by_owner := [(''u'', ''o'')]\<rparr>" and ?j' = "sample_terminal_journal\<lparr>tj_starting_by_owner := [(''u'', ''o'')], tj_starting_by_user := [(''u'', 1)]\<rparr>"
  let ?s1 = "\<lparr> ts_journal = ?j, ts_reserved = [], ts_unreleased = [], ts_owned = [(''u'', ''o'')] \<rparr>"
  let ?s2 = "\<lparr> ts_journal = ?j', ts_reserved = [(''u'', None)], ts_unreleased = [], ts_owned = [(''u'', ''o'')] \<rparr>"
  have "new_terminal_journal 1000 600 = Inr sample_terminal_journal" by (simp add: new_terminal_journal_def sample_terminal_journal_def)
  then have "reach terminal_init terminal_step ?s0" by (intro reach.reach_init) (auto simp: terminal_init_def)
  then have "reach terminal_init terminal_step ?s1"
    by (rule reach.reach_step) (use terminal_step.claim [of "(''u'', ''o'')" ?s0 ?j] in \<open>simp add: claim_owner_start_def sample_terminal_journal_def\<close>)
  then have "reach terminal_init terminal_step ?s2"
    by (rule reach.reach_step)
       (use terminal_step.reserve [of "''u''" "Some ''o''" ?s1] in \<open>simp add: reserve_start_def sample_terminal_journal_def TERMINALS_PER_USER_MAX_def Let_def\<close>)
  moreover have "terminal_step ?s2 sample_system"
    using terminal_step.commit [of "''u''" None ?s2 sample_channel]
    by (simp add: commit_start_def sample_terminal_journal_def sample_channel_def sample_system_def)
  ultimately show ?thesis by (rule reach.reach_step)
qed

lemma sample_dumps: "length (dumps True (data_event [104, 105])) = 36" "length (dumps True (data_event [33])) = 35"
  by (simp_all add: data_event_def ascii_def dumps_string_def escape_char_def)

lemma sample_channel_ok: "channel_ok sample_channel"
  by (simp add: channel_ok_def sample_channel_def sample_dumps OUTPUT_BUFFER_BYTES_MAX_def OUTPUT_EVENT_COUNT_MAX_def
      OUTPUT_EVENT_BYTES_MAX_def upt_rec [of _ 6])

theorem terminal_pages_complete_witness:
  "drain read_page 2 sample_channel 4 = Inr ([data_event [104, 105], data_event [33]], 6)"
  using terminal_pages_complete [OF sample_channel_ok, of 4 2] by (simp add: earliest_sequence_def sample_channel_def)

theorem terminal_page_bounded_witness:
  "\<exists>evs. read_page sample_channel 5 = Inr (evs, 6) \<and> length evs \<le> 100"
  using terminal_page_bounded [OF sample_channel_ok, of 5 "[data_event [33]]" 6]
  by (simp add: read_page_def earliest_sequence_def sample_channel_def EVENT_BATCH_COUNT_MAX_def EVENT_BATCH_BYTES_MAX_def)

theorem append_event_bounded_witness:
  "fst (append_event (data_event [33]) 1 sample_channel) = Inr ()"
  using append_event_bounded [OF sample_channel_ok, of "data_event [33]" 1] by (auto simp: sample_dumps)

theorem split_terminal_data_lossless_witness:
  "\<exists>evs. split_terminal_data [104, 105] = Inr evs \<and> concat (map event_data evs) = [104, 105]"
  using split_terminal_data_lossless [of "[104, 105]" "[data_event [104, 105]]"] by (simp add: split_terminal_data_def utf8_len_def)

theorem terminal_limit_witness:
  "length (dvalues (tj_channels (ts_journal sample_system))) = 1
   \<and> fst (release_start_state ''u'' True (Some (''u'', ''o'')) (ts_journal sample_system)) = Inr ()"
  using terminal_limit [OF sample_system_reach, of "''u''" "''o''"] by (simp add: sample_system_def)

theorem wide_output_disconnects_witness:
  "fst (read_output_line (\<lambda>l. Some (JObj [(ascii ''id'', JStr (ascii ''w'')), (ascii ''type'', JStr (ascii ''terminal_data'')), (ascii ''data'', JStr (replicate 4000 20013))]))
     [0] 0 sample_channel) = False"
  using wide_output_disconnects [of "replicate 4000 20013" "[0]" "\<lambda>l. Some (JObj [(ascii ''id'', JStr (ascii ''w'')), (ascii ''type'', JStr (ascii ''terminal_data'')), (ascii ''data'', JStr (replicate 4000 20013))])"
      "ascii ''w''" 0 sample_channel] by (simp add: three_bytes_def)

end
