(* ===== verification/Prompt_Journal.thy ===== *)
theory Prompt_Journal
  imports Json_Text Event_Page
begin

section \<open>The prompt journal\<close>

text \<open>
  Model of \<^verbatim>\<open>services/prompt_journal.py\<close>: prompt runs of a session with a durable, ordered event log.
  The tables \<^verbatim>\<open>prompt_runs\<close>, \<^verbatim>\<open>prompt_events\<close>, \<^verbatim>\<open>sessions\<close> and \<^verbatim>\<open>messages\<close> are lists of rows in rowid
  order with the columns the journal uses; \<open>insert_run\<close> and \<open>insert_event\<close> fail where a primary key, a unique
  constraint or the partial unique index on active runs of \<^verbatim>\<open>tenant.py\<close> is violated, which is
  \<^verbatim>\<open>sqlite3.IntegrityError\<close>.

  What runs inside one write transaction is one function. Where the code reads first and writes later
  without holding the write lock, the read and the write are two functions, so that other writers can
  come between. \<open>loads\<close> is \<^verbatim>\<open>json.loads\<close>. The executor is represented by the events it yields and the way it ends,
  the admission guard by the error it raises on a database, the terminal observer by what it is told.
\<close>

datatype prompt_status = Starting | Running | Stopping | Completed | Failed | Cancelled | Interrupted

datatype prompt_error =
    PromptRunNotFoundError string
  | PromptRunConflictError string
  | PromptRunStoppingError string
  | PromptValueError string
  | PromptRuntimeError string
  | PromptTypeError string
  | PromptIntegrityError
  | AdmissionError string
  | SqliteError "int option" string

definition EVENT_BYTES_MAX :: nat where "EVENT_BYTES_MAX = 1048576"
definition PAGE_BYTES_MAX :: nat where "PAGE_BYTES_MAX = 48000"
definition EVENT_COUNT_MAX :: nat where "EVENT_COUNT_MAX = 100000"
definition PAGE_COUNT_MAX :: nat where "PAGE_COUNT_MAX = 100"
definition ACTIVE_STATUSES :: "prompt_status set" where "ACTIVE_STATUSES = {Starting, Running, Stopping}"
definition TERMINAL_STATUSES :: "prompt_status set" where "TERMINAL_STATUSES = {Completed, Failed, Cancelled, Interrupted}"
definition TERMINAL_STATUS_ATTEMPTS :: nat where "TERMINAL_STATUS_ATTEMPTS = 3"

definition terminal_event_final_status :: "utext \<Rightarrow> prompt_status option" where
  "terminal_event_final_status t =
     (if t = ascii ''result'' then Some Completed
      else if t = ascii ''cancelled'' then Some Cancelled
      else if t = ascii ''error'' then Some Failed else None)"

record prompt_row =
  pr_id :: string
  pr_session_id :: string
  pr_key :: string
  pr_status :: prompt_status

record prompt_run =
  run_id :: string
  run_session_id :: string
  run_status :: prompt_status

record prompt_event_row =
  pe_run_id :: string
  pe_sequence :: nat
  pe_json :: utext

record prompt_event_batch =
  peb_run_id :: string
  peb_status :: prompt_status
  peb_events :: "json list"
  peb_next_sequence :: nat

record prompt_db =
  db_runs :: "prompt_row list"
  db_events :: "prompt_event_row list"
  db_sessions :: "(string \<times> string) list"
  db_messages :: "(string \<times> string \<times> string option) list"

subsection \<open>The tables\<close>

definition active_index_free :: "string \<Rightarrow> prompt_row list \<Rightarrow> bool" where
  "active_index_free session_id runs = list_all (\<lambda>r. \<not> (pr_session_id r = session_id \<and> pr_status r \<in> ACTIVE_STATUSES)) runs"

definition insert_run :: "prompt_row \<Rightarrow> prompt_db \<Rightarrow> prompt_db option" where
  "insert_run row db =
     (if list_all (\<lambda>r. pr_id r \<noteq> pr_id row \<and> (pr_session_id r, pr_key r) \<noteq> (pr_session_id row, pr_key row)) (db_runs db)
         \<and> (pr_status row \<in> ACTIVE_STATUSES \<longrightarrow> active_index_free (pr_session_id row) (db_runs db))
         \<and> pr_session_id row \<in> fst ` set (db_sessions db)
      then Some (db\<lparr>db_runs := db_runs db @ [row]\<rparr>) else None)"

definition insert_event :: "prompt_event_row \<Rightarrow> prompt_db \<Rightarrow> prompt_db option" where
  "insert_event row db =
     (if list_all (\<lambda>r. (pe_run_id r, pe_sequence r) \<noteq> (pe_run_id row, pe_sequence row)) (db_events db)
         \<and> pe_run_id row \<in> pr_id ` set (db_runs db)
      then Some (db\<lparr>db_events := db_events db @ [row]\<rparr>) else None)"

text \<open>\<^verbatim>\<open>UPDATE prompt_runs SET status = s WHERE id = i AND status IN expected\<close>, with its row count.\<close>

definition update_status :: "string \<Rightarrow> prompt_status set \<Rightarrow> prompt_status \<Rightarrow> prompt_db \<Rightarrow> nat \<times> prompt_db" where
  "update_status i expected s db =
     (let hit = (\<lambda>r. pr_id r = i \<and> pr_status r \<in> expected) in
      (length (filter hit (db_runs db)),
       db\<lparr>db_runs := map (\<lambda>r. if hit r then r\<lparr>pr_status := s\<rparr> else r) (db_runs db)\<rparr>))"

text \<open>The \<^verbatim>\<open>turn_id\<close> of the last user message of a session; a missing row or value is NULL.\<close>

definition latest_user_turn :: "string \<Rightarrow> prompt_db \<Rightarrow> string option" where
  "latest_user_turn session_id db =
     (case rev (filter (\<lambda>(s, role, turn). s = session_id \<and> role = ''user'') (db_messages db)) of
        [] \<Rightarrow> None
      | (_, _, turn) # _ \<Rightarrow> turn)"

text \<open>The session is set idle if it is running and the run owns its latest turn, or \<open>reset\<close> is set.\<close>

definition release_session :: "bool \<Rightarrow> string \<Rightarrow> string \<Rightarrow> prompt_db \<Rightarrow> prompt_db" where
  "release_session reset session_id rid db =
     db\<lparr>db_sessions := map (\<lambda>(s, st).
          if s = session_id \<and> st = ''running'' \<and> (reset \<or> latest_user_turn session_id db = Some rid) then (s, ''idle'') else (s, st))
        (db_sessions db)\<rparr>"

text \<open>
  A session goes when its workspace or repository is deleted (\<^verbatim>\<open>DELETE FROM workspaces\<close>, \<^verbatim>\<open>DELETE FROM repos\<close>), and the
  schema's \<^verbatim>\<open>ON DELETE CASCADE\<close> takes its messages, its runs and the events of those runs in the same transaction.
\<close>

definition delete_sessions :: "string list \<Rightarrow> prompt_db \<Rightarrow> prompt_db" where
  "delete_sessions gone db =
     (let runs = map pr_id (filter (\<lambda>r. pr_session_id r \<in> set gone) (db_runs db)) in
      db\<lparr>db_sessions := filter (\<lambda>(s, st). s \<notin> set gone) (db_sessions db),
        db_messages := filter (\<lambda>(s, role, turn). s \<notin> set gone) (db_messages db),
        db_runs := filter (\<lambda>r. pr_session_id r \<notin> set gone) (db_runs db),
        db_events := filter (\<lambda>e. pe_run_id e \<notin> set runs) (db_events db)\<rparr>)"

definition find_run :: "string \<Rightarrow> prompt_db \<Rightarrow> prompt_row option" where
  "find_run i db = find (\<lambda>r. pr_id r = i) (db_runs db)"

definition run_events :: "string \<Rightarrow> prompt_db \<Rightarrow> prompt_event_row list" where
  "run_events i db = sort_key pe_sequence (filter (\<lambda>e. pe_run_id e = i) (db_events db))"

definition next_event_sequence :: "string \<Rightarrow> prompt_db \<Rightarrow> nat" where
  "next_event_sequence i db = (case rev (run_events i db) of [] \<Rightarrow> 0 | e # _ \<Rightarrow> pe_sequence e + 1)"

subsection \<open>Validators\<close>

definition validate_run_resource_id :: "string \<Rightarrow> string \<Rightarrow> prompt_error + unit" where
  "validate_run_resource_id value name =
     rbind (raise_if (length value \<noteq> 32) (PromptValueError (name @ '' must contain exactly 32 characters''))) (\<lambda>_.
     raise_if (\<not> is_lower_hex value) (PromptValueError (name @ '' must be lowercase hexadecimal'')))"

definition validate_idempotency_key :: "string \<Rightarrow> prompt_error + unit" where
  "validate_idempotency_key value =
     (case uuid_value value of
        None \<Rightarrow> Inl (PromptValueError ''idempotency_key must be a UUID'')
      | Some v \<Rightarrow> raise_if (uuid_str v \<noteq> value) (PromptValueError ''idempotency_key must be canonical''))"

definition row_to_run :: "prompt_row \<Rightarrow> prompt_error + prompt_run" where
  "row_to_run row =
     rbind (raise_if (length (pr_id row) \<noteq> 32 \<or> pr_status row \<notin> ACTIVE_STATUSES \<union> TERMINAL_STATUSES)
              (PromptRuntimeError ''prompt run row is invalid'')) (\<lambda>_.
     Inr \<lparr> run_id = pr_id row, run_session_id = pr_session_id row, run_status = pr_status row \<rparr>)"

subsection \<open>Recovery\<close>

fun derive_from_rows :: "(utext \<Rightarrow> json option) \<Rightarrow> prompt_event_row list \<Rightarrow> prompt_status option" where
  "derive_from_rows loads [] = None"
| "derive_from_rows loads (row # rows) =
     (case loads (pe_json row) of
        Some (JObj kvs) \<Rightarrow>
          (case jget (JObj kvs) ''type'' of
             Some (JStr t) \<Rightarrow>
               (case terminal_event_final_status t of
                  Some s \<Rightarrow> Some s
                | None \<Rightarrow> derive_from_rows loads rows)
           | _ \<Rightarrow> derive_from_rows loads rows)
      | _ \<Rightarrow> derive_from_rows loads rows)"

definition derive_terminal_status_from_events :: "(utext \<Rightarrow> json option) \<Rightarrow> string \<Rightarrow> prompt_db \<Rightarrow> prompt_status option" where
  "derive_terminal_status_from_events loads i db = derive_from_rows loads (rev (run_events i db))"

definition interrupted_event :: json where
  "interrupted_event = JObj [(ascii ''type'', JStr (ascii ''error'')), (ascii ''error'', JStr (ascii ''Prompt run was interrupted''))]"

text \<open>One iteration of the loop over the active rows, all inside one transaction.\<close>

definition recover_row ::
  "(utext \<Rightarrow> json option) \<Rightarrow> bool \<Rightarrow> prompt_row \<Rightarrow> prompt_db \<Rightarrow> prompt_error + (prompt_run \<times> prompt_db)" where
  "recover_row loads reset_sessions row db =
     (let derived = derive_terminal_status_from_events loads (pr_id row) db;
          sequence = next_event_sequence (pr_id row) db;
          status = (case derived of
                      None \<Rightarrow> Interrupted
                    | Some s \<Rightarrow> if pr_status row = Stopping then Cancelled else s);
          journaled = (if derived = None \<and> sequence < EVENT_COUNT_MAX
                       then insert_event \<lparr> pe_run_id = pr_id row, pe_sequence = sequence, pe_json = dumps True interrupted_event \<rparr> db
                       else Some db)
      in case journaled of
           None \<Rightarrow> Inl PromptIntegrityError
         | Some db1 \<Rightarrow>
             let db2 = release_session reset_sessions (pr_session_id row) (pr_id row) db1;
                 db3 = snd (update_status (pr_id row) ACTIVE_STATUSES status db2)
             in Inr (\<lparr> run_id = pr_id row, run_session_id = pr_session_id row, run_status = status \<rparr>, db3))"

fun recover_rows ::
  "(utext \<Rightarrow> json option) \<Rightarrow> bool \<Rightarrow> prompt_row list \<Rightarrow> prompt_db \<Rightarrow> prompt_error + (prompt_run list \<times> prompt_db)" where
  "recover_rows loads reset_sessions [] db = Inr ([], db)"
| "recover_rows loads reset_sessions (row # rows) db =
     rbind (recover_row loads reset_sessions row db) (\<lambda>(run, db1).
     rbind (recover_rows loads reset_sessions rows db1) (\<lambda>(runs, db2). Inr (run # runs, db2)))"

text \<open>An exception rolls everything back.\<close>

definition recover_prompt_database ::
  "(utext \<Rightarrow> json option) \<Rightarrow> bool \<Rightarrow> prompt_db \<Rightarrow> (prompt_error + prompt_run list) \<times> prompt_db" where
  "recover_prompt_database loads reset_sessions db =
     (case recover_rows loads reset_sessions (filter (\<lambda>r. pr_status r \<in> ACTIVE_STATUSES) (db_runs db)) db of
        Inl e \<Rightarrow> (Inl e, db)
      | Inr (recovered, db') \<Rightarrow> (Inr recovered, db'))"

subsection \<open>Creating a run\<close>

definition find_by_key :: "string \<Rightarrow> string \<Rightarrow> prompt_db \<Rightarrow> prompt_row option" where
  "find_by_key session_id key db = find (\<lambda>r. pr_session_id r = session_id \<and> pr_key r = key) (db_runs db)"

definition find_active :: "string \<Rightarrow> prompt_db \<Rightarrow> prompt_row option" where
  "find_active session_id db = find (\<lambda>r. pr_session_id r = session_id \<and> pr_status r \<in> ACTIVE_STATUSES) (db_runs db)"

definition existing_run :: "string \<Rightarrow> prompt_row \<Rightarrow> prompt_error + (prompt_run \<times> bool)" where
  "existing_run new_id row = rbind (row_to_run row) (\<lambda>run. Inr (run, run_id run = new_id))"

text \<open>Before the write lock: \<open>None\<close> lets the insertion begin.\<close>

definition create_run_probe :: "string \<Rightarrow> string \<Rightarrow> string \<Rightarrow> prompt_db \<Rightarrow> (prompt_error + (prompt_run \<times> bool)) option" where
  "create_run_probe new_id session_id key db =
     (case find_by_key session_id key db of
        Some row \<Rightarrow> Some (existing_run new_id row)
      | None \<Rightarrow>
          if session_id \<notin> fst ` set (db_sessions db) then Some (Inl (PromptRunNotFoundError ''session not found'')) else None)"

text \<open>The transaction; an \<^verbatim>\<open>IntegrityError\<close> is answered by \<open>create_run_resolve\<close> after the rollback.\<close>

definition create_run_commit ::
  "string \<Rightarrow> string \<Rightarrow> string \<Rightarrow> (prompt_db \<Rightarrow> prompt_error option) option \<Rightarrow> prompt_db
     \<Rightarrow> (prompt_error + (prompt_run \<times> bool)) \<times> prompt_db" where
  "create_run_commit new_id session_id key guard db =
     (case find_by_key session_id key db of
        Some row \<Rightarrow> (existing_run new_id row, db)
      | None \<Rightarrow>
          (case (case guard of None \<Rightarrow> None | Some g \<Rightarrow> g db) of
             Some e \<Rightarrow> (Inl e, db)
           | None \<Rightarrow>
               (case insert_run \<lparr> pr_id = new_id, pr_session_id = session_id, pr_key = key, pr_status = Starting \<rparr> db of
                  None \<Rightarrow> (Inl PromptIntegrityError, db)
                | Some db' \<Rightarrow> (Inr (\<lparr> run_id = new_id, run_session_id = session_id, run_status = Starting \<rparr>, True), db'))))"

definition create_run_resolve :: "string \<Rightarrow> string \<Rightarrow> string \<Rightarrow> prompt_db \<Rightarrow> prompt_error + (prompt_run \<times> bool)" where
  "create_run_resolve new_id session_id key db =
     (case find_by_key session_id key db of
        Some row \<Rightarrow> existing_run new_id row
      | None \<Rightarrow>
          if find_active session_id db \<noteq> None
          then Inl (PromptRunConflictError ''session already has an active prompt run'')
          else Inl PromptIntegrityError)"

text \<open>The whole operation when no other writer comes between.\<close>

definition create_run ::
  "string \<Rightarrow> string \<Rightarrow> string \<Rightarrow> (prompt_db \<Rightarrow> prompt_error option) option \<Rightarrow> prompt_db
     \<Rightarrow> (prompt_error + (prompt_run \<times> bool)) \<times> prompt_db" where
  "create_run new_id session_id key guard db =
     (case create_run_probe new_id session_id key db of
        Some r \<Rightarrow> (r, db)
      | None \<Rightarrow>
          (case create_run_commit new_id session_id key guard db of
             (Inl PromptIntegrityError, db') \<Rightarrow> (create_run_resolve new_id session_id key db', db')
           | res \<Rightarrow> res))"

text \<open>Whether \<^verbatim>\<open>_start_serialized\<close> starts a task for the run it obtained.\<close>

definition should_start :: "prompt_run \<Rightarrow> bool \<Rightarrow> string list \<Rightarrow> bool" where
  "should_start run created tasks \<longleftrightarrow> created \<or> (run_status run = Starting \<and> run_id run \<notin> set tasks)"

definition read_active :: "string \<Rightarrow> prompt_db \<Rightarrow> prompt_error + prompt_run option" where
  "read_active session_id db =
     (case find_active session_id db of
        None \<Rightarrow> Inr None
      | Some row \<Rightarrow> rbind (row_to_run row) (\<lambda>run. Inr (Some run)))"

definition load_run :: "string \<Rightarrow> string \<Rightarrow> prompt_db \<Rightarrow> prompt_error + prompt_run" where
  "load_run session_id i db =
     (case find (\<lambda>r. pr_id r = i \<and> pr_session_id r = session_id) (db_runs db) of
        None \<Rightarrow> Inl (PromptRunNotFoundError ''prompt run not found'')
      | Some row \<Rightarrow> row_to_run row)"

subsection \<open>Reading events\<close>

fun page_rows :: "(utext \<Rightarrow> json option) \<Rightarrow> prompt_event_row list \<Rightarrow> json list \<Rightarrow> nat \<Rightarrow> nat \<Rightarrow> prompt_error + (json list \<times> nat)" where
  "page_rows loads [] evs cursor event_bytes = Inr (evs, cursor)"
| "page_rows loads (row # rows) evs cursor event_bytes =
     (if pe_sequence row \<noteq> cursor then Inl (PromptRuntimeError ''prompt journal sequence is not contiguous'')
      else case utf8_length (pe_json row) of
             None \<Rightarrow> Inl (PromptValueError ''surrogates not allowed'')
           | Some serialized_bytes \<Rightarrow>
               if evs \<noteq> [] \<and> event_bytes + serialized_bytes > PAGE_BYTES_MAX then Inr (evs, cursor)
               else case loads (pe_json row) of
                      None \<Rightarrow> Inl (PromptValueError ''invalid JSON'')
                    | Some (JObj kvs) \<Rightarrow> page_rows loads rows (evs @ [JObj kvs]) (cursor + 1) (event_bytes + serialized_bytes)
                    | Some _ \<Rightarrow> Inl (PromptRuntimeError ''prompt journal event is not an object''))"

definition read_events ::
  "(utext \<Rightarrow> json option) \<Rightarrow> string \<Rightarrow> string \<Rightarrow> nat \<Rightarrow> prompt_db \<Rightarrow> prompt_error + prompt_event_batch" where
  "read_events loads session_id i next_sequence db =
     (case find (\<lambda>r. pr_id r = i \<and> pr_session_id r = session_id) (db_runs db) of
        None \<Rightarrow> Inl (PromptRunNotFoundError ''prompt run not found'')
      | Some run \<Rightarrow>
          rbind (page_rows loads (take PAGE_COUNT_MAX (filter (\<lambda>e. pe_sequence e \<ge> next_sequence) (run_events i db))) [] next_sequence 0)
            (\<lambda>(evs, cursor). Inr \<lparr> peb_run_id = i, peb_status = pr_status run, peb_events = evs, peb_next_sequence = cursor \<rparr>))"

subsection \<open>Stopping a run\<close>

text \<open>The read of \<^verbatim>\<open>request_stop\<close>: either the answer, or the run whose stop has to be written.\<close>

definition request_stop_read :: "string \<Rightarrow> string \<Rightarrow> prompt_db \<Rightarrow> prompt_error + (prompt_run \<times> bool option)" where
  "request_stop_read session_id i db =
     rbind (load_run session_id i db) (\<lambda>run.
     if run_status run \<in> TERMINAL_STATUSES then Inr (run, Some False)
     else if run_status run = Stopping then Inr (run, Some True)
     else if run_status run \<notin> ACTIVE_STATUSES then Inl (PromptRuntimeError ''prompt run has an invalid status'')
     else Inr (run, None))"

definition request_stop_write :: "prompt_run \<Rightarrow> string \<Rightarrow> prompt_db \<Rightarrow> (prompt_error + (prompt_run \<times> bool)) \<times> prompt_db" where
  "request_stop_write run session_id db =
     (case update_status (run_id run) {Starting, Running} Stopping db of
        (rowcount, db') \<Rightarrow>
          if rowcount = 1 then (Inr (run\<lparr>run_status := Stopping\<rparr>, True), db')
          else
            (rbind (load_run session_id (run_id run) db) (\<lambda>reconciled.
               if run_status reconciled \<in> TERMINAL_STATUSES then Inr (reconciled, False)
               else if run_status reconciled = Stopping then Inr (reconciled, True)
               else Inl (PromptRuntimeError ''prompt cancellation transition was rejected'')), db))"

definition request_stop :: "string \<Rightarrow> string \<Rightarrow> prompt_db \<Rightarrow> (prompt_error + (prompt_run \<times> bool)) \<times> prompt_db" where
  "request_stop session_id i db =
     (case request_stop_read session_id i db of
        Inl e \<Rightarrow> (Inl e, db)
      | Inr (run, Some should_cancel) \<Rightarrow> (Inr (run, should_cancel), db)
      | Inr (run, None) \<Rightarrow> request_stop_write run session_id db)"

subsection \<open>Appending events\<close>

datatype append_result = Appended | Skipped

text \<open>
  The transaction \<^verbatim>\<open>append\<close>. \<open>intended\<close> is the \<^verbatim>\<open>nonlocal\<close> sequence number that survives a retry of the transaction.
\<close>

definition append_attempt ::
  "string \<Rightarrow> utext \<Rightarrow> bool \<Rightarrow> bool \<Rightarrow> nat option \<Rightarrow> prompt_db \<Rightarrow> (prompt_error + append_result) \<times> nat option \<times> prompt_db" where
  "append_attempt i serialized unless_terminal deduplicate intended db =
     (case find_run i db of
        None \<Rightarrow> (Inl (PromptRunNotFoundError ''prompt run not found''), intended, db)
      | Some run \<Rightarrow>
          if unless_terminal \<and> (pr_status run \<in> TERMINAL_STATUSES \<or> pr_status run = Stopping) then (Inr Skipped, intended, db)
          else if deduplicate \<and> serialized \<in> pe_json ` set (run_events i db) then (Inr Skipped, intended, db)
          else
            let sequence = (case intended of Some n \<Rightarrow> n | None \<Rightarrow> next_event_sequence i db) in
            if sequence \<ge> EVENT_COUNT_MAX then
              (Inl (PromptRuntimeError ''prompt journal event count exceeded the limit''), Some sequence, db)
            else case find (\<lambda>e. pe_run_id e = i \<and> pe_sequence e = sequence) (db_events db) of
                   Some existing \<Rightarrow>
                     if pe_json existing \<noteq> serialized
                     then (Inl (PromptRuntimeError ''prompt journal sequence contains a different event''), Some sequence, db)
                     else (Inr Skipped, Some sequence, db)
                 | None \<Rightarrow>
                     (case insert_event \<lparr> pe_run_id = i, pe_sequence = sequence, pe_json = serialized \<rparr> db of
                        None \<Rightarrow> (Inl PromptIntegrityError, Some sequence, db)
                      | Some db' \<Rightarrow> (Inr Appended, Some sequence, db')))"

definition serialize_event :: "json \<Rightarrow> prompt_error + utext" where
  "serialize_event event =
     rbind (raise_if (case jget event ''type'' of Some (JStr _) \<Rightarrow> False | _ \<Rightarrow> True)
              (PromptValueError ''prompt journal event must have a string type'')) (\<lambda>_.
     case utf8_length (dumps True event) of
       None \<Rightarrow> Inl (PromptValueError ''surrogates not allowed'')
     | Some n \<Rightarrow> rbind (raise_if (n > EVENT_BYTES_MAX) (PromptValueError ''prompt journal event exceeds the byte limit''))
                   (\<lambda>_. Inr (dumps True event)))"

definition prompt_append_event :: "string \<Rightarrow> json \<Rightarrow> bool \<Rightarrow> bool \<Rightarrow> prompt_db \<Rightarrow> (prompt_error + append_result) \<times> prompt_db" where
  "prompt_append_event i event unless_terminal deduplicate db =
     (case serialize_event event of
        Inl e \<Rightarrow> (Inl e, db)
      | Inr serialized \<Rightarrow>
          (case append_attempt i serialized unless_terminal deduplicate None db of (r, _, db') \<Rightarrow> (r, db')))"

definition is_cancelled_event :: "json \<Rightarrow> bool" where
  "is_cancelled_event event = (jget event ''type'' = Some (JStr (ascii ''cancelled'')))"

definition append_terminal_event_safely :: "string \<Rightarrow> json \<Rightarrow> prompt_db \<Rightarrow> prompt_db" where
  "append_terminal_event_safely i event db = snd (prompt_append_event i event True (is_cancelled_event event) db)"

subsection \<open>Status transitions\<close>

definition set_status_read :: "string \<Rightarrow> prompt_status \<Rightarrow> prompt_db \<Rightarrow> prompt_error + bool" where
  "set_status_read i status db =
     (case find_run i db of
        Some row \<Rightarrow>
          if pr_status row = status then Inr False
          else if status = Running \<and> pr_status row = Stopping
          then Inl (PromptRunStoppingError ''prompt cancellation won before startup'')
          else Inr True
      | None \<Rightarrow> Inr True)"

definition set_status_write :: "string \<Rightarrow> prompt_status \<Rightarrow> prompt_status set \<Rightarrow> prompt_db \<Rightarrow> (prompt_error + unit) \<times> prompt_db" where
  "set_status_write i status expected db =
     (case update_status i expected status db of
        (rowcount, db') \<Rightarrow>
          (raise_if (rowcount \<noteq> 1) (PromptRuntimeError ''prompt run status transition was rejected''), db'))"

definition set_status :: "string \<Rightarrow> prompt_status \<Rightarrow> prompt_status set \<Rightarrow> prompt_db \<Rightarrow> (prompt_error + unit) \<times> prompt_db" where
  "set_status i status expected db =
     (case set_status_read i status db of
        Inl e \<Rightarrow> (Inl e, db)
      | Inr False \<Rightarrow> (Inr (), db)
      | Inr True \<Rightarrow> set_status_write i status expected db)"

text \<open>
  \<^verbatim>\<open>_set_terminal_status\<close> reads the row, and then updates under the status it read. The result is what the observer is told:
  the session and the effective status.
\<close>

definition set_terminal_read :: "string \<Rightarrow> prompt_db \<Rightarrow> prompt_error + (string \<times> prompt_status)" where
  "set_terminal_read i db =
     (case find_run i db of
        None \<Rightarrow> Inl (PromptRunNotFoundError ''prompt run not found'')
      | Some row \<Rightarrow> Inr (pr_session_id row, pr_status row))"

definition set_terminal_write ::
  "string \<Rightarrow> prompt_status \<Rightarrow> string \<times> prompt_status \<Rightarrow> prompt_db \<Rightarrow> (prompt_error + (string \<times> prompt_status)) \<times> prompt_db" where
  "set_terminal_write i status seen db =
     (case seen of (session_id, seen_status) \<Rightarrow>
      if seen_status \<in> TERMINAL_STATUSES then (Inr (session_id, seen_status), db)
      else
        let effective_status = (if seen_status = Stopping then Cancelled else status) in
        case update_status i ACTIVE_STATUSES effective_status db of
          (rowcount, db') \<Rightarrow>
            if rowcount \<noteq> 1 then
              (case find_run i db of
                 Some current \<Rightarrow>
                   if pr_status current \<in> TERMINAL_STATUSES then Inr (session_id, pr_status current)
                   else Inl (PromptRuntimeError ''prompt terminal status transition was rejected'')
               | None \<Rightarrow> Inl (PromptRuntimeError ''prompt terminal status transition was rejected''), db)
            else (Inr (session_id, effective_status), release_session False session_id i db'))"

definition set_terminal_status ::
  "string \<Rightarrow> prompt_status \<Rightarrow> prompt_db \<Rightarrow> (prompt_error + (string \<times> prompt_status)) \<times> prompt_db" where
  "set_terminal_status i status db =
     (if status \<notin> TERMINAL_STATUSES then (Inl (PromptValueError ''prompt terminal status is invalid''), db)
      else case set_terminal_read i db of
             Inl e \<Rightarrow> (Inl e, db)
           | Inr seen \<Rightarrow> set_terminal_write i status seen db)"

definition is_sqlite_busy :: "prompt_error \<Rightarrow> bool" where
  "is_sqlite_busy e =
     (case e of
        SqliteError code message \<Rightarrow>
          (case code of Some c \<Rightarrow> c mod 256 \<in> {5, 6} | None \<Rightarrow> False)
          \<or> message = ''database is locked'' \<or> message = ''database table is locked''
      | _ \<Rightarrow> False)"

text \<open>
  \<^verbatim>\<open>_persist_terminal_status\<close>: \<open>faults\<close> holds, per attempt, the error that SQLite raises instead of running the operation.
\<close>

fun persist_terminal_status ::
  "nat \<Rightarrow> prompt_error option list \<Rightarrow> string \<Rightarrow> prompt_status \<Rightarrow> prompt_db \<Rightarrow> (prompt_error + (string \<times> prompt_status)) \<times> prompt_db" where
  "persist_terminal_status attempt (Some fault # faults) i status db =
     (if \<not> is_sqlite_busy fault \<or> attempt + 1 \<ge> TERMINAL_STATUS_ATTEMPTS then (Inl fault, db)
      else persist_terminal_status (attempt + 1) faults i status db)"
| "persist_terminal_status attempt (None # faults) i status db = set_terminal_status i status db"
| "persist_terminal_status attempt [] i status db = set_terminal_status i status db"

subsection \<open>Running a prompt\<close>

text \<open>How the executor of \<^verbatim>\<open>_consume\<close> ends: exhausted, with an exception, or because the task was cancelled.\<close>

datatype executor_end = Exhausted | Raised | TaskCancelled

definition execution_failed_event :: json where
  "execution_failed_event = JObj [(ascii ''type'', JStr (ascii ''error'')), (ascii ''error'', JStr (ascii ''Prompt execution failed''))]"

definition user_stop_event :: json where
  "user_stop_event = JObj [(ascii ''type'', JStr (ascii ''cancelled'')), (ascii ''reason'', JStr (ascii ''user_stop''))]"

definition final_status_after :: "prompt_status \<Rightarrow> json \<Rightarrow> prompt_status" where
  "final_status_after final_status event =
     (if is_cancelled_event event then Cancelled
      else if jget event ''type'' = Some (JStr (ascii ''error'')) then Failed else final_status)"

text \<open>The loop over the executor's events: the status so far and whether journaling an event failed.\<close>

fun consume_events :: "string \<Rightarrow> json list \<Rightarrow> prompt_status \<Rightarrow> prompt_db \<Rightarrow> (prompt_error + prompt_status) \<times> prompt_db" where
  "consume_events i [] final_status db = (Inr final_status, db)"
| "consume_events i (event # evs) final_status db =
     (case prompt_append_event i event False (is_cancelled_event event) db of
        (Inl e, db') \<Rightarrow> (Inl e, db')
      | (Inr _, db') \<Rightarrow> consume_events i evs (final_status_after final_status event) db')"

text \<open>The body of \<^verbatim>\<open>_consume\<close> up to its \<^verbatim>\<open>finally\<close>: the final status and the database.\<close>

definition consume_body :: "bool \<Rightarrow> string \<Rightarrow> json list \<Rightarrow> executor_end \<Rightarrow> prompt_db \<Rightarrow> prompt_status \<times> prompt_db" where
  "consume_body is_closing i evs ending db =
     (let failed = (\<lambda>d. (Failed, append_terminal_event_safely i execution_failed_event d)) in
      case set_status i Running {Starting} db of
        (Inl (PromptRunStoppingError m), db1) \<Rightarrow> (Cancelled, db1)
      | (Inl _, db1) \<Rightarrow> failed db1
      | (Inr _, db1) \<Rightarrow>
          (case consume_events i evs Completed db1 of
             (Inl e, db2) \<Rightarrow> failed db2
           | (Inr final_status, db2) \<Rightarrow>
               (case ending of
                  Exhausted \<Rightarrow> (final_status, db2)
                | Raised \<Rightarrow> failed db2
                | TaskCancelled \<Rightarrow>
                    if is_closing then (Interrupted, append_terminal_event_safely i interrupted_event db2)
                    else (Cancelled, append_terminal_event_safely i user_stop_event db2))))"

text \<open>The journal's own state: the databases recovered, the retained transitions, the closing flag.\<close>

record prompt_journal =
  pj_recovered :: "string list"
  pj_pending :: "(string, string \<times> prompt_status) pydict"
  pj_closing :: bool

definition remember_pending_terminal_status :: "string \<Rightarrow> string \<Rightarrow> prompt_status \<Rightarrow> prompt_journal \<Rightarrow> prompt_journal" where
  "remember_pending_terminal_status path i status j = j\<lparr>pj_pending := dset (pj_pending j) i (path, status)\<rparr>"

text \<open>The \<^verbatim>\<open>finally\<close> block of \<^verbatim>\<open>_consume\<close>.\<close>

definition consume_finally ::
  "string \<Rightarrow> string \<Rightarrow> prompt_status \<Rightarrow> prompt_error option list \<Rightarrow> prompt_journal \<times> prompt_db \<Rightarrow> prompt_journal \<times> prompt_db" where
  "consume_finally path i final_status faults s =
     (case s of (j, db) \<Rightarrow>
      case persist_terminal_status 0 faults i final_status db of
        (Inl e, db') \<Rightarrow> (remember_pending_terminal_status path i final_status j, db')
      | (Inr _, db') \<Rightarrow> (j, db'))"

definition consume ::
  "string \<Rightarrow> string \<Rightarrow> json list \<Rightarrow> executor_end \<Rightarrow> prompt_error option list \<Rightarrow> prompt_journal \<times> prompt_db \<Rightarrow> prompt_journal \<times> prompt_db" where
  "consume path i evs ending faults s =
     (case s of (j, db) \<Rightarrow>
      case consume_body (pj_closing j) i evs ending db of
        (final_status, db1) \<Rightarrow> consume_finally path i final_status faults (j, db1))"

definition reconcile_pending_terminal_status ::
  "string \<Rightarrow> string \<Rightarrow> prompt_error option list \<Rightarrow> prompt_journal \<times> prompt_db \<Rightarrow> (prompt_error + unit) \<times> prompt_journal \<times> prompt_db" where
  "reconcile_pending_terminal_status path i faults s =
     (case s of (j, db) \<Rightarrow>
      case dget (pj_pending j) i of
        None \<Rightarrow> (Inr (), j, db)
      | Some (p, status) \<Rightarrow>
          if p \<noteq> path then (Inr (), j, db)
          else case persist_terminal_status 0 faults i status db of
                 (Inl e, db') \<Rightarrow> (Inl e, j, db')
               | (Inr _, db') \<Rightarrow> (Inr (), j\<lparr>pj_pending := dpop (pj_pending j) i\<rparr>, db'))"

fun reconcile_runs ::
  "string \<Rightarrow> string list \<Rightarrow> prompt_journal \<times> prompt_db \<Rightarrow> (prompt_error + unit) \<times> prompt_journal \<times> prompt_db" where
  "reconcile_runs path [] s = (Inr (), s)"
| "reconcile_runs path (i # is) s =
     (case reconcile_pending_terminal_status path i [] s of
        (Inl e, s') \<Rightarrow> (Inl e, s')
      | (Inr _, s') \<Rightarrow> reconcile_runs path is s')"

definition reconcile_pending_for_database ::
  "string \<Rightarrow> prompt_journal \<times> prompt_db \<Rightarrow> (prompt_error + unit) \<times> prompt_journal \<times> prompt_db" where
  "reconcile_pending_for_database path s =
     reconcile_runs path (map fst (filter (\<lambda>(i, p, status). p = path) (pj_pending (fst s)))) s"

text \<open>
  \<^verbatim>\<open>_recover_database\<close>: once per database, then the terminal status of every recovered run is set again for the observer.
\<close>

fun notify_recovered :: "prompt_run list \<Rightarrow> prompt_db \<Rightarrow> (prompt_error + (string \<times> prompt_status) list) \<times> prompt_db" where
  "notify_recovered [] db = (Inr [], db)"
| "notify_recovered (run # runs) db =
     (case set_terminal_status (run_id run) (run_status run) db of
        (Inl e, db') \<Rightarrow> (Inl e, db')
      | (Inr told, db') \<Rightarrow>
          (case notify_recovered runs db' of
             (Inl e, db'') \<Rightarrow> (Inl e, db'')
           | (Inr rest, db'') \<Rightarrow> (Inr (told # rest), db'')))"

definition recover_database ::
  "(utext \<Rightarrow> json option) \<Rightarrow> string \<Rightarrow> prompt_journal \<times> prompt_db
     \<Rightarrow> (prompt_error + (string \<times> prompt_status) list) \<times> prompt_journal \<times> prompt_db" where
  "recover_database loads path s =
     (case s of (j, db) \<Rightarrow>
      if path \<in> set (pj_recovered j) then (Inr [], j, db)
      else case recover_prompt_database loads False db of
             (Inl e, db') \<Rightarrow> (Inl e, j, db')
           | (Inr recovered, db') \<Rightarrow>
               (case notify_recovered recovered db' of
                  (r, db'') \<Rightarrow> (r, j\<lparr>pj_recovered := path # pj_recovered j\<rparr>, db'')))"

text \<open>\<^verbatim>\<open>cancel\<close> when the run coordinator knows no run of the session: the task is gone, the journal ends the run itself.\<close>

definition cancel_absent :: "string \<Rightarrow> string \<Rightarrow> prompt_db \<Rightarrow> (prompt_error + prompt_run) \<times> prompt_db" where
  "cancel_absent session_id i db =
     (case request_stop session_id i db of
        (Inl e, db1) \<Rightarrow> (Inl e, db1)
      | (Inr (run, False), db1) \<Rightarrow> (Inr run, db1)
      | (Inr (run, True), db1) \<Rightarrow>
          (case prompt_append_event i user_stop_event False True db1 of
             (Inl e, db2) \<Rightarrow> (Inl e, db2)
           | (Inr _, db2) \<Rightarrow>
               (case set_terminal_status i Cancelled db2 of
                  (Inl e, db3) \<Rightarrow> (Inl e, db3)
                | (Inr _, db3) \<Rightarrow> (load_run session_id i db3, db3))))"

end
