(* ===== verification/Thread_Lifecycle.thy ===== *)
theory Thread_Lifecycle
  imports Prompt_Journal
begin

section \<open>Thread delegations\<close>

text \<open>
  Model of the delegation state machine: the policy of \<^verbatim>\<open>services/thread_lifecycle.py\<close> and the transactions
  of \<^verbatim>\<open>services/thread_orchestration.py\<close> and \<^verbatim>\<open>services/thread_reconciliation.py\<close> that write delegation rows,
  claim cancellations and check the ancestor barrier. A delegation is a row of \<^verbatim>\<open>thread_delegations\<close> with the columns
  these transactions use; prompt runs are those of the prompt journal. Authorization of a caller is an
  argument. Everything a transaction does is one function on the rows, because it runs under \<^verbatim>\<open>BEGIN IMMEDIATE\<close>.
\<close>

subsection \<open>Policy\<close>

definition DELEGATION_STATUS_PROVISIONING :: string where "DELEGATION_STATUS_PROVISIONING = ''provisioning''"
definition DELEGATION_STATUS_QUEUED :: string where "DELEGATION_STATUS_QUEUED = ''queued''"
definition DELEGATION_STATUS_RUNNING :: string where "DELEGATION_STATUS_RUNNING = ''running''"
definition DELEGATION_STATUS_CANCELLING :: string where "DELEGATION_STATUS_CANCELLING = ''cancelling''"
definition DELEGATION_STATUS_COMPLETED :: string where "DELEGATION_STATUS_COMPLETED = ''completed''"
definition DELEGATION_STATUS_FAILED :: string where "DELEGATION_STATUS_FAILED = ''failed''"
definition DELEGATION_STATUS_CANCELLED :: string where "DELEGATION_STATUS_CANCELLED = ''cancelled''"
definition DELEGATION_STATUS_INTERRUPTED :: string where "DELEGATION_STATUS_INTERRUPTED = ''interrupted''"

lemmas delegation_status_defs = DELEGATION_STATUS_PROVISIONING_def DELEGATION_STATUS_QUEUED_def DELEGATION_STATUS_RUNNING_def
  DELEGATION_STATUS_CANCELLING_def DELEGATION_STATUS_COMPLETED_def DELEGATION_STATUS_FAILED_def DELEGATION_STATUS_CANCELLED_def
  DELEGATION_STATUS_INTERRUPTED_def

definition TERMINAL_DELEGATION_STATUSES :: "string set" where
  "TERMINAL_DELEGATION_STATUSES =
     {DELEGATION_STATUS_COMPLETED, DELEGATION_STATUS_FAILED, DELEGATION_STATUS_CANCELLED, DELEGATION_STATUS_INTERRUPTED}"

definition is_terminal_delegation_status :: "string \<Rightarrow> bool" where
  "is_terminal_delegation_status status = (status \<in> TERMINAL_DELEGATION_STATUSES)"

definition allowed_transitions :: "(string, string set) pydict" where
  "allowed_transitions =
     [(DELEGATION_STATUS_PROVISIONING, {DELEGATION_STATUS_QUEUED, DELEGATION_STATUS_FAILED, DELEGATION_STATUS_CANCELLED}),
      (DELEGATION_STATUS_QUEUED, {DELEGATION_STATUS_RUNNING, DELEGATION_STATUS_FAILED, DELEGATION_STATUS_CANCELLED}),
      (DELEGATION_STATUS_RUNNING, {DELEGATION_STATUS_CANCELLING, DELEGATION_STATUS_COMPLETED, DELEGATION_STATUS_FAILED, DELEGATION_STATUS_INTERRUPTED}),
      (DELEGATION_STATUS_CANCELLING, {DELEGATION_STATUS_COMPLETED, DELEGATION_STATUS_FAILED, DELEGATION_STATUS_CANCELLED, DELEGATION_STATUS_INTERRUPTED})]"

definition can_transition :: "string \<Rightarrow> string \<Rightarrow> bool" where
  "can_transition current target = (target \<in> (case dget allowed_transitions current of None \<Rightarrow> {} | Some ts \<Rightarrow> ts))"

definition cancellation_targets :: "(string, string) pydict" where
  "cancellation_targets =
     [(DELEGATION_STATUS_PROVISIONING, DELEGATION_STATUS_CANCELLED), (DELEGATION_STATUS_QUEUED, DELEGATION_STATUS_CANCELLED),
      (DELEGATION_STATUS_RUNNING, DELEGATION_STATUS_CANCELLING), (DELEGATION_STATUS_CANCELLING, DELEGATION_STATUS_CANCELLING),
      (DELEGATION_STATUS_COMPLETED, DELEGATION_STATUS_COMPLETED), (DELEGATION_STATUS_FAILED, DELEGATION_STATUS_FAILED),
      (DELEGATION_STATUS_CANCELLED, DELEGATION_STATUS_CANCELLED), (DELEGATION_STATUS_INTERRUPTED, DELEGATION_STATUS_INTERRUPTED)]"

definition cancellation_target :: "string \<Rightarrow> py_error + string" where
  "cancellation_target status = (case dget cancellation_targets status of None \<Rightarrow> Inl (KeyErr status) | Some t \<Rightarrow> Inr t)"

text \<open>
  \<^verbatim>\<open>uuid.uuid5\<close>: the first sixteen bytes of the SHA-1 of namespace and name, with the variant and version bits
  set. \<open>sha1\<close> is \<^verbatim>\<open>hashlib.sha1\<close>.
\<close>

definition NAMESPACE_URL :: nat where "NAMESPACE_URL = 0x6ba7b8119dad11d180b400c04fd430c8"

definition uuid5_value :: "(bytes \<Rightarrow> bytes) \<Rightarrow> nat \<Rightarrow> string \<Rightarrow> nat" where
  "uuid5_value sha1 namespace name =
     (let v = uuid_of_bytes (take 16 (sha1 (uuid_bytes namespace @ map of_char name)));
          v1 = v - ((v div 2 ^ 62) mod 2 ^ 2) * 2 ^ 62 + 2 * 2 ^ 62
      in v1 - ((v1 div 2 ^ 76) mod 2 ^ 4) * 2 ^ 76 + 5 * 2 ^ 76)"

definition initial_run_idempotency_key :: "(bytes \<Rightarrow> bytes) \<Rightarrow> string \<Rightarrow> py_error + string" where
  "initial_run_idempotency_key sha1 delegation_id =
     (let normalized = map ascii_lower (str_strip delegation_id) in
      rbind (raise_if (length normalized \<noteq> 32 \<or> \<not> is_lower_hex normalized)
               (ValueErr ''delegation_id must be 32 lowercase hexadecimal characters'')) (\<lambda>_.
      Inr (uuid_str (uuid5_value sha1 NAMESPACE_URL (''yinshi:thread-initial-run:'' @ normalized)))))"

subsection \<open>Rows\<close>

datatype thread_error =
    ThreadNotFoundError string
  | ThreadCycleError string
  | ThreadTreeLimitError string
  | ThreadCancelPendingError string
  | ThreadAttachConflictError
  | ThreadParentNotAuthorizedError string
  | ThreadHierarchyDisabledError
  | ThreadOtherError string

record delegation =
  dl_id :: string
  dl_parent_session_id :: string
  dl_child_session_id :: "string option"
  dl_child_workspace_id :: "string option"
  dl_status :: string
  dl_cancel_scope :: "string option"
  dl_created_at :: clock
  dl_updated_at :: clock
  dl_started_at :: "clock option"
  dl_completed_at :: "clock option"
  dl_error_code :: "string option"
  dl_error_detail_safe :: "string option"

definition coalesce :: "'a option \<Rightarrow> 'a \<Rightarrow> 'a" where
  "coalesce x y = (case x of None \<Rightarrow> y | Some z \<Rightarrow> z)"

text \<open>\<^verbatim>\<open>UPDATE thread_delegations SET f WHERE P\<close> with its row count.\<close>

definition update_rows :: "(delegation \<Rightarrow> bool) \<Rightarrow> (delegation \<Rightarrow> delegation) \<Rightarrow> delegation list \<Rightarrow> nat \<times> delegation list" where
  "update_rows P f rows = (length (filter P rows), map (\<lambda>r. if P r then f r else r) rows)"

definition find_delegation :: "string \<Rightarrow> delegation list \<Rightarrow> delegation option" where
  "find_delegation i rows = find (\<lambda>r. dl_id r = i) rows"

definition find_child_delegation :: "string \<Rightarrow> delegation list \<Rightarrow> delegation option" where
  "find_child_delegation session_id rows = find (\<lambda>r. dl_child_session_id r = Some session_id) rows"

subsection \<open>Transactions that move a delegation\<close>

text \<open>The reservation: a new row in state provisioning; the identity is unique.\<close>

definition reserve_delegation :: "string \<Rightarrow> string \<Rightarrow> clock \<Rightarrow> delegation list \<Rightarrow> (thread_error + delegation) \<times> delegation list" where
  "reserve_delegation i parent_session_id now rows =
     (if i \<in> dl_id ` set rows then (Inl (ThreadOtherError ''IntegrityError''), rows)
      else
        let row = \<lparr> dl_id = i, dl_parent_session_id = parent_session_id, dl_child_session_id = None, dl_child_workspace_id = None,
                    dl_status = DELEGATION_STATUS_PROVISIONING, dl_cancel_scope = None, dl_created_at = now, dl_updated_at = now,
                    dl_started_at = None, dl_completed_at = None, dl_error_code = None, dl_error_detail_safe = None \<rparr>
        in (Inr row, rows @ [row]))"

definition attach_child :: "string \<Rightarrow> string \<Rightarrow> string \<Rightarrow> clock \<Rightarrow> delegation list \<Rightarrow> (thread_error + delegation) \<times> delegation list" where
  "attach_child i workspace_id session_id now rows =
     (case update_rows (\<lambda>r. dl_id r = i \<and> dl_status r = DELEGATION_STATUS_PROVISIONING)
            (\<lambda>r. r\<lparr>dl_child_workspace_id := Some workspace_id, dl_child_session_id := Some session_id,
                    dl_status := DELEGATION_STATUS_QUEUED, dl_updated_at := now\<rparr>) rows of
        (rowcount, rows') \<Rightarrow>
          if rowcount \<noteq> 1 then (Inl ThreadAttachConflictError, rows)
          else case find_delegation i rows' of
                 None \<Rightarrow> (Inl ThreadAttachConflictError, rows')
               | Some row \<Rightarrow> (Inr row, rows'))"

definition mark_running :: "string \<Rightarrow> clock \<Rightarrow> delegation list \<Rightarrow> nat \<times> delegation list" where
  "mark_running i now rows =
     update_rows (\<lambda>r. dl_id r = i \<and> dl_status r = DELEGATION_STATUS_QUEUED)
       (\<lambda>r. r\<lparr>dl_status := DELEGATION_STATUS_RUNNING, dl_started_at := Some now, dl_updated_at := now\<rparr>) rows"

definition fail_queued_start :: "string \<Rightarrow> clock \<Rightarrow> delegation list \<Rightarrow> delegation list" where
  "fail_queued_start i now rows = snd (
     update_rows (\<lambda>r. dl_id r = i \<and> dl_status r = DELEGATION_STATUS_QUEUED)
       (\<lambda>r. r\<lparr>dl_status := DELEGATION_STATUS_FAILED, dl_error_code := Some ''start_failed'',
               dl_error_detail_safe := Some ''initial prompt run failed to start'', dl_updated_at := now\<rparr>) rows)"

definition fail_reservation :: "string \<Rightarrow> clock \<Rightarrow> delegation list \<Rightarrow> delegation list" where
  "fail_reservation i now rows = snd (
     update_rows (\<lambda>r. dl_id r = i \<and> dl_status r = DELEGATION_STATUS_PROVISIONING \<and> dl_child_session_id r = None \<and> dl_child_workspace_id r = None)
       (\<lambda>r. r\<lparr>dl_status := DELEGATION_STATUS_FAILED, dl_error_code := Some ''provision_failed'',
               dl_error_detail_safe := Some ''child workspace provisioning failed'', dl_updated_at := now\<rparr>) rows)"

text \<open>Whether the claim won and whether a child was attached.\<close>

definition claim_provisioning_cancel :: "string \<Rightarrow> clock \<Rightarrow> delegation list \<Rightarrow> (bool \<times> bool) \<times> delegation list" where
  "claim_provisioning_cancel i now rows =
     (let has_child = (case find_delegation i rows of None \<Rightarrow> False | Some r \<Rightarrow> dl_child_session_id r \<noteq> None) in
      case update_rows (\<lambda>r. dl_id r = i \<and> dl_status r = DELEGATION_STATUS_PROVISIONING)
             (\<lambda>r. r\<lparr>dl_status := DELEGATION_STATUS_CANCELLED, dl_completed_at := Some now, dl_updated_at := now\<rparr>) rows of
        (rowcount, rows') \<Rightarrow> ((rowcount = 1, has_child), rows'))"

definition cancel_queued :: "string \<Rightarrow> clock \<Rightarrow> delegation list \<Rightarrow> nat \<times> delegation list" where
  "cancel_queued i now rows =
     update_rows (\<lambda>r. dl_id r = i \<and> dl_status r = DELEGATION_STATUS_QUEUED)
       (\<lambda>r. r\<lparr>dl_status := DELEGATION_STATUS_CANCELLED, dl_completed_at := Some now, dl_updated_at := now\<rparr>) rows"

definition claim_cancelling :: "string \<Rightarrow> clock \<Rightarrow> delegation list \<Rightarrow> nat \<times> delegation list" where
  "claim_cancelling i now rows =
     update_rows (\<lambda>r. dl_id r = i \<and> dl_status r = DELEGATION_STATUS_RUNNING)
       (\<lambda>r. r\<lparr>dl_status := DELEGATION_STATUS_CANCELLING, dl_updated_at := now\<rparr>) rows"

definition adopt_terminal_cancellation :: "string \<Rightarrow> string \<Rightarrow> clock \<Rightarrow> delegation list \<Rightarrow> delegation list" where
  "adopt_terminal_cancellation i target now rows = snd (
     update_rows (\<lambda>r. dl_id r = i \<and> dl_status r = DELEGATION_STATUS_CANCELLING)
       (\<lambda>r. r\<lparr>dl_status := target, dl_completed_at := Some (coalesce (dl_completed_at r) now), dl_updated_at := now\<rparr>) rows)"

text \<open>\<^verbatim>\<open>_RUN_STATUS_TO_DELEGATION_STATUS\<close>.\<close>

fun run_status_to_delegation_status :: "prompt_status \<Rightarrow> string option" where
  "run_status_to_delegation_status Completed = Some DELEGATION_STATUS_COMPLETED"
| "run_status_to_delegation_status Failed = Some DELEGATION_STATUS_FAILED"
| "run_status_to_delegation_status Cancelled = Some DELEGATION_STATUS_CANCELLED"
| "run_status_to_delegation_status Interrupted = Some DELEGATION_STATUS_INTERRUPTED"
| "run_status_to_delegation_status s = None"

text \<open>
  The part of \<^verbatim>\<open>_prepare_terminal_result\<close> that decides and writes the delegation: \<open>sealed\<close> tells the delegations whose result is sealed, \<open>intent_error\<close> what
  \<^verbatim>\<open>_load_seal_intent\<close> raises. The initial run is looked up by the derived key.
\<close>

definition prepare_terminal_result ::
  "(bytes \<Rightarrow> bytes) \<Rightarrow> (string \<Rightarrow> bool) \<Rightarrow> thread_error option \<Rightarrow> string \<Rightarrow> string \<Rightarrow> clock \<Rightarrow> prompt_db \<Rightarrow> delegation list
     \<Rightarrow> (thread_error + string option) \<times> delegation list" where
  "prepare_terminal_result sha1 sealed intent_error session_id i now db rows =
     (case find_child_delegation session_id rows of
        None \<Rightarrow> (Inr None, rows)
      | Some d \<Rightarrow>
          (case initial_run_idempotency_key sha1 (dl_id d) of
             Inl e \<Rightarrow> (Inl (ThreadOtherError ''ValueError''), rows)
           | Inr key \<Rightarrow>
               (case find (\<lambda>r. pr_id r = i \<and> pr_session_id r = session_id \<and> pr_key r = key) (db_runs db) of
                  None \<Rightarrow> (Inr None, rows)
                | Some run \<Rightarrow>
                    (case run_status_to_delegation_status (pr_status run) of
                       None \<Rightarrow> (Inr None, rows)
                     | Some outcome \<Rightarrow>
                         if sealed (dl_id d) then (Inr None, rows)
                         else case intent_error of
                                Some e \<Rightarrow> (Inl e, rows)
                              | None \<Rightarrow>
                                  let terminal_status = (if dl_status d \<in> TERMINAL_DELEGATION_STATUSES then dl_status d else outcome)
                                  in (Inr (Some terminal_status),
                                      snd (update_rows (\<lambda>r. dl_id r = dl_id d)
                                        (\<lambda>r. r\<lparr>dl_status := terminal_status, dl_completed_at := Some (coalesce (dl_completed_at r) now),
                                                dl_updated_at := now\<rparr>) rows))))))"

text \<open>The last update of \<^verbatim>\<open>_commit_seal\<close>.\<close>

definition seal_delegation :: "string \<Rightarrow> string \<Rightarrow> clock \<Rightarrow> delegation list \<Rightarrow> delegation list" where
  "seal_delegation i terminal_status now rows = snd (
     update_rows (\<lambda>r. dl_id r = i)
       (\<lambda>r. r\<lparr>dl_status := (if dl_status r \<in> TERMINAL_DELEGATION_STATUSES then dl_status r else terminal_status),
               dl_error_code := None, dl_completed_at := Some (coalesce (dl_completed_at r) now), dl_updated_at := now\<rparr>) rows)"

text \<open>The update of \<^verbatim>\<open>_record_finalization_failure\<close>, after the identity checks of the intent have passed.\<close>

definition record_finalization_failure :: "(string \<Rightarrow> bool) \<Rightarrow> string \<Rightarrow> clock \<Rightarrow> delegation list \<Rightarrow> delegation list" where
  "record_finalization_failure sealed i now rows = snd (
     update_rows (\<lambda>r. dl_id r = i \<and> \<not> sealed i)
       (\<lambda>r. r\<lparr>dl_error_code := Some ''result_finalization_failed'', dl_updated_at := now\<rparr>) rows)"

text \<open>The selection of \<^verbatim>\<open>_claim_stale_provisioning\<close>: \<open>None\<close> selects everything, a list at most 500 distinct identities.\<close>

definition cleanup_selection :: "string list option \<Rightarrow> py_error + (delegation \<Rightarrow> bool)" where
  "cleanup_selection delegation_ids =
     (case delegation_ids of
        None \<Rightarrow> Inr (\<lambda>_. True)
      | Some ids \<Rightarrow>
          rbind (raise_if (length ids > 500 \<or> \<not> distinct ids)
                   (ValueErr ''cleanup selection must contain at most 500 distinct delegation IDs'')) (\<lambda>_.
          Inr (\<lambda>r. dl_id r \<in> set ids)))"

fun claim_stale_rows :: "string list \<Rightarrow> (delegation \<Rightarrow> bool) \<Rightarrow> clock \<Rightarrow> delegation list \<Rightarrow> string list \<times> delegation list" where
  "claim_stale_rows [] stale now rows = ([], rows)"
| "claim_stale_rows (i # is) stale now rows =
     (case update_rows (\<lambda>r. dl_id r = i \<and> stale r)
            (\<lambda>r. r\<lparr>dl_status := DELEGATION_STATUS_INTERRUPTED, dl_completed_at := Some now, dl_error_code := Some ''provisioning_stale'',
                    dl_error_detail_safe := Some ''stale provisioning was interrupted before completion'', dl_updated_at := now\<rparr>) rows of
        (rowcount, rows1) \<Rightarrow>
          (case claim_stale_rows is stale now rows1 of
             (claimed, rows2) \<Rightarrow> ((if rowcount = 1 then i # claimed else claimed), rows2)))"

definition claim_stale_provisioning ::
  "int \<Rightarrow> string option \<Rightarrow> (delegation list \<Rightarrow> thread_error option) option \<Rightarrow> string list option \<Rightarrow> clock \<Rightarrow> delegation list
     \<Rightarrow> (thread_error + string list) \<times> delegation list" where
  "claim_stale_provisioning stale_seconds parent_session_id guard delegation_ids now rows =
     (case cleanup_selection delegation_ids of
        Inl e \<Rightarrow> (Inl (ThreadOtherError ''ValueError''), rows)
      | Inr selected \<Rightarrow>
          if delegation_ids = Some [] then (Inr [], rows)
          else case (case guard of None \<Rightarrow> None | Some g \<Rightarrow> g rows) of
                 Some e \<Rightarrow> (Inl e, rows)
               | None \<Rightarrow>
                   let stale = (\<lambda>r. dl_status r = DELEGATION_STATUS_PROVISIONING \<and> dl_child_session_id r = None
                                  \<and> dl_updated_at r < now - real_of_int stale_seconds);
                       chosen = filter (\<lambda>r. stale r \<and> (parent_session_id = None \<or> parent_session_id = Some (dl_parent_session_id r)) \<and> selected r) rows;
                       ordered = sort_key (\<lambda>r. (dl_created_at r)) (sort_key (\<lambda>r. map (of_char :: char \<Rightarrow> nat) (dl_id r)) chosen)
                   in case claim_stale_rows (map dl_id ordered) stale now rows of
                        (claimed, rows') \<Rightarrow> (Inr claimed, rows'))"

subsection \<open>Cancellation claims\<close>

text \<open>\<^verbatim>\<open>_assert_no_cancellation\<close>: the walk over the ancestors of a session.\<close>

fun walk_ancestors :: "nat \<Rightarrow> string \<Rightarrow> string list \<Rightarrow> delegation list \<Rightarrow> thread_error + unit" where
  "walk_ancestors 0 current seen rows = Inl (ThreadTreeLimitError ''thread ancestry exceeds the depth bound'')"
| "walk_ancestors (Suc n) current seen rows =
     (if current \<in> set seen then Inl (ThreadCycleError ''thread ancestry contains a cycle'')
      else case find_child_delegation current rows of
             None \<Rightarrow> Inr ()
           | Some row \<Rightarrow>
               if dl_cancel_scope row \<noteq> None \<or> dl_status row = DELEGATION_STATUS_CANCELLING
               then Inl (ThreadCancelPendingError ''An ancestor cancellation is pending.'')
               else walk_ancestors n (dl_parent_session_id row) (current # seen) rows)"

definition assert_no_cancellation :: "string \<Rightarrow> delegation list \<Rightarrow> thread_error + unit" where
  "assert_no_cancellation parent_session_id rows = walk_ancestors 32 parent_session_id [] rows"

text \<open>
  The breadth-first search of \<^verbatim>\<open>_cancel_targets\<close>; \<open>authorize\<close> is the lookup and authorization of one delegation.
  One round takes the first parent of the frontier.
\<close>

fun add_children ::
  "(string \<Rightarrow> thread_error + delegation) \<Rightarrow> nat \<Rightarrow> string list \<Rightarrow> delegation list \<times> (delegation \<times> nat) list \<times> string list
     \<Rightarrow> thread_error + (delegation list \<times> (delegation \<times> nat) list \<times> string list)" where
  "add_children authorize depth [] st = Inr st"
| "add_children authorize depth (i # is) (targets, frontier, seen) =
     (if i \<in> set seen \<or> length seen \<ge> 500 then Inl (ThreadTreeLimitError ''cancellation tree exceeds its graph bound'')
      else rbind (authorize i) (\<lambda>row.
             add_children authorize depth is (targets @ [row], frontier @ [(row, depth + 1)], seen @ [i])))"

definition child_ids :: "delegation \<Rightarrow> delegation list \<Rightarrow> string list" where
  "child_ids parent rows =
     (case dl_child_session_id parent of
        None \<Rightarrow> []
      | Some s \<Rightarrow> take 501 (map dl_id (sort_key (\<lambda>r. map (of_char :: char \<Rightarrow> nat) (dl_id r)) (filter (\<lambda>r. dl_parent_session_id r = s) rows))))"

lemma add_children_sizes:
  "add_children authorize depth is (targets, frontier, seen) = Inr (targets', frontier', seen') \<Longrightarrow>
     length frontier' = length frontier + length is \<and> length seen' = length seen + length is \<and> (is \<noteq> [] \<longrightarrow> length seen' \<le> 500)"
proof (induction "is" arbitrary: targets frontier seen)
  case (Cons i "is")
  then obtain row where "\<not> (i \<in> set seen \<or> length seen \<ge> 500)"
    "add_children authorize depth is (targets @ [row], frontier @ [(row, depth + 1)], seen @ [i]) = Inr (targets', frontier', seen')"
    by (auto simp: rbind_Inr_iff split: if_splits)
  with Cons.IH [OF this(2)] show ?case by (cases "is") auto
qed simp

function cancel_search ::
  "(string \<Rightarrow> thread_error + delegation) \<Rightarrow> delegation list \<Rightarrow> delegation list \<Rightarrow> (delegation \<times> nat) list \<Rightarrow> string list
     \<Rightarrow> thread_error + delegation list" where
  "cancel_search authorize rows targets [] seen = Inr targets"
| "cancel_search authorize rows targets ((parent, depth) # frontier) seen =
     (let children = child_ids parent rows in
      if children \<noteq> [] \<and> depth \<ge> 32 then Inl (ThreadTreeLimitError ''cancellation tree exceeds the depth bound'')
      else case add_children authorize depth children (targets, frontier, seen) of
             Inl e \<Rightarrow> Inl e
           | Inr (targets', frontier', seen') \<Rightarrow> cancel_search authorize rows targets' frontier' seen')"
  by pat_completeness auto
termination
  by (relation "measure (\<lambda>(authorize, rows, targets, frontier, seen). length frontier + 2 * (501 - length seen))")
     (auto dest!: add_children_sizes [OF sym], fastforce dest: sym add_children_sizes)

definition cancel_targets ::
  "(string \<Rightarrow> thread_error + delegation) \<Rightarrow> string \<Rightarrow> bool \<Rightarrow> delegation list \<Rightarrow> thread_error + delegation list" where
  "cancel_targets authorize thread_id cascade rows =
     rbind (authorize thread_id) (\<lambda>root.
     if cascade \<or> dl_cancel_scope root = Some ''subtree'' then cancel_search authorize rows [root] [(root, 0)] [dl_id root]
     else Inr [root])"

fun claim_scopes :: "bool \<Rightarrow> bool \<Rightarrow> delegation list \<Rightarrow> clock \<Rightarrow> delegation list \<Rightarrow> delegation list" where
  "claim_scopes first cascade [] now rows = rows"
| "claim_scopes first cascade (target # targets) now rows =
     (let scope = (if first \<and> (cascade \<or> dl_cancel_scope target = Some ''subtree'') then ''subtree'' else ''self'') in
      claim_scopes False cascade targets now (snd (
        update_rows (\<lambda>r. dl_id r = dl_id target)
          (\<lambda>r. r\<lparr>dl_cancel_scope := (if dl_cancel_scope r = Some ''subtree'' then dl_cancel_scope r else Some scope), dl_updated_at := now\<rparr>) rows)))"

definition claim_cancel_targets ::
  "(string \<Rightarrow> thread_error + delegation) \<Rightarrow> string \<Rightarrow> bool \<Rightarrow> clock \<Rightarrow> delegation list \<Rightarrow> (thread_error + delegation list) \<times> delegation list" where
  "claim_cancel_targets authorize thread_id cascade now rows =
     (case cancel_targets authorize thread_id cascade rows of
        Inl e \<Rightarrow> (Inl e, rows)
      | Inr targets \<Rightarrow> (Inr targets, claim_scopes True cascade targets now rows))"

text \<open>
  \<^verbatim>\<open>_clear_cancel_claims\<close>: a target is complete when its delegation is terminal and its initial run is
  absent or terminal. A delegation without a child matches no run, as a comparison with SQL NULL does.
\<close>

definition initial_run :: "(bytes \<Rightarrow> bytes) \<Rightarrow> delegation \<Rightarrow> prompt_db \<Rightarrow> py_error + prompt_row option" where
  "initial_run sha1 row db =
     rbind (initial_run_idempotency_key sha1 (dl_id row)) (\<lambda>key.
     Inr (case dl_child_session_id row of
            None \<Rightarrow> None
          | Some s \<Rightarrow> find (\<lambda>r. pr_session_id r = s \<and> pr_key r = key) (db_runs db)))"

fun complete_targets :: "(bytes \<Rightarrow> bytes) \<Rightarrow> prompt_db \<Rightarrow> delegation list \<Rightarrow> delegation list \<Rightarrow> py_error + delegation list" where
  "complete_targets sha1 db rows [] = Inr []"
| "complete_targets sha1 db rows (target # targets) =
     (case find_delegation (dl_id target) rows of
        None \<Rightarrow> complete_targets sha1 db rows targets
      | Some row \<Rightarrow>
          if dl_status row \<notin> TERMINAL_DELEGATION_STATUSES then complete_targets sha1 db rows targets
          else rbind (initial_run sha1 row db) (\<lambda>run.
               rbind (complete_targets sha1 db rows targets) (\<lambda>done_rows.
               Inr (case run of
                      None \<Rightarrow> row # done_rows
                    | Some r \<Rightarrow> if run_status_to_delegation_status (pr_status r) \<noteq> None then row # done_rows else done_rows))))"

fun clear_scopes :: "bool \<Rightarrow> delegation list \<Rightarrow> delegation list \<Rightarrow> delegation list" where
  "clear_scopes all_done [] rows = rows"
| "clear_scopes all_done (row # done_rows) rows =
     clear_scopes all_done done_rows
       (if dl_cancel_scope row \<noteq> Some ''subtree'' \<or> all_done
        then snd (update_rows (\<lambda>r. dl_id r = dl_id row) (\<lambda>r. r\<lparr>dl_cancel_scope := None\<rparr>) rows) else rows)"

definition clear_cancel_claims ::
  "(bytes \<Rightarrow> bytes) \<Rightarrow> prompt_db \<Rightarrow> delegation list \<Rightarrow> delegation list \<Rightarrow> (thread_error + unit) \<times> delegation list" where
  "clear_cancel_claims sha1 db targets rows =
     (case complete_targets sha1 db rows targets of
        Inl e \<Rightarrow> (Inl (ThreadOtherError ''ValueError''), rows)
      | Inr done_rows \<Rightarrow> (Inr (), clear_scopes (length done_rows = length targets) done_rows rows))"

subsection \<open>Cancelling a running child\<close>

text \<open>
  \<^verbatim>\<open>_cancel_child_prompt_run\<close>: the run found by the derived key is cancelled through the journal. The model takes
  the branch in which this process runs no worker for it; whatever the journal raises is logged and leaves no run.
\<close>

definition cancel_child_prompt_run ::
  "(bytes \<Rightarrow> bytes) \<Rightarrow> bool \<Rightarrow> string \<Rightarrow> string \<Rightarrow> prompt_db \<Rightarrow> (py_error + prompt_run option) \<times> prompt_db" where
  "cancel_child_prompt_run sha1 has_journal i child_session_id db =
     (if \<not> has_journal then (Inr None, db)
      else case initial_run_idempotency_key sha1 i of
             Inl e \<Rightarrow> (Inl e, db)
           | Inr run_key \<Rightarrow>
               (case find (\<lambda>r. pr_session_id r = child_session_id \<and> pr_key r = run_key) (db_runs db) of
                  None \<Rightarrow> (Inr None, db)
                | Some row \<Rightarrow>
                    (case cancel_absent child_session_id (pr_id row) db of
                       (Inl e, db') \<Rightarrow> (Inr None, db')
                     | (Inr run, db') \<Rightarrow> (Inr (Some run), db'))))"

text \<open>\<^verbatim>\<open>_cancel_running\<close>: \<open>Inr None\<close> when another writer moved the delegation first.\<close>

definition cancel_running ::
  "(bytes \<Rightarrow> bytes) \<Rightarrow> bool \<Rightarrow> string \<Rightarrow> string \<Rightarrow> bool \<Rightarrow> clock \<Rightarrow> delegation list \<times> prompt_db
     \<Rightarrow> (thread_error + delegation option) \<times> delegation list \<times> prompt_db" where
  "cancel_running sha1 has_journal i child_session_id already_cancelling now st =
     (case st of (rows, db) \<Rightarrow>
      case (if already_cancelling then (1, rows) else claim_cancelling i now rows) of (rowcount, rows1) \<Rightarrow>
        if rowcount \<noteq> 1 then (Inr None, rows1, db)
        else case cancel_child_prompt_run sha1 has_journal i child_session_id db of
               (Inl e, db1) \<Rightarrow> (Inl (ThreadOtherError ''ValueError''), rows1, db1)
             | (Inr run, db1) \<Rightarrow>
                 let rows2 = (case run of
                                None \<Rightarrow> rows1
                              | Some r \<Rightarrow> (case run_status_to_delegation_status (run_status r) of
                                             None \<Rightarrow> rows1
                                           | Some target \<Rightarrow> adopt_terminal_cancellation i target now rows1))
                 in case find_delegation i rows2 of
                      None \<Rightarrow> (Inl (ThreadOtherError ''AssertionError''), rows2, db1)
                    | Some row \<Rightarrow> (Inr (Some row), rows2, db1))"

end
