(* ===== verification/Thread_Lifecycle_Properties.thy ===== *)
theory Thread_Lifecycle_Properties
  imports Thread_Lifecycle
begin

section \<open>The life of a delegation\<close>

text \<open>
  The delegations as a system: one step is any of the transactions that write delegation rows, in any order and
  at any time, with whatever values its caller read before. The invariant is that identities stay unique, that
  statuses are those of the table's check and that a row with a child is past provisioning. The properties say
  that outcomes are final and list every status change the code can make, against the policy of
  \<^verbatim>\<open>thread_lifecycle.py\<close>.
\<close>

subsection \<open>Steps and invariant\<close>

definition DELEGATION_STATUSES :: "string set" where
  "DELEGATION_STATUSES = {DELEGATION_STATUS_PROVISIONING, DELEGATION_STATUS_QUEUED, DELEGATION_STATUS_RUNNING, DELEGATION_STATUS_CANCELLING}
     \<union> TERMINAL_DELEGATION_STATUSES"

text \<open>The moves the transactions make although \<^verbatim>\<open>can_transition\<close> forbids them.\<close>

definition policy_exceptions :: "(string \<times> string) set" where
  "policy_exceptions =
     {(DELEGATION_STATUS_PROVISIONING, DELEGATION_STATUS_INTERRUPTED),
      (DELEGATION_STATUS_QUEUED, DELEGATION_STATUS_COMPLETED), (DELEGATION_STATUS_QUEUED, DELEGATION_STATUS_INTERRUPTED),
      (DELEGATION_STATUS_RUNNING, DELEGATION_STATUS_CANCELLED)}"

definition lifecycle :: "string \<Rightarrow> string \<Rightarrow> bool" where
  "lifecycle a b \<longleftrightarrow> a = b \<or> can_transition a b \<or> (a, b) \<in> policy_exceptions"

definition delegation_inv :: "delegation list \<Rightarrow> bool" where
  "delegation_inv rows \<longleftrightarrow> distinct (map dl_id rows)
     \<and> (\<forall>r \<in> set rows. dl_status r \<in> DELEGATION_STATUSES \<and> (dl_child_session_id r \<noteq> None \<longrightarrow> dl_status r \<noteq> DELEGATION_STATUS_PROVISIONING))"

text \<open>
  A seal is committed only with a terminal status and for a delegation that has a child, as the finalization intent it
  comes from guarantees; an adopted cancellation is the outcome of a prompt run.
\<close>

inductive delegation_step :: "(bytes \<Rightarrow> bytes) \<Rightarrow> delegation list \<Rightarrow> delegation list \<Rightarrow> bool" for sha1 :: "bytes \<Rightarrow> bytes" where
  ds_reserve: "delegation_step sha1 rows (snd (reserve_delegation i parent now rows))"
| ds_attach: "delegation_step sha1 rows (snd (attach_child i workspace_id session_id now rows))"
| ds_running: "delegation_step sha1 rows (snd (mark_running i now rows))"
| ds_start_failed: "delegation_step sha1 rows (fail_queued_start i now rows)"
| ds_reserve_failed: "delegation_step sha1 rows (fail_reservation i now rows)"
| ds_cancel_provisioning: "delegation_step sha1 rows (snd (claim_provisioning_cancel i now rows))"
| ds_cancel_queued: "delegation_step sha1 rows (snd (cancel_queued i now rows))"
| ds_cancelling: "delegation_step sha1 rows (snd (claim_cancelling i now rows))"
| ds_adopt: "run_status_to_delegation_status s = Some target \<Longrightarrow> delegation_step sha1 rows (adopt_terminal_cancellation i target now rows)"
| ds_prepare: "delegation_step sha1 rows (snd (prepare_terminal_result sha1 sealed intent_error session_id i now db rows))"
| ds_seal: "terminal_status \<in> TERMINAL_DELEGATION_STATUSES \<Longrightarrow> \<forall>r \<in> set rows. dl_id r = i \<longrightarrow> dl_child_session_id r \<noteq> None \<Longrightarrow>
    delegation_step sha1 rows (seal_delegation i terminal_status now rows)"
| ds_finalization: "delegation_step sha1 rows (record_finalization_failure sealed i now rows)"
| ds_stale: "delegation_step sha1 rows (snd (claim_stale_provisioning seconds parent_id guard ids now rows))"
| ds_claim: "delegation_step sha1 rows (snd (claim_cancel_targets authorize thread_id cascade now rows))"
| ds_clear: "delegation_step sha1 rows (snd (clear_cancel_claims sha1 db targets rows))"

definition row_moves :: "delegation \<Rightarrow> delegation \<Rightarrow> bool" where
  "row_moves r r' \<longleftrightarrow> dl_id r' = dl_id r \<and> dl_parent_session_id r' = dl_parent_session_id r \<and> lifecycle (dl_status r) (dl_status r')
     \<and> (dl_child_session_id r' = dl_child_session_id r \<or> dl_status r' \<noteq> DELEGATION_STATUS_PROVISIONING)"

definition rows_move :: "delegation list \<Rightarrow> delegation list \<Rightarrow> bool" where
  "rows_move rows rows' \<longleftrightarrow> (\<exists>xs ys. rows' = xs @ ys \<and> list_all2 row_moves rows xs \<and> distinct (map dl_id ys)
     \<and> (\<forall>y \<in> set ys. dl_id y \<notin> dl_id ` set rows \<and> dl_status y = DELEGATION_STATUS_PROVISIONING \<and> dl_child_session_id y = None))"

definition same_place :: "delegation \<Rightarrow> delegation \<Rightarrow> bool" where
  "same_place r r' \<longleftrightarrow> dl_id r' = dl_id r \<and> dl_parent_session_id r' = dl_parent_session_id r \<and> dl_status r' = dl_status r
     \<and> dl_child_session_id r' = dl_child_session_id r"

subsection \<open>Every transaction moves rows along the lifecycle\<close>

lemma terminal_cases: "s \<in> TERMINAL_DELEGATION_STATUSES \<longleftrightarrow> s \<in> {''completed'', ''failed'', ''cancelled'', ''interrupted''}"
  by (simp add: TERMINAL_DELEGATION_STATUSES_def delegation_status_defs)

lemma lifecycle_refl [simp]: "lifecycle s s" by (simp add: lifecycle_def)

lemma row_moves_refl [simp]: "row_moves r r" by (simp add: row_moves_def)

lemmas lifecycle_eval = lifecycle_def can_transition_def allowed_transitions_def policy_exceptions_def delegation_status_defs

lemma terminal_no_move: "a \<in> TERMINAL_DELEGATION_STATUSES \<Longrightarrow> lifecycle a b \<Longrightarrow> b = a"
  by (auto simp: terminal_cases lifecycle_eval)

lemma lifecycle_values: "a \<in> DELEGATION_STATUSES \<Longrightarrow> lifecycle a b \<Longrightarrow> b \<in> DELEGATION_STATUSES"
  by (auto simp: DELEGATION_STATUSES_def TERMINAL_DELEGATION_STATUSES_def lifecycle_eval split: if_splits option.splits)

lemma lifecycle_attached:
  "a \<in> DELEGATION_STATUSES \<Longrightarrow> a \<noteq> DELEGATION_STATUS_PROVISIONING \<Longrightarrow> b \<in> TERMINAL_DELEGATION_STATUSES \<Longrightarrow>
    lifecycle a (if a \<in> TERMINAL_DELEGATION_STATUSES then a else b)"
  by (auto simp: DELEGATION_STATUSES_def TERMINAL_DELEGATION_STATUSES_def lifecycle_eval)

lemma lifecycle_to_provisioning: "lifecycle a DELEGATION_STATUS_PROVISIONING \<Longrightarrow> a = DELEGATION_STATUS_PROVISIONING"
  by (auto simp: lifecycle_eval split: option.splits if_splits)


lemma update_rows_all2:
  "(\<And>r. r \<in> set rows \<Longrightarrow> P r \<Longrightarrow> R r (f r)) \<Longrightarrow> (\<And>r. R r r) \<Longrightarrow> list_all2 R rows (snd (update_rows P f rows))"
  by (auto simp: update_rows_def list_all2_map2 intro: list.rel_refl_strong)

lemma update_rows_trans:
  "list_all2 R rows rows1 \<Longrightarrow> (\<And>r. P r \<Longrightarrow> R r (f r)) \<Longrightarrow> (\<And>r. R r r) \<Longrightarrow> (\<And>a b c. R a b \<Longrightarrow> R b c \<Longrightarrow> R a c) \<Longrightarrow>
    list_all2 R rows (snd (update_rows P f rows1))"
  by (rule list_all2_trans [of R R R rows rows1]) (auto intro: update_rows_all2)

lemma moves_only: "list_all2 row_moves rows rows' \<Longrightarrow> rows_move rows rows'"
  unfolding rows_move_def by (rule exI [of _ rows'], rule exI [of _ "[]"]) simp

lemma update_rows_move:
  "(\<And>r. r \<in> set rows \<Longrightarrow> P r \<Longrightarrow> row_moves r (f r)) \<Longrightarrow> rows_move rows (snd (update_rows P f rows))"
  by (intro moves_only update_rows_all2) auto

lemma rows_move_refl [simp]: "rows_move rows rows"
  by (intro moves_only list.rel_refl_strong) simp

lemma same_place_moves: "list_all2 same_place rows rows' \<Longrightarrow> rows_move rows rows'"
  by (intro moves_only, erule list_all2_mono) (simp add: same_place_def row_moves_def)

lemma same_place_refl [simp]: "same_place r r"
  by (simp add: same_place_def)

lemma same_place_touch [simp]:
  "same_place r (r\<lparr>dl_cancel_scope := scope\<rparr>)" "same_place r (r\<lparr>dl_cancel_scope := scope, dl_updated_at := now\<rparr>)"
  by (simp_all add: same_place_def)

lemma same_place_trans: "same_place a b \<Longrightarrow> same_place b c \<Longrightarrow> same_place a c"
  by (simp add: same_place_def)

lemma same_places_trans: "list_all2 same_place a b \<Longrightarrow> list_all2 same_place b c \<Longrightarrow> list_all2 same_place a c"
  using same_place_trans by (rule list_all2_trans)

lemma claim_scopes_same: "list_all2 same_place rows (claim_scopes first cascade targets now rows)"
proof (induction targets arbitrary: first rows)
  case (Cons target targets)
  show ?case unfolding claim_scopes.simps Let_def by (rule same_places_trans [OF update_rows_all2 Cons.IH]) simp_all
qed (simp add: list.rel_refl)

lemma clear_scopes_same: "list_all2 same_place rows (clear_scopes all_done done_rows rows)"
proof (induction done_rows arbitrary: rows)
  case (Cons row done_rows)
  show ?case unfolding clear_scopes.simps
    by (rule same_places_trans [OF _ Cons.IH]) (simp add: update_rows_all2 list.rel_refl)
qed (simp add: list.rel_refl)

definition stale_move :: "delegation \<Rightarrow> delegation \<Rightarrow> bool" where
  "stale_move r r' \<longleftrightarrow> r' = r \<or> same_place (r\<lparr>dl_status := DELEGATION_STATUS_INTERRUPTED\<rparr>) r' \<and> dl_status r = DELEGATION_STATUS_PROVISIONING"

lemma stale_move_trans: "stale_move a b \<Longrightarrow> stale_move b c \<Longrightarrow> stale_move a c"
  unfolding stale_move_def same_place_def by (elim disjE conjE) (simp_all add: delegation_status_defs)

lemma stale_moves_trans: "list_all2 stale_move a b \<Longrightarrow> list_all2 stale_move b c \<Longrightarrow> list_all2 stale_move a c"
  using stale_move_trans by (rule list_all2_trans)

lemma stale_move_refl: "list_all2 stale_move rows rows"
  by (simp add: list.rel_refl stale_move_def)

lemma claim_stale_rows_Cons:
  "snd (claim_stale_rows (i # is) stale now rows) = snd (claim_stale_rows is stale now (snd (update_rows (\<lambda>r. dl_id r = i \<and> stale r)
    (\<lambda>r. r\<lparr>dl_status := DELEGATION_STATUS_INTERRUPTED, dl_completed_at := Some now, dl_error_code := Some ''provisioning_stale'',
            dl_error_detail_safe := Some ''stale provisioning was interrupted before completion'', dl_updated_at := now\<rparr>) rows)))"
  by (simp add: case_prod_beta)

lemma claim_stale_rows_moves:
  assumes "\<And>r. stale r \<Longrightarrow> dl_status r = DELEGATION_STATUS_PROVISIONING"
  shows "list_all2 stale_move rows (snd (claim_stale_rows is stale now rows))"
proof (induction "is" arbitrary: rows)
  case (Cons i "is")
  show ?case unfolding claim_stale_rows_Cons
    by (rule stale_moves_trans [OF update_rows_all2 Cons.IH])
       (auto simp: stale_move_def same_place_def dest: assms)
qed (simp add: stale_move_refl)

lemma stale_moves: "list_all2 stale_move rows rows' \<Longrightarrow> rows_move rows rows'"
  by (intro moves_only, erule list_all2_mono) (auto simp: stale_move_def same_place_def row_moves_def lifecycle_eval)

lemma claim_stale_moves: "rows_move rows (snd (claim_stale_provisioning seconds parent_id guard ids now rows))"
proof -
  have "rows_move rows (snd (claim_stale_rows is
      (\<lambda>r. dl_status r = DELEGATION_STATUS_PROVISIONING \<and> dl_child_session_id r = None \<and> dl_updated_at r < t) now rows))" for "is" t
    by (intro stale_moves claim_stale_rows_moves) simp
  then show ?thesis
    by (simp add: claim_stale_provisioning_def Let_def case_prod_beta split: sum.split option.split)
qed

lemma claim_targets_moves: "rows_move rows (snd (claim_cancel_targets authorize thread_id cascade now rows))"
  by (auto simp: claim_cancel_targets_def split: sum.splits intro: same_place_moves claim_scopes_same)

lemma clear_claims_moves: "rows_move rows (snd (clear_cancel_claims sha1 db targets rows))"
  by (auto simp: clear_cancel_claims_def split: sum.splits intro: same_place_moves clear_scopes_same)

lemma append_moves:
  "dl_id y \<notin> dl_id ` set rows \<Longrightarrow> dl_status y = DELEGATION_STATUS_PROVISIONING \<Longrightarrow> dl_child_session_id y = None \<Longrightarrow>
    rows_move rows (rows @ [y])"
  unfolding rows_move_def by (rule exI [of _ rows], rule exI [of _ "[y]"]) (simp add: list.rel_refl)

lemma reserve_moves: "rows_move rows (snd (reserve_delegation i parent now rows))"
  by (simp add: reserve_delegation_def Let_def append_moves)

lemma attach_moves: "rows_move rows (snd (attach_child i workspace_id session_id now rows))"
proof -
  have "rows_move rows (snd (update_rows (\<lambda>r. dl_id r = i \<and> dl_status r = DELEGATION_STATUS_PROVISIONING)
     (\<lambda>r. r\<lparr>dl_child_workspace_id := Some workspace_id, dl_child_session_id := Some session_id,
             dl_status := DELEGATION_STATUS_QUEUED, dl_updated_at := now\<rparr>) rows))"
    by (rule update_rows_move) (auto simp: row_moves_def lifecycle_eval)
  then show ?thesis by (auto simp: attach_child_def case_prod_beta split: option.splits)
qed

lemma run_outcome_terminal: "run_status_to_delegation_status s = Some target \<Longrightarrow> target \<in> TERMINAL_DELEGATION_STATUSES"
  by (cases s) (auto simp: TERMINAL_DELEGATION_STATUSES_def)

lemma settle_moves:
  assumes "delegation_inv rows" "r \<in> set rows" "dl_child_session_id r \<noteq> None" "target \<in> TERMINAL_DELEGATION_STATUSES"
    and "same_place (r\<lparr>dl_status := (if dl_status r \<in> TERMINAL_DELEGATION_STATUSES then dl_status r else target)\<rparr>) r'"
  shows "row_moves r r'"
  using assms lifecycle_attached [of "dl_status r" target] by (auto simp: delegation_inv_def row_moves_def same_place_def)

lemma find_child_delegation_SomeD:
  "find_child_delegation s rows = Some d \<Longrightarrow> d \<in> set rows \<and> dl_child_session_id d = Some s"
  by (auto simp: find_child_delegation_def find_Some_iff)

lemma prepare_moves:
  assumes "delegation_inv rows"
  shows "rows_move rows (snd (prepare_terminal_result sha1 sealed intent_error session_id i now db rows))"
proof -
  have unique: "r = d" if "find_child_delegation session_id rows = Some d" "r \<in> set rows" "dl_id r = dl_id d" for r d
    using that assms by (auto simp: delegation_inv_def distinct_map dest: find_child_delegation_SomeD inj_onD)
  have child: "dl_child_session_id d \<noteq> None" if "find_child_delegation session_id rows = Some d" for d
    using find_child_delegation_SomeD [OF that] by simp
  have "row_moves r (r\<lparr>dl_status := (if dl_status d \<in> TERMINAL_DELEGATION_STATUSES then dl_status d else outcome),
      dl_completed_at := Some (coalesce (dl_completed_at r) now), dl_updated_at := now\<rparr>)"
    if "find_child_delegation session_id rows = Some d" "run_status_to_delegation_status s = Some outcome"
      "r \<in> set rows" "dl_id r = dl_id d" for d s outcome r
    using settle_moves [OF assms that(3) _ run_outcome_terminal [OF that(2)]] unique [OF that(1,3,4)] child [OF that(1)]
    by (simp add: same_place_def)
  then have settled: "rows_move rows (snd (update_rows (\<lambda>r. dl_id r = dl_id d)
      (\<lambda>r. r\<lparr>dl_status := (if dl_status d \<in> TERMINAL_DELEGATION_STATUSES then dl_status d else outcome),
              dl_completed_at := Some (coalesce (dl_completed_at r) now), dl_updated_at := now\<rparr>) rows))"
    if "find_child_delegation session_id rows = Some d" "run_status_to_delegation_status s = Some outcome" for d s outcome
    using that by (intro update_rows_move) blast
  show ?thesis
    unfolding prepare_terminal_result_def Let_def
    by (cases "find_child_delegation session_id rows"; cases "sealed (dl_id (the (find_child_delegation session_id rows)))")
       (simp_all add: settled split: option.split sum.split split del: if_split)
qed


lemma seal_moves:
  assumes "delegation_inv rows" "terminal_status \<in> TERMINAL_DELEGATION_STATUSES" "\<forall>r \<in> set rows. dl_id r = i \<longrightarrow> dl_child_session_id r \<noteq> None"
  shows "rows_move rows (seal_delegation i terminal_status now rows)"
  unfolding seal_delegation_def using assms(3)
  by (intro update_rows_move settle_moves [OF assms(1) _ _ assms(2)]) (auto simp: same_place_def)

lemma adopt_moves:
  "run_status_to_delegation_status s = Some target \<Longrightarrow> rows_move rows (adopt_terminal_cancellation i target now rows)"
  unfolding adopt_terminal_cancellation_def
  by (intro update_rows_move) (cases s; auto simp: row_moves_def lifecycle_eval)

lemma simple_moves:
  "rows_move rows (snd (mark_running i now rows))"
  "rows_move rows (fail_queued_start i now rows)"
  "rows_move rows (fail_reservation i now rows)"
  "rows_move rows (snd (cancel_queued i now rows))"
  "rows_move rows (snd (claim_cancelling i now rows))"
  "rows_move rows (snd (claim_provisioning_cancel i now rows))"
  "rows_move rows (record_finalization_failure sealed i now rows)"
  unfolding mark_running_def fail_queued_start_def fail_reservation_def cancel_queued_def claim_cancelling_def
    claim_provisioning_cancel_def Let_def case_prod_beta snd_conv record_finalization_failure_def
  by (intro update_rows_move; simp add: row_moves_def lifecycle_eval)+

lemma delegation_step_moves: "delegation_step sha1 rows rows' \<Longrightarrow> delegation_inv rows \<Longrightarrow> rows_move rows rows'"
  by (induction rule: delegation_step.induct)
     (simp_all add: simple_moves adopt_moves seal_moves prepare_moves attach_moves reserve_moves claim_stale_moves claim_targets_moves clear_claims_moves)

lemma row_moves_inv:
  "row_moves r r' \<Longrightarrow> dl_status r \<in> DELEGATION_STATUSES \<Longrightarrow> dl_child_session_id r \<noteq> None \<longrightarrow> dl_status r \<noteq> DELEGATION_STATUS_PROVISIONING \<Longrightarrow>
    dl_status r' \<in> DELEGATION_STATUSES \<and> (dl_child_session_id r' \<noteq> None \<longrightarrow> dl_status r' \<noteq> DELEGATION_STATUS_PROVISIONING)"
  by (auto simp: row_moves_def dest: lifecycle_values lifecycle_to_provisioning)

lemma rows_move_inv:
  assumes "rows_move rows rows'" "delegation_inv rows"
  shows "delegation_inv rows'"
proof -
  obtain xs ys where rows': "rows' = xs @ ys" and xs: "list_all2 row_moves rows xs" and ys: "distinct (map dl_id ys)"
    "\<forall>y \<in> set ys. dl_id y \<notin> dl_id ` set rows \<and> dl_status y = DELEGATION_STATUS_PROVISIONING \<and> dl_child_session_id y = None"
    using assms(1) by (auto simp: rows_move_def)
  have ids: "map dl_id xs = map dl_id rows"
    using xs by (induction rule: list_all2_induct) (simp_all add: row_moves_def)
  have origin: "\<exists>r \<in> set rows. row_moves r x" if "x \<in> set xs" for x
    using xs that by (induction rule: list_all2_induct) auto
  let ?ok = "\<lambda>r. dl_status r \<in> DELEGATION_STATUSES \<and> (dl_child_session_id r \<noteq> None \<longrightarrow> dl_status r \<noteq> DELEGATION_STATUS_PROVISIONING)"
  have "?ok x" if "x \<in> set xs" for x
  proof -
    obtain r where "r \<in> set rows" "row_moves r x" using origin \<open>x \<in> set xs\<close> by blast
    then show ?thesis using assms(2) row_moves_inv [of r x] by (simp add: delegation_inv_def)
  qed
  moreover have "?ok y" if "y \<in> set ys" for y using ys that by (simp add: DELEGATION_STATUSES_def)
  moreover have "distinct (map dl_id xs)" "dl_id ` set xs = dl_id ` set rows"
    using assms(2) ids by (simp_all add: delegation_inv_def flip: set_map)
  moreover have "dl_id ` set rows \<inter> dl_id ` set ys = {}" using ys(2) by (simp add: disjoint_iff image_iff) metis
  ultimately show ?thesis
    using ys(1) by (auto simp: delegation_inv_def rows')
qed

interpretation delegations: safe_system "\<lambda>rows. rows = []" "delegation_step sha1" delegation_inv for sha1
proof unfold_locales
  show "rows = [] \<Longrightarrow> delegation_inv rows" for rows by (simp add: delegation_inv_def)
  show "delegation_inv rows \<Longrightarrow> delegation_step sha1 rows rows' \<Longrightarrow> delegation_inv rows'" for rows rows'
    by (blast intro: rows_move_inv delegation_step_moves)
qed

lemma rows_move_row:
  assumes "rows_move rows rows'" "r \<in> set rows"
  shows "\<exists>r' \<in> set rows'. row_moves r r'"
proof -
  obtain xs ys where "rows' = xs @ ys" and xs: "list_all2 row_moves rows xs"
    using assms(1) by (auto simp: rows_move_def)
  moreover have "\<exists>r' \<in> set xs. row_moves r r'" using xs assms(2) by (induction rule: list_all2_induct) auto
  ultimately show ?thesis by auto
qed

lemma find_delegation_iff: "delegation_inv rows \<Longrightarrow> find_delegation i rows = Some r \<longleftrightarrow> r \<in> set rows \<and> dl_id r = i"
  using find_Some_unique [of dl_id rows r i] by (auto simp: find_delegation_def find_Some_iff delegation_inv_def)

lemma step_status:
  assumes "delegation_inv rows" "delegation_step sha1 rows rows'" "find_delegation i rows = Some r"
  shows "\<exists>r'. find_delegation i rows' = Some r' \<and> row_moves r r'"
  using assms rows_move_row [OF delegation_step_moves [OF assms(2,1)], of r] delegations.step_inv [OF assms(1,2)]
  by (auto simp: find_delegation_iff row_moves_def)

subsection \<open>Properties\<close>

text \<open>C12: Outcomes are final. Whatever transactions run afterwards, a delegation that is completed, failed, cancelled or interrupted stays in the table with
  that status.\<close>

theorem delegation_outcome_final:
  assumes "reach (\<lambda>rows. rows = []) (delegation_step sha1) rows" "find_delegation i rows = Some r"
    and "is_terminal_delegation_status (dl_status r)" "(delegation_step sha1)\<^sup>*\<^sup>* rows rows'"
  shows "\<exists>r'. find_delegation i rows' = Some r' \<and> dl_status r' = dl_status r"
proof -
  have "delegation_inv rows' \<and> (\<exists>r'. find_delegation i rows' = Some r' \<and> dl_status r' = dl_status r)"
    using assms(4)
  proof (induction rule: rtranclp_induct)
    case base
    then show ?case using delegations.reach_inv [OF assms(1)] assms(2) by simp
  next
    case (step y z)
    then obtain r1 r2 where "find_delegation i y = Some r1" "dl_status r1 = dl_status r" "find_delegation i z = Some r2" "row_moves r1 r2"
      using step_status [of y sha1 z i] by blast
    then show ?case using step terminal_no_move [of "dl_status r1" "dl_status r2"] assms(3) delegations.step_inv
      by (auto simp: row_moves_def is_terminal_delegation_status_def)
  qed
  then show ?thesis by blast
qed

text \<open>C30: The lifecycle. Every transaction keeps every delegation and its parent, and changes its status only as the policy's transition table allows,
  apart from four moves: a stale reservation is interrupted, and a run's outcome is adopted by a queued child that completed or was interrupted and by a running child that was cancelled.\<close>

theorem delegation_lifecycle:
  assumes "reach (\<lambda>rows. rows = []) (delegation_step sha1) rows" "delegation_step sha1 rows rows'" "find_delegation i rows = Some r"
  shows "\<exists>r'. find_delegation i rows' = Some r' \<and> dl_parent_session_id r' = dl_parent_session_id r
           \<and> (dl_status r' = dl_status r \<or> can_transition (dl_status r) (dl_status r')
              \<or> (dl_status r, dl_status r') \<in> {(''provisioning'', ''interrupted''), (''queued'', ''completed''),
                  (''queued'', ''interrupted''), (''running'', ''cancelled'')})"
  using step_status [OF delegations.reach_inv [OF assms(1)] assms(2,3)]
  by (auto simp: row_moves_def lifecycle_def policy_exceptions_def delegation_status_defs)

text \<open>The policy and the code disagree. A stale reservation in state provisioning is moved to interrupted, a transition that the shared policy refuses.\<close>

theorem stale_violates_policy:
  "snd (claim_stale_provisioning 60 None None None 100 (snd (reserve_delegation ''d'' ''p'' 0 [])))
     = [\<lparr> dl_id = ''d'', dl_parent_session_id = ''p'', dl_child_session_id = None, dl_child_workspace_id = None, dl_status = ''interrupted'',
          dl_cancel_scope = None, dl_created_at = 0, dl_updated_at = 100, dl_started_at = None, dl_completed_at = Some 100,
          dl_error_code = Some ''provisioning_stale'', dl_error_detail_safe = Some ''stale provisioning was interrupted before completion'' \<rparr>]
   \<and> \<not> can_transition ''provisioning'' ''interrupted''"
  by (simp add: claim_stale_provisioning_def reserve_delegation_def cleanup_selection_def update_rows_def can_transition_def
      allowed_transitions_def delegation_status_defs Let_def)

subsection \<open>Witnesses\<close>

definition sample_row :: "string \<Rightarrow> string \<Rightarrow> string option \<Rightarrow> string \<Rightarrow> delegation" where
  "sample_row i parent child status = \<lparr> dl_id = i, dl_parent_session_id = parent, dl_child_session_id = child, dl_child_workspace_id = map_option (\<lambda>_. ''w'') child,
     dl_status = status, dl_cancel_scope = None, dl_created_at = 0, dl_updated_at = 0, dl_started_at = None, dl_completed_at = None,
     dl_error_code = None, dl_error_detail_safe = None \<rparr>"

lemma sample_reserved: "snd (reserve_delegation ''d'' ''p'' 0 []) = [sample_row ''d'' ''p'' None ''provisioning'']"
  by (simp add: reserve_delegation_def sample_row_def delegation_status_defs Let_def)

lemma sample_delegation_reach: "reach (\<lambda>rows. rows = []) (delegation_step sha1) [sample_row ''d'' ''p'' None ''provisioning'']"
  using reach_step [OF reach_init, of "\<lambda>rows. rows = []" "[]" "delegation_step sha1"] ds_reserve [of sha1 "[]" "''d''" "''p''" 0]
  by (simp add: sample_reserved)

theorem delegation_outcome_final_witness:
  "\<exists>r'. find_delegation ''d'' (snd (mark_running ''d'' 2 (snd (claim_provisioning_cancel ''d'' 1 [sample_row ''d'' ''p'' None ''provisioning''])))) = Some r'
     \<and> dl_status r' = ''cancelled''"
proof -
  let ?rows = "snd (claim_provisioning_cancel ''d'' 1 [sample_row ''d'' ''p'' None ''provisioning''])"
  have "reach (\<lambda>rows. rows = []) (delegation_step (\<lambda>b. b)) ?rows"
    by (rule reach_step [OF sample_delegation_reach ds_cancel_provisioning])
  moreover obtain r where r: "find_delegation ''d'' ?rows = Some r" "dl_status r = ''cancelled''"
    by (simp add: claim_provisioning_cancel_def update_rows_def sample_row_def find_delegation_def delegation_status_defs)
  moreover have "is_terminal_delegation_status (dl_status r)"
    by (simp add: r is_terminal_delegation_status_def terminal_cases)
  moreover have "(delegation_step (\<lambda>b. b))\<^sup>*\<^sup>* ?rows (snd (mark_running ''d'' 2 ?rows))"
    by (intro r_into_rtranclp ds_running)
  ultimately show ?thesis using delegation_outcome_final [of "\<lambda>b. b" ?rows "''d''" r] by simp
qed

theorem delegation_lifecycle_witness:
  "\<exists>r'. find_delegation ''d'' (snd (attach_child ''d'' ''w'' ''c'' 1 [sample_row ''d'' ''p'' None ''provisioning''])) = Some r'
     \<and> dl_parent_session_id r' = ''p'' \<and> dl_status r' = ''queued'' \<and> can_transition ''provisioning'' ''queued''"
proof -
  let ?r = "sample_row ''d'' ''p'' None ''provisioning''"
  have "find_delegation ''d'' [?r] = Some ?r" by (simp add: find_delegation_def sample_row_def)
  from delegation_lifecycle [OF sample_delegation_reach [of "\<lambda>b. b"] ds_attach [of _ _ "''d''" "''w''" "''c''" 1] this]
  show ?thesis
    by (auto simp: attach_child_def update_rows_def sample_row_def find_delegation_def delegation_status_defs can_transition_def allowed_transitions_def)
qed

end
