(* ===== verification/Thread_Authority.thy ===== *)
theory Thread_Authority
  imports Thread_Lifecycle
begin

section \<open>Authority over threads\<close>

text \<open>
  Model of the authorization checks of \<^verbatim>\<open>services/thread_orchestration.py\<close>: which session a request may see, which
  delegation a cancel request resolves to, and which threads an agent that calls through its prompt run may reach.
  A request carries its tenant, its user and its database; settings and the monotonic clock are arguments.
\<close>

subsection \<open>Requests, sessions and callers\<close>

record thread_request =
  rq_tenant :: "string option"
  rq_user_email :: "string option"
  rq_database :: "string option"

text \<open>A row of \<^verbatim>\<open>sessions\<close> with the repository its workspace belongs to, when the join finds one; repositories have an owner.\<close>

record thread_session =
  ts_id :: string
  ts_repo :: "string option"

record thread_tables =
  tt_sessions :: "thread_session list"
  tt_repos :: "(string, string option) pydict"
  tt_delegations :: "delegation list"
  tt_prompts :: prompt_db

record verified_caller =
  vc_session_id :: string
  vc_run_id :: string
  vc_tenant_id :: "string option"
  vc_expires_at :: clock
  vc_database_path :: "string option"

definition find_session :: "string \<Rightarrow> thread_tables \<Rightarrow> thread_session option" where
  "find_session i t = find (\<lambda>s. ts_id s = i) (tt_sessions t)"

subsection \<open>Sessions\<close>

text \<open>Python truth of an optional string.\<close>

definition present :: "string option \<Rightarrow> bool" where
  "present x = (x \<noteq> None \<and> x \<noteq> Some [])"

text \<open>The owner that the legacy query joins: \<open>None\<close> when a join finds no row.\<close>

definition session_owner :: "string \<Rightarrow> thread_tables \<Rightarrow> string option option" where
  "session_owner session_id t =
     (case find_session session_id t of
        None \<Rightarrow> None
      | Some s \<Rightarrow> (case ts_repo s of None \<Rightarrow> None | Some repo \<Rightarrow> dget (tt_repos t) repo))"

definition authorize_session :: "thread_request \<Rightarrow> thread_tables \<Rightarrow> string \<Rightarrow> thread_error + unit" where
  "authorize_session request t session_id =
     (if rq_tenant request \<noteq> None
      then (if find_session session_id t = None then Inl (ThreadNotFoundError session_id) else Inr ())
      else case session_owner session_id t of
             None \<Rightarrow> Inl (ThreadNotFoundError session_id)
           | Some owner_email \<Rightarrow>
               if present (rq_user_email request) \<and> present owner_email \<and> owner_email \<noteq> rq_user_email request
               then Inl (ThreadParentNotAuthorizedError ''session is not owned by this user'') else Inr ())"

definition session_repository :: "thread_tables \<Rightarrow> string \<Rightarrow> thread_error + string" where
  "session_repository t session_id =
     (case find_session session_id t of
        None \<Rightarrow> Inl (ThreadNotFoundError session_id)
      | Some s \<Rightarrow> (case ts_repo s of None \<Rightarrow> Inl (ThreadNotFoundError session_id) | Some repo \<Rightarrow> Inr repo))"

subsection \<open>Cancel targets\<close>

definition load_child_delegation :: "thread_request \<Rightarrow> thread_tables \<Rightarrow> string \<Rightarrow> thread_error + delegation" where
  "load_child_delegation request t child_session_id =
     rbind (authorize_session request t child_session_id) (\<lambda>_.
     case find_child_delegation child_session_id (tt_delegations t) of
       None \<Rightarrow> Inl (ThreadNotFoundError child_session_id)
     | Some row \<Rightarrow> Inr row)"

definition resolve_cancel_target :: "thread_request \<Rightarrow> thread_tables \<Rightarrow> string \<Rightarrow> thread_error + delegation" where
  "resolve_cancel_target request t thread_id =
     (if find_session thread_id t \<noteq> None then load_child_delegation request t thread_id
      else case find_delegation thread_id (tt_delegations t) of
             None \<Rightarrow> Inl (ThreadNotFoundError thread_id)
           | Some row \<Rightarrow> rbind (authorize_session request t (dl_parent_session_id row)) (\<lambda>_. Inr row))"

subsection \<open>Callers\<close>

definition authorize_caller_identity :: "thread_request \<Rightarrow> clock \<Rightarrow> thread_tables \<Rightarrow> verified_caller \<Rightarrow> thread_error + unit" where
  "authorize_caller_identity request now t caller =
     (if vc_tenant_id caller \<noteq> rq_tenant request \<or> vc_expires_at caller \<le> now \<or> vc_database_path caller \<noteq> rq_database request
      then Inl (ThreadNotFoundError (vc_session_id caller))
      else rbind (authorize_session request t (vc_session_id caller)) (\<lambda>_.
           case find (\<lambda>r. pr_id r = vc_run_id caller \<and> pr_session_id r = vc_session_id caller) (db_runs (tt_prompts t)) of
             None \<Rightarrow> Inl (ThreadNotFoundError (vc_session_id caller))
           | Some run \<Rightarrow> if pr_status run \<noteq> Running then Inl (ThreadNotFoundError (vc_session_id caller)) else Inr ()))"

definition authorize_caller :: "bool \<Rightarrow> bool \<Rightarrow> thread_request \<Rightarrow> clock \<Rightarrow> thread_tables \<Rightarrow> verified_caller \<Rightarrow> thread_error + unit" where
  "authorize_caller hierarchy_enabled agent_delegation_enabled request now t caller =
     (if \<not> hierarchy_enabled \<or> \<not> agent_delegation_enabled then Inl ThreadHierarchyDisabledError
      else authorize_caller_identity request now t caller)"

text \<open>The walk of \<^verbatim>\<open>authorize_descendant\<close> from the target up to the caller; the first argument counts the rounds left.\<close>

fun walk_to_caller ::
  "nat \<Rightarrow> thread_request \<Rightarrow> thread_tables \<Rightarrow> string \<Rightarrow> string \<Rightarrow> string \<Rightarrow> delegation \<Rightarrow> delegation \<Rightarrow> string list
     \<Rightarrow> thread_error + delegation" where
  "walk_to_caller 0 request t caller_session caller_repo thread_id target current visited = Inl (ThreadNotFoundError thread_id)"
| "walk_to_caller (Suc n) request t caller_session caller_repo thread_id target current visited =
     (let parent_id = dl_parent_session_id current in
      if parent_id \<in> set visited then Inl (ThreadNotFoundError thread_id)
      else rbind (authorize_session request t parent_id) (\<lambda>_.
           rbind (session_repository t parent_id) (\<lambda>repo.
           if repo \<noteq> caller_repo then Inl (ThreadNotFoundError thread_id)
           else if parent_id = caller_session then Inr target
           else case find_child_delegation parent_id (tt_delegations t) of
                  None \<Rightarrow> Inl (ThreadNotFoundError thread_id)
                | Some row \<Rightarrow> walk_to_caller n request t caller_session caller_repo thread_id target row (parent_id # visited))))"

definition authorize_descendant ::
  "bool \<Rightarrow> bool \<Rightarrow> thread_request \<Rightarrow> clock \<Rightarrow> thread_tables \<Rightarrow> verified_caller \<Rightarrow> string \<Rightarrow> thread_error + delegation" where
  "authorize_descendant hierarchy_enabled agent_delegation_enabled request now t caller thread_id =
     rbind (authorize_caller hierarchy_enabled agent_delegation_enabled request now t caller) (\<lambda>_.
     rbind (raise_if (thread_id = vc_session_id caller) (ThreadNotFoundError thread_id)) (\<lambda>_.
     rbind (resolve_cancel_target request t thread_id) (\<lambda>target.
     rbind (session_repository t (vc_session_id caller)) (\<lambda>caller_repo.
     rbind (case dl_child_session_id target of
              None \<Rightarrow> Inr ()
            | Some child_id \<Rightarrow> rbind (session_repository t child_id) (\<lambda>repo.
                                raise_if (repo \<noteq> caller_repo) (ThreadNotFoundError thread_id))) (\<lambda>_.
     rbind (raise_if (dl_child_session_id target = Some (vc_session_id caller)) (ThreadNotFoundError thread_id)) (\<lambda>_.
     walk_to_caller 64 request t (vc_session_id caller) caller_repo thread_id target target [thread_id]))))))"

text \<open>Every target of a cancellation is looked up with the authority of the request or of the calling agent.\<close>

definition cancel_authority ::
  "bool \<Rightarrow> bool \<Rightarrow> thread_request \<Rightarrow> clock \<Rightarrow> thread_tables \<Rightarrow> verified_caller option \<Rightarrow> string \<Rightarrow> thread_error + delegation" where
  "cancel_authority hierarchy_enabled agent_delegation_enabled request now t caller thread_id =
     (case caller of
        Some c \<Rightarrow> authorize_descendant hierarchy_enabled agent_delegation_enabled request now t c thread_id
      | None \<Rightarrow> resolve_cancel_target request t thread_id)"

end
