(* ===== verification/Prompt_Journal_Invariant.thy ===== *)
theory Prompt_Journal_Invariant
  imports Prompt_Journal "HOL-Library.Sublist"
begin

section \<open>Correctness of the prompt journal\<close>

text \<open>
  The invariant of the journal's tables under every interleaving of its transactions, the life of a
  run, the pages of its event log, idempotent starts and appends, recovery, and two places where the
  outcome of a run depends on timing or on which component decides it.
\<close>

subsection \<open>The invariant of the tables\<close>

definition active_rows :: "prompt_db \<Rightarrow> prompt_row list" where
  "active_rows db = filter (\<lambda>r. pr_status r \<in> ACTIVE_STATUSES) (db_runs db)"

definition log_ok :: "string \<Rightarrow> prompt_db \<Rightarrow> bool" where
  "log_ok i db \<longleftrightarrow> map pe_sequence (run_events i db) = [0 ..< length (run_events i db)] \<and> length (run_events i db) \<le> EVENT_COUNT_MAX"

definition stored_ok :: "prompt_event_row \<Rightarrow> bool" where
  "stored_ok e \<longleftrightarrow> (\<exists>n. utf8_length (pe_json e) = Some n \<and> n \<le> EVENT_BYTES_MAX)"

definition db_inv :: "prompt_db \<Rightarrow> bool" where
  "db_inv db \<longleftrightarrow> distinct (map pr_id (db_runs db))
     \<and> distinct (map (\<lambda>r. (pr_session_id r, pr_key r)) (db_runs db))
     \<and> distinct (map pr_session_id (active_rows db))
     \<and> (\<forall>i. log_ok i db) \<and> (\<forall>e \<in> set (db_events db). stored_ok e)"

lemmas status_sets = ACTIVE_STATUSES_def TERMINAL_STATUSES_def

lemma active_or_terminal: "s \<in> ACTIVE_STATUSES \<longleftrightarrow> s \<notin> TERMINAL_STATUSES"
  by (cases s) (simp_all add: status_sets)

lemma insort_snoc: "f y \<le> f x \<Longrightarrow> insort_key f y (S @ [x]) = insort_key f y S @ [x]"
  by (induction S) auto

lemma sort_key_snoc: "\<forall>y \<in> set xs. f y \<le> f x \<Longrightarrow> sort_key f (xs @ [x]) = sort_key f xs @ [x]"
  by (induction xs) (auto simp: insort_snoc)

lemma log_bound: "log_ok i db \<Longrightarrow> e \<in> set (run_events i db) \<Longrightarrow> pe_sequence e < length (run_events i db)"
  by (metis atLeastLessThan_iff atLeastLessThan_upt imageI log_ok_def set_map)

lemma next_sequence: "log_ok i db \<Longrightarrow> next_event_sequence i db = length (run_events i db)"
proof (cases "run_events i db" rule: rev_cases)
  case (snoc xs e)
  assume "log_ok i db"
  then have "map pe_sequence (xs @ [e]) = [0 ..< Suc (length xs)]" by (simp add: log_ok_def snoc)
  then show ?thesis by (simp add: next_event_sequence_def snoc)
qed (simp add: next_event_sequence_def)

lemma run_events_cong: "db_events db' = db_events db \<Longrightarrow> run_events i db' = run_events i db"
  by (simp add: run_events_def)

lemma run_events_insert:
  assumes "log_ok i db" "insert_event \<lparr> pe_run_id = i, pe_sequence = length (run_events i db), pe_json = t \<rparr> db = Some db'"
  shows "run_events k db' = (if k = i then run_events i db @ [\<lparr> pe_run_id = i, pe_sequence = length (run_events i db), pe_json = t \<rparr>] else run_events k db)"
proof -
  have "\<forall>e \<in> set (filter (\<lambda>e. pe_run_id e = i) (db_events db)). pe_sequence e \<le> length (run_events i db)"
    using log_bound [OF assms(1)] by (fastforce simp: run_events_def)
  then show ?thesis using assms(2) by (auto simp: insert_event_def run_events_def sort_key_snoc split: if_splits)
qed

lemma insert_event_inv:
  assumes inv: "db_inv db" and t: "stored_ok \<lparr> pe_run_id = i, pe_sequence = length (run_events i db), pe_json = t \<rparr>"
    and n: "length (run_events i db) < EVENT_COUNT_MAX"
    and ins: "insert_event \<lparr> pe_run_id = i, pe_sequence = length (run_events i db), pe_json = t \<rparr> db = Some db'"
  shows "db_inv db'"
proof -
  have log: "log_ok k db" for k using inv by (simp add: db_inv_def)
  have "log_ok k db'" for k using log [of k] n by (auto simp: log_ok_def run_events_insert [OF log ins])
  moreover have "db_runs db' = db_runs db" "set (db_events db') = insert \<lparr> pe_run_id = i, pe_sequence = length (run_events i db), pe_json = t \<rparr> (set (db_events db))"
    using ins by (auto simp: insert_event_def split: if_splits)
  ultimately show ?thesis using inv t by (simp add: db_inv_def active_rows_def)
qed

lemma update_active_rows:
  assumes "s \<in> ACTIVE_STATUSES \<longrightarrow> expected \<subseteq> ACTIVE_STATUSES"
  shows "subseq (map pr_session_id (active_rows (snd (update_status i expected s db)))) (map pr_session_id (active_rows db))"
proof -
  have "subseq (map pr_session_id (filter (\<lambda>r. pr_status r \<in> ACTIVE_STATUSES)
      (map (\<lambda>r. if pr_id r = i \<and> pr_status r \<in> expected then r\<lparr>pr_status := s\<rparr> else r) rs)))
    (map pr_session_id (filter (\<lambda>r. pr_status r \<in> ACTIVE_STATUSES) rs))" for rs
    using assms by (induction rs) auto
  then show ?thesis by (simp add: active_rows_def update_status_def Let_def)
qed

lemma update_status_fields:
  "map pr_id (db_runs (snd (update_status i expected s db))) = map pr_id (db_runs db)"
  "map (\<lambda>r. (pr_session_id r, pr_key r)) (db_runs (snd (update_status i expected s db))) = map (\<lambda>r. (pr_session_id r, pr_key r)) (db_runs db)"
  "db_events (snd (update_status i expected s db)) = db_events db"
  by (simp_all add: update_status_def Let_def)

lemma distinct_subseq: "subseq xs ys \<Longrightarrow> distinct ys \<Longrightarrow> distinct xs"
  by (auto simp: subseq_conv_nths)

lemma update_status_inv:
  assumes "db_inv db" "s \<in> ACTIVE_STATUSES \<longrightarrow> expected \<subseteq> ACTIVE_STATUSES"
  shows "db_inv (snd (update_status i expected s db))"
  using assms(1) distinct_subseq [OF update_active_rows [OF assms(2), of i db]]
  by (simp add: db_inv_def update_status_fields log_ok_def run_events_cong [OF update_status_fields(3)])

lemma release_session_inv [simp]: "db_inv (release_session reset sid i db) = db_inv db"
  by (simp add: db_inv_def release_session_def active_rows_def log_ok_def run_events_def)

lemma insert_run_inv:
  assumes inv: "db_inv db" and ins: "insert_run row db = Some db'"
  shows "db_inv db'"
proof -
  have db': "db' = db\<lparr>db_runs := db_runs db @ [row]\<rparr>"
    and fresh: "list_all (\<lambda>r. pr_id r \<noteq> pr_id row \<and> (pr_session_id r, pr_key r) \<noteq> (pr_session_id row, pr_key row)) (db_runs db)"
    and act: "pr_status row \<in> ACTIVE_STATUSES \<longrightarrow> active_index_free (pr_session_id row) (db_runs db)"
    using ins by (auto simp: insert_run_def split: if_splits)
  have "distinct (map pr_session_id (active_rows db'))"
    using inv act by (auto simp: db' db_inv_def active_rows_def active_index_free_def list_all_iff)
  moreover have "pr_id row \<notin> pr_id ` set (db_runs db)" "(pr_session_id row, pr_key row) \<notin> (\<lambda>r. (pr_session_id r, pr_key r)) ` set (db_runs db)"
    using fresh by (auto simp: list_all_iff image_iff)
  ultimately show ?thesis using inv by (simp add: db' db_inv_def log_ok_def run_events_def)
qed


subsection \<open>Transactions and interleavings\<close>

text \<open>
  The system: the tables and, for appends that may be retried, the sequence numbers they settled on. Every
  write may follow a read that is out of date: the values read earlier are arbitrary here. Other components
  add and change sessions and messages, and delete sessions with all that belongs to them. \<open>ps_deleted\<close> remembers
  the identities of the runs deleted so far: a start draws its run's identity with \<^verbatim>\<open>uuid4\<close> and so never draws one of them again, and the
  retry of a start whose session was deleted finds no session.
\<close>

record prompt_system =
  ps_db :: prompt_db
  ps_intended :: "(string \<times> nat) list"
  ps_deleted :: "string list"

inductive prompt_step :: "prompt_system \<Rightarrow> prompt_system \<Rightarrow> bool" where
  create: "new_id \<notin> set (ps_deleted s) \<or> sid \<notin> fst ` set (db_sessions (ps_db s)) \<Longrightarrow>
    prompt_step s (s\<lparr>ps_db := snd (create_run_commit new_id sid key guard (ps_db s))\<rparr>)"
| append: "serialize_event event = Inr t \<Longrightarrow> intended = None \<or> (\<exists>n. intended = Some n \<and> (i, n) \<in> set (ps_intended s)) \<Longrightarrow>
    append_attempt i t unless_terminal dedup intended (ps_db s) = (r, intended', db) \<Longrightarrow>
    prompt_step s (s\<lparr>ps_db := db, ps_intended := (case intended' of None \<Rightarrow> [] | Some n \<Rightarrow> [(i, n)]) @ ps_intended s\<rparr>)"
| started: "prompt_step s (s\<lparr>ps_db := snd (set_status_write i Running {Starting} (ps_db s))\<rparr>)"
| stop: "prompt_step s (s\<lparr>ps_db := snd (request_stop_write run sid (ps_db s))\<rparr>)"
| finish: "status \<in> TERMINAL_STATUSES \<Longrightarrow> prompt_step s (s\<lparr>ps_db := snd (set_terminal_write i status seen (ps_db s))\<rparr>)"
| recover: "prompt_step s (s\<lparr>ps_db := snd (recover_prompt_database loads reset (ps_db s))\<rparr>)"
| others: "fst ` set (db_sessions (ps_db s)) \<subseteq> fst ` set sessions \<Longrightarrow>
    prompt_step s (s\<lparr>ps_db := (ps_db s)\<lparr>db_sessions := sessions, db_messages := messages\<rparr>\<rparr>)"
| delete: "prompt_step s (s\<lparr>ps_db := delete_sessions gone (ps_db s),
    ps_deleted := map pr_id (filter (\<lambda>r. pr_session_id r \<in> set gone) (db_runs (ps_db s))) @ ps_deleted s\<rparr>)"

definition prompt_init :: "prompt_system \<Rightarrow> bool" where
  "prompt_init s \<longleftrightarrow> db_runs (ps_db s) = [] \<and> db_events (ps_db s) = [] \<and> ps_intended s = [] \<and> ps_deleted s = []"

text \<open>The foreign key of \<^verbatim>\<open>prompt_events\<close>: only runs have logs.\<close>

definition logs_owned :: "prompt_db \<Rightarrow> bool" where
  "logs_owned db \<longleftrightarrow> (\<forall>i. run_events i db \<noteq> [] \<longrightarrow> i \<in> pr_id ` set (db_runs db))"

definition prompt_inv :: "prompt_system \<Rightarrow> bool" where
  "prompt_inv s \<longleftrightarrow> db_inv (ps_db s) \<and> logs_owned (ps_db s) \<and> pr_id ` set (db_runs (ps_db s)) \<inter> set (ps_deleted s) = {}
     \<and> (\<forall>(i, n) \<in> set (ps_intended s). i \<in> set (ps_deleted s) \<or> n \<le> length (run_events i (ps_db s)))"

text \<open>How a database may evolve while no session is deleted: rows stay, terminal statuses stay, logs only grow at their end.\<close>

definition row_evolves :: "prompt_row \<Rightarrow> prompt_row \<Rightarrow> bool" where
  "row_evolves r r' \<longleftrightarrow> pr_id r' = pr_id r \<and> pr_session_id r' = pr_session_id r \<and> pr_key r' = pr_key r
     \<and> (pr_status r \<in> TERMINAL_STATUSES \<longrightarrow> pr_status r' = pr_status r)
     \<and> (pr_status r = Stopping \<longrightarrow> pr_status r' = Stopping \<or> pr_status r' \<in> TERMINAL_STATUSES)"

definition evolves :: "prompt_db \<Rightarrow> prompt_db \<Rightarrow> bool" where
  "evolves db db' \<longleftrightarrow> (\<forall>r \<in> set (db_runs db). \<exists>r' \<in> set (db_runs db'). row_evolves r r')
     \<and> (\<forall>i. prefix (run_events i db) (run_events i db'))"

lemma row_evolves_refl [simp]: "row_evolves r r"
  by (simp add: row_evolves_def)

lemma row_evolves_trans: "row_evolves a b \<Longrightarrow> row_evolves b c \<Longrightarrow> row_evolves a c"
  by (auto simp: row_evolves_def)

lemma evolves_refl [simp]: "evolves db db"
  unfolding evolves_def using row_evolves_refl by blast

lemma evolves_trans: "evolves a b \<Longrightarrow> evolves b c \<Longrightarrow> evolves a c"
  unfolding evolves_def by (meson prefix_order.order_trans row_evolves_trans)

lemma update_evolves:
  assumes "expected \<subseteq> ACTIVE_STATUSES" "Stopping \<in> expected \<longrightarrow> s \<in> TERMINAL_STATUSES"
  shows "evolves db (snd (update_status i expected s db))"
proof -
  have "row_evolves r (if pr_id r = i \<and> pr_status r \<in> expected then r\<lparr>pr_status := s\<rparr> else r)" for r
    using assms by (auto simp: row_evolves_def active_or_terminal)
  then show ?thesis
    unfolding evolves_def run_events_cong [OF update_status_fields(3)] by (fastforce simp: update_status_def Let_def)
qed

lemma same_rows_grow: "db_runs db' = db_runs db \<Longrightarrow> (\<And>i. prefix (run_events i db) (run_events i db')) \<Longrightarrow> evolves db db'"
  unfolding evolves_def by (metis row_evolves_refl)

lemma same_rows_evolves: "db_runs db' = db_runs db \<Longrightarrow> db_events db' = db_events db \<Longrightarrow> evolves db db'"
  by (rule same_rows_grow) (auto simp: run_events_def)

lemma stored_serialized: "serialize_event event = Inr t \<Longrightarrow> stored_ok \<lparr> pe_run_id = i, pe_sequence = n, pe_json = t \<rparr>"
  by (auto simp: serialize_event_def stored_ok_def rbind_Inr_iff split: option.splits)

lemma stored_interrupted: "stored_ok \<lparr> pe_run_id = i, pe_sequence = n, pe_json = dumps True interrupted_event \<rparr>"
proof -
  have "utf8_length (dumps True interrupted_event) = Some 53"
    by (simp add: interrupted_event_def ascii_def dumps_string_def escape_char_def utf8_len_def)
  then show ?thesis by (simp add: stored_ok_def EVENT_BYTES_MAX_def)
qed

lemma insert_evolves:
  assumes "log_ok i db" "insert_event \<lparr> pe_run_id = i, pe_sequence = length (run_events i db), pe_json = t \<rparr> db = Some db'"
  shows "evolves db db'"
proof -
  have "db_runs db' = db_runs db" using assms(2) by (auto simp: insert_event_def split: if_splits)
  then show ?thesis using run_events_insert [OF assms] by (intro same_rows_grow) auto
qed

lemma append_attempt_shape:
  assumes "append_attempt i t unless_terminal dedup intended db = (r, intended', db')"
  defines "sequence \<equiv> (case intended of Some n \<Rightarrow> n | None \<Rightarrow> next_event_sequence i db)"
  shows "intended' \<in> {intended, Some sequence} \<and> (db' = db \<or> (sequence < EVENT_COUNT_MAX \<and> intended' = Some sequence
    \<and> find (\<lambda>e. pe_run_id e = i \<and> pe_sequence e = sequence) (db_events db) = None
    \<and> insert_event \<lparr> pe_run_id = i, pe_sequence = sequence, pe_json = t \<rparr> db = Some db'))"
  using assms(1) unfolding append_attempt_def sequence_def [symmetric] Let_def
  by (auto split: option.splits if_splits)

lemma log_present:
  assumes "log_ok i db" "n < length (run_events i db)"
  shows "find (\<lambda>e. pe_run_id e = i \<and> pe_sequence e = n) (db_events db) \<noteq> None"
proof -
  have "run_events i db ! n \<in> set (run_events i db)" using assms(2) by simp
  moreover have "pe_sequence (run_events i db ! n) = n"
    using assms nth_map [of n "run_events i db" pe_sequence] by (simp add: log_ok_def)
  ultimately have "\<exists>e \<in> set (db_events db). pe_run_id e = i \<and> pe_sequence e = n" by (auto simp: run_events_def)
  then show ?thesis by (auto simp: find_None_iff)
qed

lemma append_attempt_cases:
  assumes inv: "db_inv db" and t: "serialize_event event = Inr t"
    and n: "\<And>n. intended = Some n \<Longrightarrow> n \<le> length (run_events i db)"
    and a: "append_attempt i t unless_terminal dedup intended db = (r, intended', db')"
  shows "db_inv db' \<and> evolves db db' \<and> (\<forall>n. intended' = Some n \<longrightarrow> n \<le> length (run_events i db'))"
proof -
  have log: "log_ok i db" using inv by (simp add: db_inv_def)
  define sequence where "sequence = (case intended of Some n \<Rightarrow> n | None \<Rightarrow> next_event_sequence i db)"
  have seq: "sequence \<le> length (run_events i db)" using n next_sequence [OF log] by (auto simp: sequence_def split: option.splits)
  note shape = append_attempt_shape [OF a, folded sequence_def]
  show ?thesis
  proof (cases "db' = db")
    case True
    then show ?thesis using shape n seq inv by auto
  next
    case False
    then have ins: "sequence < EVENT_COUNT_MAX" "intended' = Some sequence" "find (\<lambda>e. pe_run_id e = i \<and> pe_sequence e = sequence) (db_events db) = None"
      "insert_event \<lparr> pe_run_id = i, pe_sequence = sequence, pe_json = t \<rparr> db = Some db'" using shape by auto
    have len: "sequence = length (run_events i db)" using log_present [OF log, of sequence] ins(3) seq by linarith
    show ?thesis
      using insert_event_inv [OF inv stored_serialized [OF t]] insert_evolves [OF log] run_events_insert [OF log] ins unfolding len by auto
  qed
qed

subsection \<open>Recovery\<close>

definition recovered_status :: "(utext \<Rightarrow> json option) \<Rightarrow> prompt_db \<Rightarrow> prompt_row \<Rightarrow> prompt_status" where
  "recovered_status loads db row =
     (case derive_terminal_status_from_events loads (pr_id row) db of
        None \<Rightarrow> Interrupted
      | Some s \<Rightarrow> if pr_status row = Stopping then Cancelled else s)"

definition recovered_log :: "(utext \<Rightarrow> json option) \<Rightarrow> prompt_db \<Rightarrow> string \<Rightarrow> prompt_event_row list" where
  "recovered_log loads db i = run_events i db @
     (if derive_terminal_status_from_events loads i db = None \<and> length (run_events i db) < EVENT_COUNT_MAX
      then [\<lparr> pe_run_id = i, pe_sequence = length (run_events i db), pe_json = dumps True interrupted_event \<rparr>] else [])"

lemma derive_terminal: "derive_from_rows loads rows = Some s \<Longrightarrow> s \<in> TERMINAL_STATUSES"
  by (induction rows) (auto simp: terminal_event_final_status_def TERMINAL_STATUSES_def split: option.splits json.splits if_splits)

lemma recovered_terminal: "recovered_status loads db row \<in> TERMINAL_STATUSES"
  by (auto simp: recovered_status_def derive_terminal_status_from_events_def dest: derive_terminal split: option.splits)
     (simp_all add: TERMINAL_STATUSES_def)

lemma recover_row_spec:
  assumes inv: "db_inv db" and row: "pr_id row \<in> pr_id ` set (db_runs db)"
  shows "\<exists>db'. recover_row loads reset row db = Inr (\<lparr> run_id = pr_id row, run_session_id = pr_session_id row, run_status = recovered_status loads db row \<rparr>, db')
    \<and> db_inv db' \<and> evolves db db' \<and> (\<forall>k. run_events k db' = (if k = pr_id row then recovered_log loads db k else run_events k db))
    \<and> db_runs db' = map (\<lambda>r. if pr_id r = pr_id row \<and> pr_status r \<in> ACTIVE_STATUSES then r\<lparr>pr_status := recovered_status loads db row\<rparr> else r) (db_runs db)"
proof -
  let ?i = "pr_id row" and ?s = "recovered_status loads db row"
  let ?e = "\<lparr> pe_run_id = ?i, pe_sequence = next_event_sequence ?i db, pe_json = dumps True interrupted_event \<rparr>"
  let ?j = "if derive_terminal_status_from_events loads ?i db = None \<and> next_event_sequence ?i db < EVENT_COUNT_MAX then insert_event ?e db else Some db"
  have log: "log_ok ?i db" using inv by (simp add: db_inv_def)
  have "list_all (\<lambda>r. (pe_run_id r, pe_sequence r) \<noteq> (?i, next_event_sequence ?i db)) (db_events db)"
    using log_bound [OF log] by (fastforce simp: list_all_iff next_sequence [OF log] run_events_def)
  then have "insert_event ?e db \<noteq> None" using row by (simp add: insert_event_def)
  then obtain db1 where j: "?j = Some db1" by fastforce
  have db1: "db_inv db1 \<and> evolves db db1 \<and> (\<forall>k. run_events k db1 = (if k = ?i then recovered_log loads db k else run_events k db)) \<and> db_runs db1 = db_runs db"
  proof (cases "derive_terminal_status_from_events loads ?i db = None \<and> next_event_sequence ?i db < EVENT_COUNT_MAX")
    case True
    then have ins: "insert_event ?e db = Some db1" using j by simp
    then have "db_runs db1 = db_runs db" by (auto simp: insert_event_def split: if_splits)
    moreover have "length (run_events ?i db) < EVENT_COUNT_MAX" using True by (simp add: next_sequence [OF log])
    ultimately show ?thesis
      using insert_event_inv [OF inv stored_interrupted _ ins [unfolded next_sequence [OF log]]]
        insert_evolves [OF log ins [unfolded next_sequence [OF log]]] run_events_insert [OF log ins [unfolded next_sequence [OF log]]] True
      by (simp add: recovered_log_def)
  next
    case False
    then show ?thesis using j inv by (auto simp: recovered_log_def next_sequence [OF log])
  qed
  let ?db2 = "release_session reset (pr_session_id row) ?i db1"
  let ?db3 = "snd (update_status ?i ACTIVE_STATUSES ?s ?db2)"
  have d2: "db_inv ?db2" using db1 by simp
  have d2': "evolves db1 ?db2" "db_runs ?db2 = db_runs db1" "\<And>k. run_events k ?db2 = run_events k db1"
    by (auto simp: release_session_def run_events_def intro!: same_rows_evolves)
  have "db_inv ?db3" using d2 by (intro update_status_inv) (auto simp: active_or_terminal recovered_terminal)
  moreover have "evolves db ?db3"
    using db1 d2'(1) update_evolves [of ACTIVE_STATUSES ?s ?db2 ?i] evolves_trans recovered_terminal by blast
  moreover have "run_events k ?db3 = (if k = ?i then recovered_log loads db k else run_events k db)" for k
    using db1 d2'(3) run_events_cong [OF update_status_fields(3)] by simp
  moreover have "recover_row loads reset row db = Inr (\<lparr> run_id = ?i, run_session_id = pr_session_id row, run_status = ?s \<rparr>, ?db3)"
    using j by (simp add: recover_row_def Let_def recovered_status_def)
  moreover have "db_runs ?db3 = map (\<lambda>r. if pr_id r = ?i \<and> pr_status r \<in> ACTIVE_STATUSES then r\<lparr>pr_status := ?s\<rparr> else r) (db_runs db)"
    using db1 d2'(2) by (simp add: update_status_def Let_def)
  ultimately show ?thesis by blast
qed


lemma derive_cong: "run_events (pr_id r) db' = run_events (pr_id r) db \<Longrightarrow> 
    recovered_status loads db' r = recovered_status loads db r \<and> recovered_log loads db' (pr_id r) = recovered_log loads db (pr_id r)"
  by (simp add: recovered_status_def recovered_log_def derive_terminal_status_from_events_def)

lemma recover_rows_spec:
  assumes "db_inv db" "set rows \<subseteq> set (active_rows db)" "distinct (map pr_id rows)"
  shows "\<exists>db'. recover_rows loads reset rows db = Inr (map (\<lambda>row. \<lparr> run_id = pr_id row, run_session_id = pr_session_id row,
        run_status = recovered_status loads db row \<rparr>) rows, db')
    \<and> db_inv db' \<and> evolves db db' \<and> (\<forall>k. run_events k db' = (if k \<in> pr_id ` set rows then recovered_log loads db k else run_events k db))
    \<and> db_runs db' = map (\<lambda>r. if r \<in> set rows then r\<lparr>pr_status := recovered_status loads db r\<rparr> else r) (db_runs db)"
  using assms
proof (induction rows arbitrary: db)
  case (Cons row rows)
  have row: "row \<in> set (db_runs db)" "pr_status row \<in> ACTIVE_STATUSES" using Cons.prems(2) by (auto simp: active_rows_def)
  have inj: "r = r'" if "r \<in> set (db_runs db)" "r' \<in> set (db_runs db)" "pr_id r = pr_id r'" for r r'
    using Cons.prems(1) that by (auto simp: db_inv_def distinct_map inj_on_def)
  from recover_row_spec [OF Cons.prems(1), of row loads reset] row obtain db1 where
    one: "recover_row loads reset row db = Inr (\<lparr> run_id = pr_id row, run_session_id = pr_session_id row, run_status = recovered_status loads db row \<rparr>, db1)"
      "db_inv db1" "evolves db db1" and ev: "\<And>k. run_events k db1 = (if k = pr_id row then recovered_log loads db k else run_events k db)"
    and runs1: "db_runs db1 = map (\<lambda>r. if pr_id r = pr_id row \<and> pr_status r \<in> ACTIVE_STATUSES then r\<lparr>pr_status := recovered_status loads db row\<rparr> else r) (db_runs db)"
    by blast
  have other: "r \<in> set (db_runs db) \<and> pr_status r \<in> ACTIVE_STATUSES \<and> pr_id r \<noteq> pr_id row" if "r \<in> set rows" for r
    using Cons.prems(2,3) that by (auto simp: active_rows_def image_iff)
  have runs1': "db_runs db1 = map (\<lambda>r. if r = row then r\<lparr>pr_status := recovered_status loads db r\<rparr> else r) (db_runs db)"
    unfolding runs1 using inj [OF _ row(1)] row(2) by auto
  have same: "recovered_status loads db1 r = recovered_status loads db r" "recovered_log loads db1 (pr_id r) = recovered_log loads db (pr_id r)"
    if "r \<in> set rows" for r using other [OF that] ev derive_cong [of r db1 db loads] by auto
  have "set rows \<subseteq> set (active_rows db1)"
  proof
    fix r assume r: "r \<in> set rows"
    then have "r \<noteq> row" using other by auto
    then have "r \<in> set (db_runs db1)" using other [OF r] unfolding runs1' by force
    then show "r \<in> set (active_rows db1)" using other [OF r] by (simp add: active_rows_def)
  qed
  from Cons.IH [OF one(2) this] Cons.prems(3) obtain db' where
    rest: "recover_rows loads reset rows db1 = Inr (map (\<lambda>row. \<lparr> run_id = pr_id row, run_session_id = pr_session_id row,
        run_status = recovered_status loads db1 row \<rparr>) rows, db')" "db_inv db'" "evolves db1 db'"
      "\<And>k. run_events k db' = (if k \<in> pr_id ` set rows then recovered_log loads db1 k else run_events k db1)"
      "db_runs db' = map (\<lambda>r. if r \<in> set rows then r\<lparr>pr_status := recovered_status loads db1 r\<rparr> else r) (db_runs db1)" by auto
  have "row \<notin> set rows" "row\<lparr>pr_status := recovered_status loads db row\<rparr> \<notin> set rows" using Cons.prems(3) by (auto dest: other)
  then have "db_runs db' = map (\<lambda>r. if r \<in> set (row # rows) then r\<lparr>pr_status := recovered_status loads db r\<rparr> else r) (db_runs db)"
    unfolding rest(5) runs1' using same by auto
  moreover have "map (\<lambda>row. \<lparr> run_id = pr_id row, run_session_id = pr_session_id row, run_status = recovered_status loads db1 row \<rparr>) rows
    = map (\<lambda>row. \<lparr> run_id = pr_id row, run_session_id = pr_session_id row, run_status = recovered_status loads db row \<rparr>) rows" using same by auto
  moreover have "run_events k db' = (if k \<in> pr_id ` set (row # rows) then recovered_log loads db k else run_events k db)" for k
    using rest(4) ev same(2) other by auto
  ultimately show ?case using one rest(1-3) evolves_trans by auto
qed simp

lemma recover_spec:
  assumes inv: "db_inv db"
  shows "\<exists>db'. recover_prompt_database loads reset db = (Inr (map (\<lambda>row. \<lparr> run_id = pr_id row, run_session_id = pr_session_id row,
        run_status = recovered_status loads db row \<rparr>) (active_rows db)), db')
    \<and> db_inv db' \<and> evolves db db' \<and> active_rows db' = []
    \<and> (\<forall>k. run_events k db' = (if k \<in> pr_id ` set (active_rows db) then recovered_log loads db k else run_events k db))
    \<and> db_runs db' = map (\<lambda>r. if pr_status r \<in> ACTIVE_STATUSES then r\<lparr>pr_status := recovered_status loads db r\<rparr> else r) (db_runs db)"
proof -
  have "distinct (map pr_id (active_rows db))" using inv by (simp add: db_inv_def active_rows_def distinct_map_filter)
  from recover_rows_spec [OF inv subset_refl this, of loads reset] obtain db' where
    r: "recover_rows loads reset (active_rows db) db = Inr (map (\<lambda>row. \<lparr> run_id = pr_id row, run_session_id = pr_session_id row,
        run_status = recovered_status loads db row \<rparr>) (active_rows db), db')" "db_inv db'" "evolves db db'"
      "\<forall>k. run_events k db' = (if k \<in> pr_id ` set (active_rows db) then recovered_log loads db k else run_events k db)"
    and runs: "db_runs db' = map (\<lambda>r. if r \<in> set (active_rows db) then r\<lparr>pr_status := recovered_status loads db r\<rparr> else r) (db_runs db)" by blast
  have runs': "db_runs db' = map (\<lambda>r. if pr_status r \<in> ACTIVE_STATUSES then r\<lparr>pr_status := recovered_status loads db r\<rparr> else r) (db_runs db)"
    unfolding runs by (auto simp: active_rows_def)
  have "active_rows db' = []" by (auto simp: active_rows_def [of db'] runs' filter_empty_conv active_or_terminal recovered_terminal)
  then show ?thesis using r runs' by (auto simp: recover_prompt_database_def active_rows_def)
qed


subsection \<open>Every transaction keeps the invariant\<close>

lemma create_cases:
  assumes "create_run_commit new_id sid key guard db = (r, db')"
  shows "db' = db \<or> insert_run \<lparr> pr_id = new_id, pr_session_id = sid, pr_key = key, pr_status = Starting \<rparr> db = Some db'"
  using assms by (auto simp: create_run_commit_def split: option.splits)

lemma insert_run_evolves: "insert_run row db = Some db' \<Longrightarrow> evolves db db'"
  unfolding evolves_def by (auto simp: insert_run_def run_events_def intro: row_evolves_refl split: if_splits)

lemma stop_cases: "snd (request_stop_write run sid db) \<in> {db, snd (update_status (run_id run) {Starting, Running} Stopping db)}"
  by (auto simp: request_stop_write_def split: prod.splits)

lemma finish_cases:
  assumes "status \<in> TERMINAL_STATUSES"
  shows "snd (set_terminal_write i status seen db) = db
    \<or> (\<exists>s sid. s \<in> TERMINAL_STATUSES \<and> snd (set_terminal_write i status seen db) = release_session False sid i (snd (update_status i ACTIVE_STATUSES s db)))"
proof -
  obtain sid st where seen: "seen = (sid, st)" by (cases seen)
  define s where "s = (if st = Stopping then Cancelled else status)"
  have "s \<in> TERMINAL_STATUSES" using assms by (simp add: s_def TERMINAL_STATUSES_def)
  moreover have "snd (set_terminal_write i status seen db) \<in> {db, release_session False sid i (snd (update_status i ACTIVE_STATUSES s db))}"
    by (auto simp: set_terminal_write_def seen s_def Let_def case_prod_beta)
  ultimately show ?thesis by blast
qed

lemma release_evolves: "evolves db db' \<Longrightarrow> evolves db (release_session reset sid i db')"
  using evolves_trans same_rows_evolves [of "release_session reset sid i db'" db'] by (simp add: release_session_def)

text \<open>What a transaction does besides deleting sessions: rows and logs evolve, and only a start adds a row.\<close>

lemma logs_owned_same:
  "logs_owned db \<Longrightarrow> map pr_id (db_runs db') = map pr_id (db_runs db) \<Longrightarrow> db_events db' = db_events db \<Longrightarrow> logs_owned db'"
  unfolding logs_owned_def by (metis list.set_map run_events_cong)

lemma update_status_ids: "pr_id ` set (db_runs (snd (update_status i expected s db))) = pr_id ` set (db_runs db)"
  using update_status_fields(1) [of i expected s db] by (metis list.set_map)

lemma update_status_owned: "logs_owned db \<Longrightarrow> logs_owned (snd (update_status i expected s db))"
  by (rule logs_owned_same) (simp_all add: update_status_fields)

lemma release_owned [simp]: "logs_owned (release_session reset sid i db) = logs_owned db" "db_runs (release_session reset sid i db) = db_runs db"
  by (simp_all add: logs_owned_def release_session_def run_events_def)

lemma append_attempt_owned:
  assumes "append_attempt i t unless_terminal dedup intended db = (r, intended', db')"
  shows "db_runs db' = db_runs db \<and> (logs_owned db \<longrightarrow> logs_owned db')" "find_run i db = None \<Longrightarrow> db' = db \<and> intended' = intended"
proof -
  have "db_runs db' = db_runs db \<and> (db_events db' = db_events db \<or> (i \<in> pr_id ` set (db_runs db) \<and> (\<exists>n. db_events db' = db_events db @ [\<lparr> pe_run_id = i, pe_sequence = n, pe_json = t \<rparr>])))"
    using append_attempt_shape [OF assms] by (auto simp: insert_event_def split: if_splits)
  then show "db_runs db' = db_runs db \<and> (logs_owned db \<longrightarrow> logs_owned db')"
    unfolding logs_owned_def run_events_def by (auto split: if_splits)
  show "find_run i db = None \<Longrightarrow> db' = db \<and> intended' = intended" using assms by (simp add: append_attempt_def)
qed

lemma recover_owned:
  assumes "db_inv db" "logs_owned db"
  shows "logs_owned (snd (recover_prompt_database loads reset db))"
    "pr_id ` set (db_runs (snd (recover_prompt_database loads reset db))) = pr_id ` set (db_runs db)"
proof -
  obtain db' where r: "snd (recover_prompt_database loads reset db) = db'"
    and log: "\<forall>k. run_events k db' = (if k \<in> pr_id ` set (active_rows db) then recovered_log loads db k else run_events k db)"
    and runs: "db_runs db' = map (\<lambda>r. if pr_status r \<in> ACTIVE_STATUSES then r\<lparr>pr_status := recovered_status loads db r\<rparr> else r) (db_runs db)"
    using recover_spec [OF assms(1), of loads reset] by auto
  have "map pr_id (db_runs db') = map pr_id (db_runs db)" unfolding runs by simp
  then have ids: "pr_id ` set (db_runs db') = pr_id ` set (db_runs db)" by (metis list.set_map)
  then show "pr_id ` set (db_runs (snd (recover_prompt_database loads reset db))) = pr_id ` set (db_runs db)" using r by simp
  have "pr_id ` set (active_rows db) \<subseteq> pr_id ` set (db_runs db)" by (auto simp: active_rows_def)
  then have "logs_owned db'" using assms(2) log ids unfolding logs_owned_def by (metis subsetD)
  then show "logs_owned (snd (recover_prompt_database loads reset db))" using r by simp
qed

definition deletes :: "prompt_system \<Rightarrow> prompt_system \<Rightarrow> bool" where
  "deletes s t \<longleftrightarrow> (\<exists>gone. t = s\<lparr>ps_db := delete_sessions gone (ps_db s),
     ps_deleted := map pr_id (filter (\<lambda>r. pr_session_id r \<in> set gone) (db_runs (ps_db s))) @ ps_deleted s\<rparr>)"

lemma prompt_step_kept:
  assumes st: "prompt_step s t" and inv: "prompt_inv s" and nd: "\<not> deletes s t"
  shows "db_inv (ps_db t) \<and> evolves (ps_db s) (ps_db t)"
  using st
proof cases
  case (create new_id sid key guard)
  then show ?thesis
    using create_cases [of new_id sid key guard "ps_db s"] insert_run_inv insert_run_evolves inv
    by (cases "create_run_commit new_id sid key guard (ps_db s)") (auto simp: prompt_inv_def)
next
  case (append event t intended i unless_terminal dedup r intended' db)
  show ?thesis
  proof (cases "find_run i (ps_db s)")
    case None
    then show ?thesis using append_attempt_owned(2) [OF append(4)] append(1) inv by (simp add: prompt_inv_def)
  next
    case (Some row)
    then have "i \<notin> set (ps_deleted s)" using inv by (force simp: prompt_inv_def find_run_def find_Some_iff)
    then show ?thesis using append_attempt_cases [OF _ append(2) _ append(4)] append(1,3) inv by (fastforce simp: prompt_inv_def)
  qed
next
  case (started i)
  have "{Starting} \<subseteq> ACTIVE_STATUSES" by (simp add: ACTIVE_STATUSES_def)
  then show ?thesis
    using update_status_inv [of "ps_db s" Running "{Starting}" i] update_evolves [of "{Starting}" Running "ps_db s" i] inv started
    by (simp add: set_status_write_def prompt_inv_def split: prod.splits)
next
  case (stop run sid)
  have "{Starting, Running} \<subseteq> ACTIVE_STATUSES" by (simp add: ACTIVE_STATUSES_def)
  then show ?thesis
    using update_status_inv [of "ps_db s" Stopping "{Starting, Running}"] update_evolves [of "{Starting, Running}" Stopping "ps_db s"]
      stop_cases [of run sid "ps_db s"] inv stop by (auto simp: prompt_inv_def)
next
  case (finish status i seen)
  show ?thesis
    using finish_cases [OF finish(2), of i seen "ps_db s"] inv finish(1) update_evolves [of ACTIVE_STATUSES _ "ps_db s" i]
    by (auto simp: prompt_inv_def active_or_terminal intro!: update_status_inv release_evolves)
next
  case (recover loads reset)
  then show ?thesis using recover_spec [of "ps_db s" loads reset] inv by (auto simp: prompt_inv_def)
next
  case (others sessions messages)
  then show ?thesis using inv
    by (auto simp: prompt_inv_def db_inv_def active_rows_def log_ok_def run_events_def intro!: same_rows_evolves)
next
  case (delete gone)
  then show ?thesis using nd by (auto simp: deletes_def)
qed

lemma prompt_step_owned:
  assumes st: "prompt_step s t" and inv: "prompt_inv s" and nd: "\<not> deletes s t"
  shows "logs_owned (ps_db t) \<and> pr_id ` set (db_runs (ps_db t)) \<inter> set (ps_deleted s) = {} \<and> ps_deleted t = ps_deleted s"
  using st
proof cases
  case (create new_id sid key guard)
  obtain r db where c: "create_run_commit new_id sid key guard (ps_db s) = (r, db)" by (cases "create_run_commit new_id sid key guard (ps_db s)")
  then have t: "t = s\<lparr>ps_db := db\<rparr>" using create(1) by simp
  from create_cases [OF c] show ?thesis
  proof
    assume "insert_run \<lparr> pr_id = new_id, pr_session_id = sid, pr_key = key, pr_status = Starting \<rparr> (ps_db s) = Some db"
    then have "pr_id ` set (db_runs db) = insert new_id (pr_id ` set (db_runs (ps_db s)))" "db_events db = db_events (ps_db s)" "new_id \<notin> set (ps_deleted s)"
      using create(2) by (auto simp: insert_run_def split: if_splits)
    then show ?thesis using inv by (simp add: t prompt_inv_def logs_owned_def run_events_def)
  qed (use t inv in \<open>simp add: prompt_inv_def\<close>)
next
  case (append event t intended i unless_terminal dedup r intended' db)
  then show ?thesis using append_attempt_owned(1) [OF append(4)] inv by (simp add: prompt_inv_def)
next
  case (started i)
  then show ?thesis using update_status_ids [of i "{Starting}" Running "ps_db s"] update_status_owned [of "ps_db s" i "{Starting}" Running] inv
    by (simp add: set_status_write_def prompt_inv_def split: prod.splits)
next
  case (stop run sid)
  have "snd (request_stop_write run sid (ps_db s)) = ps_db s
      \<or> snd (request_stop_write run sid (ps_db s)) = snd (update_status (run_id run) {Starting, Running} Stopping (ps_db s))"
    using stop_cases [of run sid "ps_db s"] by blast
  then show ?thesis using inv stop by (elim disjE) (simp_all add: prompt_inv_def update_status_ids update_status_owned)
next
  case (finish status i seen)
  from finish_cases [OF finish(2), of i seen "ps_db s"] show ?thesis using inv finish(1)
    by (elim disjE exE conjE) (simp_all add: prompt_inv_def update_status_ids update_status_owned)
next
  case (recover loads reset)
  then show ?thesis using recover_owned [of "ps_db s" loads reset] inv by (simp add: prompt_inv_def)
next
  case (others sessions messages)
  then show ?thesis using inv by (simp add: prompt_inv_def logs_owned_def run_events_def)
next
  case (delete gone)
  then show ?thesis using nd by (auto simp: deletes_def)
qed

text \<open>The cascade.\<close>

lemma run_events_filter:
  "run_events i (db\<lparr>db_events := filter (\<lambda>e. pe_run_id e \<notin> X) (db_events db)\<rparr>) = (if i \<in> X then [] else run_events i db)"
proof -
  have "filter (\<lambda>e. pe_run_id e = i \<and> pe_run_id e \<notin> X) (db_events db) = (if i \<in> X then [] else filter (\<lambda>e. pe_run_id e = i) (db_events db))"
    by (auto simp: filter_empty_conv intro: filter_cong)
  then show ?thesis by (simp add: run_events_def conj_commute)
qed

lemma delete_fields:
  "db_runs (delete_sessions gone db) = filter (\<lambda>r. pr_session_id r \<notin> set gone) (db_runs db)"
  "run_events i (delete_sessions gone db) = (if i \<in> pr_id ` {r \<in> set (db_runs db). pr_session_id r \<in> set gone} then [] else run_events i db)"
  "set (db_events (delete_sessions gone db)) \<subseteq> set (db_events db)"
  "fst ` set (db_sessions (delete_sessions gone db)) = fst ` set (db_sessions db) - set gone"
  using run_events_filter [of i "pr_id ` {r \<in> set (db_runs db). pr_session_id r \<in> set gone}" db]
  by (auto simp: delete_sessions_def Let_def run_events_def image_iff)

lemma delete_inv: "db_inv db \<Longrightarrow> db_inv (delete_sessions gone db)"
proof -
  assume inv: "db_inv db"
  have "log_ok i (delete_sessions gone db)" for i using inv by (simp add: db_inv_def log_ok_def delete_fields)
  moreover have "active_rows (delete_sessions gone db) = filter (\<lambda>r. pr_session_id r \<notin> set gone) (active_rows db)"
    by (auto simp: active_rows_def delete_fields intro: filter_cong)
  ultimately show ?thesis using inv delete_fields(3) [of gone db] unfolding db_inv_def
    by (auto simp: delete_fields(1) distinct_map_filter)
qed

lemma delete_owned:
  assumes "db_inv db" "logs_owned db"
  shows "logs_owned (delete_sessions gone db)"
    "pr_id ` set (db_runs (delete_sessions gone db)) \<inter> pr_id ` {r \<in> set (db_runs db). pr_session_id r \<in> set gone} = {}"
proof -
  show "pr_id ` set (db_runs (delete_sessions gone db)) \<inter> pr_id ` {r \<in> set (db_runs db). pr_session_id r \<in> set gone} = {}"
    using assms(1) by (auto simp: delete_fields db_inv_def distinct_map dest: inj_onD)
  show "logs_owned (delete_sessions gone db)" using assms(2) by (auto simp: logs_owned_def delete_fields image_iff)
qed

lemma evolves_length: "evolves db db' \<Longrightarrow> length (run_events i db) \<le> length (run_events i db')"
  by (simp add: evolves_def prefix_length_le)

lemma prompt_step_inv: "prompt_inv s \<Longrightarrow> prompt_step s t \<Longrightarrow> prompt_inv t"
proof -
  assume inv: "prompt_inv s" and st: "prompt_step s t"
  show ?thesis
  proof (cases "deletes s t")
    case True
    then obtain gone where t: "t = s\<lparr>ps_db := delete_sessions gone (ps_db s),
        ps_deleted := map pr_id (filter (\<lambda>r. pr_session_id r \<in> set gone) (db_runs (ps_db s))) @ ps_deleted s\<rparr>" by (auto simp: deletes_def)
    have "pr_id ` set (db_runs (ps_db t)) \<subseteq> pr_id ` set (db_runs (ps_db s))" by (auto simp: t delete_fields)
    then have "pr_id ` set (db_runs (ps_db t)) \<inter> set (ps_deleted s) = {}" using inv by (auto simp: prompt_inv_def)
    then show ?thesis using inv delete_inv [of "ps_db s" gone] delete_owned [of "ps_db s" gone]
      by (auto simp: t prompt_inv_def delete_fields(2))
  next
    case False
    note db = prompt_step_kept [OF st inv False] and own = prompt_step_owned [OF st inv False]
    have old: "i \<in> set (ps_deleted s) \<or> n \<le> length (run_events i (ps_db t))" if "(i, n) \<in> set (ps_intended s)" for i n
      using that inv evolves_length [of "ps_db s" "ps_db t" i] db by (force simp: prompt_inv_def)
    have "i \<in> set (ps_deleted s) \<or> n \<le> length (run_events i (ps_db t))" if "(i, n) \<in> set (ps_intended t)" for i n
      using st
    proof cases
      case (append event t' intended i' unless_terminal dedup r intended' db')
      have "i' \<in> set (ps_deleted s) \<or> m \<le> length (run_events i' db')" if "intended' = Some m" for m
      proof (cases "find_run i' (ps_db s)")
        case None
        then show ?thesis using append_attempt_owned(2) [OF append(4)] append(3) inv that by (fastforce simp: prompt_inv_def)
      next
        case (Some row)
        then have "i' \<notin> set (ps_deleted s)" using inv by (force simp: prompt_inv_def find_run_def find_Some_iff)
        then show ?thesis using append_attempt_cases [OF _ append(2) _ append(4)] append(3) inv that by (fastforce simp: prompt_inv_def)
      qed
      then show ?thesis using append(1) that old by (auto split: option.splits)
    qed (use old that False in \<open>auto simp: deletes_def\<close>)
    then show ?thesis using db own by (auto simp: prompt_inv_def)
  qed
qed

interpretation prompts: safe_system prompt_init prompt_step prompt_inv
proof
  fix s assume "prompt_init s"
  then show "prompt_inv s" by (simp add: prompt_init_def prompt_inv_def db_inv_def active_rows_def log_ok_def logs_owned_def run_events_def)
qed (rule prompt_step_inv)

text \<open>Over any number of steps a run of the journal either evolves or is gone for good, with its log, since its session was deleted.\<close>

definition run_gone :: "string \<Rightarrow> prompt_system \<Rightarrow> bool" where
  "run_gone i s \<longleftrightarrow> i \<in> set (ps_deleted s)"

lemma run_goneD: "prompt_inv s \<Longrightarrow> run_gone i s \<Longrightarrow> find_run i (ps_db s) = None \<and> run_events i (ps_db s) = []"
  by (fastforce simp: prompt_inv_def run_gone_def logs_owned_def find_run_def find_None_iff)

lemma prompt_step_fate:
  assumes st: "prompt_step s t" and inv: "prompt_inv s" and r: "r \<in> set (db_runs (ps_db s))"
  shows "(\<exists>r' \<in> set (db_runs (ps_db t)). row_evolves r r' \<and> prefix (run_events (pr_id r) (ps_db s)) (run_events (pr_id r) (ps_db t)))
    \<or> (run_gone (pr_id r) t \<and> pr_session_id r \<notin> fst ` set (db_sessions (ps_db t)))"
proof (cases "deletes s t")
  case False
  then show ?thesis using prompt_step_kept [OF st inv False] r by (auto simp: evolves_def)
next
  case True
  then obtain gone where t: "t = s\<lparr>ps_db := delete_sessions gone (ps_db s),
      ps_deleted := map pr_id (filter (\<lambda>r. pr_session_id r \<in> set gone) (db_runs (ps_db s))) @ ps_deleted s\<rparr>" by (auto simp: deletes_def)
  show ?thesis
  proof (cases "pr_session_id r \<in> set gone")
    case True
    then show ?thesis using r by (auto simp: t run_gone_def delete_fields(4))
  next
    case False
    have "pr_id r \<notin> pr_id ` {r \<in> set (db_runs (ps_db s)). pr_session_id r \<in> set gone}"
      using r False inv by (auto simp: prompt_inv_def db_inv_def distinct_map dest: inj_onD)
    then show ?thesis using r False by (auto simp: t delete_fields intro!: bexI [of _ r])
  qed
qed

lemma run_gone_step: "prompt_inv s \<Longrightarrow> prompt_step s t \<Longrightarrow> run_gone i s \<Longrightarrow> run_gone i t"
  using prompt_step_owned [of s t] by (cases "deletes s t") (auto simp: run_gone_def deletes_def)

lemma run_gone_steps: "prompt_step\<^sup>*\<^sup>* s t \<Longrightarrow> prompt_inv s \<Longrightarrow> run_gone i s \<Longrightarrow> run_gone i t"
proof (induction rule: rtranclp_induct)
  case (step t u)
  then show ?case using prompts.steps_inv [OF step(1)] run_gone_step by blast
qed simp

lemma prompt_steps_fate:
  assumes "prompt_step\<^sup>*\<^sup>* s t" "prompt_inv s" "r \<in> set (db_runs (ps_db s))"
  shows "(\<exists>r' \<in> set (db_runs (ps_db t)). row_evolves r r' \<and> prefix (run_events (pr_id r) (ps_db s)) (run_events (pr_id r) (ps_db t)))
    \<or> (run_gone (pr_id r) t \<and> (\<exists>m. prompt_step\<^sup>*\<^sup>* s m \<and> prompt_step\<^sup>*\<^sup>* m t \<and> pr_session_id r \<notin> fst ` set (db_sessions (ps_db m))))"
  using assms(1)
proof (induction rule: rtranclp_induct)
  case base
  then show ?case using assms(3) by (intro disjI1 bexI [of _ r]) auto
next
  case (step t u)
  have inv: "prompt_inv t" by (rule prompts.steps_inv [OF step(1) assms(2)])
  have su: "prompt_step\<^sup>*\<^sup>* s u" using step(1,2) by simp
  from step.IH show ?case
  proof (elim disjE bexE conjE exE)
    fix r' assume r': "r' \<in> set (db_runs (ps_db t))" "row_evolves r r'" "prefix (run_events (pr_id r) (ps_db s)) (run_events (pr_id r) (ps_db t))"
    have id: "pr_id r' = pr_id r" "pr_session_id r' = pr_session_id r" using r'(2) by (simp_all add: row_evolves_def)
    from prompt_step_fate [OF step(2) inv r'(1)] show ?thesis unfolding id
    proof (elim disjE bexE conjE)
      fix q assume "q \<in> set (db_runs (ps_db u))" "row_evolves r' q" "prefix (run_events (pr_id r) (ps_db t)) (run_events (pr_id r) (ps_db u))"
      then show ?thesis using r'(2,3) row_evolves_trans prefix_order.order_trans by blast
    next
      assume "run_gone (pr_id r) u" "pr_session_id r \<notin> fst ` set (db_sessions (ps_db u))"
      then show ?thesis using su by blast
    qed
  next
    fix m assume "run_gone (pr_id r) t" "prompt_step\<^sup>*\<^sup>* s m" "prompt_step\<^sup>*\<^sup>* m t" "pr_session_id r \<notin> fst ` set (db_sessions (ps_db m))"
    then show ?thesis using run_gone_step [OF inv step(2)] step(2) rtranclp.rtrancl_into_rtrancl by metis
  qed
qed

end
