(* ===== verification/Prompt_Journal_Properties.thy ===== *)
theory Prompt_Journal_Properties
  imports Prompt_Journal_Invariant
begin

section \<open>Properties of the prompt journal\<close>

text \<open>
  What the journal promises a client: consistent tables, final outcomes, complete pages, idempotent
  starts, appends and cancellations, recovery after a crash, and the outcome of a run.
\<close>

subsection \<open>Consistency and the life of a run\<close>

lemma distinct_filter_one: "distinct (map f (filter P xs)) \<Longrightarrow> length (filter (\<lambda>x. f x = y \<and> P x) xs) \<le> 1"
proof -
  assume "distinct (map f (filter P xs))"
  then have "distinct (map f (filter (\<lambda>x. f x = y) (filter P xs)))" by (rule distinct_map_filter)
  moreover have "map f (filter (\<lambda>x. f x = y) (filter P xs)) = replicate (length (filter (\<lambda>x. f x = y \<and> P x) xs)) y"
    by (induction xs) auto
  ultimately have "distinct (replicate (length (filter (\<lambda>x. f x = y \<and> P x) xs)) y)" by simp
  then show ?thesis using distinct_card [of "replicate (length (filter (\<lambda>x. f x = y \<and> P x) xs)) y"] by (simp add: set_replicate_conv_if split: if_splits)
qed

text \<open>C10: In every state the journal's tables can reach, however its transactions are interleaved with each other, with out-of-date reads, with
  retries and with deletions of sessions, a run's identity is unique, a session has at most one active run, an idempotency key names at most one
  run of a session, every log belongs to an existing run, and every run's log is numbered from zero without gaps, with at most 100000 events of
  at most 1 MiB.\<close>

theorem prompt_journal_consistent:
  assumes "reach prompt_init prompt_step s"
  shows "length (filter (\<lambda>r. pr_id r = i) (db_runs (ps_db s))) \<le> 1
    \<and> length (filter (\<lambda>r. pr_session_id r = sid \<and> pr_status r \<in> ACTIVE_STATUSES) (db_runs (ps_db s))) \<le> 1
    \<and> length (filter (\<lambda>r. (pr_session_id r, pr_key r) = (sid, key)) (db_runs (ps_db s))) \<le> 1
    \<and> (run_events i (ps_db s) \<noteq> [] \<longrightarrow> i \<in> pr_id ` set (db_runs (ps_db s)))
    \<and> map pe_sequence (run_events i (ps_db s)) = [0 ..< length (run_events i (ps_db s))] \<and> length (run_events i (ps_db s)) \<le> 100000
    \<and> (\<forall>e \<in> set (db_events (ps_db s)). \<exists>n. utf8_length (pe_json e) = Some n \<and> n \<le> 1048576)"
proof -
  have inv: "db_inv (ps_db s)" and own: "logs_owned (ps_db s)" using prompts.reach_inv [OF assms] by (simp_all add: prompt_inv_def)
  have "length (filter (\<lambda>r. (pr_session_id r, pr_key r) = (sid, key)) (db_runs (ps_db s))) \<le> 1"
    using inv distinct_filter_one [of "\<lambda>r. (pr_session_id r, pr_key r)" "\<lambda>r. True" "db_runs (ps_db s)" "(sid, key)"] by (simp add: db_inv_def)
  moreover have "length (filter (\<lambda>r. pr_id r = i) (db_runs (ps_db s))) \<le> 1"
    using inv distinct_filter_one [of pr_id "\<lambda>r. True" "db_runs (ps_db s)" i] by (simp add: db_inv_def)
  moreover have "length (filter (\<lambda>r. pr_session_id r = sid \<and> pr_status r \<in> ACTIVE_STATUSES) (db_runs (ps_db s))) \<le> 1"
    using inv distinct_filter_one [of pr_session_id "\<lambda>r. pr_status r \<in> ACTIVE_STATUSES" "db_runs (ps_db s)" sid]
    by (simp add: db_inv_def active_rows_def)
  ultimately show ?thesis using inv own by (simp add: db_inv_def logs_owned_def log_ok_def stored_ok_def EVENT_COUNT_MAX_def EVENT_BYTES_MAX_def)
qed

text \<open>C11: Outcomes are final and logs are append-only. From any reachable state on, whatever transactions follow, a run either is still there, with
  its identity, with the same status if that was terminal, never running again if it was stopping, and with a log that only grew at its end; or
  its session was deleted in between, and then the run and its whole log are gone and never come back.\<close>

theorem prompt_outcome_final:
  assumes "reach prompt_init prompt_step s" "prompt_step\<^sup>*\<^sup>* s t" "r \<in> set (db_runs (ps_db s))"
  shows "((\<exists>r' \<in> set (db_runs (ps_db t)). pr_id r' = pr_id r \<and> pr_session_id r' = pr_session_id r \<and> pr_key r' = pr_key r
        \<and> (pr_status r \<in> TERMINAL_STATUSES \<longrightarrow> pr_status r' = pr_status r)
        \<and> (pr_status r = Stopping \<longrightarrow> pr_status r' = Stopping \<or> pr_status r' \<in> TERMINAL_STATUSES))
      \<and> prefix (run_events (pr_id r) (ps_db s)) (run_events (pr_id r) (ps_db t)))
    \<or> ((\<exists>m. prompt_step\<^sup>*\<^sup>* s m \<and> prompt_step\<^sup>*\<^sup>* m t \<and> pr_session_id r \<notin> fst ` set (db_sessions (ps_db m)))
      \<and> (\<forall>u. prompt_step\<^sup>*\<^sup>* t u \<longrightarrow> find_run (pr_id r) (ps_db u) = None \<and> run_events (pr_id r) (ps_db u) = []))"
proof -
  have inv: "prompt_inv s" "prompt_inv t" using prompts.reach_inv [OF assms(1)] prompts.steps_inv [OF assms(2)] by simp_all
  have "find_run (pr_id r) (ps_db u) = None \<and> run_events (pr_id r) (ps_db u) = []" if "run_gone (pr_id r) t" "prompt_step\<^sup>*\<^sup>* t u" for u
    using run_goneD prompts.steps_inv [OF that(2) inv(2)] run_gone_steps [OF that(2) inv(2) that(1)] by blast
  then show ?thesis using prompt_steps_fate [OF assms(2) inv(1) assms(3)] unfolding row_evolves_def by blast
qed

subsection \<open>Pages\<close>

lemma page_rows_spec:
  assumes "map pe_sequence rows = [c ..< c + length rows]" "\<forall>e \<in> set rows. stored_ok e \<and> (\<exists>kvs. loads (pe_json e) = Some (JObj kvs))"
  shows "\<exists>k \<le> length rows. page_rows loads rows evs c b = Inr (evs @ map (\<lambda>e. the (loads (pe_json e))) (take k rows), c + k)
    \<and> (evs = [] \<and> rows \<noteq> [] \<longrightarrow> 0 < k)"
  using assms
proof (induction rows arbitrary: evs c b)
  case (Cons row rows)
  have seq: "pe_sequence row = c" "map pe_sequence rows = [Suc c ..< Suc c + length rows]"
    using Cons.prems(1) by (simp_all add: upt_conv_Cons del: upt_Suc)
  obtain n kvs where row: "utf8_length (pe_json row) = Some n" "loads (pe_json row) = Some (JObj kvs)"
    using Cons.prems(2) by (auto simp: stored_ok_def)
  show ?case
  proof (cases "evs \<noteq> [] \<and> b + n > PAGE_BYTES_MAX")
    case True
    then show ?thesis using seq(1) row by (intro exI [of _ 0]) simp
  next
    case False
    have "\<forall>e \<in> set rows. stored_ok e \<and> (\<exists>kvs. loads (pe_json e) = Some (JObj kvs))" using Cons.prems(2) by simp
    from Cons.IH [OF seq(2) this, of "evs @ [JObj kvs]" "b + n"] obtain k where
      k: "k \<le> length rows" "page_rows loads rows (evs @ [JObj kvs]) (Suc c) (b + n) =
        Inr ((evs @ [JObj kvs]) @ map (\<lambda>e. the (loads (pe_json e))) (take k rows), Suc c + k)" by blast
    show ?thesis using False seq(1) row k by (intro exI [of _ "Suc k"]) auto
  qed
qed simp

definition log_readable :: "(utext \<Rightarrow> json option) \<Rightarrow> string \<Rightarrow> string \<Rightarrow> prompt_db \<Rightarrow> bool" where
  "log_readable loads sid i db \<longleftrightarrow> db_inv db \<and> find (\<lambda>r. pr_id r = i \<and> pr_session_id r = sid) (db_runs db) \<noteq> None
     \<and> (\<forall>e \<in> set (run_events i db). \<exists>kvs. loads (pe_json e) = Some (JObj kvs))"

definition read_event_page :: "(utext \<Rightarrow> json option) \<Rightarrow> string \<Rightarrow> string \<Rightarrow> prompt_db \<Rightarrow> nat \<Rightarrow> prompt_error + (json list \<times> nat)" where
  "read_event_page loads sid i db c = rbind (read_events loads sid i c db) (\<lambda>b. Inr (peb_events b, peb_next_sequence b))"

lemma filter_sequence_drop:
  "map f xs = [b ..< b + length xs] \<Longrightarrow> b \<le> c \<Longrightarrow> filter (\<lambda>x. c \<le> f x) xs = drop (c - b) xs"
proof (induction xs arbitrary: b)
  case (Cons x xs)
  have x: "f x = b" "map f xs = [Suc b ..< Suc b + length xs]" using Cons.prems(1) by (simp_all add: upt_conv_Cons del: upt_Suc)
  show ?case
  proof (cases "c = b")
    case True
    have "filter (\<lambda>x. b \<le> f x) xs = xs"
      using x(2) by (metis (mono_tags, lifting) Suc_leD atLeastLessThan_iff filter_True imageI set_map set_upt)
    then show ?thesis using True x(1) by simp
  next
    case False
    then have "filter (\<lambda>x. c \<le> f x) xs = drop (c - Suc b) xs" using Cons.prems(2) by (intro Cons.IH [OF x(2)]) simp
    then show ?thesis using False Cons.prems(2) x(1) by (simp add: drop_Cons' Suc_diff_Suc) 
  qed
qed simp

lemma read_event_page_eq:
  assumes ok: "log_readable loads sid i db" and c: "c \<le> length (run_events i db)"
  shows "\<exists>k \<le> length (run_events i db) - c. read_event_page loads sid i db c =
      Inr (take k (drop c (map (\<lambda>e. the (loads (pe_json e))) (run_events i db))), c + k)
    \<and> (c < length (run_events i db) \<longrightarrow> 0 < k)"
proof -
  let ?evs = "run_events i db" and ?rows = "take PAGE_COUNT_MAX (drop c (run_events i db))"
  have log: "map pe_sequence ?evs = [0 ..< length ?evs]" and st: "\<forall>e \<in> set ?evs. stored_ok e"
    using ok by (auto simp: log_readable_def db_inv_def log_ok_def run_events_def)
  have "filter (\<lambda>e. c \<le> pe_sequence e) ?evs = drop c ?evs" using filter_sequence_drop [of pe_sequence ?evs 0 c] log by simp
  moreover have "map pe_sequence ?rows = [c ..< c + length ?rows]"
    using log c by (simp add: take_map [symmetric] drop_map [symmetric] drop_upt take_upt min_def)
  moreover have "\<forall>e \<in> set ?rows. stored_ok e \<and> (\<exists>kvs. loads (pe_json e) = Some (JObj kvs))"
    using ok st by (auto simp: log_readable_def dest!: in_set_takeD in_set_dropD)
  ultimately obtain k where k: "k \<le> length ?rows" "page_rows loads (take PAGE_COUNT_MAX (filter (\<lambda>e. c \<le> pe_sequence e) ?evs)) [] c 0
      = Inr (map (\<lambda>e. the (loads (pe_json e))) (take k ?rows), c + k)" "?rows \<noteq> [] \<longrightarrow> 0 < k"
    using page_rows_spec [of ?rows c loads "[]" 0] by (auto simp del: take_eq_Nil length_take)
  obtain r where "find (\<lambda>r. pr_id r = i \<and> pr_session_id r = sid) (db_runs db) = Some r" using ok by (auto simp: log_readable_def)
  then have "read_event_page loads sid i db c = Inr (map (\<lambda>e. the (loads (pe_json e))) (take k ?rows), c + k)"
    using k(2) by (simp add: read_event_page_def read_events_def)
  moreover have "take k ?rows = take k (drop c ?evs)" using k(1) by simp
  moreover have "c < length ?evs \<Longrightarrow> ?rows \<noteq> []" by (simp add: PAGE_COUNT_MAX_def)
  ultimately show ?thesis using k by (intro exI [of _ k]) (auto simp: take_map drop_map)
qed

interpretation prompt_log: event_pager "read_event_page loads sid i" "\<lambda>db. 0"
    "\<lambda>db. map (\<lambda>e. the (loads (pe_json e))) (run_events i db)" "log_readable loads sid i" for loads sid i
proof
  fix db c
  assume "log_readable loads sid i db" "c \<le> 0 + length (map (\<lambda>e. the (loads (pe_json e))) (run_events i db))"
  then show "\<exists>k. read_event_page loads sid i db c = Inr (take k (drop (c - 0) (map (\<lambda>e. the (loads (pe_json e))) (run_events i db))), c + k)
      \<and> c + k \<le> 0 + length (map (\<lambda>e. the (loads (pe_json e))) (run_events i db))
      \<and> (c < 0 + length (map (\<lambda>e. the (loads (pe_json e))) (run_events i db)) \<longrightarrow> 0 < k)"
    using read_event_page_eq [of loads sid i db c] by fastforce
qed

text \<open>A reconnecting client reads the whole log. For a run of the session whose stored events parse as objects, a client that keeps asking
  for pages from the returned cursor receives every event from its cursor on, once each and in order, ends at the length of the log, and makes
  progress with every page before that.\<close>

theorem prompt_pages_complete:
  assumes "log_readable loads sid i db" "c \<le> length (run_events i db)" "length (run_events i db) - c \<le> n"
  shows "drain (read_event_page loads sid i) n db c =
      Inr (drop c (map (\<lambda>e. the (loads (pe_json e))) (run_events i db)), length (run_events i db))
    \<and> (c < length (run_events i db) \<longrightarrow> (\<exists>evs c'. read_event_page loads sid i db c = Inr (evs, c') \<and> evs \<noteq> [] \<and> c < c'))"
  using prompt_log.drain_all [of loads sid i db c n] prompt_log.read_progress [of loads sid i db c] assms by simp


subsection \<open>Starting a run\<close>

lemma find_by_key_iff:
  assumes "db_inv db"
  shows "find_by_key sid key db = Some r \<longleftrightarrow> r \<in> set (db_runs db) \<and> pr_session_id r = sid \<and> pr_key r = key"
proof
  assume "find_by_key sid key db = Some r"
  then show "r \<in> set (db_runs db) \<and> pr_session_id r = sid \<and> pr_key r = key"
    by (auto simp: find_by_key_def find_Some_iff)
next
  assume r: "r \<in> set (db_runs db) \<and> pr_session_id r = sid \<and> pr_key r = key"
  then show "find_by_key sid key db = Some r"
    using find_Some_unique [of "\<lambda>r. (pr_session_id r, pr_key r)" "db_runs db" r "(sid, key)"] assms by (simp add: find_by_key_def db_inv_def)
qed

lemma find_run_iff:
  assumes "db_inv db"
  shows "find_run i db = Some r \<longleftrightarrow> r \<in> set (db_runs db) \<and> pr_id r = i"
  using find_Some_unique [of pr_id "db_runs db" r i] assms by (auto simp: find_run_def db_inv_def find_Some_iff)

lemma row_to_run_Inr:
  "row_to_run r = Inr run \<longleftrightarrow> length (pr_id r) = 32 \<and> run = \<lparr> run_id = pr_id r, run_session_id = pr_session_id r, run_status = pr_status r \<rparr>"
  by (auto simp: row_to_run_def rbind_Inr_iff active_or_terminal)

text \<open>Starts are exclusive. With a fresh key for a known session and an admitting guard, a start is refused with a conflict and no change while the
  session has an active run, and otherwise adds exactly one run in state starting; a start for an unknown session is refused.\<close>

theorem start_exclusive:
  assumes inv: "db_inv db" and key: "find_by_key sid key db = None" and guard: "guard = None \<or> (\<exists>g. guard = Some g \<and> g db = None)"
    and new: "new_id \<notin> pr_id ` set (db_runs db)"
  shows "create_run new_id sid key guard db =
    (if sid \<notin> fst ` set (db_sessions db) then (Inl (PromptRunNotFoundError ''session not found''), db)
     else if find_active sid db \<noteq> None then (Inl (PromptRunConflictError ''session already has an active prompt run''), db)
     else (Inr (\<lparr> run_id = new_id, run_session_id = sid, run_status = Starting \<rparr>, True),
           db\<lparr>db_runs := db_runs db @ [\<lparr> pr_id = new_id, pr_session_id = sid, pr_key = key, pr_status = Starting \<rparr>]\<rparr>))"
proof -
  have g: "(case guard of None \<Rightarrow> None | Some g \<Rightarrow> g db) = None" using guard by auto
  have fresh: "list_all (\<lambda>r. pr_id r \<noteq> new_id \<and> (pr_session_id r = sid \<longrightarrow> pr_key r \<noteq> key)) (db_runs db)"
    using new key by (auto simp: list_all_iff find_by_key_def find_None_iff)
  have act: "active_index_free sid (db_runs db) \<longleftrightarrow> find_active sid db = None"
    by (auto simp: active_index_free_def find_active_def list_all_iff find_None_iff)
  have "Starting \<in> ACTIVE_STATUSES" by (simp add: ACTIVE_STATUSES_def)
  then show ?thesis
    by (simp add: create_run_def create_run_probe_def create_run_commit_def create_run_resolve_def insert_run_def key g fresh act)
qed

lemma create_run_Inr:
  assumes "create_run new_id sid key guard db = (Inr (run, created), db')" "length new_id = 32"
  shows "\<exists>r \<in> set (db_runs db'). pr_session_id r = sid \<and> pr_key r = key \<and> pr_id r = run_id run \<and> length (pr_id r) = 32"
proof (cases "find_by_key sid key db")
  case (Some r)
  then have "r \<in> set (db_runs db) \<and> pr_session_id r = sid \<and> pr_key r = key" by (auto simp: find_by_key_def find_Some_iff)
  then show ?thesis using Some assms(1)
    by (auto simp: create_run_def create_run_probe_def existing_run_def rbind_Inr_iff row_to_run_Inr)
next
  case None
  then show ?thesis using assms
    by (auto simp: create_run_def create_run_probe_def create_run_commit_def create_run_resolve_def insert_run_def
        split: if_splits option.splits prompt_error.splits)
qed

text \<open>Starts are idempotent. Once a start with some idempotency key has returned a run, then in every later state in which that run has not been deleted with
  its session a start with the same key for that session returns that run, as not created, without consulting the guard and without changing anything.\<close>

theorem start_idempotent:
  assumes s: "reach prompt_init prompt_step s" and first: "create_run new_id sid key guard (ps_db s) = (Inr (run, created), db')"
    and id: "length new_id = 32" "new_id \<notin> set (ps_deleted s)" and later: "prompt_step\<^sup>*\<^sup>* (s\<lparr>ps_db := db'\<rparr>) t" and other: "new_id' \<noteq> run_id run"
    and kept: "find_run (run_id run) (ps_db t) \<noteq> None"
  shows "\<exists>run'. create_run new_id' sid key guard' (ps_db t) = (Inr (run', False), ps_db t) \<and> run_id run' = run_id run \<and> run_session_id run' = sid"
proof -
  have inv: "prompt_inv s" by (rule prompts.reach_inv [OF s])
  have step: "db' = ps_db s \<or> db' = snd (create_run_commit new_id sid key guard (ps_db s))"
    using first by (auto simp: create_run_def split: option.splits sum.splits prod.splits prompt_error.splits)
  then have st: "s\<lparr>ps_db := db'\<rparr> = s \<or> prompt_step s (s\<lparr>ps_db := db'\<rparr>)" using prompt_step.create [of new_id s sid key guard] id(2) by auto
  then have inv': "prompt_inv (s\<lparr>ps_db := db'\<rparr>)" using inv prompt_step_inv by metis
  obtain r where r: "r \<in> set (db_runs db')" "pr_session_id r = sid" "pr_key r = key" "pr_id r = run_id run" "length (pr_id r) = 32"
    using create_run_Inr [OF first id(1)] by blast
  have invt: "prompt_inv t" using prompts.steps_inv [OF later inv'] .
  have "\<not> run_gone (pr_id r) t" using run_goneD [OF invt] kept r(4) by auto
  then obtain r' where r': "r' \<in> set (db_runs (ps_db t))" "row_evolves r r'" using prompt_steps_fate [OF later inv', of r] r(1) by auto
  then have "find_by_key sid key (ps_db t) = Some r'" using r invt by (simp add: prompt_inv_def find_by_key_iff row_evolves_def)
  then show ?thesis using r r' other
    by (auto simp: create_run_def create_run_probe_def existing_run_def rbind_Inr_iff row_evolves_def row_to_run_def active_or_terminal)
qed


subsection \<open>Appending an event\<close>

lemma find_event_unique:
  assumes log: "log_ok i db" and n: "n < length (run_events i db)"
  shows "find (\<lambda>e. pe_run_id e = i \<and> pe_sequence e = n) (db_events db) = Some (run_events i db ! n)"
proof -
  have "distinct (map pe_sequence (run_events i db))" using log by (simp add: log_ok_def)
  moreover obtain e where e: "find (\<lambda>e. pe_run_id e = i \<and> pe_sequence e = n) (db_events db) = Some e"
    using log_present [OF assms] by blast
  then have "e \<in> set (run_events i db)" "pe_sequence e = n" by (auto simp: run_events_def find_Some_iff)
  moreover have "pe_sequence (run_events i db ! n) = n" using assms nth_map [of n "run_events i db" pe_sequence] by (simp add: log_ok_def)
  moreover have "run_events i db ! n \<in> set (run_events i db)" using n by simp
  ultimately show ?thesis using e by (auto simp: distinct_map inj_on_def)
qed

text \<open>C25: Appends are exactly-once. If a transaction that appended an event is retried, because its commit could not be confirmed, with the same flags and the sequence
  number it settled on, then whatever happened since, the retry adds nothing: it reports success, or that there is no such run if that was deleted with its session.\<close>

theorem append_exactly_once:
  assumes s: "reach prompt_init prompt_step s" and ser: "serialize_event event = Inr t"
    and a: "append_attempt i t ut dd None (ps_db s) = (Inr Appended, Some n, db')"
    and later: "prompt_step\<^sup>*\<^sup>* (s\<lparr>ps_db := db', ps_intended := (i, n) # ps_intended s\<rparr>) u"
  shows "run_events i db' = run_events i (ps_db s) @ [\<lparr> pe_run_id = i, pe_sequence = n, pe_json = t \<rparr>]
    \<and> append_attempt i t ut dd (Some n) (ps_db u) =
        (if find_run i (ps_db u) = None then Inl (PromptRunNotFoundError ''prompt run not found'') else Inr Skipped, Some n, ps_db u)"
proof -
  let ?s = "s\<lparr>ps_db := db', ps_intended := (i, n) # ps_intended s\<rparr>" and ?e = "\<lparr> pe_run_id = i, pe_sequence = n, pe_json = t \<rparr>"
  have inv: "prompt_inv s" by (rule prompts.reach_inv [OF s])
  then have log: "log_ok i (ps_db s)" by (simp add: prompt_inv_def db_inv_def)
  have "prompt_step s ?s" using prompt_step.append [OF ser _ a] by simp
  then have inv': "prompt_inv ?s" using prompt_step_inv inv by blast
  have n: "n = length (run_events i (ps_db s))" "n < EVENT_COUNT_MAX" and ins: "insert_event ?e (ps_db s) = Some db'"
    using a by (auto simp: append_attempt_def Let_def next_sequence [OF log] split: option.splits if_splits)
  have ev: "run_events i db' = run_events i (ps_db s) @ [?e]" using run_events_insert [OF log, of t db' i] ins n by simp
  have "append_attempt i t ut dd (Some n) (ps_db u) = (Inr Skipped, Some n, ps_db u)" if "find_run i (ps_db u) \<noteq> None"
  proof -
    have invu: "prompt_inv u" using prompts.steps_inv [OF later inv'] .
    obtain r where r: "r \<in> set (db_runs db')" "pr_id r = i" using ins by (auto simp: insert_event_def split: if_splits)
    have "\<not> run_gone i u" using run_goneD [OF invu, of i] that by auto
    then have "prefix (run_events i db') (run_events i (ps_db u))" using prompt_steps_fate [OF later inv', of r] r by auto
    then obtain ys where "run_events i (ps_db u) = run_events i (ps_db s) @ ?e # ys" using ev by (auto simp: prefix_def)
    then have "n < length (run_events i (ps_db u))" "run_events i (ps_db u) ! n = ?e" using n(1) by simp_all
    then show ?thesis using that n(2) find_event_unique [of i "ps_db u" n] invu
      by (auto simp: append_attempt_def Let_def prompt_inv_def db_inv_def)
  qed
  then show ?thesis using ev by (simp add: append_attempt_def)
qed

subsection \<open>Stopping a run\<close>

lemma filter_unique: "distinct (map f xs) \<Longrightarrow> x \<in> set xs \<Longrightarrow> filter (\<lambda>y. f y = f x \<and> P y) xs = (if P x then [x] else [])"
proof (induction xs)
  case (Cons y xs)
  have "filter (\<lambda>z. f z = f y \<and> P z) xs = []" using Cons.prems(1) by (auto simp: filter_empty_conv image_iff)
  then show ?case using Cons by auto
qed simp

lemma update_row:
  assumes inv: "db_inv db" and r: "find_run i db = Some r" "pr_status r \<in> expected"
  shows "fst (update_status i expected s db) = 1" "find_run i (snd (update_status i expected s db)) = Some (r\<lparr>pr_status := s\<rparr>)"
proof -
  have m: "r \<in> set (db_runs db)" "pr_id r = i" using r(1) inv by (simp_all add: find_run_iff)
  show "fst (update_status i expected s db) = 1"
    using filter_unique [of pr_id "db_runs db" r "\<lambda>r. pr_status r \<in> expected"] m r(2) inv by (simp add: update_status_def Let_def db_inv_def)
  have "find (\<lambda>r. pr_id r = i) (map (\<lambda>r. if pr_id r = i \<and> pr_status r \<in> expected then r\<lparr>pr_status := s\<rparr> else r) rs)
      = map_option (\<lambda>r. if pr_status r \<in> expected then r\<lparr>pr_status := s\<rparr> else r) (find (\<lambda>r. pr_id r = i) rs)" for rs :: "prompt_row list"
    by (induction rs) auto
  then show "find_run i (snd (update_status i expected s db)) = Some (r\<lparr>pr_status := s\<rparr>)"
    using r by (simp add: find_run_def update_status_def Let_def)
qed

lemma find_run_release [simp]: "find_run i (release_session reset sid k db) = find_run i db"
  by (simp add: find_run_def release_session_def)

lemma set_terminal_active:
  assumes inv: "db_inv db" and r: "find_run i db = Some r" "pr_status r \<in> ACTIVE_STATUSES" and s: "s \<in> TERMINAL_STATUSES"
  defines "eff \<equiv> if pr_status r = Stopping then Cancelled else s"
  shows "\<exists>db'. set_terminal_status i s db = (Inr (pr_session_id r, eff), db') \<and> find_run i db' = Some (r\<lparr>pr_status := eff\<rparr>) \<and> db_inv db'
    \<and> (\<forall>k. run_events k db' = run_events k db)"
proof -
  let ?u = "update_status i ACTIVE_STATUSES eff db"
  have "eff \<in> TERMINAL_STATUSES" using s by (simp add: eff_def TERMINAL_STATUSES_def)
  then have "db_inv (snd ?u)" by (intro update_status_inv [OF inv]) (auto simp: active_or_terminal)
  moreover have "set_terminal_status i s db = (Inr (pr_session_id r, eff), release_session False (pr_session_id r) i (snd ?u))"
    using update_row(1) [OF inv r, of eff] r s
    by (simp add: set_terminal_status_def set_terminal_read_def set_terminal_write_def active_or_terminal eff_def Let_def case_prod_beta)
  moreover have "run_events k (release_session False (pr_session_id r) i (snd ?u)) = run_events k db" for k
    by (simp add: run_events_def release_session_def update_status_fields)
  ultimately show ?thesis using update_row(2) [OF inv r, of eff] by auto
qed

lemma set_terminal_done:
  "find_run i db = Some r \<Longrightarrow> pr_status r \<in> TERMINAL_STATUSES \<Longrightarrow> s \<in> TERMINAL_STATUSES \<Longrightarrow>
     set_terminal_status i s db = (Inr (pr_session_id r, pr_status r), db)"
  by (simp add: set_terminal_status_def set_terminal_read_def set_terminal_write_def)

lemma load_run_Inr:
  assumes "db_inv db"
  shows "load_run sid i db = Inr run \<longleftrightarrow> (\<exists>r. find_run i db = Some r \<and> pr_session_id r = sid \<and> length i = 32
    \<and> run = \<lparr> run_id = i, run_session_id = sid, run_status = pr_status r \<rparr>)"
proof -
  have eq: "find (\<lambda>r. pr_id r = i \<and> pr_session_id r = sid) (db_runs db) = Some r \<longleftrightarrow> find_run i db = Some r \<and> pr_session_id r = sid" for r
  proof
    assume "find_run i db = Some r \<and> pr_session_id r = sid"
    then have r: "r \<in> set (db_runs db)" "pr_id r = i" "pr_session_id r = sid" using assms by (auto simp: find_run_iff)
    have "find (\<lambda>r. (pr_id r, pr_session_id r) = (i, sid)) (db_runs db) = Some r"
      using r assms by (intro find_Some_unique) (auto simp: db_inv_def distinct_map inj_on_def)
    then show "find (\<lambda>r. pr_id r = i \<and> pr_session_id r = sid) (db_runs db) = Some r" by simp
  next
    assume "find (\<lambda>r. pr_id r = i \<and> pr_session_id r = sid) (db_runs db) = Some r"
    then show "find_run i db = Some r \<and> pr_session_id r = sid" using assms by (auto simp: find_run_iff find_Some_iff)
  qed
  have ids: "find_run i db = Some r \<Longrightarrow> pr_id r = i" for r using assms by (simp add: find_run_iff)
  show ?thesis
  proof (cases "find (\<lambda>r. pr_id r = i \<and> pr_session_id r = sid) (db_runs db)")
    case None
    then show ?thesis using eq by (force simp: load_run_def)
  next
    case (Some r)
    then show ?thesis using eq [of r] ids [of r] by (auto simp: load_run_def row_to_run_Inr)
  qed
qed


lemma request_stop_spec:
  assumes inv: "db_inv db" and run: "load_run sid i db = Inr run"
  shows "request_stop sid i db =
    (if run_status run \<in> TERMINAL_STATUSES then (Inr (run, False), db)
     else if run_status run = Stopping then (Inr (run, True), db)
     else (Inr (run\<lparr>run_status := Stopping\<rparr>, True), snd (update_status i {Starting, Running} Stopping db)))"
proof -
  obtain r where r: "find_run i db = Some r" "pr_session_id r = sid" "run = \<lparr> run_id = i, run_session_id = sid, run_status = pr_status r \<rparr>"
    using run inv by (auto simp: load_run_Inr)
  have "fst (update_status i {Starting, Running} Stopping db) = 1" if "pr_status r \<notin> TERMINAL_STATUSES" "pr_status r \<noteq> Stopping"
    using update_row(1) [OF inv r(1), of "{Starting, Running}" Stopping] that by (cases "pr_status r") (auto simp: TERMINAL_STATUSES_def)
  then show ?thesis using run r(3)
    by (auto simp: request_stop_def request_stop_read_def request_stop_write_def active_or_terminal case_prod_beta)
qed

definition cancel_recordable :: "string \<Rightarrow> prompt_db \<Rightarrow> bool" where
  "cancel_recordable i db \<longleftrightarrow> length (run_events i db) < EVENT_COUNT_MAX \<or> dumps True user_stop_event \<in> pe_json ` set (run_events i db)"

lemma user_stop_length: "utf8_length (dumps True user_stop_event) = Some 41"
  by (simp add: user_stop_event_def ascii_def dumps_string_def escape_char_def utf8_len_def)

lemma serialize_user_stop: "serialize_event user_stop_event = Inr (dumps True user_stop_event)"
proof -
  have "jget user_stop_event ''type'' = Some (JStr (ascii ''cancelled''))" by (simp add: user_stop_event_def jget_def ascii_def)
  then show ?thesis by (simp add: serialize_event_def user_stop_length EVENT_BYTES_MAX_def)
qed

lemma append_new:
  assumes inv: "db_inv db" and r: "find_run i db = Some r" and ser: "serialize_event event = Inr t"
    and n: "length (run_events i db) < EVENT_COUNT_MAX" and dd: "dd \<longrightarrow> t \<notin> pe_json ` set (run_events i db)"
  shows "\<exists>db'. prompt_append_event i event False dd db = (Inr Appended, db') \<and> db_inv db' \<and> find_run i db' = Some r
    \<and> run_events i db' = run_events i db @ [\<lparr> pe_run_id = i, pe_sequence = length (run_events i db), pe_json = t \<rparr>]"
proof -
  let ?e = "\<lparr> pe_run_id = i, pe_sequence = length (run_events i db), pe_json = t \<rparr>"
  have log: "log_ok i db" using inv by (simp add: db_inv_def)
  have fresh: "find (\<lambda>e. pe_run_id e = i \<and> pe_sequence e = length (run_events i db)) (db_events db) = None"
    using log_bound [OF log] by (auto simp: find_None_iff run_events_def) (metis length_sort less_irrefl)
  moreover have "i \<in> pr_id ` set (db_runs db)" using r inv by (auto simp: find_run_iff)
  ultimately obtain db' where ins: "insert_event ?e db = Some db'" by (auto simp: insert_event_def list_all_iff find_None_iff)
  have "append_attempt i t False dd None db = (Inr Appended, Some (length (run_events i db)), db')"
    using r dd n ins fresh by (auto simp: append_attempt_def next_sequence [OF log] Let_def)
  moreover have "find_run i db' = Some r" using r ins by (auto simp: find_run_def insert_event_def split: if_splits)
  moreover have "db_inv db'" by (rule insert_event_inv [OF inv stored_serialized [OF ser] n ins])
  ultimately show ?thesis using run_events_insert [OF log ins, of i] by (auto simp: prompt_append_event_def ser)
qed

lemma append_user_stop:
  assumes inv: "db_inv db" and r: "find_run i db = Some r" and room: "cancel_recordable i db"
  shows "\<exists>x db'. prompt_append_event i user_stop_event False True db = (Inr x, db') \<and> db_inv db' \<and> find_run i db' = Some r
    \<and> dumps True user_stop_event \<in> pe_json ` set (run_events i db')"
proof (cases "dumps True user_stop_event \<in> pe_json ` set (run_events i db)")
  case True
  then show ?thesis using r inv by (auto simp: prompt_append_event_def serialize_user_stop append_attempt_def)
next
  case False
  then have "length (run_events i db) < EVENT_COUNT_MAX" using room by (simp add: cancel_recordable_def)
  from append_new [OF inv r serialize_user_stop this, of True] False show ?thesis by force
qed

lemma request_stop_running:
  assumes inv: "db_inv db" and run: "load_run sid i db = Inr run" and act: "run_status run \<notin> TERMINAL_STATUSES" and room: "cancel_recordable i db"
    and r: "find_run i db = Some r"
  shows "\<exists>q. request_stop sid i db = (Inr (q, True), snd (request_stop sid i db))" "db_inv (snd (request_stop sid i db))"
    "find_run i (snd (request_stop sid i db)) = Some (r\<lparr>pr_status := Stopping\<rparr>)" "cancel_recordable i (snd (request_stop sid i db))"
proof -
  have st: "run_status run = pr_status r" using run r by (auto simp: load_run_Inr [OF inv])
  let ?u = "snd (update_status i {Starting, Running} Stopping db)"
  have u: "db_inv ?u" by (rule update_status_inv [OF inv]) (simp add: ACTIVE_STATUSES_def)
  have ev: "cancel_recordable i ?u" using room by (simp add: cancel_recordable_def run_events_cong [OF update_status_fields(3)])
  have "\<exists>q d. request_stop sid i db = (Inr (q, True), d) \<and> db_inv d \<and> find_run i d = Some (r\<lparr>pr_status := Stopping\<rparr>) \<and> cancel_recordable i d"
  proof (cases "pr_status r = Stopping")
    case True
    then show ?thesis using request_stop_spec [OF inv run] act st r inv room by simp
  next
    case False
    then have "pr_status r \<in> {Starting, Running}" using act st by (cases "pr_status r") (auto simp: TERMINAL_STATUSES_def)
    then show ?thesis using request_stop_spec [OF inv run] act st False update_row(2) [OF inv r, of "{Starting, Running}" Stopping] u ev by simp
  qed
  then show "\<exists>q. request_stop sid i db = (Inr (q, True), snd (request_stop sid i db))" "db_inv (snd (request_stop sid i db))"
    "find_run i (snd (request_stop sid i db)) = Some (r\<lparr>pr_status := Stopping\<rparr>)" "cancel_recordable i (snd (request_stop sid i db))" by auto
qed

lemma cancel_absent_steps:
  "request_stop sid i db = (Inr (q, True), db1) \<Longrightarrow> prompt_append_event i user_stop_event False True db1 = (Inr x, db2) \<Longrightarrow>
     set_terminal_status i Cancelled db2 = (Inr y, db3) \<Longrightarrow> cancel_absent sid i db = (load_run sid i db3, db3)"
  by (simp add: cancel_absent_def)

lemma cancel_absent_result:
  assumes inv: "db_inv db" and run: "load_run sid i db = Inr run" and room: "cancel_recordable i db"
  shows "\<exists>run' db'. cancel_absent sid i db = (Inr run', db') \<and> run_id run' = i
    \<and> run_status run' = (if run_status run \<in> TERMINAL_STATUSES then run_status run else Cancelled)
    \<and> (run_status run \<notin> TERMINAL_STATUSES \<longrightarrow> dumps True user_stop_event \<in> pe_json ` set (run_events i db'))
    \<and> cancel_absent sid i db' = (Inr run', db')"
proof -
  obtain r where r: "find_run i db = Some r" "pr_session_id r = sid" "length i = 32" "run = \<lparr> run_id = i, run_session_id = sid, run_status = pr_status r \<rparr>"
    using run inv by (auto simp: load_run_Inr)
  have finished: "cancel_absent sid i d = (Inr q, d)" if "db_inv d" "load_run sid i d = Inr q" "run_status q \<in> TERMINAL_STATUSES" for d q
    using request_stop_spec [OF that(1,2)] that(3) by (simp add: cancel_absent_def)
  show ?thesis
  proof (cases "run_status run \<in> TERMINAL_STATUSES")
    case True
    then show ?thesis using finished [OF inv run] r(4) by auto
  next
    case False
    let ?db1 = "snd (request_stop sid i db)" and ?r1 = "r\<lparr>pr_status := Stopping\<rparr>"
    have stop: "\<exists>q. request_stop sid i db = (Inr (q, True), ?db1)" "db_inv ?db1" "find_run i ?db1 = Some ?r1" "cancel_recordable i ?db1"
      using request_stop_running [OF inv run False room r(1)] by auto
    obtain x db2 where app: "prompt_append_event i user_stop_event False True ?db1 = (Inr x, db2)" "db_inv db2" "find_run i db2 = Some ?r1"
      "dumps True user_stop_event \<in> pe_json ` set (run_events i db2)" using append_user_stop [OF stop(2-4)] by blast
    have act: "pr_status ?r1 \<in> ACTIVE_STATUSES" "Cancelled \<in> TERMINAL_STATUSES" by (simp_all add: status_sets)
    obtain db3 where fin: "set_terminal_status i Cancelled db2 = (Inr (sid, Cancelled), db3)" "find_run i db3 = Some (r\<lparr>pr_status := Cancelled\<rparr>)" "db_inv db3"
      "\<And>k. run_events k db3 = run_events k db2" using set_terminal_active [OF app(2,3) act] r(2) by auto
    let ?run = "\<lparr> run_id = i, run_session_id = sid, run_status = Cancelled \<rparr>"
    have load: "load_run sid i db3 = Inr ?run" using fin(2) r(2,3) by (simp add: load_run_Inr [OF fin(3)])
    then have "cancel_absent sid i db = (Inr ?run, db3)" using stop(1) app(1) fin(1) by (metis (no_types, lifting) cancel_absent_steps)
    moreover have "cancel_absent sid i db3 = (Inr ?run, db3)" using finished [OF fin(3) load] act(2) by simp
    ultimately show ?thesis using False app(4) fin(4) by auto
  qed
qed

text \<open>Cancellation is stable. Cancelling a run that no coordinator executes any more, when its log has room for the event or holds it already, succeeds: a finished run
  keeps its outcome, any other ends as cancelled with the stop recorded, and cancelling again changes nothing and returns the same.\<close>

theorem cancel_stable:
  assumes inv: "db_inv db" and run: "load_run sid i db = Inr run" and room: "cancel_recordable i db"
  shows "\<exists>run' db'. cancel_absent sid i db = (Inr run', db') \<and> run_id run' = i
    \<and> run_status run' = (if run_status run \<in> TERMINAL_STATUSES then run_status run else Cancelled)
    \<and> (run_status run \<notin> TERMINAL_STATUSES \<longrightarrow> dumps True user_stop_event \<in> pe_json ` set (run_events i db'))
    \<and> cancel_absent sid i db' = (Inr run', db')"
  by (rule cancel_absent_result [OF assms])

text \<open>C38: A stop can be lost. The terminal update decides between the executor's outcome and cancelled from a status it read before the write; if
  a stop request is committed and acknowledged in between, the run still ends with the executor's outcome.\<close>

theorem stop_overwritten:
  assumes inv: "db_inv db" and run: "load_run sid i db = Inr run" "run_status run = Running" and seen: "set_terminal_read i db = Inr seen"
    and status: "status \<in> TERMINAL_STATUSES"
  shows "\<exists>db1 db2. request_stop sid i db = (Inr (run\<lparr>run_status := Stopping\<rparr>, True), db1)
    \<and> set_terminal_write i status seen db1 = (Inr (sid, status), db2) \<and> load_run sid i db2 = Inr (run\<lparr>run_status := status\<rparr>)"
proof -
  obtain r where r: "find_run i db = Some r" "pr_session_id r = sid" "length i = 32" "run = \<lparr> run_id = i, run_session_id = sid, run_status = pr_status r \<rparr>"
    using run(1) inv by (auto simp: load_run_Inr)
  have R: "pr_status r = Running" using run(2) r(4) by simp
  let ?db1 = "snd (update_status i {Starting, Running} Stopping db)" and ?r1 = "r\<lparr>pr_status := Stopping\<rparr>"
  have one: "db_inv ?db1" "find_run i ?db1 = Some ?r1"
    using update_row(2) [OF inv r(1), of "{Starting, Running}" Stopping] R by (auto intro!: update_status_inv [OF inv] simp: ACTIVE_STATUSES_def)
  have act: "pr_status ?r1 \<in> ACTIVE_STATUSES" by (simp add: ACTIVE_STATUSES_def)
  have seen_eq: "seen = (sid, Running)" using seen r R by (simp add: set_terminal_read_def)
  let ?u = "update_status i ACTIVE_STATUSES status ?db1"
  have written: "set_terminal_write i status seen ?db1 = (Inr (sid, status), release_session False sid i (snd ?u))"
    using seen_eq update_row(1) [OF one act, of status]
    by (simp add: set_terminal_write_def case_prod_beta TERMINAL_STATUSES_def Let_def)
  have inv2: "db_inv (release_session False sid i (snd ?u))" using status by (simp add: update_status_inv [OF one(1)] active_or_terminal)
  have "load_run sid i (release_session False sid i (snd ?u)) = Inr (run\<lparr>run_status := status\<rparr>)"
    using update_row(2) [OF one act, of status] r by (simp add: load_run_Inr [OF inv2])
  then show ?thesis using request_stop_spec [OF inv run(1)] run(2) written by (auto simp: TERMINAL_STATUSES_def)
qed

subsection \<open>Recovery\<close>

text \<open>The type a stored event has for a reader of its log, and the three types that end a run.\<close>

definition event_type :: "(utext \<Rightarrow> json option) \<Rightarrow> prompt_event_row \<Rightarrow> utext option" where
  "event_type loads e = (case loads (pe_json e) of
     Some (JObj kvs) \<Rightarrow> (case jget (JObj kvs) ''type'' of Some (JStr t) \<Rightarrow> Some t | _ \<Rightarrow> None)
   | _ \<Rightarrow> None)"

definition ends_run :: "(utext \<Rightarrow> json option) \<Rightarrow> prompt_event_row \<Rightarrow> bool" where
  "ends_run loads e \<longleftrightarrow> event_type loads e \<in> {Some (ascii ''result''), Some (ascii ''cancelled''), Some (ascii ''error'')}"

lemma ascii_types: "ascii ''result'' \<noteq> ascii ''cancelled''" "ascii ''result'' \<noteq> ascii ''error''" "ascii ''cancelled'' \<noteq> ascii ''error''"
  by (simp_all add: ascii_def)

lemma derive_skips: "\<forall>x \<in> set xs. \<not> ends_run loads x \<Longrightarrow> derive_from_rows loads (xs @ ys) = derive_from_rows loads ys"
  by (induction xs) (auto simp: ends_run_def event_type_def terminal_event_final_status_def split: option.splits json.splits)

lemma derive_takes:
  "event_type loads e = Some t \<Longrightarrow> terminal_event_final_status t = Some s \<Longrightarrow> derive_from_rows loads (e # ys) = Some s"
  by (auto simp: event_type_def split: option.splits json.splits)

lemma derive_last:
  assumes "run_events i db = xs @ e # ys" "\<forall>y \<in> set ys. \<not> ends_run loads y" "event_type loads e = Some t" "terminal_event_final_status t = Some s"
  shows "derive_terminal_status_from_events loads i db = Some s"
  using derive_skips [of "rev ys" loads] derive_takes [OF assms(3,4)] assms(1,2) by (simp add: derive_terminal_status_from_events_def)

lemma derive_absent: "\<forall>x \<in> set (run_events i db). \<not> ends_run loads x \<Longrightarrow> derive_terminal_status_from_events loads i db = None"
  using derive_skips [of "rev (run_events i db)" loads "[]"] by (simp add: derive_terminal_status_from_events_def)

text \<open>C22: Recovery after a crash. One pass ends every active run and touches no other run or log. The last event of a run's log that reports a result, a
  cancellation or an error decides: the run becomes completed, cancelled or failed accordingly, or cancelled in any case if it was stopping, and its log stays as it is. A run whose
  log holds no such event becomes interrupted, and its log gets an error event that says so if it has room. The pass reports exactly the
  runs it ended, with these outcomes, and a second pass finds nothing and changes nothing.\<close>

theorem recovery_complete:
  assumes inv: "db_inv db"
  shows "\<exists>outcome db'. recover_prompt_database loads reset db =
      (Inr (map (\<lambda>r. \<lparr> run_id = pr_id r, run_session_id = pr_session_id r, run_status = outcome r \<rparr>) (filter (\<lambda>r. pr_status r \<in> ACTIVE_STATUSES) (db_runs db))), db')
    \<and> db_runs db' = map (\<lambda>r. if pr_status r \<in> ACTIVE_STATUSES then r\<lparr>pr_status := outcome r\<rparr> else r) (db_runs db)
    \<and> (\<forall>r xs e ys. r \<in> set (db_runs db) \<and> pr_status r \<in> ACTIVE_STATUSES \<and> run_events (pr_id r) db = xs @ e # ys
        \<and> ends_run loads e \<and> (\<forall>y \<in> set ys. \<not> ends_run loads y) \<longrightarrow>
        outcome r = (if pr_status r = Stopping \<or> event_type loads e = Some (ascii ''cancelled'') then Cancelled
          else if event_type loads e = Some (ascii ''result'') then Completed else Failed)
        \<and> run_events (pr_id r) db' = run_events (pr_id r) db)
    \<and> (\<forall>r. r \<in> set (db_runs db) \<and> pr_status r \<in> ACTIVE_STATUSES \<and> (\<forall>x \<in> set (run_events (pr_id r) db). \<not> ends_run loads x) \<longrightarrow>
        outcome r = Interrupted \<and> run_events (pr_id r) db' = run_events (pr_id r) db @
          (if length (run_events (pr_id r) db) < 100000
           then [\<lparr> pe_run_id = pr_id r, pe_sequence = length (run_events (pr_id r) db), pe_json = dumps True interrupted_event \<rparr>] else []))
    \<and> (\<forall>i. (\<forall>r \<in> set (db_runs db). pr_id r = i \<longrightarrow> pr_status r \<in> TERMINAL_STATUSES) \<longrightarrow> run_events i db' = run_events i db)
    \<and> recover_prompt_database loads reset db' = (Inr [], db')"
proof -
  from recover_spec [OF inv, of loads reset] obtain db' where
    one: "recover_prompt_database loads reset db = (Inr (map (\<lambda>row. \<lparr> run_id = pr_id row, run_session_id = pr_session_id row,
        run_status = recovered_status loads db row \<rparr>) (active_rows db)), db')" "active_rows db' = []"
      "db_runs db' = map (\<lambda>r. if pr_status r \<in> ACTIVE_STATUSES then r\<lparr>pr_status := recovered_status loads db r\<rparr> else r) (db_runs db)"
    and log: "\<And>k. run_events k db' = (if k \<in> pr_id ` set (active_rows db) then recovered_log loads db k else run_events k db)" by blast
  have again: "recover_prompt_database loads reset db' = (Inr [], db')" using one(2) by (simp add: recover_prompt_database_def active_rows_def)
  have last: "recovered_status loads db r = (if pr_status r = Stopping \<or> event_type loads e = Some (ascii ''cancelled'') then Cancelled
        else if event_type loads e = Some (ascii ''result'') then Completed else Failed) \<and> run_events (pr_id r) db' = run_events (pr_id r) db"
    if "r \<in> set (db_runs db)" "pr_status r \<in> ACTIVE_STATUSES" and split: "run_events (pr_id r) db = xs @ e # ys" and ends: "ends_run loads e" and tail: "\<forall>y \<in> set ys. \<not> ends_run loads y"
    for r xs e ys
  proof -
    obtain t where t: "event_type loads e = Some t" "t \<in> {ascii ''result'', ascii ''cancelled'', ascii ''error''}" using ends by (auto simp: ends_run_def)
    have st: "terminal_event_final_status t = Some (if t = ascii ''cancelled'' then Cancelled else if t = ascii ''result'' then Completed else Failed)"
      using t(2) ascii_types by (auto simp: terminal_event_final_status_def)
    show ?thesis using derive_last [OF split tail t(1) st] t(1) log [of "pr_id r"] by (auto simp: recovered_status_def recovered_log_def)
  qed
  have none: "recovered_status loads db r = Interrupted \<and> run_events (pr_id r) db' = run_events (pr_id r) db @
          (if length (run_events (pr_id r) db) < 100000
           then [\<lparr> pe_run_id = pr_id r, pe_sequence = length (run_events (pr_id r) db), pe_json = dumps True interrupted_event \<rparr>] else [])"
    if "r \<in> set (db_runs db)" "pr_status r \<in> ACTIVE_STATUSES" "\<forall>x \<in> set (run_events (pr_id r) db). \<not> ends_run loads x" for r
    using derive_absent [OF that(3)] log [of "pr_id r"] that(1,2) by (simp add: recovered_status_def recovered_log_def active_rows_def EVENT_COUNT_MAX_def)
  have rest: "run_events i db' = run_events i db" if "\<forall>r \<in> set (db_runs db). pr_id r = i \<longrightarrow> pr_status r \<in> TERMINAL_STATUSES" for i
    using that log [of i] by (auto simp: active_rows_def active_or_terminal)
  show ?thesis
    using one(1,3) last none rest again unfolding active_rows_def
    by (intro exI [of _ "recovered_status loads db"] exI [of _ db'] conjI allI impI) blast+
qed

subsection \<open>The outcome of a run\<close>

lemma append_keeps:
  assumes inv: "db_inv db" and r: "find_run i db = Some r" and a: "prompt_append_event i event ut dd db = (res, db')"
  shows "db_inv db' \<and> find_run i db' = Some r"
proof (cases "serialize_event event")
  case (Inl e)
  then show ?thesis using a inv r by (simp add: prompt_append_event_def)
next
  case (Inr t)
  obtain n' where at: "append_attempt i t ut dd None db = (res, n', db')" using a Inr by (auto simp: prompt_append_event_def split: prod.splits)
  have "db_runs db' = db_runs db" using append_attempt_shape [OF at] by (auto simp: insert_event_def split: if_splits)
  then show ?thesis using append_attempt_cases [OF inv Inr _ at] r by (simp add: find_run_def)
qed

lemma safely_keeps: "db_inv db \<Longrightarrow> find_run i db = Some r \<Longrightarrow>
    db_inv (append_terminal_event_safely i event db) \<and> find_run i (append_terminal_event_safely i event db) = Some r"
  using append_keeps [of db i r event True "is_cancelled_event event"] by (cases "prompt_append_event i event True (is_cancelled_event event) db") (auto simp: append_terminal_event_safely_def)

lemma consume_events_keeps:
  "db_inv db \<Longrightarrow> find_run i db = Some r \<Longrightarrow> consume_events i evs st db = (res, db') \<Longrightarrow>
     db_inv db' \<and> find_run i db' = Some r \<and> (\<forall>s. res = Inr s \<longrightarrow> s = foldl final_status_after st evs)"
proof (induction evs arbitrary: st db)
  case (Cons event evs)
  obtain res1 db1 where a: "prompt_append_event i event False (is_cancelled_event event) db = (res1, db1)" by (cases "prompt_append_event i event False (is_cancelled_event event) db")
  note k = append_keeps [OF Cons.prems(1,2) a]
  show ?case using Cons.IH [of db1 "final_status_after st event"] Cons.prems(3) k a by (cases res1) auto
qed auto

lemma fold_final_terminal: "s \<in> {Completed, Failed, Cancelled} \<Longrightarrow> foldl final_status_after s evs \<in> {Completed, Failed, Cancelled}"
  by (induction evs arbitrary: s) (auto simp: final_status_after_def)

lemma fold_final_completed: "foldl final_status_after s evs = Completed \<Longrightarrow>
    s = Completed \<and> (\<forall>e \<in> set evs. \<not> is_cancelled_event e \<and> jget e ''type'' \<noteq> Some (JStr (ascii ''error'')))"
proof (induction evs arbitrary: s)
  case (Cons e evs)
  then have "final_status_after s e = Completed" by fastforce
  then have "s = Completed \<and> \<not> is_cancelled_event e \<and> jget e ''type'' \<noteq> Some (JStr (ascii ''error''))"
    by (auto simp: final_status_after_def split: if_splits)
  moreover have "\<forall>e \<in> set evs. \<not> is_cancelled_event e \<and> jget e ''type'' \<noteq> Some (JStr (ascii ''error''))" using Cons by fastforce
  ultimately show ?case by auto
qed simp

lemma set_running:
  assumes inv: "db_inv db" and r: "find_run i db = Some r" "pr_status r = Starting"
  shows "\<exists>db'. set_status i Running {Starting} db = (Inr (), db') \<and> db_inv db' \<and> find_run i db' = Some (r\<lparr>pr_status := Running\<rparr>)"
proof -
  let ?u = "update_status i {Starting} Running db"
  have "db_inv (snd ?u)" by (rule update_status_inv [OF inv]) (simp add: ACTIVE_STATUSES_def)
  moreover have "set_status i Running {Starting} db = (Inr (), snd ?u)"
    using r update_row(1) [OF inv r(1), of "{Starting}" Running]
    by (simp add: set_status_def set_status_read_def set_status_write_def case_prod_beta raise_if_def)
  ultimately show ?thesis using update_row(2) [OF inv r(1), of "{Starting}" Running] r(2) by simp
qed


lemma consume_body_spec:
  assumes inv: "db_inv db" and r: "find_run i db = Some r" "pr_status r \<in> {Starting, Stopping}"
  shows "\<exists>final db'. consume_body c i evs ending db = (final, db') \<and> db_inv db' \<and> final \<in> TERMINAL_STATUSES
    \<and> find_run i db' = Some (r\<lparr>pr_status := (if pr_status r = Stopping then Stopping else Running)\<rparr>)
    \<and> (pr_status r = Stopping \<longrightarrow> final = Cancelled \<and> db' = db)
    \<and> (final = Completed \<longrightarrow> ending = Exhausted \<and> (\<forall>e \<in> set evs. \<not> is_cancelled_event e \<and> jget e ''type'' \<noteq> Some (JStr (ascii ''error''))))"
proof (cases "pr_status r = Stopping")
  case True
  then have "r\<lparr>pr_status := Stopping\<rparr> = r" by simp
  then show ?thesis using True r inv
    by (simp add: consume_body_def set_status_def set_status_read_def TERMINAL_STATUSES_def)
next
  case False
  then have S: "pr_status r = Starting" using r(2) by simp
  let ?r = "r\<lparr>pr_status := Running\<rparr>"
  obtain db1 where one: "set_status i Running {Starting} db = (Inr (), db1)" "db_inv db1" "find_run i db1 = Some ?r"
    using set_running [OF inv r(1) S] by blast
  obtain res db2 where two: "consume_events i evs Completed db1 = (res, db2)" by (cases "consume_events i evs Completed db1")
  note k = consume_events_keeps [OF one(2,3) two]
  have safe: "db_inv (append_terminal_event_safely i e db2)" "find_run i (append_terminal_event_safely i e db2) = Some ?r" for e
    using safely_keeps [of db2 i ?r e] k by simp_all
  have final_ok: "foldl final_status_after Completed evs \<in> TERMINAL_STATUSES" using fold_final_terminal [of Completed evs] by (auto simp: TERMINAL_STATUSES_def)
  show ?thesis
  proof (cases res)
    case (Inl e)
    then show ?thesis using one two safe S by (simp add: consume_body_def TERMINAL_STATUSES_def)
  next
    case (Inr final)
    then have "final = foldl final_status_after Completed evs" using k by simp
    then show ?thesis using one two safe S k final_ok fold_final_completed [of Completed evs] Inr
      by (cases ending) (auto simp: consume_body_def, auto simp: TERMINAL_STATUSES_def)
  qed
qed

text \<open>What a terminal status makes of the row of an existing run.\<close>

definition ended :: "prompt_status \<Rightarrow> prompt_row \<Rightarrow> prompt_row" where
  "ended st r = r\<lparr>pr_status := (if pr_status r \<in> TERMINAL_STATUSES then pr_status r else if pr_status r = Stopping then Cancelled else st)\<rparr>"

lemma set_terminal_ends:
  assumes inv: "db_inv db" and r: "find_run i db = Some r" and s: "s \<in> TERMINAL_STATUSES"
  shows "\<exists>told db'. set_terminal_status i s db = (Inr told, db') \<and> find_run i db' = Some (ended s r)"
proof (cases "pr_status r \<in> TERMINAL_STATUSES")
  case True
  then show ?thesis using set_terminal_done [OF r True s] r by (simp add: ended_def)
next
  case False
  then show ?thesis using set_terminal_active [OF inv r _ s] by (auto simp: ended_def active_or_terminal)
qed

text \<open>What SQLite's errors leave possible: one of the first \<open>n\<close> attempts runs, after busy errors only.\<close>

definition persistable :: "nat \<Rightarrow> prompt_error option list \<Rightarrow> bool" where
  "persistable n faults \<longleftrightarrow> (\<exists>k < n. (k < length faults \<longrightarrow> faults ! k = None) \<and> (\<forall>l < k. l < length faults \<and> (\<exists>f. faults ! l = Some f \<and> is_sqlite_busy f)))"

lemma persistable_simps [simp]:
  "\<not> persistable 0 faults" "persistable (Suc n) []" "persistable (Suc n) (None # faults)"
  "persistable (Suc n) (Some f # faults) \<longleftrightarrow> is_sqlite_busy f \<and> persistable n faults"
proof -
  show "\<not> persistable 0 faults" "persistable (Suc n) []" "persistable (Suc n) (None # faults)" by (auto simp: persistable_def)
  have "persistable (Suc n) (Some f # faults) \<longleftrightarrow> (\<exists>k < n. (k < length faults \<longrightarrow> faults ! k = None)
      \<and> is_sqlite_busy f \<and> (\<forall>l < k. l < length faults \<and> (\<exists>f. faults ! l = Some f \<and> is_sqlite_busy f)))"
    unfolding persistable_def Ex_less_Suc2 All_less_Suc2 by simp
  then show "persistable (Suc n) (Some f # faults) \<longleftrightarrow> is_sqlite_busy f \<and> persistable n faults" by (auto simp: persistable_def)
qed

lemma persist_cases:
  "attempt < 3 \<Longrightarrow> if persistable (3 - attempt) faults then persist_terminal_status attempt faults i st db = set_terminal_status i st db
     else (\<exists>e. persist_terminal_status attempt faults i st db = (Inl e, db))"
proof (induction attempt faults i st db rule: persist_terminal_status.induct)
  case (1 attempt fault faults i status db)
  have n: "3 - attempt = Suc (3 - (attempt + 1))" using 1(2) by simp
  show ?case unfolding n using 1(1) by (auto simp: TERMINAL_STATUS_ATTEMPTS_def not_le)
next
  case (2 attempt faults i status db)
  then show ?case by (cases "3 - attempt") auto
next
  case (3 attempt i status db)
  then show ?case by (cases "3 - attempt") auto
qed

lemma finally_spec:
  assumes inv: "db_inv db" and r: "find_run i db = Some r" and s: "st \<in> TERMINAL_STATUSES"
  shows "persistable 3 faults \<Longrightarrow> \<exists>db'. consume_finally path i st faults (j, db) = (j, db') \<and> find_run i db' = Some (ended st r)"
    "\<not> persistable 3 faults \<Longrightarrow> consume_finally path i st faults (j, db) = (j\<lparr>pj_pending := dset (pj_pending j) i (path, st)\<rparr>, db)"
    "dget (pj_pending j) i = Some (path, st) \<Longrightarrow> \<exists>db'. reconcile_pending_terminal_status path i [] (j, db) = (Inr (), j\<lparr>pj_pending := dpop (pj_pending j) i\<rparr>, db')
      \<and> find_run i db' = Some (ended st r)"
proof -
  obtain told db' where t: "set_terminal_status i st db = (Inr told, db')" "find_run i db' = Some (ended st r)" using set_terminal_ends [OF assms] by blast
  show "persistable 3 faults \<Longrightarrow> \<exists>db'. consume_finally path i st faults (j, db) = (j, db') \<and> find_run i db' = Some (ended st r)"
    using persist_cases [of 0 faults i st db] t by (simp add: consume_finally_def)
  show "\<not> persistable 3 faults \<Longrightarrow> consume_finally path i st faults (j, db) = (j\<lparr>pj_pending := dset (pj_pending j) i (path, st)\<rparr>, db)"
    using persist_cases [of 0 faults i st db] by (auto simp: consume_finally_def remember_pending_terminal_status_def)
  show "dget (pj_pending j) i = Some (path, st) \<Longrightarrow> \<exists>db'. reconcile_pending_terminal_status path i [] (j, db) = (Inr (), j\<lparr>pj_pending := dpop (pj_pending j) i\<rparr>, db')
      \<and> find_run i db' = Some (ended st r)"
    using t by (simp add: reconcile_pending_terminal_status_def)
qed

text \<open>C26: How a run ends. The background task of a run that is starting or stopping, undisturbed until its last write, decides for some terminal status, whatever events the
  executor yields, however it ends and even when journaling them fails: cancelled, with nothing executed or logged, if the run was stopped before, and completed only if the executor
  was exhausted and yielded neither an error nor a cancellation. The status is then written over whatever state the tables are in by that time: unless SQLite fails (up to two busy
  errors are retried), the run ends with it, or as cancelled if it is stopping by then, or as it already ended. If SQLite does fail, nothing is written
  and the status is retained, and the next reconciliation without such a failure ends the run in the same way, at any later state of the tables, and forgets the status.\<close>

theorem consume_outcome:
  assumes inv: "db_inv db" and r: "find_run i db = Some r" "pr_status r \<in> {Starting, Stopping}"
  shows "\<exists>st db1. st \<in> TERMINAL_STATUSES \<and> consume path i evs ending faults (j, db) = consume_finally path i st faults (j, db1)
    \<and> db_inv db1 \<and> find_run i db1 = Some (r\<lparr>pr_status := (if pr_status r = Stopping then Stopping else Running)\<rparr>)
    \<and> (pr_status r = Stopping \<longrightarrow> st = Cancelled \<and> db1 = db)
    \<and> (st = Completed \<longrightarrow> ending = Exhausted \<and> (\<forall>e \<in> set evs. \<not> is_cancelled_event e \<and> jget e ''type'' \<noteq> Some (JStr (ascii ''error''))))
    \<and> (\<forall>d q. db_inv d \<and> find_run i d = Some q \<longrightarrow>
        (let final = (if pr_status q \<in> TERMINAL_STATUSES then pr_status q else if pr_status q = Stopping then Cancelled else st);
             retained = j\<lparr>pj_pending := dset (pj_pending j) i (path, st)\<rparr> in
         (persistable 3 faults \<longrightarrow> (\<exists>d'. consume_finally path i st faults (j, d) = (j, d') \<and> find_run i d' = Some (q\<lparr>pr_status := final\<rparr>)))
         \<and> (\<not> persistable 3 faults \<longrightarrow> consume_finally path i st faults (j, d) = (retained, d))
         \<and> (\<exists>d'. reconcile_pending_terminal_status path i [] (retained, d) = (Inr (), retained\<lparr>pj_pending := dpop (pj_pending retained) i\<rparr>, d')
             \<and> find_run i d' = Some (q\<lparr>pr_status := final\<rparr>))))"
proof -
  from consume_body_spec [OF inv r, of "pj_closing j" evs ending] obtain st db1 where
    b: "consume_body (pj_closing j) i evs ending db = (st, db1)" "db_inv db1" "st \<in> TERMINAL_STATUSES"
      "find_run i db1 = Some (r\<lparr>pr_status := (if pr_status r = Stopping then Stopping else Running)\<rparr>)" "pr_status r = Stopping \<longrightarrow> st = Cancelled \<and> db1 = db"
      "st = Completed \<longrightarrow> ending = Exhausted \<and> (\<forall>e \<in> set evs. \<not> is_cancelled_event e \<and> jget e ''type'' \<noteq> Some (JStr (ascii ''error'')))" by blast
  have c: "consume path i evs ending faults (j, db) = consume_finally path i st faults (j, db1)" using b(1) by (simp add: consume_def)
  have "dget (pj_pending (j\<lparr>pj_pending := dset (pj_pending j) i (path, st)\<rparr>)) i = Some (path, st)" by simp
  note fin = finally_spec [OF _ _ b(3), unfolded ended_def] and rec = finally_spec(3) [OF _ _ b(3) this, unfolded ended_def]
  show ?thesis unfolding Let_def using b c fin(1,2) rec by (intro exI [of _ st] exI [of _ db1]) simp
qed

definition executor_error_event :: json where
  "executor_error_event = JObj [(ascii ''type'', JStr (ascii ''error'')), (ascii ''error'', JStr (ascii ''retry''))]"

definition executor_result_event :: json where
  "executor_result_event = JObj [(ascii ''type'', JStr (ascii ''result''))]"

lemma executor_events:
  "serialize_event executor_error_event = Inr (dumps True executor_error_event)" "serialize_event executor_result_event = Inr (dumps True executor_result_event)"
  "jget executor_error_event ''type'' = Some (JStr (ascii ''error''))" "jget executor_result_event ''type'' = Some (JStr (ascii ''result''))"
proof -
  show ty: "jget executor_error_event ''type'' = Some (JStr (ascii ''error''))" "jget executor_result_event ''type'' = Some (JStr (ascii ''result''))"
    by (simp_all add: executor_error_event_def executor_result_event_def jget_def ascii_def)
  have "utf8_length (dumps True executor_error_event) = Some 32" "utf8_length (dumps True executor_result_event) = Some 17"
    by (simp_all add: executor_error_event_def executor_result_event_def ascii_def dumps_string_def escape_char_def utf8_len_def)
  then show "serialize_event executor_error_event = Inr (dumps True executor_error_event)" "serialize_event executor_result_event = Inr (dumps True executor_result_event)"
    by (simp_all add: serialize_event_def ty EVENT_BYTES_MAX_def)
qed

text \<open>Two judges, two verdicts. When an executor reports an error and then a result and is exhausted, the task that consumes it decides that the run failed, because an error is
  never taken back; if the process dies before that status is written, recovery decides from the same log that the run completed, because it takes the last terminal event.\<close>

theorem outcome_divergence:
  assumes inv: "db_inv db" and r: "find_run i db = Some r" "pr_status r = Starting" and empty: "run_events i db = []"
    and loads: "loads (dumps True executor_error_event) = Some executor_error_event" "loads (dumps True executor_result_event) = Some executor_result_event"
  shows "\<exists>db1 recovered db2. consume_body c i [executor_error_event, executor_result_event] Exhausted db = (Failed, db1)
    \<and> recover_prompt_database loads reset db1 = (Inr recovered, db2) \<and> find_run i db2 = Some (r\<lparr>pr_status := Completed\<rparr>)"
proof -
  let ?r = "r\<lparr>pr_status := Running\<rparr>" and ?e = executor_error_event and ?f = executor_result_event
  have kinds: "\<not> is_cancelled_event ?e" "\<not> is_cancelled_event ?f" "final_status_after Completed ?e = Failed" "final_status_after Failed ?f = Failed"
    by (simp_all add: is_cancelled_event_def final_status_after_def executor_events ascii_def)
  obtain db1 where one: "set_status i Running {Starting} db = (Inr (), db1)" "db_inv db1" "find_run i db1 = Some ?r"
    using set_running [OF inv r] by blast
  have ev1: "run_events i db1 = []" using one(1) r empty
    by (auto simp: set_status_def set_status_read_def set_status_write_def case_prod_beta run_events_def update_status_fields split: option.splits if_splits)
  obtain db2 where two: "prompt_append_event i ?e False False db1 = (Inr Appended, db2)" "db_inv db2" "find_run i db2 = Some ?r"
    "run_events i db2 = [\<lparr> pe_run_id = i, pe_sequence = 0, pe_json = dumps True ?e \<rparr>]"
    using append_new [OF one(2,3) executor_events(1), of False] ev1 by (auto simp: EVENT_COUNT_MAX_def)
  obtain db3 where three: "prompt_append_event i ?f False False db2 = (Inr Appended, db3)" "db_inv db3" "find_run i db3 = Some ?r"
    "run_events i db3 = [\<lparr> pe_run_id = i, pe_sequence = 0, pe_json = dumps True ?e \<rparr>, \<lparr> pe_run_id = i, pe_sequence = 1, pe_json = dumps True ?f \<rparr>]"
    using append_new [OF two(2,3) executor_events(2), of False] two(4) by (auto simp: EVENT_COUNT_MAX_def)
  have body: "consume_body c i [?e, ?f] Exhausted db = (Failed, db3)" using one two three kinds by (simp add: consume_body_def)
  obtain kvs where f: "?f = JObj kvs" by (simp add: executor_result_event_def)
  have l: "loads (dumps True ?f) = Some (JObj kvs)" "jget (JObj kvs) ''type'' = Some (JStr (ascii ''result''))"
    using loads(2) executor_events(4) by (simp_all only: f)
  have "derive_terminal_status_from_events loads i db3 = Some Completed"
    by (simp add: three(4) l derive_terminal_status_from_events_def terminal_event_final_status_def)
  then have status: "recovered_status loads db3 ?r = Completed" using r(1) inv by (simp add: recovered_status_def find_run_iff)
  obtain rc db4 where rcv: "recover_prompt_database loads reset db3 = (Inr rc, db4)" "db_inv db4"
    "db_runs db4 = map (\<lambda>r. if pr_status r \<in> ACTIVE_STATUSES then r\<lparr>pr_status := recovered_status loads db3 r\<rparr> else r) (db_runs db3)"
    using recover_spec [OF three(2), of loads reset] by auto
  have "?r \<in> set (db_runs db3)" "pr_id r = i" using three(2,3) r(1) inv by (simp_all add: find_run_iff)
  then have "r\<lparr>pr_status := Completed\<rparr> \<in> set (db_runs db4)" using status rcv(3) by (force simp: image_iff ACTIVE_STATUSES_def)
  then have "find_run i db4 = Some (r\<lparr>pr_status := Completed\<rparr>)" using \<open>pr_id r = i\<close> by (simp add: find_run_iff [OF rcv(2)])
  then show ?thesis using body rcv(1) by blast
qed


subsection \<open>Concrete instances\<close>

definition sample_run_id :: string where "sample_run_id = replicate 32 CHR ''a''"

definition sample_run_row :: "prompt_status \<Rightarrow> prompt_row" where
  "sample_run_row st = \<lparr> pr_id = sample_run_id, pr_session_id = ''s'', pr_key = ''k'', pr_status = st \<rparr>"

definition sample_prompt_db :: "prompt_row list \<Rightarrow> prompt_event_row list \<Rightarrow> prompt_db" where
  "sample_prompt_db rows evs = \<lparr> db_runs = rows, db_events = evs, db_sessions = [(''s'', ''idle'')], db_messages = [] \<rparr>"

definition sample_prompt_system :: "prompt_row list \<Rightarrow> prompt_system" where
  "sample_prompt_system rows = \<lparr> ps_db = sample_prompt_db rows [], ps_intended = [], ps_deleted = [] \<rparr>"

definition sample_event_row :: prompt_event_row where
  "sample_event_row = \<lparr> pe_run_id = sample_run_id, pe_sequence = 0, pe_json = [123, 125] \<rparr>"

lemma sample_id_length [simp]: "length sample_run_id = 32"
  by (simp add: sample_run_id_def)

lemma sample_id_ne: "sample_run_id \<noteq> ''b''" "''b'' \<noteq> sample_run_id"
  using sample_id_length by (metis One_nat_def length_Cons list.size(3) numeral_eq_one_iff semiring_norm(85))+

lemma sample_create: "create_run sample_run_id ''s'' ''k'' None (sample_prompt_db [] []) =
    (Inr (\<lparr> run_id = sample_run_id, run_session_id = ''s'', run_status = Starting \<rparr>, True), sample_prompt_db [sample_run_row Starting] [])"
  by (simp add: create_run_def create_run_probe_def create_run_commit_def insert_run_def find_by_key_def sample_prompt_db_def sample_run_row_def active_index_free_def)

lemma sample_empty_reach: "reach prompt_init prompt_step (sample_prompt_system [])"
  by (rule reach.reach_init) (simp add: prompt_init_def sample_prompt_system_def sample_prompt_db_def)

lemma sample_prompt_reach: "reach prompt_init prompt_step (sample_prompt_system [sample_run_row Starting])"
proof -
  have "prompt_step (sample_prompt_system []) (sample_prompt_system [sample_run_row Starting])"
    using prompt_step.create [of sample_run_id "sample_prompt_system []" "''s''" "''k''" None]
    by (simp add: create_run_commit_def insert_run_def find_by_key_def sample_prompt_system_def sample_prompt_db_def sample_run_row_def active_index_free_def)
  then show ?thesis by (rule reach.reach_step [OF sample_empty_reach])
qed

lemma sample_run_inv: "db_inv (sample_prompt_db [sample_run_row st] [])"
  by (simp add: db_inv_def active_rows_def log_ok_def run_events_def sample_prompt_db_def)

lemma sample_run_find: "find_run sample_run_id (sample_prompt_db [sample_run_row st] evs) = Some (sample_run_row st)"
  by (simp add: find_run_def sample_prompt_db_def sample_run_row_def)

lemma sample_run_row_sel [simp]: "pr_id (sample_run_row st) = sample_run_id" "pr_session_id (sample_run_row st) = ''s''" "pr_status (sample_run_row st) = st"
  by (simp_all add: sample_run_row_def)

lemma sample_run_load: "load_run ''s'' sample_run_id (sample_prompt_db [sample_run_row st] []) =
    Inr \<lparr> run_id = sample_run_id, run_session_id = ''s'', run_status = st \<rparr>"
  by (simp add: sample_run_find load_run_Inr [OF sample_run_inv])

lemma sample_run_events: "run_events k (sample_prompt_db rows []) = []"
  by (simp add: run_events_def sample_prompt_db_def)

text \<open>A run that logged its cancellation and then was ended as completed.\<close>

definition sample_stop_row :: prompt_event_row where
  "sample_stop_row = \<lparr> pe_run_id = sample_run_id, pe_sequence = 0, pe_json = dumps True user_stop_event \<rparr>"

definition sample_logged :: "prompt_status \<Rightarrow> prompt_system" where
  "sample_logged st = \<lparr> ps_db = sample_prompt_db [sample_run_row st] [sample_stop_row], ps_intended = [(sample_run_id, 0)], ps_deleted = [] \<rparr>"

lemma sample_append:
  "append_attempt sample_run_id (dumps True user_stop_event) ut dd None (sample_prompt_db [sample_run_row Starting] []) =
     (Inr Appended, Some 0, sample_prompt_db [sample_run_row Starting] [sample_stop_row])"
  by (simp add: append_attempt_def next_event_sequence_def sample_run_events EVENT_COUNT_MAX_def sample_run_find TERMINAL_STATUSES_def)
     (simp add: sample_prompt_db_def insert_event_def sample_stop_row_def)

lemma sample_logged_step: "prompt_step (sample_prompt_system [sample_run_row Starting]) (sample_logged Starting)"
  using prompt_step.append [OF serialize_user_stop, of None sample_run_id "sample_prompt_system [sample_run_row Starting]" False False]
  by (simp add: sample_prompt_system_def sample_append sample_logged_def)

lemma sample_finish_step: "st \<in> ACTIVE_STATUSES \<Longrightarrow> st \<noteq> Stopping \<Longrightarrow> fin \<in> TERMINAL_STATUSES \<Longrightarrow> prompt_step (sample_logged st) (sample_logged fin)"
  using prompt_step.finish [of fin "sample_logged st" sample_run_id "(''s'', st)"]
  by (simp add: sample_logged_def sample_prompt_db_def sample_run_row_def set_terminal_write_def update_status_def release_session_def active_or_terminal)

lemma sample_finished_reach: "reach prompt_init prompt_step (sample_logged Completed)"
proof -
  have "prompt_step (sample_logged Starting) (sample_logged Completed)" by (rule sample_finish_step) (simp_all add: status_sets)
  then show ?thesis using reach.reach_step [OF reach.reach_step [OF sample_prompt_reach sample_logged_step]] by blast
qed

lemma sample_finished_again: "prompt_step (sample_logged Completed) (sample_logged Completed)"
  using prompt_step.finish [of Failed "sample_logged Completed" sample_run_id "(''s'', Running)"]
  by (simp add: sample_logged_def sample_prompt_db_def sample_run_row_def set_terminal_write_def update_status_def status_sets find_run_def)

definition sample_deleted :: prompt_system where
  "sample_deleted = \<lparr> ps_db = \<lparr> db_runs = [], db_events = [], db_sessions = [], db_messages = [] \<rparr>, ps_intended = [(sample_run_id, 0)], ps_deleted = [sample_run_id] \<rparr>"

lemma sample_delete_step: "prompt_step (sample_logged Completed) sample_deleted"
  using prompt_step.delete [of "sample_logged Completed" "[''s'']"]
  by (simp add: sample_logged_def sample_deleted_def delete_sessions_def sample_prompt_db_def sample_stop_row_def)

lemma sample_logged_sel: "sample_run_row st \<in> set (db_runs (ps_db (sample_logged st)))" "run_events sample_run_id (ps_db (sample_logged st)) = [sample_stop_row]"
    "db_runs (ps_db (sample_logged st)) = [sample_run_row st]"
  by (simp_all add: sample_logged_def sample_prompt_db_def run_events_def sample_stop_row_def)

theorem prompt_journal_consistent_witness:
  "length (filter (\<lambda>r. pr_id r = sample_run_id) (db_runs (ps_db (sample_logged Completed)))) \<le> 1
    \<and> length (filter (\<lambda>r. (pr_session_id r, pr_key r) = (''s'', ''k'')) (db_runs (ps_db (sample_logged Completed)))) \<le> 1
    \<and> map pe_sequence (run_events sample_run_id (ps_db (sample_logged Completed))) = [0]"
  using prompt_journal_consistent [OF sample_finished_reach, of sample_run_id "''s''" "''k''"] by (simp add: sample_logged_sel)

theorem prompt_outcome_final_witness:
  "pr_status (sample_run_row Completed) \<in> TERMINAL_STATUSES \<and> run_events sample_run_id (ps_db (sample_logged Completed)) = [sample_stop_row]
    \<and> (\<exists>r' \<in> set (db_runs (ps_db (sample_logged Completed))). pr_id r' = sample_run_id \<and> pr_status r' = Completed)
    \<and> \<not> (\<exists>u. prompt_step\<^sup>*\<^sup>* sample_deleted u \<and> (run_events sample_run_id (ps_db u) \<noteq> [] \<or> find_run sample_run_id (ps_db u) \<noteq> None))"
proof -
  have one: "prompt_step\<^sup>*\<^sup>* (sample_logged Completed) (sample_logged Completed)" "prompt_step\<^sup>*\<^sup>* (sample_logged Completed) sample_deleted"
    using sample_finished_again sample_delete_step by (simp_all add: r_into_rtranclp)
  have C: "Completed \<in> TERMINAL_STATUSES" by (simp add: TERMINAL_STATUSES_def)
  have "find_run sample_run_id (ps_db (sample_logged Completed)) \<noteq> None" by (simp add: sample_logged_def sample_run_find)
  then have kept: "\<exists>r' \<in> set (db_runs (ps_db (sample_logged Completed))). pr_id r' = sample_run_id \<and> pr_status r' = Completed"
    using prompt_outcome_final [OF sample_finished_reach one(1) sample_logged_sel(1)] C by auto
  have "db_runs (ps_db sample_deleted) = []" by (simp add: sample_deleted_def)
  then show ?thesis using prompt_outcome_final [OF sample_finished_reach one(2) sample_logged_sel(1)] kept C by (auto simp: sample_logged_sel(2))
qed

lemma sample_log_readable: "log_readable (\<lambda>t. Some (JObj [])) ''s'' sample_run_id (sample_prompt_db [sample_run_row Running] [sample_event_row])"
  by (auto simp: log_readable_def db_inv_def active_rows_def log_ok_def run_events_def sample_prompt_db_def sample_event_row_def sample_run_row_def
      stored_ok_def utf8_len_def EVENT_COUNT_MAX_def EVENT_BYTES_MAX_def ACTIVE_STATUSES_def)

theorem prompt_pages_complete_witness:
  "drain (read_event_page (\<lambda>t. Some (JObj [])) ''s'' sample_run_id) 1 (sample_prompt_db [sample_run_row Running] [sample_event_row]) 0 = Inr ([JObj []], 1)"
proof -
  have "run_events sample_run_id (sample_prompt_db [sample_run_row Running] [sample_event_row]) = [sample_event_row]"
    by (simp add: run_events_def sample_prompt_db_def sample_event_row_def)
  then show ?thesis using prompt_pages_complete [OF sample_log_readable, of 0 1] by simp
qed

theorem start_exclusive_witness:
  "create_run ''b'' ''s'' ''k2'' None (sample_prompt_db [sample_run_row Starting] []) =
     (Inl (PromptRunConflictError ''session already has an active prompt run''), sample_prompt_db [sample_run_row Starting] [])"
  using start_exclusive [OF sample_run_inv, of "''s''" "''k2''" Starting None "''b''"]
  by (simp add: sample_prompt_db_def sample_run_row_def sample_id_ne find_by_key_def find_active_def ACTIVE_STATUSES_def)

theorem start_idempotent_witness:
  "\<exists>run'. create_run ''b'' ''s'' ''k'' None (sample_prompt_db [sample_run_row Starting] []) = (Inr (run', False), sample_prompt_db [sample_run_row Starting] [])
     \<and> run_id run' = sample_run_id"
  using start_idempotent [OF sample_empty_reach, of sample_run_id "''s''" "''k''" None _ True "sample_prompt_db [sample_run_row Starting] []"
      "sample_prompt_system [sample_run_row Starting]" "''b''" None] sample_create
  by (auto simp: sample_prompt_system_def sample_id_ne sample_run_find)

theorem append_exactly_once_witness:
  "append_attempt sample_run_id (dumps True user_stop_event) False True (Some 0) (ps_db (sample_logged Completed)) = (Inr Skipped, Some 0, ps_db (sample_logged Completed))
    \<and> append_attempt sample_run_id (dumps True user_stop_event) False True (Some 0) (ps_db sample_deleted) =
        (Inl (PromptRunNotFoundError ''prompt run not found''), Some 0, ps_db sample_deleted)"
proof -
  let ?s = "sample_prompt_system [sample_run_row Starting]" and ?db' = "sample_prompt_db [sample_run_row Starting] [sample_stop_row]"
  have a: "append_attempt sample_run_id (dumps True user_stop_event) False True None (ps_db ?s) = (Inr Appended, Some 0, ?db')"
    by (simp add: sample_prompt_system_def sample_append)
  have s: "?s\<lparr>ps_db := ?db', ps_intended := (sample_run_id, 0) # ps_intended ?s\<rparr> = sample_logged Starting" by (simp add: sample_prompt_system_def sample_logged_def)
  have "prompt_step (sample_logged Starting) (sample_logged Completed)" by (rule sample_finish_step) (simp_all add: status_sets)
  then have later: "prompt_step\<^sup>*\<^sup>* (sample_logged Starting) (sample_logged Completed)" "prompt_step\<^sup>*\<^sup>* (sample_logged Starting) sample_deleted"
    using sample_delete_step by (simp_all add: converse_rtranclp_into_rtranclp)
  have "find_run sample_run_id (ps_db (sample_logged Completed)) \<noteq> None" "find_run sample_run_id (ps_db sample_deleted) = None"
    by (simp_all add: sample_logged_def sample_run_find, simp add: sample_deleted_def find_run_def)
  then show ?thesis
    using append_exactly_once [OF sample_prompt_reach serialize_user_stop a, unfolded s, OF later(1)]
      append_exactly_once [OF sample_prompt_reach serialize_user_stop a, unfolded s, OF later(2)] by simp
qed

theorem cancel_stable_witness:
  "\<exists>run' db'. cancel_absent ''s'' sample_run_id (sample_prompt_db [sample_run_row Running] []) = (Inr run', db') \<and> run_status run' = Cancelled
     \<and> cancel_absent ''s'' sample_run_id db' = (Inr run', db')"
  using cancel_stable [OF sample_run_inv sample_run_load, of Running]
  by (auto simp: cancel_recordable_def sample_run_events EVENT_COUNT_MAX_def TERMINAL_STATUSES_def)

theorem stop_overwritten_witness:
  "\<exists>db1 db2. fst (request_stop ''s'' sample_run_id (sample_prompt_db [sample_run_row Running] [])) =
      Inr (\<lparr> run_id = sample_run_id, run_session_id = ''s'', run_status = Stopping \<rparr>, True)
    \<and> set_terminal_write sample_run_id Completed (''s'', Running) db1 = (Inr (''s'', Completed), db2)"
proof -
  have "set_terminal_read sample_run_id (sample_prompt_db [sample_run_row Running] []) = Inr (''s'', Running)"
    using sample_run_find [of Running "[]"] by (simp add: set_terminal_read_def sample_run_row_def)
  from stop_overwritten [OF sample_run_inv sample_run_load _ this, of Completed] show ?thesis by (auto simp: TERMINAL_STATUSES_def)
qed

definition sample_outcome_log :: "prompt_event_row list" where
  "sample_outcome_log = [\<lparr> pe_run_id = sample_run_id, pe_sequence = 0, pe_json = [1] \<rparr>, \<lparr> pe_run_id = sample_run_id, pe_sequence = 1, pe_json = [2] \<rparr>,
     \<lparr> pe_run_id = sample_run_id, pe_sequence = 2, pe_json = [3] \<rparr>]"

definition sample_outcome_loads :: "utext \<Rightarrow> json option" where
  "sample_outcome_loads t = Some (JObj [(ascii ''type'', JStr (if t = [1] then ascii ''error'' else if t = [2] then ascii ''cancelled'' else ascii ''text''))])"

text \<open>A log of an error, a cancellation and a message, in this order, recovers as cancelled.\<close>

theorem recovery_complete_witness:
  "\<exists>recovered db'. recover_prompt_database sample_outcome_loads False (sample_prompt_db [sample_run_row Running] sample_outcome_log) = (Inr recovered, db')
    \<and> db_runs db' = [sample_run_row Cancelled] \<and> run_events sample_run_id db' = sample_outcome_log"
proof -
  let ?db = "sample_prompt_db [sample_run_row Running] sample_outcome_log"
  have ev: "run_events sample_run_id ?db = sample_outcome_log" by (simp add: run_events_def sample_prompt_db_def sample_outcome_log_def)
  have other: "i \<noteq> sample_run_id \<Longrightarrow> run_events i ?db = []" for i by (simp add: run_events_def sample_prompt_db_def sample_outcome_log_def)
  have "log_ok i ?db" for i using ev other [of i] by (cases "i = sample_run_id") (simp_all add: log_ok_def sample_outcome_log_def EVENT_COUNT_MAX_def)
  then have inv: "db_inv ?db"
    by (simp add: db_inv_def active_rows_def sample_prompt_db_def sample_outcome_log_def stored_ok_def utf8_len_def EVENT_BYTES_MAX_def)
  have R: "Running \<in> ACTIVE_STATUSES" "db_runs ?db = [sample_run_row Running]" by (simp_all add: ACTIVE_STATUSES_def sample_prompt_db_def)
  have types: "event_type sample_outcome_loads (sample_outcome_log ! 1) = Some (ascii ''cancelled'')" "ends_run sample_outcome_loads (sample_outcome_log ! 1)"
    "\<forall>y \<in> set (drop 2 sample_outcome_log). \<not> ends_run sample_outcome_loads y"
    by (simp_all add: ends_run_def event_type_def sample_outcome_loads_def sample_outcome_log_def jget_def ascii_def)
  have split: "sample_outcome_log = take 1 sample_outcome_log @ sample_outcome_log ! 1 # drop 2 sample_outcome_log" by (simp add: sample_outcome_log_def)
  have set: "(sample_run_row Running)\<lparr>pr_status := Cancelled\<rparr> = sample_run_row Cancelled" by (simp add: sample_run_row_def)
  obtain outcome db' where o: "recover_prompt_database sample_outcome_loads False ?db =
        (Inr (map (\<lambda>r. \<lparr> run_id = pr_id r, run_session_id = pr_session_id r, run_status = outcome r \<rparr>) (filter (\<lambda>r. pr_status r \<in> ACTIVE_STATUSES) (db_runs ?db))), db')"
      "db_runs db' = map (\<lambda>r. if pr_status r \<in> ACTIVE_STATUSES then r\<lparr>pr_status := outcome r\<rparr> else r) (db_runs ?db)"
    and last: "\<And>r xs e ys. r \<in> set (db_runs ?db) \<and> pr_status r \<in> ACTIVE_STATUSES \<and> run_events (pr_id r) ?db = xs @ e # ys
        \<and> ends_run sample_outcome_loads e \<and> (\<forall>y \<in> set ys. \<not> ends_run sample_outcome_loads y) \<Longrightarrow>
        outcome r = (if pr_status r = Stopping \<or> event_type sample_outcome_loads e = Some (ascii ''cancelled'') then Cancelled
          else if event_type sample_outcome_loads e = Some (ascii ''result'') then Completed else Failed)
        \<and> run_events (pr_id r) db' = run_events (pr_id r) ?db"
    using recovery_complete [OF inv, of sample_outcome_loads False] by blast
  have "outcome (sample_run_row Running) = Cancelled \<and> run_events sample_run_id db' = sample_outcome_log"
    using last [of "sample_run_row Running" "take 1 sample_outcome_log" "sample_outcome_log ! 1" "drop 2 sample_outcome_log"] types split ev R by simp
  then show ?thesis using o R set by simp
qed

text \<open>Three busy errors at the end of a run, a stop request in the meantime, and a reconciliation that ends the run as cancelled.\<close>

theorem consume_outcome_witness:
  "\<exists>st db1 d. (consume ''p'' sample_run_id [] Exhausted [Some (SqliteError (Some 5) ''x''), Some (SqliteError (Some 517) ''x''), Some (SqliteError None ''database is locked'')]
        (\<lparr> pj_recovered = [], pj_pending = [], pj_closing = False \<rparr>, sample_prompt_db [sample_run_row Starting] []) =
      (\<lparr> pj_recovered = [], pj_pending = [(sample_run_id, ''p'', st)], pj_closing = False \<rparr>, db1))
    \<and> reconcile_pending_terminal_status ''p'' sample_run_id []
        (\<lparr> pj_recovered = [], pj_pending = [(sample_run_id, ''p'', st)], pj_closing = False \<rparr>, sample_prompt_db [sample_run_row Stopping] []) =
      (Inr (), \<lparr> pj_recovered = [], pj_pending = [], pj_closing = False \<rparr>, d)
    \<and> find_run sample_run_id d = Some (sample_run_row Cancelled)"
proof -
  let ?j = "\<lparr> pj_recovered = [], pj_pending = [], pj_closing = False \<rparr>"
  let ?faults = "[Some (SqliteError (Some 5) ''x''), Some (SqliteError (Some 517) ''x''), Some (SqliteError None ''database is locked'')]"
  have S: "pr_status (sample_run_row Starting) \<in> {Starting, Stopping}" by simp
  have f: "\<not> persistable 3 ?faults" by (simp add: numeral_3_eq_3)
  have q: "(sample_run_row Stopping)\<lparr>pr_status := Cancelled\<rparr> = sample_run_row Cancelled" by (simp add: sample_run_row_def)
  from consume_outcome [OF sample_run_inv sample_run_find S, of "''p''" "[]" Exhausted ?faults ?j] obtain st db1 where
    c: "consume ''p'' sample_run_id [] Exhausted ?faults (?j, sample_prompt_db [sample_run_row Starting] []) = consume_finally ''p'' sample_run_id st ?faults (?j, db1)"
      "db_inv db1" "find_run sample_run_id db1 = Some ((sample_run_row Starting)\<lparr>pr_status := Running\<rparr>)"
    and later: "\<And>d q. db_inv d \<and> find_run sample_run_id d = Some q \<Longrightarrow>
        (\<not> persistable 3 ?faults \<longrightarrow> consume_finally ''p'' sample_run_id st ?faults (?j, d) = (?j\<lparr>pj_pending := dset [] sample_run_id (''p'', st)\<rparr>, d))
        \<and> (\<exists>d'. reconcile_pending_terminal_status ''p'' sample_run_id [] (?j\<lparr>pj_pending := dset [] sample_run_id (''p'', st)\<rparr>, d) =
            (Inr (), ?j\<lparr>pj_pending := dpop (dset [] sample_run_id (''p'', st)) sample_run_id\<rparr>, d')
          \<and> find_run sample_run_id d' = Some (q\<lparr>pr_status := if pr_status q \<in> TERMINAL_STATUSES then pr_status q else if pr_status q = Stopping then Cancelled else st\<rparr>))"
    unfolding Let_def by auto
  have d: "dset [] sample_run_id (''p'', st) = [(sample_run_id, ''p'', st)]" "dpop [(sample_run_id, ''p'', st)] sample_run_id = []" by simp_all
  have "consume_finally ''p'' sample_run_id st ?faults (?j, db1) = (?j\<lparr>pj_pending := [(sample_run_id, ''p'', st)]\<rparr>, db1)"
    using later [of db1 "(sample_run_row Starting)\<lparr>pr_status := Running\<rparr>"] c(2,3) f d by simp
  moreover have "\<exists>d'. reconcile_pending_terminal_status ''p'' sample_run_id [] (?j\<lparr>pj_pending := [(sample_run_id, ''p'', st)]\<rparr>, sample_prompt_db [sample_run_row Stopping] []) =
      (Inr (), ?j, d') \<and> find_run sample_run_id d' = Some (sample_run_row Cancelled)"
    using later [of "sample_prompt_db [sample_run_row Stopping] []" "sample_run_row Stopping"] sample_run_inv sample_run_find q d by (simp add: TERMINAL_STATUSES_def)
  ultimately show ?thesis using c(1) by auto
qed

theorem outcome_divergence_witness:
  "\<exists>loads db1 recovered db2. consume_body False sample_run_id [executor_error_event, executor_result_event] Exhausted (sample_prompt_db [sample_run_row Starting] []) = (Failed, db1)
    \<and> recover_prompt_database loads False db1 = (Inr recovered, db2) \<and> find_run sample_run_id db2 = Some (sample_run_row Completed)"
proof -
  let ?loads = "\<lambda>t. if t = dumps True executor_error_event then Some executor_error_event else Some executor_result_event"
  have "length (dumps True executor_error_event) = 32" "length (dumps True executor_result_event) = 17"
    by (simp_all add: executor_error_event_def executor_result_event_def ascii_def dumps_string_def escape_char_def)
  then have ne: "dumps True executor_result_event \<noteq> dumps True executor_error_event" by auto
  show ?thesis
    using outcome_divergence [OF sample_run_inv sample_run_find, of Starting ?loads False False] ne by (auto simp: sample_run_row_def sample_run_events)
qed

end
