(* ===== verification/Thread_Cancellation.thy ===== *)
theory Thread_Cancellation
  imports Thread_Lifecycle_Properties Thread_Authority Prompt_Journal_Properties
begin

section \<open>Cancelling threads\<close>

text \<open>
  What a cancellation reaches and what it guarantees: the barrier that its claims put in front of new threads, the
  targets its search selects, the authority an agent needs, when the claims are released, and how the
  delegation of a running child ends together with its prompt run.
\<close>

subsection \<open>The cancellation barrier\<close>











subsection \<open>The targets of a cancellation\<close>

lemma add_children_spec:
  assumes "add_children authorize depth is (targets, frontier, seen) = Inr (targets', frontier', seen')"
    and "\<And>i r. i \<in> set is \<Longrightarrow> authorize i = Inr r \<Longrightarrow> r \<in> set rows \<and> dl_id r = i"
  shows "\<exists>new. targets' = targets @ new \<and> frontier' = frontier @ map (\<lambda>r. (r, depth + 1)) new \<and> seen' = seen @ is
    \<and> map dl_id new = is \<and> set new \<subseteq> set rows \<and> (distinct seen \<longrightarrow> distinct seen') \<and> (length seen \<le> 500 \<longrightarrow> length seen' \<le> 500)"
  using assms
proof (induction "is" arbitrary: targets frontier seen)
  case (Cons i "is")
  then obtain row where row: "i \<notin> set seen" "length seen < 500" "authorize i = Inr row"
    "add_children authorize depth is (targets @ [row], frontier @ [(row, depth + 1)], seen @ [i]) = Inr (targets', frontier', seen')"
    by (auto simp: rbind_Inr_iff split: if_splits)
  have law: "\<And>k r. k \<in> set is \<Longrightarrow> authorize k = Inr r \<Longrightarrow> r \<in> set rows \<and> dl_id r = k" using Cons.prems(2) by (meson list.set_intros(2))
  obtain new where "targets' = (targets @ [row]) @ new"
    "frontier' = (frontier @ [(row, depth + 1)]) @ map (\<lambda>r. (r, depth + 1)) new" "seen' = (seen @ [i]) @ is" "map dl_id new = is" "set new \<subseteq> set rows"
    "distinct (seen @ [i]) \<longrightarrow> distinct seen'" "length (seen @ [i]) \<le> 500 \<longrightarrow> length seen' \<le> 500"
    using Cons.IH [OF row(4) law] by blast
  then show ?case using row Cons.prems(2) [of i row] by (intro exI [of _ "row # new"]) auto
qed auto

definition children_seen :: "delegation list \<Rightarrow> string set \<Rightarrow> delegation \<Rightarrow> bool" where
  "children_seen rows S p \<longleftrightarrow> (\<forall>r \<in> set rows. dl_child_session_id p = Some (dl_parent_session_id r) \<longrightarrow> dl_id r \<in> S)"

lemma child_ids_seen:
  assumes "length (child_ids p rows) \<le> 500" "set (child_ids p rows) \<subseteq> S"
  shows "children_seen rows S p"
proof (cases "dl_child_session_id p")
  case (Some s)
  let ?all = "map dl_id (sort_key (\<lambda>r. map (of_char :: char \<Rightarrow> nat) (dl_id r)) (filter (\<lambda>r. dl_parent_session_id r = s) rows))"
  have "take 501 ?all = ?all" using assms(1) Some by (simp add: child_ids_def)
  then have "set (child_ids p rows) = dl_id ` {r \<in> set rows. dl_parent_session_id r = s}" using Some by (simp add: child_ids_def)
  then show ?thesis using assms(2) Some by (auto simp: children_seen_def)
qed (simp add: children_seen_def)

lemma cancel_search_spec:
  assumes "cancel_search authorize rows targets frontier seen = Inr found"
    and "\<And>i r. i \<in> dl_id ` set rows \<Longrightarrow> authorize i = Inr r \<Longrightarrow> r \<in> set rows \<and> dl_id r = i"
    and "map dl_id targets = seen" "distinct seen" "length seen \<le> 500" "set targets \<subseteq> set rows" "fst ` set frontier \<subseteq> set targets"
    and "\<forall>p \<in> set targets. p \<in> fst ` set frontier \<or> children_seen rows (set seen) p"
  shows "prefix targets found \<and> distinct (map dl_id found) \<and> length found \<le> 500 \<and> set found \<subseteq> set rows
    \<and> (\<forall>p \<in> set found. children_seen rows (dl_id ` set found) p)"
  using assms
proof (induction authorize rows targets frontier seen rule: cancel_search.induct)
  case (1 authorize rows targets seen)
  have "found = targets" using 1(1) by simp
  then show ?case using 1(3-8) by auto
next
  case (2 authorize rows targets parent depth frontier seen)
  obtain targets' frontier' seen' where step: "add_children authorize depth (child_ids parent rows) (targets, frontier, seen) = Inr (targets', frontier', seen')"
    "cancel_search authorize rows targets' frontier' seen' = Inr found" "\<not> (child_ids parent rows \<noteq> [] \<and> depth \<ge> 32)"
    using 2(2) by (auto simp: Let_def split: if_splits sum.splits)
  have ids: "set (child_ids parent rows) \<subseteq> dl_id ` set rows"
    by (auto simp: child_ids_def split: option.splits dest!: in_set_takeD)
  obtain new where new: "targets' = targets @ new" "frontier' = frontier @ map (\<lambda>r. (r, depth + 1)) new" "seen' = seen @ child_ids parent rows"
    "map dl_id new = child_ids parent rows" "set new \<subseteq> set rows" "distinct seen'" "length seen' \<le> 500"
    using add_children_spec [OF step(1), of rows] 2(3,5,6) ids by blast
  have "children_seen rows (set seen') parent" using new(3,7) by (intro child_ids_seen) auto
  moreover have "children_seen rows S q \<Longrightarrow> S \<subseteq> T \<Longrightarrow> children_seen rows T q" for S T q by (auto simp: children_seen_def)
  moreover have frontier': "fst ` set frontier' = fst ` set frontier \<union> set new" by (simp add: new(2) image_Un image_image)
  ultimately have closed: "\<forall>p \<in> set targets'. p \<in> fst ` set frontier' \<or> children_seen rows (set seen') p"
    using 2(9) new(1,3) by auto
  have "map dl_id targets' = seen'" "set targets' \<subseteq> set rows" "fst ` set frontier' \<subseteq> set targets'"
    using new(1,3-5) 2(4,7,8) frontier' by auto
  from 2(1) [OF refl step(3,1) refl refl step(2) 2(3) this(1) new(6,7) this(2,3) closed] show ?case
    by (auto simp: new(1) dest: append_prefixD)
qed


lemma resolve_row: "resolve_cancel_target request t i = Inr r \<Longrightarrow> r \<in> set (tt_delegations t)"
  by (auto simp: resolve_cancel_target_def load_child_delegation_def find_delegation_def find_Some_iff rbind_Inr_iff
      dest: find_child_delegation_SomeD split: if_splits option.splits)

lemma walk_to_caller_result: "walk_to_caller n request t c repo i target current visited = Inr r \<Longrightarrow> r = target"
  by (induction n arbitrary: current visited) (auto simp: Let_def rbind_Inr_iff split: if_splits option.splits)

lemma descendant_resolves:
  "authorize_descendant h a request now t caller i = Inr r \<Longrightarrow> resolve_cancel_target request t i = Inr r"
  by (auto simp: authorize_descendant_def rbind_Inr_iff dest: walk_to_caller_result)

lemma cancel_authority_resolves: "cancel_authority h a request now t caller i = Inr r \<Longrightarrow> resolve_cancel_target request t i = Inr r"
  by (auto simp: cancel_authority_def dest: descendant_resolves split: option.splits)

lemma cancel_authority_id:
  assumes "\<forall>r \<in> set (tt_delegations t). find_session (dl_id r) t = None" "i \<in> dl_id ` set (tt_delegations t)"
    and "cancel_authority h a request now t caller i = Inr r"
  shows "r \<in> set (tt_delegations t) \<and> dl_id r = i"
proof -
  have "find_session i t = None" using assms(1,2) by auto
  then show ?thesis
    using cancel_authority_resolves [OF assms(3)]
    by (auto simp: resolve_cancel_target_def find_delegation_def find_Some_iff rbind_Inr_iff split: option.splits)
qed

text \<open>C28: The targets of a cascade. When the search for a subtree succeeds, its targets are at most 500 distinct delegations of the table, the first is the authorized root, and
  with a target every delegation started from its child session is a target too. Identities of sessions and delegations are assumed not to coincide.\<close>

theorem cancel_targets_subtree:
  assumes "\<forall>r \<in> set (tt_delegations t). find_session (dl_id r) t = None"
    and "cancel_targets (cancel_authority h a request now t caller) thread_id True (tt_delegations t) = Inr targets"
  shows "distinct (map dl_id targets) \<and> length targets \<le> 500 \<and> set targets \<subseteq> set (tt_delegations t)
    \<and> cancel_authority h a request now t caller thread_id = Inr (hd targets)
    \<and> (\<forall>p \<in> set targets. \<forall>r \<in> set (tt_delegations t). dl_child_session_id p = Some (dl_parent_session_id r) \<longrightarrow> dl_id r \<in> dl_id ` set targets)"
proof -
  obtain root where root: "cancel_authority h a request now t caller thread_id = Inr root"
    "cancel_search (cancel_authority h a request now t caller) (tt_delegations t) [root] [(root, 0)] [dl_id root] = Inr targets"
    using assms(2) by (auto simp: cancel_targets_def rbind_Inr_iff)
  have "root \<in> set (tt_delegations t)" using cancel_authority_resolves [OF root(1)] resolve_row by blast
  with cancel_search_spec [OF root(2) cancel_authority_id [OF assms(1)]]
  have "prefix [root] targets \<and> distinct (map dl_id targets) \<and> length targets \<le> 500 \<and> set targets \<subseteq> set (tt_delegations t)
    \<and> (\<forall>p \<in> set targets. children_seen (tt_delegations t) (dl_id ` set targets) p)" by simp
  then show ?thesis using root(1) by (auto simp: children_seen_def prefix_def)
qed

subsection \<open>Authority of a calling agent\<close>

inductive descends :: "delegation list \<Rightarrow> delegation \<Rightarrow> string \<Rightarrow> bool" for rows where
  direct: "descends rows d (dl_parent_session_id d)"
| deeper: "find_child_delegation (dl_parent_session_id d) rows = Some e \<Longrightarrow> descends rows e s \<Longrightarrow> descends rows d s"

lemma walk_to_caller_descends:
  "walk_to_caller n request t c repo i target current visited = Inr r \<Longrightarrow>
    descends (tt_delegations t) current c \<and> session_repository t (dl_parent_session_id current) = Inr repo
    \<and> authorize_session request t (dl_parent_session_id current) = Inr ()"
  by (induction n arbitrary: current visited)
     (auto simp: Let_def rbind_Inr_iff intro: descends.intros split: if_splits option.splits)

text \<open>C29: What an agent may reach. An agent that is granted a thread has an unexpired capability for the same tenant and database and a running prompt run of its own session; the thread is a
  proper descendant of that session in the same repository, never the session itself.\<close>

theorem agent_reach:
  assumes "authorize_descendant h a request now t caller thread_id = Inr target"
  shows "target \<in> set (tt_delegations t) \<and> descends (tt_delegations t) target (vc_session_id caller)
    \<and> dl_child_session_id target \<noteq> Some (vc_session_id caller)
    \<and> (\<exists>repo. session_repository t (vc_session_id caller) = Inr repo
          \<and> (\<forall>s. dl_child_session_id target = Some s \<longrightarrow> session_repository t s = Inr repo))
    \<and> (\<exists>run \<in> set (db_runs (tt_prompts t)). pr_id run = vc_run_id caller \<and> pr_session_id run = vc_session_id caller \<and> pr_status run = Running)
    \<and> now < vc_expires_at caller \<and> vc_tenant_id caller = rq_tenant request \<and> vc_database_path caller = rq_database request"
proof -
  obtain repo where auth: "authorize_caller h a request now t caller = Inr ()"
    and repo: "session_repository t (vc_session_id caller) = Inr repo"
    and child: "\<forall>s. dl_child_session_id target = Some s \<longrightarrow> session_repository t s = Inr repo"
    and own: "dl_child_session_id target \<noteq> Some (vc_session_id caller)"
    and walk: "walk_to_caller 64 request t (vc_session_id caller) repo thread_id target target [thread_id] = Inr target"
    using assms by (auto simp: authorize_descendant_def rbind_Inr_iff dest: walk_to_caller_result split: option.splits)
  have "now < vc_expires_at caller \<and> vc_tenant_id caller = rq_tenant request \<and> vc_database_path caller = rq_database request
    \<and> (\<exists>run \<in> set (db_runs (tt_prompts t)). pr_id run = vc_run_id caller \<and> pr_session_id run = vc_session_id caller \<and> pr_status run = Running)"
    using auth by (auto simp: authorize_caller_def authorize_caller_identity_def rbind_Inr_iff find_Some_iff Bex_def
        dest: nth_mem split: if_splits option.splits)
  moreover have "target \<in> set (tt_delegations t)" using descendant_resolves [OF assms] resolve_row by blast
  ultimately show ?thesis using repo child own walk_to_caller_descends [OF walk] by blast
qed

subsection \<open>Releasing the claims\<close>

definition quiescent :: "(bytes \<Rightarrow> bytes) \<Rightarrow> prompt_db \<Rightarrow> delegation \<Rightarrow> bool" where
  "quiescent sha1 db row \<longleftrightarrow> is_terminal_delegation_status (dl_status row)
     \<and> (case initial_run sha1 row db of
          Inl e \<Rightarrow> False
        | Inr None \<Rightarrow> True
        | Inr (Some run) \<Rightarrow> pr_status run \<in> TERMINAL_STATUSES)"

lemma run_outcome_iff: "(\<exists>y. run_status_to_delegation_status s = Some y) \<longleftrightarrow> s \<in> TERMINAL_STATUSES"
  by (cases s) (simp_all add: TERMINAL_STATUSES_def)

lemma complete_targets_Cons:
  assumes "complete_targets sha1 db rows (target # targets) = Inr done_rows"
  shows "complete_targets sha1 db rows targets = Inr done_rows
    \<or> (\<exists>row more. find_delegation (dl_id target) rows = Some row \<and> quiescent sha1 db row
         \<and> complete_targets sha1 db rows targets = Inr more \<and> done_rows = row # more)"
proof (cases "find_delegation (dl_id target) rows")
  case (Some row)
  show ?thesis
  proof (cases "initial_run sha1 row db")
    case (Inr run)
    then show ?thesis using assms Some
      by (cases run; cases "dl_status row \<in> TERMINAL_DELEGATION_STATUSES")
         (auto simp: quiescent_def is_terminal_delegation_status_def rbind_Inr_iff run_outcome_iff split: if_split_asm)
  qed (use assms Some in \<open>auto split: if_split_asm\<close>)
qed (use assms in auto)

lemma complete_targets_spec:
  "complete_targets sha1 db rows targets = Inr done_rows \<Longrightarrow>
    length done_rows \<le> length targets \<and> set done_rows \<subseteq> set rows
    \<and> (length done_rows = length targets \<longrightarrow> (\<forall>d \<in> set targets. \<exists>row. find_delegation (dl_id d) rows = Some row \<and> quiescent sha1 db row))"
proof (induction targets arbitrary: done_rows)
  case (Cons target targets)
  from complete_targets_Cons [OF Cons.prems] show ?case
  proof (elim disjE exE conjE)
    fix row more
    assume "find_delegation (dl_id target) rows = Some row" "quiescent sha1 db row" "complete_targets sha1 db rows targets = Inr more" "done_rows = row # more"
    then show ?thesis using Cons.IH [of more] by (auto simp: find_delegation_def dest: find_SomeD)
  qed (use Cons.IH [of done_rows] in auto)
qed simp

lemma find_update_other:
  "(\<And>r. P r \<Longrightarrow> dl_id r \<noteq> i \<and> dl_id (f r) = dl_id r) \<Longrightarrow> find_delegation i (snd (update_rows P f rows)) = find_delegation i rows"
  by (induction rows) (auto simp: find_delegation_def update_rows_def)

lemma clear_scopes_keeps:
  "\<forall>row \<in> set done_rows. dl_id row = i \<longrightarrow> dl_cancel_scope row = Some ''subtree'' \<Longrightarrow>
    find_delegation i (clear_scopes False done_rows rows) = find_delegation i rows"
proof (induction done_rows arbitrary: rows)
  case (Cons row done_rows)
  then show ?case by (cases "dl_cancel_scope row = Some ''subtree''") (auto intro!: find_update_other)
qed simp

text \<open>The barrier is held. The claim on a subtree is released only when every target of the cancellation is terminal and its initial run is absent or finished.\<close>

theorem barrier_held:
  assumes "reach (\<lambda>rows. rows = []) (delegation_step sha1) rows"
    and "clear_cancel_claims sha1 db targets rows = (Inr (), rows')"
    and "find_delegation i rows = Some r" "dl_cancel_scope r = Some ''subtree''"
    and "find_delegation i rows' = Some r'" "dl_cancel_scope r' = None"
  shows "\<forall>d \<in> set targets. \<exists>row. find_delegation (dl_id d) rows = Some row \<and> quiescent sha1 db row"
proof -
  obtain done_rows where c: "complete_targets sha1 db rows targets = Inr done_rows"
    "rows' = clear_scopes (length done_rows = length targets) done_rows rows"
    using assms(2) by (auto simp: clear_cancel_claims_def split: sum.splits)
  note spec = complete_targets_spec [OF c(1)]
  have inv: "delegation_inv rows" by (rule delegations.reach_inv [OF assms(1)])
  have "length done_rows = length targets"
  proof (rule ccontr)
    assume "length done_rows \<noteq> length targets"
    moreover have "\<forall>row \<in> set done_rows. dl_id row = i \<longrightarrow> dl_cancel_scope row = Some ''subtree''"
      using spec assms(3,4) find_delegation_iff [OF inv] by (metis option.inject subsetD)
    ultimately have "find_delegation i rows' = find_delegation i rows" using c(2) by (simp add: clear_scopes_keeps)
    then show False using assms(3-6) by simp
  qed
  then show ?thesis using spec by blast
qed

subsection \<open>Cancelling a running child\<close>

lemma find_update_one:
  assumes "delegation_inv rows" "find_delegation i rows = Some d" "dl_status d = s" "\<And>r. dl_id (f r) = dl_id r"
  shows "fst (update_rows (\<lambda>r. dl_id r = i \<and> dl_status r = s) f rows) = 1"
    and "find_delegation i (snd (update_rows (\<lambda>r. dl_id r = i \<and> dl_status r = s) f rows)) = Some (f d)"
proof -
  have "distinct (map dl_id rows)" using assms(1) by (simp add: delegation_inv_def)
  then show "fst (update_rows (\<lambda>r. dl_id r = i \<and> dl_status r = s) f rows) = 1"
    using assms(2,3)
  proof (induction rows)
    case (Cons r rows)
    then show ?case
      by (cases "dl_id r = i") (auto simp: find_delegation_def update_rows_def image_iff filter_empty_conv split: if_splits)
  qed (simp add: find_delegation_def)
  show "find_delegation i (snd (update_rows (\<lambda>r. dl_id r = i \<and> dl_status r = s) f rows)) = Some (f d)"
    using assms(2,3,4) by (induction rows) (auto simp: find_delegation_def update_rows_def split: if_splits)
qed

lemma find_initial_run:
  assumes "db_inv db" "run \<in> set (db_runs db)"
  shows "find (\<lambda>r. pr_session_id r = pr_session_id run \<and> pr_key r = pr_key run) (db_runs db) = Some run"
  using find_Some_unique [of "\<lambda>r. (pr_session_id r, pr_key r)" "db_runs db" run "(pr_session_id run, pr_key run)"] assms
  by (simp add: db_inv_def)

lemma cancel_run_result:
  assumes "db_inv db" "initial_run_idempotency_key sha1 i = Inr (pr_key run)"
    and "run \<in> set (db_runs db)" "length (pr_id run) = 32" "cancel_recordable (pr_id run) db"
  shows "\<exists>q db'. cancel_child_prompt_run sha1 True i (pr_session_id run) db = (Inr (Some q), db')
    \<and> run_status q = (if pr_status run \<in> TERMINAL_STATUSES then pr_status run else Cancelled)"
proof -
  have "load_run (pr_session_id run) (pr_id run) db = Inr \<lparr> run_id = pr_id run, run_session_id = pr_session_id run, run_status = pr_status run \<rparr>"
    using assms(1,3,4) by (auto simp: load_run_Inr find_run_iff)
  from cancel_absent_result [OF assms(1) this assms(5)] show ?thesis
    using assms(2) find_initial_run [OF assms(1,3)] by (auto simp: cancel_child_prompt_run_def)
qed

text \<open>Completion beats cancellation. Cancelling a running or cancelling child whose run no coordinator executes any more always ends the delegation, with the status of its initial run:
  a run that had finished keeps its outcome and gives it to the delegation, any other is cancelled.\<close>

theorem cancel_running_adopts:
  assumes "delegation_inv rows" "db_inv db"
    and "find_delegation i rows = Some d" "dl_status d = (if already then DELEGATION_STATUS_CANCELLING else DELEGATION_STATUS_RUNNING)"
    and "initial_run_idempotency_key sha1 i = Inr (pr_key run)"
    and "run \<in> set (db_runs db)" "length (pr_id run) = 32" "cancel_recordable (pr_id run) db"
  shows "\<exists>d' rows' db'. cancel_running sha1 True i (pr_session_id run) already now (rows, db) = (Inr (Some d'), rows', db')
    \<and> find_delegation i rows' = Some d'
    \<and> Some (dl_status d') = run_status_to_delegation_status (if pr_status run \<in> TERMINAL_STATUSES then pr_status run else Cancelled)"
proof -
  obtain rows1 d1 where claim: "(if already then (1, rows) else claim_cancelling i now rows) = (1, rows1)"
    "delegation_inv rows1" "find_delegation i rows1 = Some d1" "dl_status d1 = DELEGATION_STATUS_CANCELLING"
  proof (cases already)
    case True
    then show ?thesis using that [of rows d] assms(1,3,4) by simp
  next
    case False
    have "delegation_inv (snd (claim_cancelling i now rows))"
      using rows_move_inv [OF simple_moves(5) assms(1)] .
    then show ?thesis
      using that [of "snd (claim_cancelling i now rows)"] find_update_one [OF assms(1,3), of DELEGATION_STATUS_RUNNING
        "\<lambda>r. r\<lparr>dl_status := DELEGATION_STATUS_CANCELLING, dl_updated_at := now\<rparr>"] assms(4) False
      by (simp add: claim_cancelling_def prod_eq_iff)
  qed
  obtain q db' where q: "cancel_child_prompt_run sha1 True i (pr_session_id run) db = (Inr (Some q), db')"
    "run_status q = (if pr_status run \<in> TERMINAL_STATUSES then pr_status run else Cancelled)"
    using cancel_run_result [OF assms(2,5-8)] by blast
  have "run_status q \<in> TERMINAL_STATUSES" using q(2) by (auto simp: TERMINAL_STATUSES_def)
  then obtain target where target: "run_status_to_delegation_status (run_status q) = Some target"
    using run_outcome_iff by blast
  have "find_delegation i (adopt_terminal_cancellation i target now rows1) =
      Some (d1\<lparr>dl_status := target, dl_completed_at := Some (coalesce (dl_completed_at d1) now), dl_updated_at := now\<rparr>)"
    unfolding adopt_terminal_cancellation_def by (rule find_update_one(2) [OF claim(2-4)]) simp
  then show ?thesis using claim(1) q target by (auto simp: cancel_running_def)
qed

subsection \<open>The key of the initial run\<close>

lemma set_bits_bound:
  fixes v :: nat
  assumes "v < 2 ^ n" "x < 2 ^ w" "k + w \<le> n"
  shows "v - ((v div 2 ^ k) mod 2 ^ w) * 2 ^ k + x * 2 ^ k < 2 ^ n"
proof -
  let ?q = "v div 2 ^ (k + w)" and ?m = "(v div 2 ^ k) mod 2 ^ w" and ?r = "v mod 2 ^ k"
  have "v div 2 ^ k = ?q * 2 ^ w + ?m" by (metis div_mult2_eq div_mult_mod_eq power_add)
  then have "v = (?q * 2 ^ w + ?m) * 2 ^ k + ?r" by (metis div_mult_mod_eq)
  then have v: "v = ?q * 2 ^ (k + w) + ?m * 2 ^ k + ?r" by (simp add: algebra_simps power_add)
  then have eq: "v - ?m * 2 ^ k + x * 2 ^ k = ?q * 2 ^ (k + w) + x * 2 ^ k + ?r" by linarith
  have "?r < 2 ^ k" by simp
  then have "x * 2 ^ k + ?r < (x + 1) * 2 ^ k" by simp
  also have "\<dots> \<le> 2 ^ w * 2 ^ k" using assms(2) by (intro mult_right_mono) simp_all
  finally have low: "x * 2 ^ k + ?r < 2 ^ (k + w)" by (simp add: power_add mult.commute)
  have "v < 2 ^ (n - (k + w)) * 2 ^ (k + w)" using assms(1,3) by (simp flip: power_add)
  then have "?q < 2 ^ (n - (k + w))" by (simp add: less_mult_imp_div_less)
  then have "(?q + 1) * 2 ^ (k + w) \<le> 2 ^ (n - (k + w)) * 2 ^ (k + w)" by (intro mult_right_mono) simp_all
  also have "\<dots> = 2 ^ n" using assms(3) by (simp flip: power_add)
  finally show ?thesis using low eq by simp
qed

lemma uuid_of_bytes_range: "length b \<le> 16 \<Longrightarrow> uuid_of_bytes b < 2 ^ 128"
proof -
  assume "length b \<le> 16"
  then have "(256 :: int) ^ length b \<le> 256 ^ 16" by (intro power_increasing) simp_all
  then have "int_from_bytes b < 2 ^ 128" using int_from_bytes_bounds [of b] by simp
  then show ?thesis using int_from_bytes_bounds [of b] by (simp add: uuid_of_bytes_def nat_less_iff)
qed

lemma uuid5_bound: "uuid5_value sha1 namespace name < 2 ^ 128"
proof -
  let ?v = "uuid_of_bytes (take 16 (sha1 (uuid_bytes namespace @ map of_char name)))"
  let ?v1 = "?v - ((?v div 2 ^ 62) mod 2 ^ 2) * 2 ^ 62 + 2 * 2 ^ 62"
  have "?v < 2 ^ 128" by (rule uuid_of_bytes_range) simp
  then have "?v1 < 2 ^ 128" by (rule set_bits_bound) simp_all
  then have "?v1 - ((?v1 div 2 ^ 76) mod 2 ^ 4) * 2 ^ 76 + 5 * 2 ^ 76 < 2 ^ 128" by (rule set_bits_bound) simp_all
  then show ?thesis unfolding uuid5_value_def Let_def .
qed

text \<open>The keys fit. The key that the orchestrator derives for the initial run of a delegation is always a canonical UUID, so the prompt journal never refuses it.\<close>

theorem initial_run_key_accepted:
  assumes "initial_run_idempotency_key sha1 delegation_id = Inr key"
  shows "validate_idempotency_key key = Inr ()"
  using assms uuid_value_str [OF uuid5_bound]
  by (auto simp: initial_run_idempotency_key_def Let_def rbind_Inr_iff validate_idempotency_key_def)

subsection \<open>Witnesses\<close>

definition sample_tree :: thread_tables where
  "sample_tree = \<lparr> tt_sessions = [\<lparr> ts_id = ''p'', ts_repo = Some ''r'' \<rparr>, \<lparr> ts_id = ''c'', ts_repo = Some ''r'' \<rparr>, \<lparr> ts_id = ''g'', ts_repo = Some ''r'' \<rparr>],
     tt_repos = [(''r'', None)],
     tt_delegations = [sample_row ''d'' ''p'' (Some ''c'') ''running'', sample_row ''e'' ''c'' (Some ''g'') ''running''],
     tt_prompts = sample_prompt_db [\<lparr> pr_id = ''run'', pr_session_id = ''p'', pr_key = ''k'', pr_status = Running \<rparr>] [] \<rparr>"

definition sample_request :: thread_request where
  "sample_request = \<lparr> rq_tenant = Some ''u'', rq_user_email = None, rq_database = None \<rparr>"

definition sample_caller :: verified_caller where
  "sample_caller = \<lparr> vc_session_id = ''p'', vc_run_id = ''run'', vc_tenant_id = Some ''u'', vc_expires_at = 10, vc_database_path = None \<rparr>"

lemmas sample_thread_eval = sample_tree_def sample_request_def sample_row_def authorize_session_def find_session_def session_repository_def
  resolve_cancel_target_def load_child_delegation_def find_child_delegation_def find_delegation_def cancel_authority_def

lemma sample_targets:
  "cancel_targets (cancel_authority True True sample_request 0 sample_tree None) ''c'' True (tt_delegations sample_tree) = Inr (tt_delegations sample_tree)"
  by (simp add: cancel_targets_def child_ids_def Let_def sample_thread_eval)


theorem cancel_targets_subtree_witness:
  "distinct (map dl_id (tt_delegations sample_tree)) \<and> cancel_authority True True sample_request 0 sample_tree None ''c'' = Inr (hd (tt_delegations sample_tree))"
proof -
  have "\<forall>r \<in> set (tt_delegations sample_tree). find_session (dl_id r) sample_tree = None" by (simp add: sample_thread_eval)
  from cancel_targets_subtree [OF this sample_targets] show ?thesis by blast
qed

theorem agent_reach_witness:
  "\<exists>target. authorize_descendant True True sample_request 0 sample_tree sample_caller ''g'' = Inr target
     \<and> descends (tt_delegations sample_tree) target ''p'' \<and> dl_id target = ''e''"
proof -
  have "authorize_descendant True True sample_request 0 sample_tree sample_caller ''g'' = Inr (sample_row ''e'' ''c'' (Some ''g'') ''running'')"
    by (simp add: authorize_descendant_def authorize_caller_def authorize_caller_identity_def sample_caller_def sample_prompt_db_def
        numeral_eq_Suc Let_def sample_thread_eval)
  from agent_reach [OF this] this show ?thesis by (auto simp: sample_caller_def sample_row_def)
qed

definition sample_sha1 :: "bytes \<Rightarrow> bytes" where "sample_sha1 b = replicate 20 0"

definition sample_key :: string where
  "sample_key = uuid_str (uuid5_value sample_sha1 NAMESPACE_URL (''yinshi:thread-initial-run:'' @ sample_run_id))"

lemma sample_key_derived: "initial_run_idempotency_key sample_sha1 sample_run_id = Inr sample_key"
proof -
  have "map ascii_lower (str_strip sample_run_id) = sample_run_id" "is_lower_hex sample_run_id" by code_simp+
  then show ?thesis by (simp add: initial_run_idempotency_key_def sample_key_def)
qed

theorem initial_run_key_accepted_witness: "validate_idempotency_key sample_key = Inr ()"
  by (rule initial_run_key_accepted [OF sample_key_derived])

definition sample_claimed :: "delegation list" where
  "sample_claimed = snd (claim_provisioning_cancel sample_run_id 2
     (snd (claim_cancel_targets (\<lambda>_. Inr (sample_row sample_run_id ''p'' None ''provisioning'')) sample_run_id True 1
        (snd (reserve_delegation sample_run_id ''p'' 0 [])))))"

lemma sample_claimed_reach: "reach (\<lambda>rows. rows = []) (delegation_step sha1) sample_claimed"
  unfolding sample_claimed_def
  by (rule reach_step, rule reach_step, rule reach_step, rule reach_init, rule refl, rule ds_reserve, rule ds_claim, rule ds_cancel_provisioning)

lemma sample_claimed_eval: "sample_claimed = [(sample_row sample_run_id ''p'' None ''cancelled'')
    \<lparr>dl_cancel_scope := Some ''subtree'', dl_updated_at := 2, dl_completed_at := Some 2\<rparr>]"
  by (simp add: sample_claimed_def claim_provisioning_cancel_def claim_cancel_targets_def cancel_targets_def reserve_delegation_def
      child_ids_def update_rows_def find_delegation_def sample_row_def delegation_status_defs Let_def)

theorem barrier_held_witness:
  "\<exists>row. find_delegation sample_run_id sample_claimed = Some row \<and> quiescent sample_sha1 (sample_prompt_db [] []) row"
proof -
  let ?r = "(sample_row sample_run_id ''p'' None ''cancelled'')\<lparr>dl_cancel_scope := Some ''subtree'', dl_updated_at := 2, dl_completed_at := Some 2\<rparr>"
  have find: "find_delegation sample_run_id sample_claimed = Some ?r" by (simp add: sample_claimed_eval find_delegation_def sample_row_def)
  have ids: "dl_id ?r = sample_run_id" "dl_status ?r = ''cancelled''" "dl_child_session_id ?r = None" by (simp_all add: sample_row_def)
  have "clear_cancel_claims sample_sha1 (sample_prompt_db [] []) [?r] sample_claimed = (Inr (), [?r\<lparr>dl_cancel_scope := None\<rparr>])"
    using find ids by (simp add: clear_cancel_claims_def initial_run_def sample_key_derived terminal_cases)
      (simp add: sample_claimed_eval update_rows_def)
  from barrier_held [OF sample_claimed_reach this find] show ?thesis
    using ids by (auto simp: find_delegation_def)
qed

definition sample_initial_run :: "prompt_status \<Rightarrow> prompt_row" where
  "sample_initial_run st = \<lparr> pr_id = sample_run_id, pr_session_id = ''s'', pr_key = sample_key, pr_status = st \<rparr>"

theorem cancel_running_adopts_witness:
  "\<exists>d' rows' db'. cancel_running sample_sha1 True sample_run_id ''s'' False 1
      ([sample_row sample_run_id ''p'' (Some ''s'') ''running''], sample_prompt_db [sample_initial_run Completed] []) = (Inr (Some d'), rows', db')
    \<and> dl_status d' = ''completed''"
proof -
  let ?d = "sample_row sample_run_id ''p'' (Some ''s'') ''running''" and ?db = "sample_prompt_db [sample_initial_run Completed] []"
  have d: "delegation_inv [?d]" "find_delegation sample_run_id [?d] = Some ?d" "dl_status ?d = (if False then DELEGATION_STATUS_CANCELLING else DELEGATION_STATUS_RUNNING)"
    by (simp_all add: delegation_inv_def sample_row_def find_delegation_def DELEGATION_STATUSES_def delegation_status_defs)
  have db: "db_inv ?db" "sample_initial_run Completed \<in> set (db_runs ?db)" "length (pr_id (sample_initial_run Completed)) = 32"
    "cancel_recordable (pr_id (sample_initial_run Completed)) ?db"
    by (simp_all add: db_inv_def active_rows_def log_ok_def run_events_def sample_prompt_db_def sample_initial_run_def cancel_recordable_def EVENT_COUNT_MAX_def)
  have key: "initial_run_idempotency_key sample_sha1 sample_run_id = Inr (pr_key (sample_initial_run Completed))"
    by (simp add: sample_key_derived sample_initial_run_def)
  from cancel_running_adopts [OF d(1) db(1) d(2,3) key db(2-4), of 1] show ?thesis
    by (auto simp: sample_initial_run_def TERMINAL_STATUSES_def delegation_status_defs)
qed

end
