(* ===== verification/Json_Parser.thy ===== *)
theory Json_Parser
  imports Json_Text
begin

section \<open>Reading JSON text\<close>

text \<open>
  \<^verbatim>\<open>json.loads\<close> of the standard library: the C scanner's string, number and literal rules, the object
  and array loops, the hooks \<^verbatim>\<open>parse_float\<close>, \<^verbatim>\<open>parse_constant\<close> and \<^verbatim>\<open>object_pairs_hook\<close> that callers pass,
  and the limit of 4,300 digits on the conversion of an integer (\<^verbatim>\<open>sys.set_int_max_str_digits\<close>). The
  recursion carries fuel; \<open>json_loads\<close> starts it at twice the length of the text plus two, and
  \<open>json_loads_total\<close> shows that it never runs out. The interpreter's recursion limit is not modelled.
\<close>

subsection \<open>Scanner\<close>

datatype loads_error = JSONDecodeErr | IntDigitsErr | HookErr string | FuelErr

type_synonym 'a scan = "loads_error + ('a \<times> utext)"

definition skip_ws :: "utext \<Rightarrow> utext" where
  "skip_ws s = dropWhile (\<lambda>c. c \<in> {32, 9, 10, 13}) s"

definition hex_value :: "nat \<Rightarrow> nat option" where
  "hex_value c = (if 48 \<le> c \<and> c \<le> 57 then Some (c - 48) else if 97 \<le> c \<and> c \<le> 102 then Some (c - 87)
     else if 65 \<le> c \<and> c \<le> 70 then Some (c - 55) else None)"

fun hex4_value :: "utext \<Rightarrow> (nat \<times> utext) option" where
  "hex4_value (a # b # c # d # rest) =
     (case (hex_value a, hex_value b, hex_value c, hex_value d) of
        (Some w, Some x, Some y, Some z) \<Rightarrow> Some (((w * 16 + x) * 16 + y) * 16 + z, rest)
      | _ \<Rightarrow> None)"
| "hex4_value _ = None"

definition simple_escape :: "nat \<Rightarrow> nat option" where
  "simple_escape c = map_of [(34, 34), (92, 92), (47, 47), (98, 8), (102, 12), (110, 10), (114, 13), (116, 9)] c"

lemma hex4_value_shorter: "hex4_value s = Some (v, rest) \<Longrightarrow> length rest < length s"
  by (induction s rule: hex4_value.induct) (auto split: option.splits prod.splits)

text \<open>The code point of an escape whose four digits follow, joined with a low surrogate in a second escape.\<close>

definition unicode_escape :: "utext \<Rightarrow> nat scan" where
  "unicode_escape s =
     (case hex4_value s of
        None \<Rightarrow> Inl JSONDecodeErr
      | Some (u, rest) \<Rightarrow>
          if 0xD800 \<le> u \<and> u \<le> 0xDBFF \<and> take 2 rest = [92, 117]
          then (case hex4_value (drop 2 rest) of
                  None \<Rightarrow> Inl JSONDecodeErr
                | Some (u2, rest2) \<Rightarrow>
                    if 0xDC00 \<le> u2 \<and> u2 \<le> 0xDFFF then Inr (0x10000 + (u - 0xD800) * 1024 + (u2 - 0xDC00), rest2)
                    else Inr (u, rest))
          else Inr (u, rest))"

lemma unicode_escape_shorter: "unicode_escape s = Inr (v, rest) \<Longrightarrow> length rest < length s"
  by (fastforce simp: unicode_escape_def split: option.splits prod.splits if_splits dest!: hex4_value_shorter)

function scan_string :: "utext \<Rightarrow> utext scan" where
  "scan_string [] = Inl JSONDecodeErr"
| "scan_string (c # cs) =
     (if c = 34 then Inr ([], cs)
      else if c = 92 then
        (case cs of
           [] \<Rightarrow> Inl JSONDecodeErr
         | e # es \<Rightarrow>
             if e = 117 then
               (case unicode_escape es of
                  Inl err \<Rightarrow> Inl err
                | Inr (v, rest) \<Rightarrow> rbind (scan_string rest) (\<lambda>(t, r). Inr (v # t, r)))
             else (case simple_escape e of
                     None \<Rightarrow> Inl JSONDecodeErr
                   | Some v \<Rightarrow> rbind (scan_string es) (\<lambda>(t, r). Inr (v # t, r))))
      else if c \<le> 31 then Inl JSONDecodeErr
      else rbind (scan_string cs) (\<lambda>(t, r). Inr (c # t, r)))"
  by pat_completeness auto
termination
  by (relation "measure length") (auto dest: unicode_escape_shorter)

definition is_digit :: "nat \<Rightarrow> bool" where "is_digit c \<longleftrightarrow> 48 \<le> c \<and> c \<le> 57"

text \<open>\<^verbatim>\<open>(-?(?:0|[1-9][0-9]*))(\.[0-9]+)?([eE][-+]?[0-9]+)?\<close>: the three groups and what follows.\<close>

definition match_int :: "utext \<Rightarrow> (utext \<times> utext) option" where
  "match_int s =
     (let sign = takeWhile (\<lambda>c. c = 45) (take 1 s); t = drop (length sign) s in
      case t of
        [] \<Rightarrow> None
      | d # r \<Rightarrow> if d = 48 then Some (sign @ [48], r)
                 else if is_digit d then Some (sign @ takeWhile is_digit t, dropWhile is_digit t) else None)"

definition match_frac :: "utext \<Rightarrow> utext \<times> utext" where
  "match_frac s = (case s of c # d # r \<Rightarrow> if c = 46 \<and> is_digit d then (46 # takeWhile is_digit (d # r), dropWhile is_digit (d # r)) else ([], s)
                   | _ \<Rightarrow> ([], s))"

definition match_exp :: "utext \<Rightarrow> utext \<times> utext" where
  "match_exp s =
     (case s of
        c # r \<Rightarrow>
          if c = 101 \<or> c = 69 then
            (let sign = takeWhile (\<lambda>c. c = 45 \<or> c = 43) (take 1 r); t = drop (length sign) r in
             if t \<noteq> [] \<and> is_digit (hd t) then ([c] @ sign @ takeWhile is_digit t, dropWhile is_digit t) else ([], s))
          else ([], s)
      | [] \<Rightarrow> ([], s))"

definition digits_value :: "utext \<Rightarrow> nat" where
  "digits_value s = foldl (\<lambda>v c. v * 10 + (c - 48)) 0 s"

definition int_value :: "utext \<Rightarrow> int" where
  "int_value s = (case s of c # cs \<Rightarrow> if c = 45 then - int (digits_value cs) else int (digits_value s) | [] \<Rightarrow> 0)"

definition INT_MAX_STR_DIGITS :: nat where "INT_MAX_STR_DIGITS = 4300"

record json_hooks =
  parse_float :: "utext \<Rightarrow> string + json"
  parse_constant :: "utext \<Rightarrow> string + json"
  object_pairs_hook :: "(utext \<times> json) list \<Rightarrow> string + json"

definition hooked :: "string + json \<Rightarrow> utext \<Rightarrow> json scan" where
  "hooked r rest = (case r of Inl e \<Rightarrow> Inl (HookErr e) | Inr v \<Rightarrow> Inr (v, rest))"

definition parse_number :: "json_hooks \<Rightarrow> utext \<Rightarrow> json scan" where
  "parse_number h s =
     (case match_int s of
        None \<Rightarrow> Inl JSONDecodeErr
      | Some (i, r) \<Rightarrow>
          (case match_frac r of (f, r1) \<Rightarrow>
           case match_exp r1 of (e, r2) \<Rightarrow>
             if f = [] \<and> e = [] then
               (if length (filter is_digit i) > INT_MAX_STR_DIGITS then Inl IntDigitsErr else Inr (JInt (int_value i), r2))
             else hooked (parse_float h (i @ f @ e)) r2))"

definition literal :: "string \<Rightarrow> utext \<Rightarrow> bool" where
  "literal w s \<longleftrightarrow> take (length w) s = ascii w"

fun parse_value :: "nat \<Rightarrow> json_hooks \<Rightarrow> utext \<Rightarrow> json scan"
and parse_members :: "nat \<Rightarrow> json_hooks \<Rightarrow> (utext \<times> json) list \<Rightarrow> utext \<Rightarrow> json scan"
and parse_elements :: "nat \<Rightarrow> json_hooks \<Rightarrow> json list \<Rightarrow> utext \<Rightarrow> json scan" where
  "parse_value 0 h s = Inl FuelErr"
| "parse_value (Suc n) h s =
     (case s of
        [] \<Rightarrow> Inl JSONDecodeErr
      | c # cs \<Rightarrow>
          if c = 34 then rbind (scan_string cs) (\<lambda>(t, r). Inr (JStr t, r))
          else if c = 123 then
            (case skip_ws cs of
               [] \<Rightarrow> Inl JSONDecodeErr
             | d # ds \<Rightarrow> if d = 125 then hooked (object_pairs_hook h []) ds else parse_members n h [] (d # ds))
          else if c = 91 then
            (case skip_ws cs of
               [] \<Rightarrow> Inl JSONDecodeErr
             | d # ds \<Rightarrow> if d = 93 then Inr (JList [], ds) else parse_elements n h [] (d # ds))
          else if literal ''null'' s then Inr (JNull, drop 4 s)
          else if literal ''true'' s then Inr (JBool True, drop 4 s)
          else if literal ''false'' s then Inr (JBool False, drop 5 s)
          else if literal ''NaN'' s then hooked (parse_constant h (ascii ''NaN'')) (drop 3 s)
          else if literal ''Infinity'' s then hooked (parse_constant h (ascii ''Infinity'')) (drop 8 s)
          else if literal ''-Infinity'' s then hooked (parse_constant h (ascii ''-Infinity'')) (drop 9 s)
          else parse_number h s)"
| "parse_members 0 h acc s = Inl FuelErr"
| "parse_members (Suc n) h acc s =
     (case s of
        [] \<Rightarrow> Inl JSONDecodeErr
      | q # cs \<Rightarrow>
          if q \<noteq> 34 then Inl JSONDecodeErr
          else rbind (scan_string cs) (\<lambda>(k, r).
               case skip_ws r of
                 [] \<Rightarrow> Inl JSONDecodeErr
               | d # r1 \<Rightarrow>
                   if d \<noteq> 58 then Inl JSONDecodeErr
                   else rbind (parse_value n h (skip_ws r1)) (\<lambda>(v, r2).
                        case skip_ws r2 of
                          [] \<Rightarrow> Inl JSONDecodeErr
                        | e # r3 \<Rightarrow>
                            if e = 125 then hooked (object_pairs_hook h (acc @ [(k, v)])) r3
                            else if e = 44 then parse_members n h (acc @ [(k, v)]) (skip_ws r3)
                            else Inl JSONDecodeErr)))"
| "parse_elements 0 h acc s = Inl FuelErr"
| "parse_elements (Suc n) h acc s =
     rbind (parse_value n h s) (\<lambda>(v, r).
     case skip_ws r of
       [] \<Rightarrow> Inl JSONDecodeErr
     | d # r1 \<Rightarrow>
         if d = 93 then Inr (JList (acc @ [v]), r1)
         else if d = 44 then parse_elements n h (acc @ [v]) (skip_ws r1)
         else Inl JSONDecodeErr)"

declare parse_value.simps(2) [simp del] parse_members.simps(2) [simp del] parse_elements.simps(2) [simp del]

definition json_loads :: "json_hooks \<Rightarrow> utext \<Rightarrow> loads_error + json" where
  "json_loads h s =
     (if take 1 s = [0xFEFF] then Inl JSONDecodeErr
      else rbind (parse_value (2 * length s + 2) h (skip_ws s)) (\<lambda>(v, r).
           if skip_ws r = [] then Inr v else Inl JSONDecodeErr))"

definition default_hooks :: "(utext \<Rightarrow> utext) \<Rightarrow> json_hooks" where
  "default_hooks float_repr = \<lparr> parse_float = (\<lambda>t. Inr (JFloat (float_repr t))), parse_constant = (\<lambda>t. Inr (JFloat t)),
     object_pairs_hook = (\<lambda>kvs. Inr (JObj (foldl (\<lambda>d (k, v). dset d k v) [] kvs))) \<rparr>"

subsection \<open>The fuel is enough\<close>

lemma skip_ws_length: "length (skip_ws s) \<le> length s"
  by (simp add: skip_ws_def length_dropWhile_le)

lemma scan_string_shorter: "scan_string s = Inr (t, r) \<Longrightarrow> length r < length s"
proof (induction s arbitrary: t r rule: scan_string.induct)
  case (2 c cs)
  then show ?case
    by (fastforce simp: rbind_Inr_iff split: if_splits list.splits sum.splits option.splits prod.splits dest: unicode_escape_shorter)
qed simp

lemma unicode_escape_error: "unicode_escape s = Inl e \<Longrightarrow> e = JSONDecodeErr"
  by (auto simp: unicode_escape_def split: option.splits prod.splits if_splits)

lemma scan_string_error: "scan_string s = Inl e \<Longrightarrow> e = JSONDecodeErr"
proof (induction s rule: scan_string.induct)
  case (2 c cs)
  then show ?case
    by (auto simp: rbind_Inl_iff split: if_splits list.splits sum.splits option.splits prod.splits dest: unicode_escape_error)
qed simp

lemma match_int_shorter: "match_int s = Some (i, r) \<Longrightarrow> length r < length s"
proof -
  assume "match_int s = Some (i, r)"
  then obtain n d t where t: "drop n s = d # t" and "r = t \<or> r = dropWhile is_digit (d # t) \<and> is_digit d"
    by (auto simp: match_int_def Let_def split: list.splits if_splits)
  then have "length r < length (drop n s)"
    by (auto simp: less_Suc_eq_le length_dropWhile_le)
  then show ?thesis by (metis length_drop diff_le_self less_le_trans)
qed

lemma match_frac_length: "match_frac s = (f, r) \<Longrightarrow> length r \<le> length s"
  by (auto simp: match_frac_def le_SucI length_dropWhile_le split: list.splits if_splits)

lemma match_exp_length: "match_exp s = (e, r) \<Longrightarrow> length r \<le> length s"
proof -
  have "length (dropWhile is_digit (drop n t)) \<le> length t" for n t
    using length_dropWhile_le [of is_digit "drop n t"] by simp
  then show "match_exp s = (e, r) \<Longrightarrow> length r \<le> length s"
    by (auto simp: match_exp_def Let_def le_SucI split: list.splits if_splits)
qed

lemma hooked_Inr: "hooked x rest = Inr (v, r) \<longleftrightarrow> x = Inr v \<and> r = rest"
  by (auto simp: hooked_def split: sum.splits)

lemma hooked_no_fuel [simp]: "hooked x rest \<noteq> Inl FuelErr"
  by (simp add: hooked_def split: sum.splits)

lemma parse_number_shorter: "parse_number h s = Inr (v, r) \<Longrightarrow> length r < length s"
  by (fastforce simp: parse_number_def hooked_Inr split: option.splits prod.splits if_splits
      dest!: match_int_shorter match_frac_length match_exp_length)

lemma parse_number_no_fuel: "parse_number h s \<noteq> Inl FuelErr"
  by (simp add: parse_number_def split: option.splits prod.splits)

definition progress :: "json scan \<Rightarrow> utext \<Rightarrow> bool" where
  "progress res s \<longleftrightarrow> res \<noteq> Inl FuelErr \<and> (\<forall>v r. res = Inr (v, r) \<longrightarrow> length r < length s)"

lemma progress_mono: "progress p s' \<Longrightarrow> length s' \<le> length s \<Longrightarrow> progress p s"
  by (auto simp: progress_def)

lemma progress_decode [simp]: "progress (Inl JSONDecodeErr) s"
  by (simp add: progress_def)

lemma progress_result: "length r < length s \<Longrightarrow> progress (Inr (v, r)) s"
  by (simp add: progress_def)

lemma progress_hooked: "length r < length s \<Longrightarrow> progress (hooked x r) s"
  by (simp add: progress_def hooked_Inr)

lemma progress_value:
  assumes "progress p s'" "\<And>v r. length r < length s' \<Longrightarrow> progress (f v r) s"
  shows "progress (rbind p (\<lambda>(v, r). f v r)) s"
proof (cases p)
  case (Inr q)
  then show ?thesis using assms by (cases q) (auto simp: progress_def)
qed (use assms(1) in \<open>auto simp: progress_def\<close>)

lemma progress_string:
  assumes "\<And>t r. length r < length cs \<Longrightarrow> progress (f t r) s"
  shows "progress (rbind (scan_string cs) (\<lambda>(t, r). f t r)) s"
proof (cases "scan_string cs")
  case (Inl e)
  then show ?thesis using scan_string_error [OF Inl] by simp
next
  case (Inr q)
  then show ?thesis using assms scan_string_shorter by (cases q) auto
qed

lemma progress_number: "progress (parse_number h s) s"
  using parse_number_shorter parse_number_no_fuel by (auto simp: progress_def)

lemma progress_if: "(c \<Longrightarrow> progress a s) \<Longrightarrow> (\<not> c \<Longrightarrow> progress b s) \<Longrightarrow> progress (if c then a else b) s"
  by simp

lemma progress_next:
  assumes "\<And>d ds. skip_ws cs = d # ds \<Longrightarrow> length ds < length cs \<Longrightarrow> progress (f d ds) s"
  shows "progress (case skip_ws cs of [] \<Rightarrow> Inl JSONDecodeErr | d # ds \<Rightarrow> f d ds) s"
proof (cases "skip_ws cs")
  case (Cons d ds)
  then show ?thesis using assms skip_ws_length [of cs] by simp
qed simp

lemma literal_length: "literal w s \<Longrightarrow> length w \<le> length s"
  by (metis ascii_def length_map length_take literal_def min.cobounded1)

lemma literal_drop:
  "literal ''null'' s \<Longrightarrow> length (drop 4 s) < length s" "literal ''true'' s \<Longrightarrow> length (drop 4 s) < length s"
  "literal ''false'' s \<Longrightarrow> length (drop 5 s) < length s" "literal ''NaN'' s \<Longrightarrow> length (drop 3 s) < length s"
  "literal ''Infinity'' s \<Longrightarrow> length (drop 8 s) < length s" "literal ''-Infinity'' s \<Longrightarrow> length (drop 9 s) < length s"
  using literal_length [of _ s] by fastforce+

lemma parse_progress:
  "(2 * length s < n \<longrightarrow> progress (parse_value n h s) s)
    \<and> (2 * length s + 1 < n \<longrightarrow> progress (parse_members n h acc s) s)
    \<and> (2 * length s + 1 < n \<longrightarrow> progress (parse_elements n h xs s) s)"
proof (induction n arbitrary: s acc xs)
  case (Suc n)
  have v: "2 * length t < n \<Longrightarrow> progress (parse_value n h t) t"
    and m: "2 * length t + 1 < n \<Longrightarrow> length t \<le> length u \<Longrightarrow> progress (parse_members n h kvs t) u"
    and e: "2 * length t + 1 < n \<Longrightarrow> length t \<le> length u \<Longrightarrow> progress (parse_elements n h vs t) u" for t u kvs vs
    using Suc.IH [of t kvs vs] by (auto intro: progress_mono)
  have le: "length (skip_ws t) \<le> length t" for t by (rule skip_ws_length)
  have "2 * length s < Suc n \<longrightarrow> progress (parse_value (Suc n) h s) s"
  proof (cases s)
    case (Cons c cs)
    show ?thesis
      unfolding parse_value.simps Cons list.case
      by (intro impI progress_if progress_string progress_next progress_number)
         (simp_all add: progress_result progress_hooked literal_drop m e)
  qed (simp add: parse_value.simps)
  moreover have "progress (parse_members (Suc n) h acc s) s" if n: "2 * length s + 1 < Suc n"
  proof (cases s)
    case (Cons q cs)
    have pv: "progress (parse_value n h (skip_ws r)) (skip_ws r)" if "length r < length cs" for r
      using that n le [of r] Cons by (intro v) simp
    have sub: "length r2 < length cs" if "length r2 < length (skip_ws r1)" "length r1 < length cs" for r1 r2
      using that le [of r1] by simp
    have pm: "progress (parse_members n h kvs (skip_ws r)) (x # cs)" if "length r < length cs" for r kvs x
      using that n le [of r] Cons by (intro m) simp_all
    show ?thesis
      unfolding parse_members.simps Cons list.case
      by (intro progress_if progress_string progress_next progress_decode progress_value [OF pv])
         (auto intro!: progress_hooked pm dest!: sub)
  qed (simp add: parse_members.simps)
  moreover have "2 * length s + 1 < Suc n \<longrightarrow> progress (parse_elements (Suc n) h xs s) s"
  proof
    assume n: "2 * length s + 1 < Suc n"
    have "progress (parse_elements n h vs (skip_ws r)) s" if "length r < length s" for r vs
      using that le [of r] n by (intro e) simp_all
    then show "progress (parse_elements (Suc n) h xs s) s"
      unfolding parse_elements.simps
      by (intro progress_value [OF v] progress_next progress_if) (use n in \<open>simp_all add: progress_result\<close>)
  qed
  ultimately show ?case by blast
qed simp


definition fuel_le :: "json scan \<Rightarrow> json scan \<Rightarrow> bool" where
  "fuel_le a b \<longleftrightarrow> a = Inl FuelErr \<or> a = b"

lemma fuel_le_refl [simp]: "fuel_le a a" by (simp add: fuel_le_def)

lemma fuel_le_if: "fuel_le a a' \<Longrightarrow> fuel_le b b' \<Longrightarrow> fuel_le (if c then a else b) (if c then a' else b')"
  by simp

lemma fuel_le_list: "fuel_le a a' \<Longrightarrow> (\<And>x xs. fuel_le (f x xs) (f' x xs)) \<Longrightarrow>
    fuel_le (case l of [] \<Rightarrow> a | x # xs \<Rightarrow> f x xs) (case l of [] \<Rightarrow> a' | x # xs \<Rightarrow> f' x xs)"
  by (cases l) auto

lemma fuel_le_value: "fuel_le p p' \<Longrightarrow> (\<And>v r. fuel_le (f v r) (f' v r)) \<Longrightarrow> fuel_le (rbind p (\<lambda>(v, r). f v r)) (rbind p' (\<lambda>(v, r). f' v r))"
  by (cases p; cases p') (auto simp: fuel_le_def)

lemma fuel_le_string: "(\<And>t r. fuel_le (f t r) (f' t r)) \<Longrightarrow> fuel_le (rbind (scan_string s) (\<lambda>(t, r). f t r)) (rbind (scan_string s) (\<lambda>(t, r). f' t r))"
  by (cases "scan_string s") auto

lemma parse_mono_Suc:
  "fuel_le (parse_value n h s) (parse_value (Suc n) h s)
    \<and> fuel_le (parse_members n h acc s) (parse_members (Suc n) h acc s)
    \<and> fuel_le (parse_elements n h xs s) (parse_elements (Suc n) h xs s)"
proof (induction n arbitrary: s acc xs)
  case 0
  then show ?case by (simp add: fuel_le_def)
next
  case (Suc n)
  define m where "m = Suc n"
  have ih: "fuel_le (parse_value n h t) (parse_value m h t)" "fuel_le (parse_members n h kvs t) (parse_members m h kvs t)"
    "fuel_le (parse_elements n h vs t) (parse_elements m h vs t)" for t kvs vs
    using Suc.IH by (auto simp: m_def)
  have "fuel_le (parse_value (Suc n) h s) (parse_value (Suc m) h s)
    \<and> fuel_le (parse_members (Suc n) h acc s) (parse_members (Suc m) h acc s)
    \<and> fuel_le (parse_elements (Suc n) h xs s) (parse_elements (Suc m) h xs s)"
    unfolding parse_value.simps(2) parse_members.simps(2) parse_elements.simps(2)
    by (intro conjI fuel_le_list fuel_le_if fuel_le_string fuel_le_value ih fuel_le_refl)
  then show ?case by (simp only: m_def)
qed

lemma parse_value_mono: "n \<le> m \<Longrightarrow> parse_value n h s \<noteq> Inl FuelErr \<Longrightarrow> parse_value m h s = parse_value n h s"
proof (induction m rule: dec_induct)
  case (step m)
  then show ?case using parse_mono_Suc [of m h s "[]" "[]"] by (auto simp: fuel_le_def)
qed simp

lemma json_loads_complete:
  assumes "parse_value n h (skip_ws s) = Inr (v, r)" "skip_ws r = []" "take 1 s \<noteq> [0xFEFF]"
  shows "json_loads h s = Inr v"
proof -
  let ?m = "2 * length s + 2"
  have "progress (parse_value ?m h (skip_ws s)) (skip_ws s)"
    using parse_progress [of "skip_ws s" ?m h] skip_ws_length [of s] by auto
  then have "parse_value ?m h (skip_ws s) \<noteq> Inl FuelErr" by (simp add: progress_def)
  then have "parse_value ?m h (skip_ws s) = Inr (v, r)"
    using parse_value_mono [of n ?m h "skip_ws s"] parse_value_mono [of ?m n h "skip_ws s"] assms(1) by (cases "n \<le> ?m") auto
  then show ?thesis using assms(2,3) by (simp add: json_loads_def)
qed

text \<open>The scanner never gives up for lack of fuel.\<close>

lemma json_loads_total: "json_loads h s \<noteq> Inl FuelErr"
proof -
  have "progress (parse_value (2 * length s + 2) h (skip_ws s)) (skip_ws s)"
    using parse_progress [of "skip_ws s" "2 * length s + 2" h] skip_ws_length [of s] by auto
  then show ?thesis by (auto simp: json_loads_def progress_def rbind_Inl_iff split: if_splits)
qed

end
