(* ===== verification/Json_Roundtrip.thy ===== *)
theory Json_Roundtrip
  imports Json_Parser
begin

section \<open>Written JSON is read back\<close>

text \<open>
  \<open>dumps_gen\<close> is \<^verbatim>\<open>json.dumps\<close> for either treatment of non-ASCII characters. The locale \<open>json_writer\<close>
  states what a pair of an escaping rule and a set of hooks needs so that reading gives back the value that
  was written, with every object's keys in the order they were written in; it is interpreted for the
  default escaping and hooks, and by the broker protocol for its own.
\<close>

subsection \<open>Writing\<close>

fun dumps_gen :: "(nat \<Rightarrow> utext) \<Rightarrow> bool \<Rightarrow> json \<Rightarrow> utext" where
  "dumps_gen esc sort_keys JNull = ascii ''null''"
| "dumps_gen esc sort_keys (JBool b) = (if b then ascii ''true'' else ascii ''false'')"
| "dumps_gen esc sort_keys (JInt i) = int_text i"
| "dumps_gen esc sort_keys (JFloat t) = t"
| "dumps_gen esc sort_keys (JStr s) = [34] @ concat (map esc s) @ [34]"
| "dumps_gen esc sort_keys (JList xs) = [91] @ comma_join (map (dumps_gen esc sort_keys) xs) @ [93]"
| "dumps_gen esc sort_keys (JObj kvs) =
     (let items = map (\<lambda>(k, v). (k, dumps_gen esc sort_keys v)) kvs;
          ordered = (if sort_keys then sort_key fst items else items)
      in [123] @ comma_join (map (\<lambda>(k, t). ([34] @ concat (map esc k) @ [34]) @ [58] @ t) ordered) @ [125])"

lemma dumps_gen_ascii: "dumps sort_keys v = dumps_gen escape_char sort_keys v"
proof (induction v rule: dumps.induct [of "\<lambda>s v. dumps s v = dumps_gen escape_char s v" for sort_keys])
  case (7 sort_keys kvs)
  then have "map (\<lambda>(k, v). (k, dumps sort_keys v)) kvs = map (\<lambda>(k, v). (k, dumps_gen escape_char sort_keys v)) kvs" by fastforce
  then show ?case unfolding dumps.simps dumps_gen.simps by (simp only: dumps_string_def)
qed (auto simp: dumps_string_def cong: map_cong)

fun sort_json :: "bool \<Rightarrow> json \<Rightarrow> json" where
  "sort_json sk (JList xs) = JList (map (sort_json sk) xs)"
| "sort_json sk (JObj kvs) =
     (let items = map (\<lambda>(k, v). (k, sort_json sk v)) kvs in JObj (if sk then sort_key fst items else items))"
| "sort_json sk v = v"

fun json_ok :: "(utext \<Rightarrow> bool) \<Rightarrow> (utext \<Rightarrow> bool) \<Rightarrow> json \<Rightarrow> bool" where
  "json_ok okt fl (JInt i) = (length (nat_text (nat \<bar>i\<bar>)) \<le> INT_MAX_STR_DIGITS)"
| "json_ok okt fl (JFloat t) = fl t"
| "json_ok okt fl (JStr s) = okt s"
| "json_ok okt fl (JList xs) = list_all (json_ok okt fl) xs"
| "json_ok okt fl (JObj kvs) = (distinct (map fst kvs) \<and> list_all (\<lambda>(k, v). okt k \<and> json_ok okt fl v) kvs)"
| "json_ok okt fl v = True"

subsection \<open>Numbers\<close>

lemma nat_text_digits: "c \<in> set (nat_text n) \<Longrightarrow> is_digit c"
proof (induction n rule: nat_text.induct)
  case (1 n)
  then show ?case by (subst (asm) nat_text.simps) (auto simp: is_digit_def split: if_splits)
qed

lemma nat_text_nonempty [simp]: "nat_text n \<noteq> []"
  by (subst nat_text.simps) simp

lemma digits_value_snoc: "digits_value (s @ [c]) = digits_value s * 10 + (c - 48)"
  by (simp add: digits_value_def)

lemma digits_value_nat_text [simp]: "digits_value (nat_text n) = n"
proof (induction n rule: nat_text.induct)
  case (1 n)
  show ?case
  proof (cases "n < 10")
    case True
    then show ?thesis by (subst nat_text.simps) (simp add: digits_value_def)
  next
    case False
    then show ?thesis using 1 by (subst nat_text.simps) (simp add: digits_value_snoc)
  qed
qed

lemma hd_nat_text: "n \<noteq> 0 \<Longrightarrow> hd (nat_text n) \<noteq> 48"
proof (induction n rule: nat_text.induct)
  case (1 n)
  show ?case
  proof (cases "n < 10")
    case True
    then show ?thesis using 1 by (subst nat_text.simps) simp
  next
    case False
    then show ?thesis using 1 by (subst nat_text.simps) (simp add: hd_append)
  qed
qed

lemma nat_text_0: "nat_text 0 = [48]"
  by (subst nat_text.simps) simp

definition ends_number :: "utext \<Rightarrow> bool" where
  "ends_number rest \<longleftrightarrow> rest = [] \<or> hd rest \<in> {44, 93, 125}"

lemma takeWhile_digits: "\<forall>c \<in> set s. is_digit c \<Longrightarrow> rest = [] \<or> \<not> is_digit (hd rest) \<Longrightarrow>
    takeWhile is_digit (s @ rest) = s \<and> dropWhile is_digit (s @ rest) = rest"
  by (induction s) (cases rest; auto)+

lemma match_int_nat:
  assumes "rest = [] \<or> \<not> is_digit (hd rest)"
  shows "match_int (nat_text n @ rest) = Some (nat_text n, rest)"
proof (cases "n = 0")
  case True
  then show ?thesis by (simp add: match_int_def nat_text_0)
next
  case False
  then obtain d r where d: "nat_text n = d # r" "is_digit d" "d \<noteq> 48"
    by (metis hd_nat_text list.exhaust_sel list.set_sel(1) nat_text_digits nat_text_nonempty)
  then have "d \<noteq> 45" by (auto simp: is_digit_def)
  moreover have "takeWhile is_digit (nat_text n @ rest) = nat_text n \<and> dropWhile is_digit (nat_text n @ rest) = rest"
    by (intro takeWhile_digits assms ballI) (rule nat_text_digits)
  ultimately show ?thesis using d by (simp add: match_int_def)
qed

lemma match_int_text:
  assumes "rest = [] \<or> \<not> is_digit (hd rest)"
  shows "match_int (int_text i @ rest) = Some (int_text i, rest)"
proof (cases "i < 0")
  case True
  obtain d r where "nat_text (nat (- i)) = d # r" by (meson list.exhaust nat_text_nonempty)
  moreover have "d \<noteq> 45" using calculation nat_text_digits [of d "nat (- i)"] by (auto simp: is_digit_def)
  ultimately show ?thesis
    using match_int_nat [OF assms, of "nat (- i)"] True by (auto simp: int_text_def match_int_def Let_def split: if_splits)
qed (simp add: int_text_def match_int_nat [OF assms])

lemma ends_number_plain:
  assumes "ends_number rest"
  shows "rest = [] \<or> \<not> is_digit (hd rest)" "match_frac rest = ([], rest)" "match_exp rest = ([], rest)" "skip_ws rest = rest"
  using assms by (cases rest; auto simp: ends_number_def is_digit_def match_frac_def match_exp_def skip_ws_def split: list.split)+

lemma int_value_text: "int_value (int_text i) = i"
proof (cases "i < 0")
  case False
  obtain d r where d: "nat_text (nat i) = d # r" by (meson list.exhaust nat_text_nonempty)
  then have "d \<noteq> 45" using nat_text_digits [of d "nat i"] by (auto simp: is_digit_def)
  then have "int_value (nat_text (nat i)) = int (digits_value (nat_text (nat i)))" by (simp add: int_value_def d)
  then show ?thesis using False by (simp add: int_text_def)
qed (simp add: int_text_def int_value_def)

lemma int_text_digit_count: "length (filter is_digit (int_text i)) = length (nat_text (nat \<bar>i\<bar>))"
proof -
  have "filter is_digit (nat_text n) = nat_text n" for n using nat_text_digits by (simp add: filter_id_conv)
  then show ?thesis by (simp add: int_text_def is_digit_def)
qed

lemma parse_int_text:
  assumes "ends_number rest" "json_ok okt fl (JInt i)"
  shows "parse_number h (int_text i @ rest) = Inr (JInt i, rest)"
  using assms(2) by (simp add: parse_number_def match_int_text ends_number_plain [OF assms(1)] int_text_digit_count int_value_text)


subsection \<open>Round trip\<close>

text \<open>A number with a fraction or an exponent.\<close>

definition is_float_text :: "utext \<Rightarrow> bool" where
  "is_float_text t =
     (case match_int t of
        None \<Rightarrow> False
      | Some (i, r) \<Rightarrow> (case match_frac r of (f, r1) \<Rightarrow> case match_exp r1 of (e, r2) \<Rightarrow> r2 = [] \<and> (f \<noteq> [] \<or> e \<noteq> [])))"

lemma while_rest:
  assumes "dropWhile P t \<noteq> [] \<or> rest = [] \<or> \<not> P (hd rest)"
  shows "takeWhile P (t @ rest) = takeWhile P t" "dropWhile P (t @ rest) = dropWhile P t @ rest"
proof -
  have "takeWhile P rest = [] \<and> dropWhile P rest = rest" if "rest = [] \<or> \<not> P (hd rest)" using that by (cases rest) auto
  then show "takeWhile P (t @ rest) = takeWhile P t" "dropWhile P (t @ rest) = dropWhile P t @ rest"
    using assms by (induction t) (auto simp: takeWhile_append dropWhile_append)
qed

lemma match_int_rest:
  assumes "match_int s = Some (i, r)" "r \<noteq> [] \<or> rest = [] \<or> \<not> is_digit (hd rest)"
  shows "match_int (s @ rest) = Some (i, r @ rest)" and "s = i @ r"
proof -
  let ?sign = "takeWhile (\<lambda>c. c = 45) (take 1 s)"
  have "s \<noteq> []" using assms(1) by (auto simp: match_int_def)
  then have sign: "take 1 (s @ rest) = take 1 s" "drop (length ?sign) (s @ rest) = drop (length ?sign) s @ rest"
    by (cases s; simp)+
  obtain d t where t: "drop (length ?sign) s = d # t" using assms(1) by (auto simp: match_int_def Let_def split: list.splits)
  have s: "s = ?sign @ d # t" using t by (metis append_take_drop_id takeWhile_eq_take take_take min.absorb_iff1 length_takeWhile_le length_take min.cobounded2 append_eq_conv_conj)
  show "match_int (s @ rest) = Some (i, r @ rest)"
    using assms t while_rest [of is_digit "d # t" rest] unfolding match_int_def Let_def sign t by (auto split: if_splits)
  have "d = 48 \<and> i = ?sign @ [48] \<and> r = t \<or> i = ?sign @ takeWhile is_digit (d # t) \<and> r = dropWhile is_digit (d # t)"
    using assms(1) unfolding match_int_def Let_def t list.case by (simp only: option.inject prod.inject split: if_splits) auto
  then show "s = i @ r" using s takeWhile_dropWhile_id [of is_digit "d # t"] by auto
qed

subsection \<open>Floats\<close>

lemma match_frac_rest:
  assumes "ends_number rest" "match_frac s = (f, r)"
  shows "match_frac (s @ rest) = (f, r @ rest) \<and> s = f @ r"
proof (cases s rule: list.exhaust [case_product list.exhaust [of "tl s"]])
  case Nil_Nil
  then show ?thesis using assms ends_number_plain(2) [OF assms(1)] by (auto simp: match_frac_def)
next
  case Cons_Nil
  then show ?thesis using assms ends_number_plain(1) [OF assms(1)] by (cases rest) (auto simp: match_frac_def)
next
  case (Cons_Cons c t d u)
  have w: "takeWhile is_digit ((d # u) @ rest) = takeWhile is_digit (d # u)" "dropWhile is_digit ((d # u) @ rest) = dropWhile is_digit (d # u) @ rest"
    by (rule while_rest, use ends_number_plain(1) [OF assms(1)] in blast)+
  show ?thesis
    using assms(2) w Cons_Cons by (auto simp: match_frac_def split: if_splits)
qed simp

lemma match_exp_rest:
  assumes "ends_number rest" "match_exp s = (e, r)"
  shows "match_exp (s @ rest) = (e, r @ rest) \<and> s = e @ r"
proof (cases s)
  case Nil
  then show ?thesis using assms ends_number_plain(3) [OF assms(1)] by (auto simp: match_exp_def)
next
  case (Cons c t)
  show ?thesis
  proof (cases t)
    case Nil
    have "match_exp (c # rest) = ([], c # rest)"
      using assms(1) by (cases rest) (auto simp: match_exp_def ends_number_def is_digit_def)
    then show ?thesis using assms Cons Nil by (auto simp: match_exp_def split: if_splits)
  next
    case (Cons d u)
    have plain: "rest = [] \<or> \<not> is_digit (hd rest)" using ends_number_plain(1) [OF assms(1)] .
    have hd: "u @ rest \<noteq> [] \<and> is_digit (hd (u @ rest)) \<longleftrightarrow> u \<noteq> [] \<and> is_digit (hd u)"
      using plain by (cases u) auto
    have w: "takeWhile is_digit (v @ rest) = takeWhile is_digit v" "dropWhile is_digit (v @ rest) = dropWhile is_digit v @ rest" for v
      using while_rest [of is_digit v rest] plain by auto
    have shape: "match_exp (c # d # v) =
      (if c \<noteq> 101 \<and> c \<noteq> 69 then ([], c # d # v)
       else if d = 45 \<or> d = 43 then (if v \<noteq> [] \<and> is_digit (hd v) then ([c, d] @ takeWhile is_digit v, dropWhile is_digit v) else ([], c # d # v))
       else if is_digit d then ([c] @ takeWhile is_digit (d # v), dropWhile is_digit (d # v)) else ([], c # d # v))" for v
      by (auto simp: match_exp_def Let_def)
    have "match_exp (c # d # (u @ rest)) = (e, r @ rest) \<and> c # d # u = e @ r"
      using assms(2) hd w [of u] w [of "d # u"] unfolding \<open>s = c # t\<close> Cons shape by (simp split: if_splits) auto
    then show ?thesis unfolding \<open>s = c # t\<close> Cons by (metis append_Cons)
  qed
qed

lemma parse_float_text:
  assumes "is_float_text t" "ends_number rest"
  shows "parse_number h (t @ rest) = hooked (parse_float h t) rest"
proof -
  obtain i r f r1 e where m: "match_int t = Some (i, r)" "match_frac r = (f, r1)" "match_exp r1 = (e, [])" "f \<noteq> [] \<or> e \<noteq> []"
    using assms(1) by (auto simp: is_float_text_def split: option.splits prod.splits)
  have "match_int (t @ rest) = Some (i, r @ rest)" "t = i @ r"
    using match_int_rest [OF m(1), of rest] ends_number_plain(1) [OF assms(2)] by auto
  moreover have "match_frac (r @ rest) = (f, r1 @ rest)" "r = f @ r1" using match_frac_rest [OF assms(2) m(2)] by auto
  moreover have "match_exp (r1 @ rest) = (e, rest)" "r1 = e" using match_exp_rest [OF assms(2) m(3)] by auto
  ultimately show ?thesis using m(4) by (auto simp: parse_number_def)
qed

lemma match_int_starts: "match_int t = Some (i, r) \<Longrightarrow> t \<noteq> [] \<and> (is_digit (hd t) \<or> hd t = 45 \<and> length t > 1 \<and> is_digit (t ! 1))"
proof (cases t rule: list.exhaust [case_product list.exhaust [of "tl t"]])
  case (Cons_Cons c u d w)
  then show "match_int t = Some (i, r) \<Longrightarrow> ?thesis"
    by (auto simp: match_int_def Let_def is_digit_def split: if_splits)
next
  case Cons_Nil
  then show "match_int t = Some (i, r) \<Longrightarrow> ?thesis"
    by (auto simp: match_int_def Let_def is_digit_def split: if_splits)
qed (auto simp: match_int_def)

subsection \<open>Values\<close>

lemma insort_pairs: "insort_key fst (k, f v) (map (\<lambda>(k, v). (k, f v)) kvs) = map (\<lambda>(k, v). (k, f v)) (insort_key fst (k, v) kvs)"
  by (induction kvs) auto

lemma sort_pairs: "sort_key fst (map (\<lambda>(k, v). (k, f v)) kvs) = map (\<lambda>(k, v). (k, f v)) (sort_key fst kvs)"
proof (induction kvs)
  case (Cons x kvs)
  then show ?case by (cases x) (simp add: insort_pairs)
qed simp

lemma sort_json_obj: "sort_json sk (JObj kvs) = JObj (map (\<lambda>(k, v). (k, sort_json sk v)) (if sk then sort_key fst kvs else kvs))"
  by (simp add: sort_pairs Let_def)

definition dumps_member :: "(nat \<Rightarrow> utext) \<Rightarrow> bool \<Rightarrow> utext \<times> json \<Rightarrow> utext" where
  "dumps_member esc sk kv = (case kv of (k, v) \<Rightarrow> 34 # concat (map esc k) @ 34 # 58 # dumps_gen esc sk v)"

lemma dumps_gen_obj:
  "dumps_gen esc sk (JObj kvs) = 123 # comma_join (map (dumps_member esc sk) (if sk then sort_key fst kvs else kvs)) @ [125]"
proof -
  have "map (\<lambda>(k, t). 34 # concat (map esc k) @ 34 # 58 # t) (map (\<lambda>(k, v). (k, dumps_gen esc sk v)) l) = map (dumps_member esc sk) l" for l
    by (auto simp: dumps_member_def)
  then show ?thesis by (cases sk) (simp_all add: sort_pairs Let_def del: map_map)
qed

lemma skip_ws_plain: "c \<notin> {32, 9, 10, 13} \<Longrightarrow> skip_ws (c # s) = c # s"
  by (simp add: skip_ws_def)

definition starts_value :: "utext \<Rightarrow> bool" where
  "starts_value s \<longleftrightarrow> s \<noteq> [] \<and> hd s \<notin> {32, 9, 10, 13, 93, 125, 0xFEFF}"

lemma starts_value_skip: "starts_value s \<Longrightarrow> skip_ws (s @ rest) = s @ rest"
  by (cases s) (auto simp: starts_value_def skip_ws_def)

lemma comma_join_Cons: "xs \<noteq> [] \<Longrightarrow> comma_join (x # xs) = x @ 44 # comma_join xs"
  by (cases xs) auto

lemma literal_other: "c \<noteq> of_char (hd w) \<Longrightarrow> w \<noteq> [] \<Longrightarrow> \<not> literal w (c # s)"
  by (cases w) (auto simp: literal_def ascii_def)

lemma parse_value_number:
  assumes "s \<noteq> []" "is_digit (hd s) \<or> hd s = 45 \<and> length s > 1 \<and> is_digit (s ! 1)"
  shows "parse_value (Suc n) h s = parse_number h s"
proof -
  obtain c cs where s: "s = c # cs" using assms(1) by (cases s) auto
  have "\<not> literal ''-Infinity'' s"
  proof
    assume "literal ''-Infinity'' s"
    then have "take 9 s = ascii ''-Infinity''" by (simp add: literal_def numeral_eq_Suc)
    then have "take 9 s ! 0 = 45" "take 9 s ! 1 = 73" by (simp_all add: ascii_def)
    then show False using assms(2) s by (auto simp: is_digit_def)
  qed
  moreover have "c \<notin> {34, 123, 91, 110, 116, 102, 78, 73}" using assms(2) s by (auto simp: is_digit_def)
  ultimately show ?thesis by (simp add: parse_value.simps s literal_other)
qed

text \<open>The scanner reads back what was written, given enough fuel and a text that ends the value.\<close>

definition reads :: "(nat \<Rightarrow> utext) \<Rightarrow> bool \<Rightarrow> json_hooks \<Rightarrow> json \<Rightarrow> bool" where
  "reads esc sk h v \<longleftrightarrow> (\<forall>rest. ends_number rest \<longrightarrow>
     (\<exists>n0. \<forall>n \<ge> n0. parse_value n h (dumps_gen esc sk v @ rest) = Inr (sort_json sk v, rest)))"

lemma readsD: "reads esc sk h v \<Longrightarrow> q \<in> {44, 93, 125} \<Longrightarrow>
    \<exists>n0. \<forall>n \<ge> n0. parse_value n h (dumps_gen esc sk v @ q # rest) = Inr (sort_json sk v, q # rest)"
  by (auto simp: reads_def ends_number_def)

lemma readsI: "(\<And>n rest. ends_number rest \<Longrightarrow> parse_value (Suc n) h (dumps_gen esc sk v @ rest) = Inr (sort_json sk v, rest)) \<Longrightarrow> reads esc sk h v"
  unfolding reads_def by (metis Suc_le_D)

locale json_writer =
  fixes esc :: "nat \<Rightarrow> utext" and okt fl :: "utext \<Rightarrow> bool" and h :: json_hooks
  assumes scan_esc: "okt s \<Longrightarrow> scan_string (concat (map esc s) @ 34 # rest) = Inr (s, rest)"
    and float_hook: "fl t \<Longrightarrow> is_float_text t \<and> parse_float h t = Inr (JFloat t)"
    and pairs_hook: "distinct (map fst kvs) \<Longrightarrow> object_pairs_hook h kvs = Inr (JObj kvs)"
begin

lemma number_starts:
  "int_text i \<noteq> [] \<and> (is_digit (hd (int_text i)) \<or> hd (int_text i) = 45 \<and> length (int_text i) > 1 \<and> is_digit (int_text i ! 1))"
  using match_int_starts [OF match_int_text [of "[]" i]] by simp

lemma dumps_starts:
  assumes "json_ok okt fl v"
  shows "starts_value (dumps_gen esc sk v)"
proof (cases v)
  case (JInt i)
  then show ?thesis using number_starts [of i] by (auto simp: starts_value_def is_digit_def)
next
  case (JFloat t)
  then have "is_float_text t" using float_hook assms by simp
  then show ?thesis using JFloat match_int_starts [of t] by (auto simp: is_float_text_def starts_value_def is_digit_def split: option.splits)
qed (auto simp: starts_value_def ascii_def Let_def)

lemma parse_dumps_elements:
  assumes "xs \<noteq> []"
    and "\<forall>v \<in> set xs. reads esc sk h v" "\<forall>v \<in> set xs. json_ok okt fl v"
  shows "\<exists>n0. \<forall>n \<ge> n0. parse_elements n h acc (comma_join (map (dumps_gen esc sk) xs) @ 93 # rest) = Inr (JList (acc @ map (sort_json sk) xs), rest)"
  using assms
proof (induction xs arbitrary: acc)
  case (Cons v xs)
  show ?case
  proof (cases "xs = []")
    case True
    obtain n0 where "\<forall>n \<ge> n0. parse_value n h (dumps_gen esc sk v @ 93 # rest) = Inr (sort_json sk v, 93 # rest)"
      using Cons.prems(2) readsD [of esc sk h v 93 rest] by auto
    then have "parse_elements n h acc (dumps_gen esc sk v @ 93 # rest) = Inr (JList (acc @ [sort_json sk v]), rest)" if "n \<ge> Suc n0" for n
      using that by (cases n) (auto simp: parse_elements.simps skip_ws_plain)
    then show ?thesis using True by auto
  next
    case False
    let ?tail = "comma_join (map (dumps_gen esc sk) xs) @ 93 # rest"
    obtain n0 where n0: "\<forall>n \<ge> n0. parse_value n h (dumps_gen esc sk v @ 44 # ?tail) = Inr (sort_json sk v, 44 # ?tail)"
      using Cons.prems(2) readsD [of esc sk h v 44 ?tail] by auto
    obtain n1 where n1: "\<forall>n \<ge> n1. parse_elements n h (acc @ [sort_json sk v]) ?tail = Inr (JList ((acc @ [sort_json sk v]) @ map (sort_json sk) xs), rest)"
      using Cons.IH [OF False, of "acc @ [sort_json sk v]"] Cons.prems by auto
    have ws: "skip_ws ?tail = ?tail"
    proof (cases xs)
      case (Cons w ws)
      then show ?thesis using dumps_starts [of w sk] \<open>\<forall>v \<in> set (v # xs). json_ok okt fl v\<close> starts_value_skip
        by (cases ws) (auto simp: comma_join_Cons)
    qed (use False in simp)
    have "parse_elements n h acc (dumps_gen esc sk v @ 44 # ?tail) = Inr (JList (acc @ map (sort_json sk) (v # xs)), rest)" if "n \<ge> Suc (max n0 n1)" for n
    proof (cases n)
      case (Suc m)
      then show ?thesis using n0 n1 that ws by (simp add: parse_elements.simps skip_ws_plain)
    qed (use that in simp)
    then show ?thesis using False by (auto simp: comma_join_Cons)
  qed
qed simp

lemma dumps_member_parse:
  assumes "okt k" "json_ok okt fl v" "q \<in> {44, 125}"
    and "\<forall>n \<ge> n0. parse_value n h (dumps_gen esc sk v @ q # rest) = Inr (sort_json sk v, q # rest)" "n \<ge> n0"
  shows "parse_members (Suc n) h acc (dumps_member esc sk (k, v) @ q # rest) =
    (if q = 125 then hooked (object_pairs_hook h (acc @ [(k, sort_json sk v)])) rest
     else parse_members n h (acc @ [(k, sort_json sk v)]) (skip_ws rest))"
proof -
  have "skip_ws (dumps_gen esc sk v @ q # rest) = dumps_gen esc sk v @ q # rest"
    using dumps_starts [OF assms(2)] by (rule starts_value_skip)
  moreover have "scan_string (concat (map esc k) @ 34 # 58 # dumps_gen esc sk v @ q # rest) = Inr (k, 58 # dumps_gen esc sk v @ q # rest)"
    using scan_esc [OF assms(1), of "58 # dumps_gen esc sk v @ q # rest"] by simp
  moreover have "skip_ws (q # rest) = q # rest" using assms(3) by (auto simp: skip_ws_plain)
  ultimately show ?thesis
    using assms(3-5) by (auto simp: parse_members.simps dumps_member_def skip_ws_plain)
qed

lemma parse_dumps_members:
  assumes "kvs \<noteq> []" "distinct (map fst (acc @ kvs))"
    and "\<forall>(k, v) \<in> set kvs. reads esc sk h v" "\<forall>(k, v) \<in> set kvs. okt k \<and> json_ok okt fl v"
  shows "\<exists>n0. \<forall>n \<ge> n0. parse_members n h acc (comma_join (map (dumps_member esc sk) kvs) @ 125 # rest)
    = Inr (JObj (acc @ map (\<lambda>(k, v). (k, sort_json sk v)) kvs), rest)"
  using assms
proof (induction kvs arbitrary: acc)
  case (Cons kv kvs)
  obtain k v where kv: "kv = (k, v)" by (cases kv)
  then have ok: "okt k" "json_ok okt fl v" using Cons.prems(4) by auto
  show ?case
  proof (cases "kvs = []")
    case True
    obtain n0 where n0: "\<forall>n \<ge> n0. parse_value n h (dumps_gen esc sk v @ 125 # rest) = Inr (sort_json sk v, 125 # rest)"
      using Cons.prems(3) readsD [of esc sk h v 125 rest] kv by auto
    have "parse_members n h acc (dumps_member esc sk (k, v) @ 125 # rest) = Inr (JObj (acc @ [(k, sort_json sk v)]), rest)" if "n \<ge> Suc n0" for n
    proof (cases n)
      case (Suc m)
      then show ?thesis
        using dumps_member_parse [OF ok _ n0, of m acc] that pairs_hook [of "acc @ [(k, sort_json sk v)]"] Cons.prems(2) kv
        by (simp add: hooked_def)
    qed (use that in simp)
    then show ?thesis using True kv by auto
  next
    case False
    let ?tail = "comma_join (map (dumps_member esc sk) kvs) @ 125 # rest" and ?acc = "acc @ [(k, sort_json sk v)]"
    obtain n0 where n0: "\<forall>n \<ge> n0. parse_value n h (dumps_gen esc sk v @ 44 # ?tail) = Inr (sort_json sk v, 44 # ?tail)"
      using Cons.prems(3) readsD [of esc sk h v 44 ?tail] kv by auto
    obtain n1 where n1: "\<forall>n \<ge> n1. parse_members n h ?acc ?tail = Inr (JObj (?acc @ map (\<lambda>(k, v). (k, sort_json sk v)) kvs), rest)"
      using Cons.IH [OF False, of ?acc] Cons.prems kv by auto
    have ws: "skip_ws ?tail = ?tail"
    proof -
      obtain w ws where "kvs = w # ws" using False by (cases kvs) auto
      then show ?thesis by (cases ws; cases w) (auto simp: dumps_member_def skip_ws_plain comma_join_Cons)
    qed
    have "parse_members n h acc (dumps_member esc sk (k, v) @ 44 # ?tail) = Inr (JObj (acc @ map (\<lambda>(k, v). (k, sort_json sk v)) (kv # kvs)), rest)"
      if "n \<ge> Suc (max n0 n1)" for n
    proof (cases n)
      case (Suc m)
      then show ?thesis
        using dumps_member_parse [OF ok _ n0, of m acc] that n1 ws kv by simp
    qed (use that in simp)
    then show ?thesis using False kv by (auto simp: comma_join_Cons)
  qed
qed simp

lemma open_list:
  assumes "starts_value s"
  shows "parse_value (Suc n) h (91 # s @ rest) = parse_elements n h [] (s @ rest)"
  using assms starts_value_skip [OF assms, of rest] by (cases s) (auto simp: parse_value.simps starts_value_def)

lemma open_object:
  "kvs \<noteq> [] \<Longrightarrow> parse_value (Suc n) h (123 # comma_join (map (dumps_member esc sk) kvs) @ rest)
    = parse_members n h [] (comma_join (map (dumps_member esc sk) kvs) @ rest)"
  by (cases kvs; cases "hd kvs"; cases "tl kvs") (auto simp: parse_value.simps dumps_member_def skip_ws_plain comma_join_Cons)

lemma dumps_reads: "json_ok okt fl v \<Longrightarrow> reads esc sk h v"
proof (induction v)
  case JNull
  show ?case by (rule readsI) (simp add: parse_value.simps ascii_def literal_def)
next
  case (JBool b)
  show ?case by (rule readsI) (auto simp: parse_value.simps ascii_def literal_def)
next
  case (JInt i)
  show ?case
  proof (rule readsI)
    fix n rest assume "ends_number rest"
    then show "parse_value (Suc n) h (dumps_gen esc sk (JInt i) @ rest) = Inr (sort_json sk (JInt i), rest)"
      using parse_value_number [of "int_text i @ rest" n h] number_starts [of i] parse_int_text [OF _ JInt.prems] by (auto simp: nth_append hd_append)
  qed
next
  case (JFloat t)
  then have t: "is_float_text t" "parse_float h t = Inr (JFloat t)" using float_hook by simp_all
  then have "t \<noteq> [] \<and> (is_digit (hd t) \<or> hd t = 45 \<and> length t > 1 \<and> is_digit (t ! 1))"
    using match_int_starts [of t] by (auto simp: is_float_text_def split: option.splits)
  then show ?case
    using parse_value_number [of "t @ rest" n h for rest n] parse_float_text [OF t(1)] t(2)
    by (intro readsI) (auto simp: nth_append hd_append hooked_def)
next
  case (JStr s)
  then show ?case using scan_esc by (intro readsI) (simp add: parse_value.simps)
next
  case (JList xs)
  show ?case
  proof (cases "xs = []")
    case True
    then show ?thesis by (intro readsI) (simp add: parse_value.simps skip_ws_plain)
  next
    case False
    have ok: "\<forall>v \<in> set xs. json_ok okt fl v" "\<forall>v \<in> set xs. reads esc sk h v" using JList by (auto simp: list_all_iff)
    have st: "starts_value (comma_join (map (dumps_gen esc sk) xs))"
      using False ok(1) dumps_starts [of "hd xs" sk] by (cases xs; cases "tl xs") (auto simp: starts_value_def comma_join_Cons)
    show ?thesis unfolding reads_def
    proof (intro allI impI)
      fix rest
      obtain n0 where n0: "\<forall>n \<ge> n0. parse_elements n h [] (comma_join (map (dumps_gen esc sk) xs) @ 93 # rest) = Inr (JList (map (sort_json sk) xs), rest)"
        using parse_dumps_elements [OF False ok(2,1), of "[]" rest] by auto
      have "parse_value n h (dumps_gen esc sk (JList xs) @ rest) = Inr (sort_json sk (JList xs), rest)" if "n \<ge> Suc n0" for n
        using that n0 open_list [OF st] by (cases n) auto
      then show "\<exists>n0. \<forall>n \<ge> n0. parse_value n h (dumps_gen esc sk (JList xs) @ rest) = Inr (sort_json sk (JList xs), rest)" by blast
    qed
  qed
next
  case (JObj kvs)
  define l where "l = (if sk then sort_key fst kvs else kvs)"
  have l: "set l = set kvs" "distinct (map fst l)" using JObj.prems by (auto simp: l_def distinct_map)
  have ok: "\<forall>(k, v) \<in> set l. reads esc sk h v" "\<forall>(k, v) \<in> set l. okt k \<and> json_ok okt fl v"
    using JObj by (fastforce simp: l(1) list_all_iff)+
  show ?case
  proof (cases "l = []")
    case True
    then have "kvs = []" using l(1) by simp
    then show ?thesis using pairs_hook [of "[]"] by (intro readsI) (simp add: parse_value.simps skip_ws_plain hooked_def)
  next
    case False
    show ?thesis unfolding reads_def
    proof (intro allI impI)
      fix rest
      obtain n0 where n0: "\<forall>n \<ge> n0. parse_members n h [] (comma_join (map (dumps_member esc sk) l) @ 125 # rest) = Inr (JObj (map (\<lambda>(k, v). (k, sort_json sk v)) l), rest)"
        using parse_dumps_members [OF False _ ok, of "[]" rest] l(2) by auto
      have "parse_value n h (dumps_gen esc sk (JObj kvs) @ rest) = Inr (sort_json sk (JObj kvs), rest)" if "n \<ge> Suc n0" for n
        using that n0 open_object [OF False] unfolding dumps_gen_obj sort_json_obj l_def [symmetric] by (cases n) auto
      then show "\<exists>n0. \<forall>n \<ge> n0. parse_value n h (dumps_gen esc sk (JObj kvs) @ rest) = Inr (sort_json sk (JObj kvs), rest)" by blast
    qed
  qed
qed

lemma loads_dumps:
  assumes "json_ok okt fl v"
  shows "json_loads h (dumps_gen esc sk v) = Inr (sort_json sk v)"
proof -
  obtain n0 where "\<forall>n \<ge> n0. parse_value n h (dumps_gen esc sk v @ []) = Inr (sort_json sk v, [])"
    using dumps_reads [OF assms, of sk] unfolding reads_def ends_number_def by blast
  then have "parse_value n0 h (skip_ws (dumps_gen esc sk v)) = Inr (sort_json sk v, [])"
    using starts_value_skip [OF dumps_starts [OF assms], of sk "[]"] by simp
  moreover have "take 1 (dumps_gen esc sk v) \<noteq> [0xFEFF]"
    using dumps_starts [OF assms, of sk] by (cases "dumps_gen esc sk v") (auto simp: starts_value_def)
  moreover have "skip_ws [] = []" by (simp add: skip_ws_def)
  ultimately show ?thesis by (blast intro: json_loads_complete)
qed

end

subsection \<open>Strings\<close>

definition escape_raw :: "nat \<Rightarrow> utext" where
  "escape_raw c =
     (if c = 34 then [92, 34] else if c = 92 then [92, 92] else if c = 10 then [92, 110]
      else if c = 13 then [92, 114] else if c = 9 then [92, 116] else if c = 12 then [92, 102]
      else if c = 8 then [92, 98] else if c < 32 then hex4 c else [c])"

definition high_surrogate :: "nat \<Rightarrow> bool" where "high_surrogate c \<longleftrightarrow> 0xD800 \<le> c \<and> c \<le> 0xDBFF"
definition low_surrogate :: "nat \<Rightarrow> bool" where "low_surrogate c \<longleftrightarrow> 0xDC00 \<le> c \<and> c \<le> 0xDFFF"

text \<open>Code points without a high surrogate directly before a low one, which reading would join.\<close>

fun unjoined :: "utext \<Rightarrow> bool" where
  "unjoined [] = True"
| "unjoined [c] = (c < 0x110000)"
| "unjoined (c # d # s) = (c < 0x110000 \<and> \<not> (high_surrogate c \<and> low_surrogate d) \<and> unjoined (d # s))"

lemma hex_value_digit: "d < 16 \<Longrightarrow> hex_value (of_char (hex_digits ! d)) = Some d"
proof -
  have "list_all (\<lambda>d. hex_value (of_char (hex_digits ! d)) = Some d) [0..<16]" by code_simp
  then show "d < 16 \<Longrightarrow> hex_value (of_char (hex_digits ! d)) = Some d" by (simp add: list_all_iff)
qed

lemma nibbles: fixes v :: nat assumes "v < 0x10000" shows "v = ((v div 4096 mod 16 * 16 + v div 256 mod 16) * 16 + v div 16 mod 16) * 16 + v mod 16"
proof -
  have step: "w = w div 16 * 16 + w mod 16" for w :: nat by simp
  have "v div 16 div 16 = v div 256" "v div 256 div 16 = v div 4096" "v div 4096 div 16 = 0" using assms by (simp_all flip: div_mult2_eq)
  then show ?thesis using step [of v] step [of "v div 16"] step [of "v div 256"] step [of "v div 4096"] by (metis add_0 mult_0)
qed
lemma surrogates:
  fixes c :: nat
  assumes "0x10000 \<le> c" "c < 0x110000"
  obtains q r where "(c - 0x10000) div 1024 = q" "(c - 0x10000) mod 1024 = r" "c = 0x10000 + q * 1024 + r" "q < 1024" "r < 1024"
proof -
  obtain d where d: "c = 0x10000 + d" using assms(1) le_Suc_ex by blast
  then have "d < 1024 * 1024" using assms(2) by simp
  then have "d div 1024 < 1024" by (rule less_mult_imp_div_less)
  moreover have "d = d div 1024 * 1024 + d mod 1024" by simp
  ultimately show ?thesis using that [of "d div 1024" "d mod 1024"] d by (simp del: div_mult_mod_eq)
qed

lemma hex4_value_hex4:
  assumes "v < 0x10000"
  shows "hex4_value (drop 2 (hex4 v) @ rest) = Some (v, rest)"
proof -
  have h: "hex_of 4 v = map (\<lambda>d. hex_digits ! d) [v div 4096 mod 16, v div 256 mod 16, v div 16 mod 16, v mod 16]"
  proof -
    have "(4 :: nat) = Suc (Suc (Suc (Suc 0)))" by simp
    then show ?thesis by (simp only: hex_of.simps) (simp flip: div_mult2_eq)
  qed
  define a b c d where abcd: "a = v div 4096 mod 16" "b = v div 256 mod 16" "c = v div 16 mod 16" "d = v mod 16"
  then have "a < 16" "b < 16" "c < 16" "d < 16" by simp_all
  moreover have "v = ((a * 16 + b) * 16 + c) * 16 + d" unfolding abcd by (rule nibbles [OF assms])
  moreover have "hex4 v = 92 # 117 # map (\<lambda>d. of_char (hex_digits ! d)) [a, b, c, d]"
    unfolding abcd hex4_def h ascii_def by simp
  then have "hex4_value (drop 2 (hex4 v) @ rest) = hex4_value (map (\<lambda>d. of_char (hex_digits ! d)) [a, b, c, d] @ rest)" by simp
  ultimately show ?thesis by (simp add: hex_value_digit)
qed


lemma unicode_escape_plain:
  assumes "v < 0x10000" "\<not> (high_surrogate v \<and> take 2 rest = [92, 117])"
  shows "unicode_escape (drop 2 (hex4 v) @ rest) = Inr (v, rest)"
  using assms by (auto simp: unicode_escape_def hex4_value_hex4 high_surrogate_def)

lemma hex4_split: "hex4 v = 92 # 117 # drop 2 (hex4 v)"
  by (simp add: hex4_def)

lemma scan_cons: "c \<notin> {34, 92} \<Longrightarrow> 31 < c \<Longrightarrow> scan_string s = Inr (t, r) \<Longrightarrow> scan_string (c # s) = Inr (c # t, r)"
  by simp

lemma scan_short: "simple_escape e = Some v \<Longrightarrow> scan_string s = Inr (t, r) \<Longrightarrow> scan_string (92 # e # s) = Inr (v # t, r)"
  by (auto simp: simple_escape_def split: if_splits)

lemma scan_hex4:
  "v < 0x10000 \<Longrightarrow> \<not> (high_surrogate v \<and> take 2 s = [92, 117]) \<Longrightarrow> scan_string s = Inr (t, r) \<Longrightarrow> scan_string (hex4 v @ s) = Inr (v # t, r)"
  by (subst hex4_split) (simp add: unicode_escape_plain)

declare scan_string.simps [simp del]

lemma scan_escape_raw: "scan_string s = Inr (t, r) \<Longrightarrow> scan_string (escape_raw c @ s) = Inr (c # t, r)"
  by (auto simp: escape_raw_def high_surrogate_def simple_escape_def intro!: scan_short scan_cons scan_hex4)

lemma scan_raw: "scan_string (concat (map escape_raw s) @ 34 # rest) = Inr (s, rest)"
  by (induction s) (simp_all add: scan_string.simps scan_escape_raw)

lemma unicode_escape_pair:
  assumes "high_surrogate v" "low_surrogate w"
  shows "unicode_escape (drop 2 (hex4 v) @ hex4 w @ s) = Inr (0x10000 + (v - 0xD800) * 1024 + (w - 0xDC00), s)"
proof -
  have b: "v < 0x10000" "w < 0x10000" using assms by (simp_all add: high_surrogate_def low_surrogate_def)
  have "hex4_value (drop 2 (hex4 v) @ hex4 w @ s) = Some (v, hex4 w @ s)" "hex4_value (drop 2 (hex4 w @ s)) = Some (w, s)"
    using hex4_value_hex4 [OF b(1)] hex4_value_hex4 [OF b(2)] by simp_all
  moreover have "take 2 (hex4 w @ s) = [92, 117]" by (simp add: hex4_def)
  ultimately show ?thesis using assms by (simp add: unicode_escape_def high_surrogate_def low_surrogate_def)
qed

lemma unicode_escape_next:
  assumes "v < 0x10000" "w < 0x10000" "\<not> low_surrogate w"
  shows "unicode_escape (drop 2 (hex4 v) @ hex4 w @ s) = Inr (v, hex4 w @ s)"
proof -
  have "hex4_value (drop 2 (hex4 v) @ hex4 w @ s) = Some (v, hex4 w @ s)" "hex4_value (drop 2 (hex4 w @ s)) = Some (w, s)"
    using hex4_value_hex4 [OF assms(1)] hex4_value_hex4 [OF assms(2)] by simp_all
  then show ?thesis using assms(3) by (auto simp: unicode_escape_def low_surrogate_def)
qed

lemma scan_unicode: "unicode_escape (drop 2 (hex4 v) @ s) = Inr (c, s') \<Longrightarrow> scan_string s' = Inr (t, r) \<Longrightarrow> scan_string (hex4 v @ s) = Inr (c # t, r)"
  by (subst hex4_split) (simp add: scan_string.simps)

lemma scan_pair:
  assumes "0x10000 \<le> c" "c < 0x110000" "scan_string s = Inr (t, r)"
  shows "scan_string ((hex4 (0xD800 + (c - 0x10000) div 1024) @ hex4 (0xDC00 + (c - 0x10000) mod 1024)) @ s) = Inr (c # t, r)"
proof -
  obtain q p where qp: "(c - 0x10000) div 1024 = q" "(c - 0x10000) mod 1024 = p" "c = 0x10000 + q * 1024 + p" "q < 1024" "p < 1024"
    by (rule surrogates [OF assms(1,2)])
  have "unicode_escape (drop 2 (hex4 (0xD800 + q)) @ hex4 (0xDC00 + p) @ s) = Inr (c, s)"
    using unicode_escape_pair [of "0xD800 + q" "0xDC00 + p" s] qp(3-5) by (simp add: high_surrogate_def low_surrogate_def)
  then show ?thesis using scan_unicode [OF _ assms(3)] by (simp add: qp(1,2))
qed

text \<open>What may follow the escape of a high surrogate without being joined to it.\<close>

definition no_low_escape :: "utext \<Rightarrow> bool" where
  "no_low_escape s \<longleftrightarrow> take 2 s \<noteq> [92, 117] \<or> (\<exists>w u. s = hex4 w @ u \<and> w < 0x10000 \<and> \<not> low_surrogate w)"

lemma escape_no_low:
  assumes "d < 0x110000" "\<not> low_surrogate d"
  shows "no_low_escape (escape_char d @ u)"
proof (cases "d < 0x10000")
  case True
  then show ?thesis using assms(2) by (auto simp: no_low_escape_def escape_char_def)
next
  case False
  obtain q p where qp: "(d - 0x10000) div 1024 = q" "(d - 0x10000) mod 1024 = p" "d = 0x10000 + q * 1024 + p" "q < 1024" "p < 1024"
    using surrogates [of d] assms(1) False by (metis not_less)
  have "escape_char d @ u = hex4 (0xD800 + q) @ hex4 (0xDC00 + p) @ u" using False qp(1,2) by (simp add: escape_char_def)
  then show ?thesis using qp(4) unfolding no_low_escape_def low_surrogate_def by (intro disjI2 exI conjI) auto
qed

lemma scan_bmp:
  assumes "v < 0x10000" "high_surrogate v \<Longrightarrow> no_low_escape s" "scan_string s = Inr (t, r)"
  shows "scan_string (hex4 v @ s) = Inr (v # t, r)"
proof (cases "high_surrogate v \<and> take 2 s = [92, 117]")
  case True
  then obtain w u where "s = hex4 w @ u" "w < 0x10000" "\<not> low_surrogate w" using assms(2) by (auto simp: no_low_escape_def)
  then show ?thesis using scan_unicode [OF unicode_escape_next] assms(1,3) by blast
next
  case False
  then show ?thesis using scan_hex4 assms(1,3) by blast
qed

lemma scan_escape_char:
  assumes "c < 0x110000" "high_surrogate c \<Longrightarrow> no_low_escape s" "scan_string s = Inr (t, r)"
  shows "scan_string (escape_char c @ s) = Inr (c # t, r)"
  using assms scan_pair [of c s t r]
  by (auto simp: escape_char_def simple_escape_def intro!: scan_short scan_cons scan_bmp)

lemma unjoined_Cons: "unjoined (c # s) \<longleftrightarrow> c < 0x110000 \<and> (s \<noteq> [] \<longrightarrow> high_surrogate c \<longrightarrow> \<not> low_surrogate (hd s)) \<and> unjoined s"
  by (cases s) auto

lemma scan_ascii: "unjoined s \<Longrightarrow> scan_string (concat (map escape_char s) @ 34 # rest) = Inr (s, rest)"
proof (induction s)
  case (Cons c s)
  have "no_low_escape (concat (map escape_char s) @ 34 # rest)" if "high_surrogate c"
  proof (cases s)
    case (Cons d u)
    then have "d < 0x110000" "\<not> low_surrogate d" using \<open>unjoined (c # s)\<close> that by (simp_all add: unjoined_Cons)
    then show ?thesis using escape_no_low Cons by simp
  qed (simp add: no_low_escape_def)
  then show ?case using Cons scan_escape_char [of c "concat (map escape_char s) @ 34 # rest"] by (simp add: unjoined_Cons)
qed (simp add: scan_string.simps)


subsection \<open>The two writers\<close>

text \<open>\<^verbatim>\<open>json.dumps\<close> with its default escaping and \<^verbatim>\<open>json.loads\<close> with the default hooks; \<open>float_repr\<close> is \<^verbatim>\<open>repr(float(text))\<close>.\<close>

lemma foldl_dset_distinct: "distinct (map fst kvs) \<Longrightarrow> fst ` set kvs \<inter> fst ` set d = {} \<Longrightarrow> foldl (\<lambda>d (k, v). dset d k v) d kvs = d @ kvs"
proof (induction kvs arbitrary: d)
  case (Cons kv kvs)
  obtain k v where kv: "kv = (k, v)" by (cases kv)
  then have "dget d k = None" using Cons.prems(2) by (auto simp: map_of_eq_None_iff)
  then have "dset d k v = d @ [(k, v)]" by (rule dset_absent)
  then show ?case using Cons.IH [of "d @ [(k, v)]"] Cons.prems kv by auto
qed simp

interpretation ascii_json: json_writer escape_char unjoined "\<lambda>t. is_float_text t \<and> float_repr t = t" "default_hooks float_repr" for float_repr
proof unfold_locales
  show "unjoined s \<Longrightarrow> scan_string (concat (map escape_char s) @ 34 # rest) = Inr (s, rest)" for s rest by (rule scan_ascii)
  show "is_float_text t \<and> float_repr t = t \<Longrightarrow> is_float_text t \<and> parse_float (default_hooks float_repr) t = Inr (JFloat t)" for t
    by (simp add: default_hooks_def)
  show "distinct (map fst kvs) \<Longrightarrow> object_pairs_hook (default_hooks float_repr) kvs = Inr (JObj kvs)" for kvs
    using foldl_dset_distinct [of kvs "[]"] by (simp add: default_hooks_def)
qed

lemma loads_dumps_default:
  "json_ok unjoined (\<lambda>t. is_float_text t \<and> float_repr t = t) v \<Longrightarrow> json_loads (default_hooks float_repr) (dumps sk v) = Inr (sort_json sk v)"
  unfolding dumps_gen_ascii by (rule ascii_json.loads_dumps)

end
