(* ===== verification/Text_Encodings.thy ===== *)
theory Text_Encodings
  imports Json_Text Byte_Codec
begin

section \<open>Text as bytes\<close>

text \<open>
  What the wire formats use of \<^verbatim>\<open>str.encode\<close>, \<^verbatim>\<open>bytes.decode\<close> and \<^verbatim>\<open>base64\<close>: UTF-8 with its rejection of
  surrogates and overlong forms, and unpadded Base64 in the URL alphabet. Decoding what was encoded gives
  the value back.
\<close>

subsection \<open>UTF-8\<close>

text \<open>\<^verbatim>\<open>str.encode("utf-8")\<close> of one character; a surrogate raises.\<close>

definition utf8_char :: "nat \<Rightarrow> bytes option" where
  "utf8_char c =
     (if c < 0x80 then Some [of_nat c]
      else if c < 0x800 then Some [of_nat (0xC0 + c div 64), of_nat (0x80 + c mod 64)]
      else if 0xD800 \<le> c \<and> c \<le> 0xDFFF then None
      else if c < 0x10000 then Some [of_nat (0xE0 + c div 4096), of_nat (0x80 + c div 64 mod 64), of_nat (0x80 + c mod 64)]
      else Some [of_nat (0xF0 + c div 262144), of_nat (0x80 + c div 4096 mod 64), of_nat (0x80 + c div 64 mod 64), of_nat (0x80 + c mod 64)])"

fun utf8_encode :: "utext \<Rightarrow> bytes option" where
  "utf8_encode [] = Some []"
| "utf8_encode (c # cs) =
     (case (utf8_char c, utf8_encode cs) of (Some b, Some bs) \<Rightarrow> Some (b @ bs) | _ \<Rightarrow> None)"

definition continuation :: "byte \<Rightarrow> bool" where
  "continuation b \<longleftrightarrow> 0x80 \<le> unat b \<and> unat b < 0xC0"

definition tail_bits :: "byte \<Rightarrow> nat" where
  "tail_bits b = unat b - 0x80"

text \<open>\<^verbatim>\<open>bytes.decode("utf-8")\<close>: overlong forms, surrogates and values past U+10FFFF are errors.\<close>

fun utf8_decode :: "bytes \<Rightarrow> utext option" where
  "utf8_decode [] = Some []"
| "utf8_decode (a # s) =
     (if unat a < 0x80 then map_option (\<lambda>t. unat a # t) (utf8_decode s)
      else if unat a < 0xC0 then None
      else if unat a < 0xE0 then
        (case s of
           b # r \<Rightarrow>
             let v = (unat a - 0xC0) * 64 + tail_bits b in
             if continuation b \<and> 0x80 \<le> v then map_option (\<lambda>t. v # t) (utf8_decode r) else None
         | _ \<Rightarrow> None)
      else if unat a < 0xF0 then
        (case s of
           b # c # r \<Rightarrow>
             let v = (unat a - 0xE0) * 4096 + tail_bits b * 64 + tail_bits c in
             if continuation b \<and> continuation c \<and> 0x800 \<le> v \<and> \<not> (0xD800 \<le> v \<and> v \<le> 0xDFFF)
             then map_option (\<lambda>t. v # t) (utf8_decode r) else None
         | _ \<Rightarrow> None)
      else if unat a < 0xF8 then
        (case s of
           b # c # d # r \<Rightarrow>
             let v = (unat a - 0xF0) * 262144 + tail_bits b * 4096 + tail_bits c * 64 + tail_bits d in
             if continuation b \<and> continuation c \<and> continuation d \<and> 0x10000 \<le> v \<and> v < 0x110000
             then map_option (\<lambda>t. v # t) (utf8_decode r) else None
         | _ \<Rightarrow> None)
      else None)"

declare utf8_decode.simps(2) [simp del]

lemma unat_byte: "n < 256 \<Longrightarrow> unat (of_nat n :: byte) = n"
  by (simp add: unat_of_nat)

lemma tail_byte: "n < 64 \<Longrightarrow> continuation (of_nat (0x80 + n)) \<and> tail_bits (of_nat (0x80 + n)) = n"
  using unat_byte [of "0x80 + n"] by (simp add: continuation_def tail_bits_def del: of_nat_add)

lemma split64: fixes c :: nat obtains q r where "c div 64 = q" "c mod 64 = r" "c = q * 64 + r" "r < 64"
  by (metis div_mult_mod_eq mod_less_divisor zero_less_numeral)

lemma decode_char:
  assumes "utf8_char c = Some b" "c < 0x110000"
  shows "utf8_decode (b @ s) = map_option (\<lambda>t. c # t) (utf8_decode s)"
proof -
  obtain q1 r1 where 1: "c div 64 = q1" "c mod 64 = r1" "c = q1 * 64 + r1" "r1 < 64" by (rule split64)
  obtain q2 r2 where 2: "q1 div 64 = q2" "q1 mod 64 = r2" "q1 = q2 * 64 + r2" "r2 < 64" by (rule split64)
  obtain q3 r3 where 3: "q2 div 64 = q3" "q2 mod 64 = r3" "q2 = q3 * 64 + r3" "r3 < 64" by (rule split64)
  have d: "c div 4096 = q2" "c div 262144 = q3"
    using div_mult2_eq [of c 64 64] div_mult2_eq [of c 4096 64] 1(1) 2(1) 3(1) by simp_all
  consider "c < 0x80" | "0x80 \<le> c" "c < 0x800" | "0x800 \<le> c" "c < 0x10000" | "0x10000 \<le> c" by linarith
  then show ?thesis
  proof cases
    case 1
    then show ?thesis using assms(1) unat_byte [of c] by (auto simp: utf8_char_def utf8_decode.simps)
  next
    case two: 2
    then have "q1 < 32" using 1 by linarith
    then show ?thesis
      using assms(1) two 1 unat_byte [of "0xC0 + q1"] tail_byte [of r1]
      by (auto simp: utf8_char_def utf8_decode.simps Let_def simp del: of_nat_add)
  next
    case three: 3
    then have "q2 < 16" "\<not> (0xD800 \<le> c \<and> c \<le> 0xDFFF)" using 1 2 assms(1) by (auto simp: utf8_char_def split: if_splits)
    then show ?thesis
      using assms(1) three 1 2 d unat_byte [of "0xE0 + q2"] tail_byte [of r1] tail_byte [of r2]
      by (auto simp: utf8_char_def utf8_decode.simps Let_def mult.commute [of 4096] simp del: of_nat_add)
  next
    case four: 4
    then have "q3 < 8" using 1 2 3 assms(2) by linarith
    then show ?thesis
      using assms four 1 2 3 d unat_byte [of "0xF0 + q3"] tail_byte [of r1] tail_byte [of r2] tail_byte [of r3]
      by (auto simp: utf8_char_def utf8_decode.simps Let_def mult.commute [of 4096] mult.commute [of 262144] simp del: of_nat_add)
  qed
qed

lemma utf8_decode_encode: "utf8_encode s = Some b \<Longrightarrow> \<forall>c \<in> set s. c < 0x110000 \<Longrightarrow> utf8_decode b = Some s"
  by (induction s arbitrary: b) (auto split: option.splits simp: decode_char)

lemma utf8_length_encode: "utf8_length s = map_option length (utf8_encode s)"
proof (induction s)
  case (Cons c s)
  have "utf8_len c = map_option length (utf8_char c)" by (simp add: utf8_len_def utf8_char_def)
  then show ?case using Cons by (auto split: option.splits)
qed simp

lemma utf8_encode_append: "utf8_encode (s @ t) =
    (case (utf8_encode s, utf8_encode t) of (Some b, Some bs) \<Rightarrow> Some (b @ bs) | _ \<Rightarrow> None)"
  by (induction s) (auto split: option.splits)

subsection \<open>Base64 with the URL alphabet\<close>

definition b64url_alphabet :: utext where
  "b64url_alphabet = ascii ''ABCDEFGHIJKLMNOPQRSTUVWXYZabcdefghijklmnopqrstuvwxyz0123456789-_''"

fun sextets :: "nat list \<Rightarrow> nat list" where
  "sextets [] = []"
| "sextets [a] = [a div 4, a mod 4 * 16]"
| "sextets [a, b] = [a div 4, a mod 4 * 16 + b div 16, b mod 16 * 4]"
| "sextets (a # b # c # r) = [a div 4, a mod 4 * 16 + b div 16, b mod 16 * 4 + c div 64, c mod 64] @ sextets r"

fun octets :: "nat list \<Rightarrow> nat list" where
  "octets [] = []"
| "octets [x] = []"
| "octets [x, y] = [x * 4 + y div 16]"
| "octets [x, y, z] = [x * 4 + y div 16, y mod 16 * 16 + z div 4]"
| "octets (x # y # z # w # r) = [x * 4 + y div 16, y mod 16 * 16 + z div 4, z mod 4 * 64 + w] @ octets r"

text \<open>\<^verbatim>\<open>base64.urlsafe_b64encode\<close>, padded with \<^verbatim>\<open>=\<close> to a multiple of four characters, and \<^verbatim>\<open>bytes.rstrip\<close>.\<close>

definition urlsafe_b64encode :: "bytes \<Rightarrow> utext" where
  "urlsafe_b64encode bs =
     (let s = map (\<lambda>v. b64url_alphabet ! v) (sextets (map unat bs)) in s @ replicate ((4 - length s mod 4) mod 4) 61)"

definition rstrip_char :: "nat \<Rightarrow> utext \<Rightarrow> utext" where
  "rstrip_char c s = rev (dropWhile (\<lambda>d. d = c) (rev s))"

text \<open>
  \<^verbatim>\<open>base64.b64decode(s, altchars=b"-_", validate=True)\<close> on a text whose length is a multiple of four: both
  alphabets are read (\<^verbatim>\<open>-\<close> and \<^verbatim>\<open>_\<close> are translated to \<^verbatim>\<open>+\<close> and \<^verbatim>\<open>/\<close> before the check), at most two \<^verbatim>\<open>=\<close> may
  end the text, and the bits left over before the padding are dropped.
\<close>

definition b64_value :: "nat \<Rightarrow> nat option" where
  "b64_value c =
     (if 65 \<le> c \<and> c \<le> 90 then Some (c - 65) else if 97 \<le> c \<and> c \<le> 122 then Some (c - 71)
      else if 48 \<le> c \<and> c \<le> 57 then Some (c + 4)
      else if c = 45 \<or> c = 43 then Some 62 else if c = 95 \<or> c = 47 then Some 63 else None)"

definition b64decode :: "utext \<Rightarrow> bytes option" where
  "b64decode s =
     (let body = takeWhile (\<lambda>c. c \<noteq> 61) s; pad = dropWhile (\<lambda>c. c \<noteq> 61) s in
      if length pad \<le> 2 \<and> list_all (\<lambda>c. c = 61) pad \<and> length s mod 4 = 0 \<and> list_all (\<lambda>c. b64_value c \<noteq> None) body
      then Some (map of_nat (octets (map (\<lambda>c. the (b64_value c)) body))) else None)"

lemma b64_value_alphabet: "v < 64 \<Longrightarrow> b64_value (b64url_alphabet ! v) = Some v \<and> b64url_alphabet ! v \<noteq> 61"
proof -
  have "list_all (\<lambda>v. b64_value (b64url_alphabet ! v) = Some v \<and> b64url_alphabet ! v \<noteq> 61) [0..<64]" by code_simp
  then show "v < 64 \<Longrightarrow> ?thesis" by (simp add: list_all_iff)
qed

lemma div_mod_bounds:
  fixes a b :: nat
  assumes "b < 256"
  shows "a mod 4 * 16 + b div 16 < 64" "a mod 16 * 4 + b div 64 < 64" "b div 4 < 64" "a mod 4 * 16 < 64" "a mod 16 * 4 < 64"
proof -
  have a: "a mod 4 \<le> 3" "a mod 16 \<le> 15" using pos_mod_bound [of 4 a] by (simp_all add: less_Suc_eq_le [symmetric])
  have b: "b div 16 < 16" "b div 64 < 4" "b div 4 < 64" using assms by (simp_all add: less_mult_imp_div_less)
  show "a mod 4 * 16 + b div 16 < 64" "a mod 16 * 4 + b div 64 < 64" "b div 4 < 64" "a mod 4 * 16 < 64" "a mod 16 * 4 < 64"
    using a b by linarith+
qed

lemma sextets_bound: "\<forall>a \<in> set bs. a < 256 \<Longrightarrow> v \<in> set (sextets bs) \<Longrightarrow> v < 64"
  by (induction bs rule: sextets.induct) (auto simp: div_mod_bounds)

lemma octet_join:
  fixes a b c :: nat
  assumes "b < 256" "c < 256"
  shows "a div 4 * 4 + (a mod 4 * 16 + b div 16) div 16 = a"
    and "(a mod 4 * 16 + b div 16) mod 16 * 16 + (b mod 16 * 4 + c div 64) div 4 = b"
    and "(b mod 16 * 4 + c div 64) mod 4 * 64 + c mod 64 = c"
proof -
  have d: "b div 16 < 16" "c div 64 < 4" using assms by (simp_all add: less_mult_imp_div_less)
  have "(x * 16 + y) div 16 = x \<and> (x * 16 + y) mod 16 = y" if "y < 16" for x y :: nat using that by simp
  moreover have "(x * 4 + y) div 4 = x \<and> (x * 4 + y) mod 4 = y" if "y < 4" for x y :: nat using that by simp
  ultimately show "a div 4 * 4 + (a mod 4 * 16 + b div 16) div 16 = a"
    "(a mod 4 * 16 + b div 16) mod 16 * 16 + (b mod 16 * 4 + c div 64) div 4 = b"
    "(b mod 16 * 4 + c div 64) mod 4 * 64 + c mod 64 = c"
    using d by (metis div_mult_mod_eq)+
qed

lemma octets_sextets: "\<forall>a \<in> set bs. a < 256 \<Longrightarrow> octets (sextets bs) = bs"
proof (induction bs rule: sextets.induct)
  case (2 a)
  then show ?case using octet_join(1) [of 0 0 a] by simp
next
  case (3 a b)
  then show ?case using octet_join(1,2) [of b 0 a] by simp
next
  case (4 a b c r)
  then show ?case using octet_join(1,2) [of b c a] octet_join(3) [of b c] by simp
qed simp

lemma length_sextets: "length (sextets bs) mod 4 \<noteq> 1"
  by (induction bs rule: sextets.induct) auto

definition encode_base64url :: "bytes \<Rightarrow> utext" where
  "encode_base64url value = rstrip_char 61 (urlsafe_b64encode value)"

lemma unat_byte_lt: "unat (b :: byte) < 256"
  using unsigned_less [of b, where ?'a = nat] by simp

lemma encode_base64url_chars:
  "encode_base64url bs = map (\<lambda>v. b64url_alphabet ! v) (sextets (map unat bs))"
  "\<forall>c \<in> set (encode_base64url bs). b64_value c \<noteq> None \<and> c \<noteq> 61"
proof -
  have b: "\<forall>v \<in> set (sextets (map unat bs)). v < 64" using sextets_bound [of "map unat bs"] unat_byte_lt by auto
  then have ne: "\<forall>c \<in> set (map (\<lambda>v. b64url_alphabet ! v) (sextets (map unat bs))). b64_value c \<noteq> None \<and> c \<noteq> 61"
    using b64_value_alphabet by auto
  have "dropWhile (\<lambda>d. d = 61) (rev s) = rev s" if "\<forall>c \<in> set s. c \<noteq> 61" for s :: utext
    using that by (cases "rev s") (auto simp: rev_swap)
  then show *: "encode_base64url bs = map (\<lambda>v. b64url_alphabet ! v) (sextets (map unat bs))"
    using ne by (simp add: encode_base64url_def urlsafe_b64encode_def rstrip_char_def Let_def dropWhile_append)
  show "\<forall>c \<in> set (encode_base64url bs). b64_value c \<noteq> None \<and> c \<noteq> 61" unfolding * by (rule ne)
qed

lemma b64_padding: "n mod 4 \<noteq> 1 \<Longrightarrow> (4 - n mod 4) mod 4 \<le> 2 \<and> (n + (4 - n mod 4) mod 4) mod 4 = (0 :: nat)"
proof -
  assume "n mod 4 \<noteq> 1"
  moreover obtain q r where "n = q * 4 + r" "n mod 4 = r" "r < 4" by (metis div_mult_mod_eq mod_less_divisor zero_less_numeral)
  ultimately have "r \<in> {0, 2, 3}" by auto
  then show ?thesis using \<open>n = q * 4 + r\<close> by auto
qed

lemma b64decode_encode:
  "b64decode (encode_base64url bs @ replicate ((4 - length (encode_base64url bs) mod 4) mod 4) 61) = Some bs"
proof -
  let ?x = "sextets (map unat bs)" and ?s = "encode_base64url bs"
  let ?p = "replicate ((4 - length ?s mod 4) mod 4) (61 :: nat)"
  have "\<forall>v \<in> set ?x. v < 64" using sextets_bound [of "map unat bs"] unat_byte_lt by auto
  then have x: "map (\<lambda>c. the (b64_value c)) ?s = ?x" using b64_value_alphabet by (auto simp: encode_base64url_chars(1) intro!: map_idI)
  have "takeWhile (\<lambda>c. c \<noteq> 61) (?s @ ?p) = ?s" "dropWhile (\<lambda>c. c \<noteq> 61) (?s @ ?p) = ?p"
    using encode_base64url_chars(2) [of bs] by (simp_all add: takeWhile_append dropWhile_append takeWhile_eq_Nil_iff)
  moreover have "length ?s mod 4 \<noteq> 1" using length_sextets by (simp add: encode_base64url_chars(1))
  note b64_padding [OF this]
  moreover have "octets ?x = map unat bs" by (rule octets_sextets) (auto simp: unat_byte_lt)
  ultimately show ?thesis using x encode_base64url_chars(2) [of bs] by (simp add: b64decode_def list_all_iff o_def)
qed

end
