(* ===== verification/Broker_Protocol.thy ===== *)
theory Broker_Protocol
  imports Json_Roundtrip Text_Encodings
begin

section \<open>Broker protocol\<close>

text \<open>
  \<^verbatim>\<open>services/broker_protocol.py\<close>: bounded canonical JSON, and requests and responses authenticated with
  Ed25519. \<open>sign\<close> and \<open>verify\<close> stand for the private and the public key of the \<^verbatim>\<open>cryptography\<close> package and
  \<open>hexdigest\<close> for \<^verbatim>\<open>hashlib.sha256(...).hexdigest()\<close>. A message is the dictionary that was read or is to be
  written; the dataclasses \<^verbatim>\<open>BrokerRequest\<close> and \<^verbatim>\<open>BrokerResponse\<close> are extensions of the record of the eight
  identity fields they share. \<open>BrokerUnicodeEncodeError\<close> and \<open>BrokerIntDigitsError\<close> are the \<^verbatim>\<open>UnicodeEncodeError\<close>
  and the \<^verbatim>\<open>ValueError\<close> that leave the module as they are.
\<close>

subsection \<open>Constants and errors\<close>

definition BROKER_PROTOCOL_VERSION :: utext where "BROKER_PROTOCOL_VERSION = ascii ''yinshi-broker-v1''"
definition BROKER_FRAME_BYTES_MAX :: nat where "BROKER_FRAME_BYTES_MAX = 65536"
definition BROKER_RESPONSE_BYTES_MAX :: nat where "BROKER_RESPONSE_BYTES_MAX = 4096"

definition REQUEST_KEYS :: "utext list" where
  "REQUEST_KEYS = map ascii [''broker_incarnation'', ''connection_sequence'', ''database_incarnation'', ''nonce'', ''operation_id'',
     ''payload'', ''payload_digest'', ''protocol_version'', ''request_type'', ''signature'']"

definition RESPONSE_KEYS :: "utext list" where
  "RESPONSE_KEYS = map ascii [''broker_incarnation'', ''connection_sequence'', ''database_incarnation'', ''error'', ''operation_id'',
     ''payload_digest'', ''protocol_version'', ''request_nonce'', ''request_type'', ''result'', ''signature'', ''status'']"

definition REQUEST_SIGNATURE_DOMAIN :: bytes where "REQUEST_SIGNATURE_DOMAIN = bytes_of ''YINSHI-BROKER-REQUEST-V1'' @ [0]"
definition RESPONSE_SIGNATURE_DOMAIN :: bytes where "RESPONSE_SIGNATURE_DOMAIN = bytes_of ''YINSHI-BROKER-RESPONSE-V1'' @ [0]"

datatype broker_error =
    BrokerProtocolError string
  | BrokerUnicodeEncodeError
  | BrokerIntDigitsError

type_synonym message = "(utext, json) pydict"

record broker_identity =
  bi_protocol_version :: utext
  bi_broker_incarnation :: utext
  bi_database_incarnation :: utext
  bi_connection_sequence :: int
  bi_operation_id :: utext
  bi_request_type :: utext
  bi_nonce :: utext
  bi_payload_digest :: utext

record broker_request = broker_identity +
  brq_payload :: message

record broker_response = broker_identity +
  brs_status :: utext
  brs_error :: "utext option"
  brs_result :: message

subsection \<open>Canonical JSON\<close>

definition reject_constant :: "utext \<Rightarrow> string + json" where
  "reject_constant v = Inl (''unsupported JSON constant: '' @ map char_of v)"

definition reject_float :: "utext \<Rightarrow> string + json" where
  "reject_float v = Inl ''floating-point JSON values are not supported''"

fun unique_items :: "message \<Rightarrow> message \<Rightarrow> string + json" where
  "unique_items result [] = Inr (JObj result)"
| "unique_items result ((k, v) # pairs) =
     (if dget result k \<noteq> None then Inl ''duplicate JSON object key'' else unique_items (dset result k v) pairs)"

definition unique_object :: "message \<Rightarrow> string + json" where
  "unique_object pairs = unique_items [] pairs"

definition broker_hooks :: json_hooks where
  "broker_hooks = \<lparr> parse_float = reject_float, parse_constant = reject_constant, object_pairs_hook = unique_object \<rparr>"

definition encoded_at_most :: "nat \<Rightarrow> string \<Rightarrow> utext \<Rightarrow> broker_error + unit" where
  "encoded_at_most maximum label s =
     (case utf8_encode s of
        None \<Rightarrow> Inl BrokerUnicodeEncodeError
      | Some b \<Rightarrow> raise_if (length b > maximum) (BrokerProtocolError label))"

definition depth_checked :: "nat \<Rightarrow> broker_error + 'a \<Rightarrow> broker_error + 'a" where
  "depth_checked depth r =
     (if depth > 8 then Inl (BrokerProtocolError ''JSON nesting exceeds the protocol limit'') else r)"

fun validate_json :: "nat \<Rightarrow> json \<Rightarrow> broker_error + json"
and validate_list :: "nat \<Rightarrow> json list \<Rightarrow> broker_error + json list"
and validate_items :: "nat \<Rightarrow> message \<Rightarrow> broker_error + message" where
  "validate_json depth JNull = depth_checked depth (Inr JNull)"
| "validate_json depth (JBool b) = depth_checked depth (Inr (JBool b))"
| "validate_json depth (JInt i) = depth_checked depth
     (if \<not> (- (2 ^ 53 - 1) \<le> i \<and> i \<le> 2 ^ 53 - 1) then Inl (BrokerProtocolError ''JSON integer exceeds the protocol limit'')
      else Inr (JInt i))"
| "validate_json depth (JFloat t) = depth_checked depth (Inl (BrokerProtocolError ''unsupported JSON value type''))"
| "validate_json depth (JStr s) = depth_checked depth
     (rbind (encoded_at_most 4096 ''JSON string exceeds the protocol limit'' s) (\<lambda>_. Inr (JStr s)))"
| "validate_json depth (JList xs) = depth_checked depth
     (if length xs > 64 then Inl (BrokerProtocolError ''JSON array exceeds the protocol limit'')
      else rbind (validate_list (depth + 1) xs) (\<lambda>ys. Inr (JList ys)))"
| "validate_json depth (JObj kvs) = depth_checked depth
     (if length kvs > 64 then Inl (BrokerProtocolError ''JSON object exceeds the protocol limit'')
      else rbind (validate_items (depth + 1) kvs) (\<lambda>ws. Inr (JObj ws)))"
| "validate_list depth [] = Inr []"
| "validate_list depth (x # xs) = rbind (validate_json depth x) (\<lambda>y. rbind (validate_list depth xs) (\<lambda>ys. Inr (y # ys)))"
| "validate_items depth [] = Inr []"
| "validate_items depth ((k, v) # kvs) =
     (if k = [] then Inl (BrokerProtocolError ''JSON object keys must be non-empty strings'')
      else rbind (encoded_at_most 128 ''JSON object key exceeds the protocol limit'' k) (\<lambda>_.
           rbind (validate_json depth v) (\<lambda>w. rbind (validate_items depth kvs) (\<lambda>ws. Inr ((k, w) # ws)))))"

definition canonical_json :: "json \<Rightarrow> broker_error + bytes" where
  "canonical_json v =
     rbind (validate_json 0 v) (\<lambda>validated.
     case utf8_encode (dumps_gen escape_raw True validated) of
       None \<Rightarrow> Inl BrokerUnicodeEncodeError
     | Some encoded \<Rightarrow>
         if length encoded > BROKER_FRAME_BYTES_MAX then Inl (BrokerProtocolError ''JSON frame exceeds the protocol limit'')
         else Inr encoded)"

definition loads_frame :: "utext \<Rightarrow> broker_error + json" where
  "loads_frame t =
     (case json_loads broker_hooks t of
        Inr v \<Rightarrow> Inr v
      | Inl (HookErr e) \<Rightarrow> Inl (BrokerProtocolError e)
      | Inl IntDigitsErr \<Rightarrow> Inl BrokerIntDigitsError
      | Inl _ \<Rightarrow> Inl (BrokerProtocolError ''JSON frame is invalid''))"

definition parse_canonical_json :: "nat \<Rightarrow> bytes \<Rightarrow> broker_error + message" where
  "parse_canonical_json maximum frame =
     (if frame = [] \<or> length frame > maximum then Inl (BrokerProtocolError ''JSON frame size is invalid'')
      else case utf8_decode frame of
        None \<Rightarrow> Inl (BrokerProtocolError ''JSON frame is invalid'')
      | Some t \<Rightarrow>
          rbind (loads_frame t) (\<lambda>v.
          rbind (validate_json 0 v) (\<lambda>validated.
          case validated of
            JObj kvs \<Rightarrow>
              rbind (canonical_json validated) (\<lambda>canonical.
              if canonical \<noteq> frame then Inl (BrokerProtocolError ''JSON frame is not canonical'') else Inr kvs)
          | _ \<Rightarrow> Inl (BrokerProtocolError ''JSON frame must contain an object''))))"

subsection \<open>Signatures, digests and fields\<close>

definition decode_base64url :: "json option \<Rightarrow> nat \<Rightarrow> broker_error + bytes" where
  "decode_base64url v expected_bytes =
     (case v of
        Some (JStr s) \<Rightarrow>
          if s = [] \<or> 61 \<in> set s then Inl (BrokerProtocolError ''signature encoding is invalid'')
          else (case b64decode (s @ replicate ((4 - length s mod 4) mod 4) 61) of
                  None \<Rightarrow> Inl (BrokerProtocolError ''signature encoding is invalid'')
                | Some decoded \<Rightarrow>
                    if length decoded \<noteq> expected_bytes \<or> encode_base64url decoded \<noteq> s
                    then Inl (BrokerProtocolError ''signature encoding is invalid'') else Inr decoded)
      | _ \<Rightarrow> Inl (BrokerProtocolError ''signature encoding is invalid''))"

definition payload_digest :: "(bytes \<Rightarrow> string) \<Rightarrow> json \<Rightarrow> broker_error + utext" where
  "payload_digest hexdigest payload = rbind (canonical_json payload) (\<lambda>b. Inr (ascii (hexdigest b)))"

definition TOKEN_PATTERN :: "utext \<Rightarrow> bool" where
  "TOKEN_PATTERN s \<longleftrightarrow> 16 \<le> length s \<and> length s \<le> 128
     \<and> list_all (\<lambda>c. 65 \<le> c \<and> c \<le> 90 \<or> 97 \<le> c \<and> c \<le> 122 \<or> 48 \<le> c \<and> c \<le> 57 \<or> c = 95 \<or> c = 45) s"

definition lower_hex_text :: "utext \<Rightarrow> bool" where
  "lower_hex_text s \<longleftrightarrow> list_all (\<lambda>c. 48 \<le> c \<and> c \<le> 57 \<or> 97 \<le> c \<and> c \<le> 102) s"

definition OPERATION_ID_PATTERN :: "utext \<Rightarrow> bool" where
  "OPERATION_ID_PATTERN s \<longleftrightarrow> length s = 32 \<and> lower_hex_text s"

definition DIGEST_PATTERN :: "utext \<Rightarrow> bool" where
  "DIGEST_PATTERN s \<longleftrightarrow> length s = 64 \<and> lower_hex_text s"

definition checked_text :: "(utext \<Rightarrow> bool) \<Rightarrow> string \<Rightarrow> json option \<Rightarrow> broker_error + utext" where
  "checked_text ok label v =
     (case v of Some (JStr s) \<Rightarrow> if ok s then Inr s else Inl (BrokerProtocolError label) | _ \<Rightarrow> Inl (BrokerProtocolError label))"

definition validate_token :: "json option \<Rightarrow> string \<Rightarrow> broker_error + utext" where
  "validate_token v name = checked_text TOKEN_PATTERN (name @ '' is invalid'') v"

definition checked_sequence :: "json option \<Rightarrow> broker_error + int" where
  "checked_sequence v =
     (case v of
        Some (JInt i) \<Rightarrow> if 1 \<le> i \<and> i \<le> 2 ^ 63 - 1 then Inr i else Inl (BrokerProtocolError ''connection sequence is invalid'')
      | _ \<Rightarrow> Inl (BrokerProtocolError ''connection sequence is invalid''))"

definition unsigned_message :: "message \<Rightarrow> broker_error + bytes" where
  "unsigned_message m = canonical_json (JObj (dpop m (ascii ''signature'')))"

text \<open>The checks on the eight identity fields, in the order in which both readers make them.\<close>

definition checked_identity :: "string \<Rightarrow> message \<Rightarrow> broker_error + broker_identity" where
  "checked_identity nonce_key m =
     (if dget m (ascii ''protocol_version'') \<noteq> Some (JStr BROKER_PROTOCOL_VERSION)
      then Inl (BrokerProtocolError ''broker protocol version is invalid'')
      else
        rbind (validate_token (dget m (ascii ''broker_incarnation'')) ''broker incarnation'') (\<lambda>broker_incarnation.
        rbind (validate_token (dget m (ascii ''database_incarnation'')) ''database incarnation'') (\<lambda>database_incarnation.
        rbind (checked_sequence (dget m (ascii ''connection_sequence''))) (\<lambda>sequence.
        rbind (checked_text OPERATION_ID_PATTERN ''operation ID is invalid'' (dget m (ascii ''operation_id''))) (\<lambda>operation_id.
        rbind (checked_text (\<lambda>s. 1 \<le> length s \<and> length s \<le> 64) ''request type is invalid'' (dget m (ascii ''request_type''))) (\<lambda>request_type.
        rbind (validate_token (dget m (ascii nonce_key)) ''request nonce'') (\<lambda>nonce.
        rbind (checked_text DIGEST_PATTERN ''payload digest is invalid'' (dget m (ascii ''payload_digest''))) (\<lambda>digest.
        Inr \<lparr> bi_protocol_version = BROKER_PROTOCOL_VERSION, bi_broker_incarnation = broker_incarnation,
              bi_database_incarnation = database_incarnation, bi_connection_sequence = sequence, bi_operation_id = operation_id,
              bi_request_type = request_type, bi_nonce = nonce, bi_payload_digest = digest \<rparr>))))))))"

subsection \<open>Requests\<close>

definition request_message :: "broker_identity \<Rightarrow> message \<Rightarrow> message" where
  "request_message i payload =
     [(ascii ''broker_incarnation'', JStr (bi_broker_incarnation i)),
      (ascii ''connection_sequence'', JInt (bi_connection_sequence i)),
      (ascii ''database_incarnation'', JStr (bi_database_incarnation i)),
      (ascii ''nonce'', JStr (bi_nonce i)),
      (ascii ''operation_id'', JStr (bi_operation_id i)),
      (ascii ''payload'', JObj payload),
      (ascii ''payload_digest'', JStr (bi_payload_digest i)),
      (ascii ''protocol_version'', JStr (bi_protocol_version i)),
      (ascii ''request_type'', JStr (bi_request_type i))]"

definition create_signed_request ::
    "(bytes \<Rightarrow> string) \<Rightarrow> (bytes \<Rightarrow> bytes) \<Rightarrow> utext \<Rightarrow> utext \<Rightarrow> utext \<Rightarrow> int \<Rightarrow> utext \<Rightarrow> utext \<Rightarrow> utext \<Rightarrow> message \<Rightarrow> broker_error + bytes" where
  "create_signed_request hexdigest sign protocol_version broker_incarnation database_incarnation connection_sequence
       operation_id request_type nonce payload =
     rbind (payload_digest hexdigest (JObj payload)) (\<lambda>digest.
     let m = request_message \<lparr> bi_protocol_version = protocol_version, bi_broker_incarnation = broker_incarnation,
           bi_database_incarnation = database_incarnation, bi_connection_sequence = connection_sequence,
           bi_operation_id = operation_id, bi_request_type = request_type, bi_nonce = nonce, bi_payload_digest = digest \<rparr> payload in
     rbind (canonical_json (JObj m)) (\<lambda>unsigned_bytes.
     let signature = sign (REQUEST_SIGNATURE_DOMAIN @ unsigned_bytes) in
     canonical_json (JObj (dset m (ascii ''signature'') (JStr (encode_base64url signature))))))"

definition parse_signed_request :: "(bytes \<Rightarrow> string) \<Rightarrow> (bytes \<Rightarrow> bytes \<Rightarrow> bool) \<Rightarrow> bytes \<Rightarrow> broker_error + broker_request" where
  "parse_signed_request hexdigest verify frame =
     rbind (parse_canonical_json BROKER_FRAME_BYTES_MAX frame) (\<lambda>m.
     if set (map fst m) \<noteq> set REQUEST_KEYS
     then Inl (BrokerProtocolError ''broker request schema contains missing or unknown fields'')
     else rbind (decode_base64url (dget m (ascii ''signature'')) 64) (\<lambda>signature.
     case unsigned_message m of
       Inl _ \<Rightarrow> Inl (BrokerProtocolError ''broker request signature is invalid'')
     | Inr unsigned_bytes \<Rightarrow>
         if \<not> verify signature (REQUEST_SIGNATURE_DOMAIN @ unsigned_bytes)
         then Inl (BrokerProtocolError ''broker request signature is invalid'')
         else rbind (checked_identity ''nonce'' m) (\<lambda>i.
         case dget m (ascii ''payload'') of
           Some (JObj payload) \<Rightarrow>
             rbind (payload_digest hexdigest (JObj payload)) (\<lambda>digest.
             if digest \<noteq> bi_payload_digest i then Inl (BrokerProtocolError ''request payload digest mismatch'')
             else Inr (broker_identity.extend i \<lparr> brq_payload = payload \<rparr>))
         | _ \<Rightarrow> Inl (BrokerProtocolError ''request payload must contain an object''))))"

subsection \<open>Responses\<close>

definition response_message :: "broker_identity \<Rightarrow> utext \<Rightarrow> utext option \<Rightarrow> message \<Rightarrow> message" where
  "response_message i status error result =
     [(ascii ''broker_incarnation'', JStr (bi_broker_incarnation i)),
      (ascii ''connection_sequence'', JInt (bi_connection_sequence i)),
      (ascii ''database_incarnation'', JStr (bi_database_incarnation i)),
      (ascii ''error'', (case error of None \<Rightarrow> JNull | Some e \<Rightarrow> JStr e)),
      (ascii ''operation_id'', JStr (bi_operation_id i)),
      (ascii ''payload_digest'', JStr (bi_payload_digest i)),
      (ascii ''protocol_version'', JStr (bi_protocol_version i)),
      (ascii ''request_nonce'', JStr (bi_nonce i)),
      (ascii ''request_type'', JStr (bi_request_type i)),
      (ascii ''result'', JObj result),
      (ascii ''status'', JStr status)]"

definition create_signed_response ::
    "(bytes \<Rightarrow> bytes) \<Rightarrow> broker_request \<Rightarrow> utext \<Rightarrow> utext option \<Rightarrow> message \<Rightarrow> broker_error + bytes" where
  "create_signed_response sign request status error result =
     rbind (raise_if (status \<notin> {ascii ''ok'', ascii ''error''}) (BrokerProtocolError ''broker response status is invalid'')) (\<lambda>_.
     rbind (raise_if (case error of None \<Rightarrow> False | Some e \<Rightarrow> \<not> (1 \<le> length e \<and> length e \<le> 128))
              (BrokerProtocolError ''broker response error is invalid'')) (\<lambda>_.
     rbind (raise_if (status = ascii ''ok'' \<and> error \<noteq> None)
              (BrokerProtocolError ''successful broker response cannot contain an error'')) (\<lambda>_.
     rbind (raise_if (status = ascii ''error'' \<and> error = None)
              (BrokerProtocolError ''failed broker response must contain an error'')) (\<lambda>_.
     let m = response_message (broker_identity.truncate request) status error result in
     rbind (canonical_json (JObj m)) (\<lambda>unsigned_bytes.
     let signature = sign (RESPONSE_SIGNATURE_DOMAIN @ unsigned_bytes) in
     rbind (canonical_json (JObj (dset m (ascii ''signature'') (JStr (encode_base64url signature))))) (\<lambda>response.
     if length response > BROKER_RESPONSE_BYTES_MAX then Inl (BrokerProtocolError ''broker response exceeds the protocol limit'')
     else Inr response))))))"

definition checked_outcome :: "message \<Rightarrow> broker_error + (utext \<times> utext option \<times> message)" where
  "checked_outcome m =
     (case (dget m (ascii ''status''), dget m (ascii ''result'')) of
        (Some (JStr status), Some (JObj result)) \<Rightarrow>
          if status = ascii ''ok'' then
            (if dget m (ascii ''error'') \<noteq> Some JNull then Inl (BrokerProtocolError ''broker response error is invalid'')
             else Inr (status, None, result))
          else if status = ascii ''error'' then
            rbind (checked_text (\<lambda>e. 1 \<le> length e \<and> length e \<le> 128) ''broker response error is invalid'' (dget m (ascii ''error'')))
              (\<lambda>e. Inr (status, Some e, result))
          else Inl (BrokerProtocolError ''broker response body is invalid'')
      | _ \<Rightarrow> Inl (BrokerProtocolError ''broker response body is invalid''))"

definition verify_broker_response :: "(bytes \<Rightarrow> bytes \<Rightarrow> bool) \<Rightarrow> bytes \<Rightarrow> broker_request \<Rightarrow> broker_error + broker_response" where
  "verify_broker_response verify frame expected_request =
     rbind (parse_canonical_json BROKER_RESPONSE_BYTES_MAX frame) (\<lambda>m.
     if set (map fst m) \<noteq> set RESPONSE_KEYS
     then Inl (BrokerProtocolError ''broker response schema contains missing or unknown fields'')
     else rbind (decode_base64url (dget m (ascii ''signature'')) 64) (\<lambda>signature.
     case unsigned_message m of
       Inl _ \<Rightarrow> Inl (BrokerProtocolError ''broker response signature is invalid'')
     | Inr unsigned_bytes \<Rightarrow>
         if \<not> verify signature (RESPONSE_SIGNATURE_DOMAIN @ unsigned_bytes)
         then Inl (BrokerProtocolError ''broker response signature is invalid'')
         else rbind (checked_identity ''request_nonce'' m) (\<lambda>i.
         rbind (checked_outcome m) (\<lambda>(status, error, result).
         if i \<noteq> broker_identity.truncate expected_request
         then Inl (BrokerProtocolError ''broker response request identity mismatch'')
         else Inr (broker_identity.extend i \<lparr> brs_status = status, brs_error = error, brs_result = result \<rparr>)))))"

end
