(* ===== verification/Broker_Canonical.thy ===== *)
theory Broker_Canonical
  imports Broker_Protocol
begin

section \<open>Canonical JSON frames\<close>

text \<open>
  What validation accepts, that canonical encoding and strict parsing are inverse to each other, and that
  what a frame decodes to is a Python value: every dictionary has distinct keys. \<open>sorted_items\<close> is the
  dictionary as it comes back, its keys in order at every level; two dictionaries are equal in Python exactly
  when their sorted items are.
\<close>

subsection \<open>What validation accepts\<close>

text \<open>Validation returns its argument; \<open>valid_json\<close> is the condition under which it does.\<close>

definition valid_text :: "nat \<Rightarrow> utext \<Rightarrow> bool" where
  "valid_text maximum s \<longleftrightarrow> (\<exists>b. utf8_encode s = Some b \<and> length b \<le> maximum)"

fun valid_json :: "nat \<Rightarrow> json \<Rightarrow> bool" where
  "valid_json depth (JInt i) \<longleftrightarrow> depth \<le> 8 \<and> \<bar>i\<bar> \<le> 2 ^ 53 - 1"
| "valid_json depth (JFloat t) \<longleftrightarrow> False"
| "valid_json depth (JStr s) \<longleftrightarrow> depth \<le> 8 \<and> valid_text 4096 s"
| "valid_json depth (JList xs) \<longleftrightarrow> depth \<le> 8 \<and> length xs \<le> 64 \<and> list_all (valid_json (depth + 1)) xs"
| "valid_json depth (JObj kvs) \<longleftrightarrow> depth \<le> 8 \<and> length kvs \<le> 64
     \<and> list_all (\<lambda>(k, v). k \<noteq> [] \<and> valid_text 128 k \<and> valid_json (depth + 1) v) kvs"
| "valid_json depth _ \<longleftrightarrow> depth \<le> 8"

lemma encoded_at_most_Inr: "encoded_at_most n l s = Inr u \<longleftrightarrow> valid_text n s"
  by (auto simp: encoded_at_most_def valid_text_def split: option.splits)

lemma depth_checked_Inr: "depth_checked d r = Inr x \<longleftrightarrow> d \<le> 8 \<and> r = Inr x"
  by (auto simp: depth_checked_def)

lemma validate_json_iff:
  "validate_json d v = Inr w \<longleftrightarrow> w = v \<and> valid_json d v"
  "validate_list d xs = Inr ys \<longleftrightarrow> ys = xs \<and> list_all (valid_json d) xs"
  "validate_items d kvs = Inr ws \<longleftrightarrow> ws = kvs \<and> list_all (\<lambda>(k, v). k \<noteq> [] \<and> valid_text 128 k \<and> valid_json d v) kvs"
  by (induction d v and d xs and d kvs arbitrary: w and ys and ws rule: validate_json_validate_list_validate_items.induct)
    (auto simp: depth_checked_Inr encoded_at_most_Inr rbind_Inr_iff split: if_splits)

lemma validate_json_ok: "validate_json d v = Inr v \<longleftrightarrow> valid_json d v"
  by (simp add: validate_json_iff)

lemma sort_json_items: "sort_json True (JObj kvs) = JObj (sort_key fst (map (\<lambda>(k, v). (k, sort_json True v)) kvs))"
  by (simp add: Let_def)

declare sort_json.simps(2) [simp del]

lemma valid_json_sort: "valid_json d (sort_json sk v) \<longleftrightarrow> valid_json d v"
proof (induction v arbitrary: d)
  case (JObj kvs)
  have "valid_json d (sort_json sk (JObj kvs)) \<longleftrightarrow> d \<le> 8 \<and> length kvs \<le> 64
    \<and> list_all (\<lambda>(k, v). k \<noteq> [] \<and> valid_text 128 k \<and> valid_json (d + 1) (sort_json sk v)) kvs"
    by (auto simp: sort_json.simps Let_def list_all_iff)
  also have "\<dots> \<longleftrightarrow> valid_json d (JObj kvs)" using JObj.IH by (fastforce simp: list_all_iff)
  finally show ?case .
qed (auto simp: list_all_iff)

lemma sort_key_sorted: "sorted (map f xs) \<Longrightarrow> sort_key f xs = xs"
  by (induction xs) (auto intro: insort_is_Cons)

lemma sort_key_fst_id: "sort_key fst (sort_key fst kvs) = sort_key fst kvs"
  by (rule sort_key_sorted) simp

lemma sort_json_obj_map:
  "sort_json True (JObj kvs) = JObj (map (\<lambda>(k, v). (k, sort_json True v)) (sort_key fst kvs))"
  using sort_pairs [of "sort_json True" kvs] by (simp add: sort_json_items)

lemma dumps_gen_sort: "dumps_gen esc True (sort_json True v) = dumps_gen esc True v"
proof (induction v)
  case (JList xs)
  then show ?case by (simp add: o_def cong: map_cong)
next
  case (JObj kvs)
  have m: "dumps_member esc True (k, sort_json True v) = dumps_member esc True (k, v)" if "(k, v) \<in> set kvs" for k v
    using JObj [of "(k, v)" v] that by (simp add: dumps_member_def)
  have "sort_key fst (map (\<lambda>(k, v). (k, sort_json True v)) (sort_key fst kvs)) = map (\<lambda>(k, v). (k, sort_json True v)) (sort_key fst kvs)"
    by (simp add: sort_pairs sort_key_fst_id)
  then have "dumps_gen esc True (sort_json True (JObj kvs))
      = 123 # comma_join (map (\<lambda>kv. dumps_member esc True (case kv of (k, v) \<Rightarrow> (k, sort_json True v))) (sort_key fst kvs)) @ [125]"
    unfolding sort_json_obj_map dumps_gen_obj by (simp add: o_def)
  also have "map (\<lambda>kv. dumps_member esc True (case kv of (k, v) \<Rightarrow> (k, sort_json True v))) (sort_key fst kvs) = map (dumps_member esc True) (sort_key fst kvs)"
    using m by (intro map_cong) auto
  finally show ?case by (simp only: dumps_gen_obj if_True)
qed simp_all

subsection \<open>Canonical encoding\<close>

lemma canonical_json_iff:
  "canonical_json v = Inr b \<longleftrightarrow> valid_json 0 v \<and> utf8_encode (dumps_gen escape_raw True v) = Some b \<and> length b \<le> BROKER_FRAME_BYTES_MAX"
  by (auto simp: canonical_json_def rbind_Inr_iff validate_json_iff split: option.splits if_splits)

text \<open>Python values: the keys of a dictionary are distinct and a character is a code point.\<close>

definition code_points :: "utext \<Rightarrow> bool" where
  "code_points s \<longleftrightarrow> list_all (\<lambda>c. c < 0x110000) s"

fun python_json :: "json \<Rightarrow> bool" where
  "python_json (JStr s) = code_points s"
| "python_json (JList xs) = list_all python_json xs"
| "python_json (JObj kvs) = (distinct (map fst kvs) \<and> list_all (\<lambda>(k, v). code_points k \<and> python_json v) kvs)"
| "python_json v = True"

lemma canonical_json_cong:
  "canonical_json v = Inr b \<Longrightarrow> sort_json True v = sort_json True w \<Longrightarrow> canonical_json w = Inr b"
  unfolding canonical_json_iff by (metis dumps_gen_sort valid_json_sort)

lemma length_nat_text: "n < 10 ^ k \<Longrightarrow> length (nat_text n) \<le> max 1 k"
proof (induction n arbitrary: k rule: nat_text.induct)
  case (1 n)
  show ?case
  proof (cases "n < 10")
    case True
    then show ?thesis by (simp add: nat_text.simps)
  next
    case False
    then obtain j where k: "k = Suc j" "j \<noteq> 0" using 1(2) by (cases k; cases "k - 1") auto
    then have "n div 10 < 10 ^ j" using 1(2) by (simp add: less_mult_imp_div_less)
    then have "length (nat_text (n div 10)) \<le> max 1 j" using 1(1) False by blast
    then show ?thesis using False k by (subst nat_text.simps) simp
  qed
qed

lemma valid_json_readable: "valid_json d v \<Longrightarrow> python_json v \<Longrightarrow> json_ok code_points (\<lambda>_. False) v"
proof (induction v arbitrary: d)
  case (JInt i)
  then have "nat \<bar>i\<bar> < 10 ^ 16" by auto
  then show ?case using length_nat_text [of "nat \<bar>i\<bar>" 16] by (simp add: INT_MAX_STR_DIGITS_def)
next
  case (JObj kvs)
  then show ?case by (fastforce simp: list_all_iff)
qed (auto simp: list_all_iff)

lemma comma_join_points: "\<forall>s \<in> set xs. code_points s \<Longrightarrow> code_points (comma_join xs)"
  by (induction xs rule: comma_join.induct) (auto simp: code_points_def)

lemma escape_raw_points: "c < 0x110000 \<Longrightarrow> code_points (escape_raw c)"
proof -
  have "of_char ch < (0x110000 :: nat)" for ch :: char by (rule less_trans [of _ 256]) simp_all
  then have "code_points (hex4 c)" by (auto simp: code_points_def hex4_def ascii_def list_all_iff)
  then show "c < 0x110000 \<Longrightarrow> code_points (escape_raw c)" by (simp add: escape_raw_def) (simp add: code_points_def)
qed

lemma escaped_points: "code_points s \<Longrightarrow> code_points (concat (map escape_raw s))"
  using escape_raw_points by (auto simp: code_points_def list_all_iff)

lemma dumps_points: "json_ok code_points (\<lambda>_. False) v \<Longrightarrow> code_points (dumps_gen escape_raw sk v)"
proof (induction v)
  case (JInt i)
  show ?case using nat_text_digits by (fastforce simp: code_points_def list_all_iff int_text_def is_digit_def)
next
  case (JStr s)
  then have "code_points (concat (map escape_raw s))" by (simp add: escaped_points)
  then show ?case by (simp add: code_points_def)
next
  case (JList xs)
  then have "code_points (comma_join (map (dumps_gen escape_raw sk) xs))" by (intro comma_join_points) (auto simp: list_all_iff)
  then show ?case by (simp add: code_points_def)
next
  case (JObj kvs)
  have "code_points (dumps_member escape_raw sk (k, v))" if "(k, v) \<in> set kvs" for k v
  proof -
    have "code_points k" "code_points (dumps_gen escape_raw sk v)" using JObj that by (fastforce simp: list_all_iff)+
    then show ?thesis using escaped_points [of k] by (simp add: dumps_member_def code_points_def)
  qed
  then have "code_points (comma_join (map (dumps_member escape_raw sk) (if sk then sort_key fst kvs else kvs)))"
    by (intro comma_join_points) auto
  then show ?case unfolding dumps_gen_obj by (simp add: code_points_def)
qed (auto simp: code_points_def ascii_def)

lemma unique_items_distinct: "distinct (map fst (result @ kvs)) \<Longrightarrow> unique_items result kvs = Inr (JObj (result @ kvs))"
proof (induction kvs arbitrary: result)
  case (Cons kv kvs)
  obtain k v where kv: "kv = (k, v)" by (cases kv)
  then have n: "dget result k = None" using Cons.prems by (auto simp: map_of_eq_None_iff)
  then have "dset result k v = result @ [(k, v)]" by (rule dset_absent)
  then show ?case using Cons.IH [of "result @ [(k, v)]"] Cons.prems kv n by auto
qed simp

interpretation raw_json: json_writer escape_raw code_points "\<lambda>_. False" broker_hooks
proof unfold_locales
  show "scan_string (concat (map escape_raw s) @ 34 # rest) = Inr (s, rest)" for s rest by (rule scan_raw)
  show "distinct (map fst kvs) \<Longrightarrow> object_pairs_hook broker_hooks kvs = Inr (JObj kvs)" for kvs
    using unique_items_distinct [of "[]" kvs] by (simp add: broker_hooks_def unique_object_def)
qed simp

lemma canonical_json_text:
  assumes "canonical_json v = Inr b" "python_json v"
  shows "json_ok code_points (\<lambda>_. False) v" "utf8_decode b = Some (dumps_gen escape_raw True v)"
proof -
  show ok: "json_ok code_points (\<lambda>_. False) v" using assms valid_json_readable by (auto simp: canonical_json_iff)
  show "utf8_decode b = Some (dumps_gen escape_raw True v)"
    using assms(1) dumps_points [OF ok, of True] by (intro utf8_decode_encode) (auto simp: canonical_json_iff code_points_def list_all_iff)
qed

lemma canonical_json_loads:
  assumes "canonical_json v = Inr b" "python_json v"
  shows "\<exists>t. utf8_decode b = Some t \<and> json_loads broker_hooks t = Inr (sort_json True v)"
  using canonical_json_text [OF assms] raw_json.loads_dumps by blast

lemma canonical_json_inj:
  "canonical_json v = Inr b \<Longrightarrow> canonical_json w = Inr b \<Longrightarrow> python_json v \<Longrightarrow> python_json w \<Longrightarrow> sort_json True v = sort_json True w"
  using canonical_json_loads [of v b] canonical_json_loads [of w b] by auto

lemma parse_canonical:
  assumes "canonical_json (JObj kvs) = Inr b" "python_json (JObj kvs)" "length b \<le> maximum"
  shows "parse_canonical_json maximum b = Inr (sort_key fst (map (\<lambda>(k, v). (k, sort_json True v)) kvs))"
proof -
  obtain t where t: "utf8_decode b = Some t" "json_loads broker_hooks t = Inr (sort_json True (JObj kvs))"
    using canonical_json_loads [OF assms(1,2)] by blast
  have "b \<noteq> []" using t by (auto simp: json_loads_def skip_ws_def parse_value.simps numeral_2_eq_2)
  moreover have "canonical_json (sort_json True (JObj kvs)) = Inr b"
    using canonical_json_cong [OF assms(1)] sort_json_obj_map by (metis dumps_gen_sort valid_json_sort canonical_json_iff assms(1))
  moreover have "validate_json 0 (sort_json True (JObj kvs)) = Inr (sort_json True (JObj kvs))"
    using assms(1) by (simp add: validate_json_iff valid_json_sort canonical_json_iff)
  ultimately show ?thesis using assms(3) t by (simp add: parse_canonical_json_def loads_frame_def sort_json_items)
qed

subsection \<open>Messages\<close>

lemma sort_json_idem: "sort_json True (sort_json True v) = sort_json True v"
proof (induction v)
  case (JObj kvs)
  have "map (\<lambda>(k, v). (k, sort_json True v)) (map (\<lambda>(k, v). (k, sort_json True v)) kvs) = map (\<lambda>(k, v). (k, sort_json True v)) kvs"
    using JObj by (auto simp: o_def)
  then have "map (\<lambda>(k, v). (k, sort_json True v)) (sort_key fst (map (\<lambda>(k, v). (k, sort_json True v)) kvs)) = sort_key fst (map (\<lambda>(k, v). (k, sort_json True v)) kvs)"
    using sort_pairs [of "sort_json True" "map (\<lambda>(k, v). (k, sort_json True v)) kvs"] by (simp del: map_map)
  then show ?case unfolding sort_json_items by (simp add: sort_key_fst_id)
qed simp_all

definition sorted_items :: "message \<Rightarrow> message" where
  "sorted_items kvs = sort_key fst (map (\<lambda>(k, v). (k, sort_json True v)) kvs)"

lemma sort_json_sorted_items: "sort_json True (JObj kvs) = JObj (sorted_items kvs)"
  by (simp add: sorted_items_def sort_json_items)

lemma map_fst_sort: "map fst (sort_key fst l) = sort (map fst l)"
proof (induction l)
  case (Cons x l)
  have "map fst (insort_key fst x l') = insort (fst x) (map fst l')" for l' :: "('a \<times> 'b) list" by (induction l') auto
  then show ?case using Cons by simp
qed simp

lemma keys_sorted_items [simp]:
  "set (map fst (sorted_items kvs)) = set (map fst kvs)"
  "distinct (map fst (sorted_items kvs)) = distinct (map fst kvs)"
  unfolding sorted_items_def map_fst_sort by (simp_all add: o_def case_prod_beta)

lemma set_sorted_items: "set (sorted_items kvs) = (\<lambda>(k, v). (k, sort_json True v)) ` set kvs"
  by (simp add: sorted_items_def)

lemma dget_sorted_items:
  assumes "dict_ok kvs"
  shows "dget (sorted_items kvs) k = map_option (sort_json True) (dget kvs k)"
proof -
  let ?l = "map (\<lambda>(k, v). (k, sort_json True v)) kvs"
  have "dict_ok ?l" using assms by (simp add: o_def case_prod_beta)
  then have "map_of (sorted_items kvs) = map_of ?l" using assms by (subst map_of_inject_set) (simp_all only: keys_sorted_items, simp add: sorted_items_def)
  then show ?thesis by (simp add: map_of_map)
qed

lemma sort_key_unique:
  assumes "dict_ok xs" "dict_ok ys" "set xs = set ys"
  shows "sort_key fst xs = sort_key fst ys"
proof (rule map_sorted_distinct_set_unique [where f = fst])
  show "inj_on fst (set (sort_key fst xs) \<union> set (sort_key fst ys))" using assms by (simp add: distinct_map)
  show "distinct (map fst (sort_key fst xs))" "distinct (map fst (sort_key fst ys))" using assms by (simp_all add: map_fst_sort)
qed (use assms in simp_all)

lemma sorted_items_dpop:
  assumes "dict_ok kvs"
  shows "sorted_items (dpop (sorted_items kvs) k) = sorted_items (dpop kvs k)"
  unfolding sorted_items_def [of "dpop (sorted_items kvs) k"] sorted_items_def [of "dpop kvs k"]
proof (rule sort_key_unique)
  have k: "map fst (map (\<lambda>(k, v). (k, sort_json True v)) l) = map fst l" for l by (simp add: o_def case_prod_beta)
  show "dict_ok (map (\<lambda>(k, v). (k, sort_json True v)) (dpop (sorted_items kvs) k))"
    "dict_ok (map (\<lambda>(k, v). (k, sort_json True v)) (dpop kvs k))"
    unfolding k using assms by simp_all
  show "set (map (\<lambda>(k, v). (k, sort_json True v)) (dpop (sorted_items kvs) k)) = set (map (\<lambda>(k, v). (k, sort_json True v)) (dpop kvs k))"
    by (force simp: AList.delete_eq set_sorted_items sort_json_idem image_iff)
qed

lemma unsigned_message_sorted:
  assumes "dict_ok m" "canonical_json (JObj (dpop m (ascii ''signature''))) = Inr b"
  shows "unsigned_message (sorted_items m) = Inr b"
  unfolding unsigned_message_def
  by (rule canonical_json_cong [OF assms(2)]) (simp add: sort_json_sorted_items sorted_items_dpop [OF assms(1)])

subsection \<open>Signatures\<close>

lemma decode_encode_signature:
  assumes "length sig = n" "n \<noteq> 0"
  shows "decode_base64url (Some (JStr (encode_base64url sig))) n = Inr sig"
proof -
  have "encode_base64url sig \<noteq> []" using b64decode_encode [of sig] assms by (auto simp: b64decode_def)
  then show ?thesis using b64decode_encode [of sig] encode_base64url_chars(2) [of sig] assms by (auto simp: decode_base64url_def)
qed

lemma decode_base64urlD: "decode_base64url v n = Inr sig \<Longrightarrow> v = Some (JStr (encode_base64url sig)) \<and> length sig = n"
  by (auto simp: decode_base64url_def split: option.splits json.splits if_splits)

lemma domains_disjoint: "REQUEST_SIGNATURE_DOMAIN @ a \<noteq> RESPONSE_SIGNATURE_DOMAIN @ b"
proof
  assume "REQUEST_SIGNATURE_DOMAIN @ a = RESPONSE_SIGNATURE_DOMAIN @ b"
  then have "(REQUEST_SIGNATURE_DOMAIN @ a) ! 16 = (RESPONSE_SIGNATURE_DOMAIN @ b) ! 16" by simp
  then show False by (simp add: REQUEST_SIGNATURE_DOMAIN_def RESPONSE_SIGNATURE_DOMAIN_def bytes_of_def nth_append)
qed

subsection \<open>Identity fields\<close>

definition valid_identity :: "broker_identity \<Rightarrow> bool" where
  "valid_identity i \<longleftrightarrow> bi_protocol_version i = BROKER_PROTOCOL_VERSION \<and> TOKEN_PATTERN (bi_broker_incarnation i)
     \<and> TOKEN_PATTERN (bi_database_incarnation i) \<and> 1 \<le> bi_connection_sequence i \<and> bi_connection_sequence i \<le> 2 ^ 63 - 1
     \<and> OPERATION_ID_PATTERN (bi_operation_id i) \<and> 1 \<le> length (bi_request_type i) \<and> length (bi_request_type i) \<le> 64
     \<and> TOKEN_PATTERN (bi_nonce i) \<and> DIGEST_PATTERN (bi_payload_digest i)"

lemma checked_text_Inr: "checked_text ok l v = Inr s \<longleftrightarrow> v = Some (JStr s) \<and> ok s"
  by (auto simp: checked_text_def split: option.splits json.splits)

lemma checked_sequence_Inr: "checked_sequence v = Inr i \<longleftrightarrow> v = Some (JInt i) \<and> 1 \<le> i \<and> i \<le> 2 ^ 63 - 1"
  by (auto simp: checked_sequence_def split: option.splits json.splits)

lemma checked_identity_iff:
  "checked_identity nonce_key m = Inr i \<longleftrightarrow> valid_identity i
     \<and> dget m (ascii ''protocol_version'') = Some (JStr (bi_protocol_version i))
     \<and> dget m (ascii ''broker_incarnation'') = Some (JStr (bi_broker_incarnation i))
     \<and> dget m (ascii ''database_incarnation'') = Some (JStr (bi_database_incarnation i))
     \<and> dget m (ascii ''connection_sequence'') = Some (JInt (bi_connection_sequence i))
     \<and> dget m (ascii ''operation_id'') = Some (JStr (bi_operation_id i))
     \<and> dget m (ascii ''request_type'') = Some (JStr (bi_request_type i))
     \<and> dget m (ascii nonce_key) = Some (JStr (bi_nonce i))
     \<and> dget m (ascii ''payload_digest'') = Some (JStr (bi_payload_digest i))"
  by (cases i) (auto simp: checked_identity_def validate_token_def checked_text_Inr checked_sequence_Inr rbind_Inr_iff valid_identity_def
      split: if_splits)

subsection \<open>What a frame decodes to is a Python value\<close>

lemma code_points_Cons: "code_points (c # s) \<longleftrightarrow> c < 0x110000 \<and> code_points s"
  by (simp add: code_points_def)

lemma code_points_Nil [simp]: "code_points []"
  by (simp add: code_points_def)

lemma code_points_subset: "code_points s \<Longrightarrow> set t \<subseteq> set s \<Longrightarrow> code_points t"
  by (auto simp: code_points_def list_all_iff)

lemma hex_value_lt: "hex_value c = Some v \<Longrightarrow> v < 16"
  by (auto simp: hex_value_def split: if_splits)

lemma hex4_value_rest: "hex4_value s = Some (v, r) \<Longrightarrow> v < 0x10000 \<and> set r \<subseteq> set s"
proof (induction s rule: hex4_value.induct)
  case (1 a b c d rest)
  then obtain w x y z where "hex_value a = Some w" "hex_value b = Some x" "hex_value c = Some y" "hex_value d = Some z"
    and v: "v = ((w * 16 + x) * 16 + y) * 16 + z" "r = rest"
    by (auto split: option.splits)
  then have "w < 16" "x < 16" "y < 16" "z < 16" using hex_value_lt by blast+
  then show ?case using v by auto
qed simp_all

lemma unicode_escape_rest:
  assumes "unicode_escape s = Inr (v, r)"
  shows "v < 0x110000 \<and> set r \<subseteq> set s"
proof -
  obtain u rest where u: "hex4_value s = Some (u, rest)" using assms by (auto simp: unicode_escape_def split: option.splits)
  note 1 = hex4_value_rest [OF u]
  show ?thesis
  proof (cases "0xD800 \<le> u \<and> u \<le> 0xDBFF \<and> take 2 rest = [92, 117]")
    case True
    then obtain u2 rest2 where u2: "hex4_value (drop 2 rest) = Some (u2, rest2)"
      using assms u by (auto simp: unicode_escape_def split: option.splits)
    have "set rest2 \<subseteq> set s" using 1 hex4_value_rest [OF u2] set_drop_subset [of 2 rest] by blast
    then show ?thesis using assms u u2 True 1 by (auto simp: unicode_escape_def split: if_splits)
  next
    case False
    then have "v = u \<and> r = rest" using assms u by (auto simp: unicode_escape_def)
    then show ?thesis using 1 by auto
  qed
qed

lemma scan_string_points: "scan_string s = Inr (t, r) \<Longrightarrow> code_points s \<Longrightarrow> code_points t \<and> code_points r"
proof (induction s arbitrary: t r rule: scan_string.induct)
  case (2 c cs)
  have esc: "v < 0x110000 \<and> code_points r'" if "unicode_escape es = Inr (v, r')" "code_points es" for es v r'
    using unicode_escape_rest [OF that(1)] that code_points_subset [of es r'] by auto
  have simple: "v < 0x110000" if "simple_escape e = Some v" for e v using that by (auto simp: simple_escape_def split: if_splits)
  show ?case
    using 2 
    by (auto simp: scan_string.simps rbind_Inr_iff code_points_Cons split: if_splits list.splits sum.splits option.splits prod.splits
         dest: esc simple)
qed (simp add: scan_string.simps)

lemma skip_ws_points: "code_points s \<Longrightarrow> code_points (skip_ws s)"
  by (rule code_points_subset) (auto simp: skip_ws_def dest: set_dropWhileD)

lemma parse_number_rest:
  assumes "parse_number h s = Inr (v, r)"
  shows "set r \<subseteq> set s"
proof -
  obtain i r0 f r1 e r2 where p: "match_int s = Some (i, r0)" "match_frac r0 = (f, r1)" "match_exp r1 = (e, r2)" "r = r2"
    using assms by (auto simp: parse_number_def hooked_Inr split: option.splits prod.splits if_splits)
  have w: "set (dropWhile is_digit t) \<subseteq> set t" for t by (auto dest: set_dropWhileD)
  have d: "set (drop n t) \<subseteq> set t" for n and t :: utext by (rule set_drop_subset)
  have "set r0 \<subseteq> set s"
  proof -
    obtain n d0 t where "drop n s = d0 # t" "r0 = t \<or> r0 = dropWhile is_digit (d0 # t)"
      using p(1) by (auto simp: match_int_def Let_def split: list.splits if_splits)
    then show ?thesis using d [of n s] w [of "d0 # t"] by auto
  qed
  moreover have "set r1 \<subseteq> set r0" using p(2) w by (auto simp: match_frac_def split: list.splits if_splits dest: set_dropWhileD)
  moreover have "set r2 \<subseteq> set r1"
    using p(3) by (auto simp: match_exp_def Let_def split: list.splits if_splits dest!: set_dropWhileD in_set_dropD)
  ultimately show ?thesis using p(4) by blast
qed

lemma unique_items_ok:
  "unique_items result kvs = Inr v \<Longrightarrow> python_json (JObj result) \<Longrightarrow> list_all (\<lambda>(k, v). code_points k \<and> python_json v) kvs \<Longrightarrow> python_json v"
proof (induction kvs arbitrary: result)
  case (Cons kv kvs)
  obtain k w where kv: "kv = (k, w)" by (cases kv)
  then have n: "dget result k = None" using Cons.prems(1) by (auto split: if_splits)
  then have "k \<notin> fst ` set result" by (simp add: map_of_eq_None_iff)
  then have "python_json (JObj (dset result k w))"
    using Cons.prems kv by (simp add: dset_absent [OF n])
  then show ?case using Cons kv n by auto
qed simp

definition yields :: "json scan \<Rightarrow> bool" where
  "yields res \<longleftrightarrow> (\<forall>v r. res = Inr (v, r) \<longrightarrow> python_json v \<and> code_points r)"

lemma yields_error [simp]: "yields (Inl e)" by (simp add: yields_def)
lemma yields_result: "python_json v \<Longrightarrow> code_points r \<Longrightarrow> yields (Inr (v, r))" by (simp add: yields_def)

lemma yields_if: "(c \<Longrightarrow> yields a) \<Longrightarrow> (\<not> c \<Longrightarrow> yields b) \<Longrightarrow> yields (if c then a else b)"
  by simp

lemma yields_pairs:
  "list_all (\<lambda>(k, v). code_points k \<and> python_json v) kvs \<Longrightarrow> code_points r \<Longrightarrow> yields (hooked (object_pairs_hook broker_hooks kvs) r)"
  using unique_items_ok [of "[]" kvs] by (auto simp: yields_def hooked_Inr broker_hooks_def unique_object_def)

lemma yields_constant: "yields (hooked (parse_constant broker_hooks t) r)"
  by (auto simp: yields_def hooked_Inr broker_hooks_def reject_constant_def)

lemma yields_number: "code_points s \<Longrightarrow> yields (parse_number broker_hooks s)"
proof -
  have "python_json v" if "parse_number broker_hooks s = Inr (v, r)" for v r
    using that by (auto simp: parse_number_def hooked_Inr broker_hooks_def reject_float_def split: option.splits prod.splits if_splits)
  then show "code_points s \<Longrightarrow> yields (parse_number broker_hooks s)"
    using parse_number_rest code_points_subset unfolding yields_def by blast
qed

lemma yields_string:
  assumes "code_points cs" "\<And>t r. code_points t \<Longrightarrow> code_points r \<Longrightarrow> yields (f t r)"
  shows "yields (rbind (scan_string cs) (\<lambda>(t, r). f t r))"
proof (cases "scan_string cs")
  case (Inr q)
  then show ?thesis using assms scan_string_points by (cases q) auto
qed simp

lemma yields_value:
  assumes "yields p" "\<And>v r. python_json v \<Longrightarrow> code_points r \<Longrightarrow> yields (f v r)"
  shows "yields (rbind p (\<lambda>(v, r). f v r))"
proof (cases p)
  case (Inr q)
  then show ?thesis using assms by (cases q) (auto simp: yields_def)
qed simp

lemma yields_next:
  assumes "code_points cs" "\<And>d ds. code_points (d # ds) \<Longrightarrow> yields (f d ds)"
  shows "yields (case skip_ws cs of [] \<Rightarrow> Inl JSONDecodeErr | d # ds \<Rightarrow> f d ds)"
proof (cases "skip_ws cs")
  case (Cons d ds)
  then show ?thesis using assms skip_ws_points [OF assms(1)] by simp
qed simp

lemma drop_points: "code_points s \<Longrightarrow> code_points (drop n s)"
  using code_points_subset [OF _ set_drop_subset] by blast

lemma parse_yields:
  "code_points s \<Longrightarrow> yields (parse_value n broker_hooks s)"
  "code_points s \<Longrightarrow> list_all (\<lambda>(k, v). code_points k \<and> python_json v) acc \<Longrightarrow> yields (parse_members n broker_hooks acc s)"
  "code_points s \<Longrightarrow> list_all python_json xs \<Longrightarrow> yields (parse_elements n broker_hooks xs s)"
proof (induction n arbitrary: s acc xs)
  case (Suc n)
  note IH = Suc.IH
  {
    case 1
    then show ?case
      unfolding parse_value.simps
      by (cases s) (auto simp del: python_json.simps(3) intro!: yields_if yields_string yields_next yields_number yields_constant yields_pairs IH yields_result
           simp: code_points_Cons drop_points)
  next
    case 2
    then show ?case
      unfolding parse_members.simps
      by (cases s) (auto intro!: yields_if yields_string yields_next yields_value yields_pairs IH yields_result skip_ws_points simp: code_points_Cons)
  next
    case 3
    then show ?case
      unfolding parse_elements.simps
      by (auto intro!: yields_value yields_next yields_if yields_result IH skip_ws_points simp: code_points_Cons)
  }
qed simp_all

lemma loads_python_json: "json_loads broker_hooks t = Inr v \<Longrightarrow> code_points t \<Longrightarrow> python_json v"
  using parse_yields(1) [OF skip_ws_points [of t]]
  by (auto simp: json_loads_def yields_def rbind_Inr_iff split: if_splits)

lemma utf8_decode_points: "utf8_decode b = Some t \<Longrightarrow> code_points t"
proof (induction b arbitrary: t rule: utf8_decode.induct)
  case (2 a s)
  consider "unat a < 0x80" | "0xC0 \<le> unat a" "unat a < 0xE0" | "0xE0 \<le> unat a" "unat a < 0xF0" | "0xF0 \<le> unat a" "unat a < 0xF8"
    using 2(5) by (auto simp: utf8_decode.simps split: if_splits)
  then show ?case
  proof cases
    case 1
    then show ?thesis using 2(1,5) by (auto simp: utf8_decode.simps code_points_Cons)
  next
    case two: 2
    then obtain b r where s: "s = b # r" using 2(5) by (auto simp: utf8_decode.simps split: list.splits)
    let ?v = "(unat a - 0xC0) * 64 + tail_bits b"
    have "unat a - 0xC0 < 32" "tail_bits b < 64 \<or> \<not> continuation b" using two by (auto simp: continuation_def tail_bits_def)
    then have "?v < 0x110000 \<or> \<not> continuation b" by linarith
    then show ?thesis using 2(2,5) two s by (auto simp: utf8_decode.simps Let_def code_points_Cons split: if_splits)
  next
    case three: 3
    then obtain b c r where s: "s = b # c # r" using 2(5) by (auto simp: utf8_decode.simps split: list.splits)
    let ?v = "(unat a - 0xE0) * 4096 + tail_bits b * 64 + tail_bits c"
    have "unat a - 0xE0 < 16" "tail_bits b < 64 \<or> \<not> continuation b" "tail_bits c < 64 \<or> \<not> continuation c"
      using three by (auto simp: continuation_def tail_bits_def)
    then have "?v < 0x110000 \<or> \<not> continuation b \<or> \<not> continuation c" by linarith
    then show ?thesis using 2(3,5) three s by (auto simp: utf8_decode.simps Let_def code_points_Cons split: if_splits)
  next
    case four: 4
    then obtain b c d r where s: "s = b # c # d # r" using 2(5) by (auto simp: utf8_decode.simps split: list.splits)
    then show ?thesis using 2(4,5) four by (auto simp: utf8_decode.simps Let_def code_points_Cons split: if_splits)
  qed
qed (simp add: code_points_def)

lemma parse_canonicalD:
  assumes "parse_canonical_json maximum frame = Inr m"
  shows "canonical_json (JObj m) = Inr frame" "python_json (JObj m)" "length frame \<le> maximum"
proof -
  obtain t v where tv: "utf8_decode frame = Some t" "loads_frame t = Inr v"
    and p: "(case v of JObj kvs \<Rightarrow> rbind (canonical_json v) (\<lambda>canonical.
              if canonical \<noteq> frame then Inl (BrokerProtocolError ''JSON frame is not canonical'') else Inr kvs)
            | _ \<Rightarrow> Inl (BrokerProtocolError ''JSON frame must contain an object'')) = Inr m"
    using assms by (auto simp: parse_canonical_json_def rbind_Inr_iff validate_json_iff split: if_splits option.splits)
  then have t: "utf8_decode frame = Some t" "loads_frame t = Inr v" "v = JObj m"
    by (auto simp: rbind_Inr_iff split: json.splits if_splits)
  then have "json_loads broker_hooks t = Inr v" by (auto simp: loads_frame_def split: sum.splits loads_error.splits)
  then show "python_json (JObj m)" using loads_python_json utf8_decode_points t by blast
  show "canonical_json (JObj m) = Inr frame" using p t(3) by (auto simp: rbind_Inr_iff split: if_splits)
  show "length frame \<le> maximum" using assms by (auto simp: parse_canonical_json_def split: if_splits)
qed

end
