(* ===== verification/Broker_Journal.thy ===== *)
theory Broker_Journal
  imports Broker_Canonical
begin

section \<open>Broker journal\<close>

text \<open>
  \<^verbatim>\<open>services/broker_journal.py\<close>: the append-only SQLite table in which the execution broker keeps the lifecycle of every
  operation. A journal is the list of its events in the order of their identifiers. The constraints of the table, its seven
  unique indexes and its trigger decide which event may be inserted; every operation first validates all stored events.
  A file is what a connection reads of it: the events, and beside them the schema objects, the metadata and the integrity check.
\<close>


subsection \<open>The events table\<close>

type_synonym operation = "utext \<times> utext \<times> utext"

datatype journal_event_type =
    AcceptedEvent
  | LifecycleClaimed
  | StageStarted
  | StageOutcome
  | StageUnresolved

record journal_event =
  je_identity :: operation
  je_type :: journal_event_type
  je_stage :: "string option"
  je_nonce :: "utext option"
  je_sequence :: "int option"
  je_payload_digest :: "utext option"
  je_request_frame :: "bytes option"
  je_broker_incarnation :: "utext option"
  je_owner_token :: "utext option"
  je_stage_status :: "string option"
  je_stage_error :: "utext option"
  je_unresolved_reason :: "string option"
  je_response_frame :: "bytes option"

type_synonym journal = "journal_event list"

datatype journal_error =
    JournalSyncError string
  | JournalCommitAbsent string
  | JournalProtocolError string
  | JournalValueError string

record journal_decision =
  jd_state :: string
  jd_stage :: "string option"
  jd_response_frame :: "bytes option"
  jd_owner_broker_incarnation :: "utext option"

record incomplete_lifecycle =
  il_request_frame :: bytes
  il_owner_token :: utext
  il_stage :: string
  il_stage_started :: bool

definition STAGES :: "string list" where
  "STAGES = [''prepare'', ''runtime_setup'', ''launch'']"

definition UNRESOLVED_REASONS :: "string list" where
  "UNRESOLVED_REASONS = [''transport_unknown'', ''timeout_unknown'', ''cancellation_unknown'', ''verification_unknown'',
     ''sqlite_commit_unknown'', ''broker_restart_unknown'']"

definition STAGE_STATUSES :: "string \<Rightarrow> string list" where
  "STAGE_STATUSES stage =
     (if stage = ''prepare'' then [''prepared'', ''rejected''] else if stage = ''runtime_setup'' then [''runtime_ready'']
      else if stage = ''launch'' then [''launched'', ''rejected''] else [])"

definition empty_event :: "operation \<Rightarrow> journal_event_type \<Rightarrow> journal_event" where
  "empty_event i t = \<lparr> je_identity = i, je_type = t, je_stage = None, je_nonce = None, je_sequence = None, je_payload_digest = None,
     je_request_frame = None, je_broker_incarnation = None, je_owner_token = None, je_stage_status = None, je_stage_error = None,
     je_unresolved_reason = None, je_response_frame = None \<rparr>"

text \<open>The two \<^verbatim>\<open>CHECK\<close> constraints: which columns each kind of event has.\<close>

definition check_columns :: "journal_event \<Rightarrow> bool" where
  "check_columns e \<longleftrightarrow>
     (case je_stage e of None \<Rightarrow> True | Some s \<Rightarrow> s \<in> set STAGES) \<and>
     (case je_type e of
        AcceptedEvent \<Rightarrow> je_stage e = None \<and> je_nonce e \<noteq> None \<and> je_sequence e \<noteq> None \<and> je_payload_digest e \<noteq> None
          \<and> je_request_frame e \<noteq> None \<and> je_broker_incarnation e = None \<and> je_owner_token e = None \<and> je_stage_status e = None
          \<and> je_stage_error e = None \<and> je_unresolved_reason e = None \<and> je_response_frame e = None
      | LifecycleClaimed \<Rightarrow> je_stage e = None \<and> je_nonce e = None \<and> je_sequence e = None \<and> je_payload_digest e = None
          \<and> je_request_frame e = None \<and> je_broker_incarnation e \<noteq> None \<and> je_owner_token e \<noteq> None \<and> je_stage_status e = None
          \<and> je_stage_error e = None \<and> je_unresolved_reason e = None \<and> je_response_frame e = None
      | StageStarted \<Rightarrow> je_stage e \<noteq> None \<and> je_nonce e = None \<and> je_sequence e = None \<and> je_payload_digest e = None
          \<and> je_request_frame e = None \<and> je_broker_incarnation e = None \<and> je_owner_token e \<noteq> None \<and> je_stage_status e = None
          \<and> je_stage_error e = None \<and> je_unresolved_reason e = None \<and> je_response_frame e = None
      | StageOutcome \<Rightarrow> je_stage e \<noteq> None \<and> je_nonce e = None \<and> je_sequence e = None \<and> je_payload_digest e = None
          \<and> je_request_frame e = None \<and> je_broker_incarnation e = None \<and> je_owner_token e \<noteq> None \<and> je_stage_status e \<noteq> None
          \<and> (je_stage_status e = Some ''rejected'' \<and> je_stage_error e \<noteq> None \<or> je_stage_status e \<noteq> Some ''rejected'' \<and> je_stage_error e = None)
          \<and> je_unresolved_reason e = None
          \<and> (je_stage e = Some ''launch'' \<or> je_stage_status e = Some ''rejected'') = (je_response_frame e \<noteq> None)
      | StageUnresolved \<Rightarrow> je_stage e \<noteq> None \<and> je_nonce e = None \<and> je_sequence e = None \<and> je_payload_digest e = None
          \<and> je_request_frame e = None \<and> je_broker_incarnation e = None \<and> je_owner_token e \<noteq> None \<and> je_stage_status e = None
          \<and> je_stage_error e = None \<and> je_unresolved_reason e \<noteq> None \<and> je_response_frame e \<noteq> None)"

definition is_terminal :: "journal_event \<Rightarrow> bool" where
  "is_terminal e \<longleftrightarrow> je_type e = StageUnresolved
     \<or> je_type e = StageOutcome \<and> (je_stage e = Some ''launch'' \<or> je_stage_status e = Some ''rejected'')"

definition same_database :: "journal_event \<Rightarrow> journal_event \<Rightarrow> bool" where
  "same_database a b \<longleftrightarrow> fst (je_identity a) = fst (je_identity b)"

text \<open>The seven unique indexes: no stored event may agree with the new one on an index that covers both.\<close>

definition index_conflict :: "journal_event \<Rightarrow> journal_event \<Rightarrow> bool" where
  "index_conflict a b \<longleftrightarrow>
     je_type a = AcceptedEvent \<and> je_type b = AcceptedEvent \<and> je_identity a = je_identity b
   \<or> je_type a = AcceptedEvent \<and> je_type b = AcceptedEvent \<and> same_database a b \<and> je_nonce a = je_nonce b
   \<or> je_type a = AcceptedEvent \<and> je_type b = AcceptedEvent \<and> same_database a b \<and> je_sequence a = je_sequence b
   \<or> je_type a = LifecycleClaimed \<and> je_type b = LifecycleClaimed \<and> je_identity a = je_identity b
   \<or> je_type a = StageStarted \<and> je_type b = StageStarted \<and> je_identity a = je_identity b \<and> je_stage a = je_stage b
   \<or> je_type a \<in> {StageOutcome, StageUnresolved} \<and> je_type b \<in> {StageOutcome, StageUnresolved}
       \<and> je_identity a = je_identity b \<and> je_stage a = je_stage b
   \<or> is_terminal a \<and> is_terminal b \<and> je_identity a = je_identity b"

text \<open>The trigger \<^verbatim>\<open>broker_journal_require_transition\<close>, which runs before every insert but that of an acceptance.\<close>

definition require_transition :: "journal \<Rightarrow> journal_event \<Rightarrow> bool" where
  "require_transition db new \<longleftrightarrow> je_type new = AcceptedEvent \<or>
     (let rows = filter (\<lambda>e. je_identity e = je_identity new) db in
      list_ex (\<lambda>e. je_type e = AcceptedEvent) rows
      \<and> (je_type new \<noteq> LifecycleClaimed \<longrightarrow>
          list_ex (\<lambda>e. je_type e = LifecycleClaimed \<and> je_owner_token e \<noteq> None \<and> je_owner_token e = je_owner_token new) rows)
      \<and> (je_type new \<in> {StageOutcome, StageUnresolved} \<longrightarrow>
          list_ex (\<lambda>e. je_type e = StageStarted \<and> je_stage e \<noteq> None \<and> je_stage e = je_stage new
                      \<and> je_owner_token e \<noteq> None \<and> je_owner_token e = je_owner_token new) rows)
      \<and> (je_type new = StageStarted \<and> je_stage new = Some ''runtime_setup'' \<longrightarrow>
          list_ex (\<lambda>e. je_type e = StageOutcome \<and> je_stage e = Some ''prepare'' \<and> je_stage_status e = Some ''prepared'') rows)
      \<and> (je_type new = StageStarted \<and> je_stage new = Some ''launch'' \<longrightarrow>
          list_ex (\<lambda>e. je_type e = StageOutcome \<and> je_stage e = Some ''runtime_setup'' \<and> je_stage_status e = Some ''runtime_ready'') rows)
      \<and> \<not> list_ex is_terminal rows)"

text \<open>An insert appends, since identifiers are never reused; \<open>None\<close> is the \<^verbatim>\<open>IntegrityError\<close> of a violated constraint.\<close>

definition insert_journal :: "journal_event \<Rightarrow> journal \<Rightarrow> journal option" where
  "insert_journal e db =
     (if check_columns e \<and> require_transition db e \<and> \<not> list_ex (\<lambda>f. index_conflict f e) db then Some (db @ [e]) else None)"

subsection \<open>Validation on open\<close>

text \<open>
  \<^verbatim>\<open>json.loads\<close> of the stored bytes. Python guesses UTF-8, UTF-16 or UTF-32 from the first bytes and lets surrogates pass; the model reads strict UTF-8. A frame
  that only the wider reading accepts is not canonical, so both refuse it, at most with a different message.
\<close>

definition journal_loads_frame :: "bytes \<Rightarrow> journal_error + json" where
  "journal_loads_frame frame =
     (case utf8_decode frame of
        None \<Rightarrow> Inl (JournalSyncError ''broker journal contains a malformed stored frame'')
      | Some t \<Rightarrow>
          (case json_loads (default_hooks (\<lambda>t. t)) t of
             Inr v \<Rightarrow> Inr v
           | Inl IntDigitsErr \<Rightarrow> Inl (JournalSyncError ''broker journal validation failed'')
           | Inl _ \<Rightarrow> Inl (JournalSyncError ''broker journal contains a malformed stored frame'')))"

definition validate_stored_json :: "bytes option \<Rightarrow> nat \<Rightarrow> journal_error + message" where
  "validate_stored_json stored maximum =
     (case stored of
        None \<Rightarrow> Inl (JournalSyncError ''broker journal contains a malformed stored frame'')
      | Some frame \<Rightarrow>
          if frame = [] \<or> length frame > maximum then Inl (JournalSyncError ''broker journal contains a malformed stored frame'')
          else rbind (journal_loads_frame frame) (\<lambda>v.
               case v of
                 JObj kvs \<Rightarrow>
                   (case canonical_json v of
                      Inl _ \<Rightarrow> Inl (JournalSyncError ''broker journal validation failed'')
                    | Inr canonical \<Rightarrow>
                        if canonical \<noteq> frame then Inl (JournalSyncError ''broker journal contains a malformed stored frame'') else Inr kvs)
               | _ \<Rightarrow> Inl (JournalSyncError ''broker journal contains a malformed stored frame'')))"

type_synonym history = "(journal_event_type \<times> string option \<times> string option) list"

definition validate_stage_start :: "history \<Rightarrow> string option \<Rightarrow> journal_error + unit" where
  "validate_stage_start history stage =
     (let bad = JournalSyncError ''broker journal stage start order is invalid'' in
      if length history < 2 \<or> fst (history ! 0) \<noteq> AcceptedEvent \<or> fst (history ! 1) \<noteq> LifecycleClaimed then Inl bad
      else if stage = Some ''prepare'' \<and> length history = 2 then Inr ()
      else if stage = Some ''runtime_setup'' then
        raise_if (last history \<noteq> (StageOutcome, Some ''prepare'', Some ''prepared'')) bad
      else if stage = Some ''launch'' then
        raise_if (last history \<noteq> (StageOutcome, Some ''runtime_setup'', Some ''runtime_ready'')) bad
      else Inl bad)"

text \<open>\<^verbatim>\<open>message.get("connection_sequence") != row[13]\<close>: a JSON boolean compares as an integer.\<close>

definition json_int_is :: "json option \<Rightarrow> int option \<Rightarrow> bool" where
  "json_int_is v n =
     (case (v, n) of
        (Some (JInt i), Some j) \<Rightarrow> i = j
      | (Some (JBool b), Some j) \<Rightarrow> (if b then 1 else 0) = j
      | _ \<Rightarrow> False)"

definition json_text_is :: "json option \<Rightarrow> utext option \<Rightarrow> bool" where
  "json_text_is v t = (case (v, t) of (Some (JStr s), Some u) \<Rightarrow> s = u | _ \<Rightarrow> False)"

definition validate_accepted :: "history \<Rightarrow> journal_event \<Rightarrow> journal_error + unit" where
  "validate_accepted history row =
     (if history \<noteq> [] \<or> (case je_payload_digest row of None \<Rightarrow> True | Some d \<Rightarrow> \<not> DIGEST_PATTERN d)
      then Inl (JournalSyncError ''broker journal accepted event is invalid'')
      else rbind (validate_stored_json (je_request_frame row) BROKER_FRAME_BYTES_MAX) (\<lambda>m.
        case je_identity row of (database, operation, request_type) \<Rightarrow>
          raise_if (\<not> (json_text_is (dget m (ascii ''database_incarnation'')) (Some database)
                     \<and> json_text_is (dget m (ascii ''operation_id'')) (Some operation)
                     \<and> json_text_is (dget m (ascii ''request_type'')) (Some request_type)
                     \<and> json_text_is (dget m (ascii ''nonce'')) (je_nonce row)
                     \<and> json_text_is (dget m (ascii ''payload_digest'')) (je_payload_digest row)
                     \<and> json_int_is (dget m (ascii ''connection_sequence'')) (je_sequence row)))
            (JournalSyncError ''broker journal accepted frame binding is invalid'')))"

definition validate_completion :: "history \<Rightarrow> journal_event \<Rightarrow> journal_error + unit" where
  "validate_completion history row =
     (case je_stage row of
        None \<Rightarrow> Inl (JournalSyncError ''broker journal stage outcome order is invalid'')
      | Some stage \<Rightarrow>
          if stage \<notin> set STAGES \<or> \<not> list_ex (\<lambda>(t, s, _). t = StageStarted \<and> s = Some stage) history
          then Inl (JournalSyncError ''broker journal stage outcome order is invalid'')
          else if je_type row = StageOutcome \<and> je_stage_status row \<notin> Some ` set (STAGE_STATUSES stage)
          then Inl (JournalSyncError ''broker journal stage outcome is invalid'')
          else if je_type row = StageUnresolved \<and> je_unresolved_reason row \<notin> Some ` set UNRESOLVED_REASONS
          then Inl (JournalSyncError ''broker journal unresolved reason is invalid'')
          else if je_response_frame row = None then Inr ()
          else rbind (validate_stored_json (je_response_frame row) BROKER_RESPONSE_BYTES_MAX) (\<lambda>_. Inr ()))"

definition validate_row :: "history \<Rightarrow> utext option \<Rightarrow> journal_event \<Rightarrow> journal_error + utext option" where
  "validate_row history owner row =
     (if je_type row = AcceptedEvent then rbind (validate_accepted history row) (\<lambda>_. Inr owner)
      else if je_type row = LifecycleClaimed then
        (if map fst history \<noteq> [AcceptedEvent] then Inl (JournalSyncError ''broker journal claim event order is invalid'')
         else case (je_broker_incarnation row, je_owner_token row) of
                (Some b, Some t) \<Rightarrow>
                  if TOKEN_PATTERN b \<and> TOKEN_PATTERN t then Inr (Some t)
                  else Inl (JournalSyncError ''broker journal lifecycle owner is malformed'')
              | _ \<Rightarrow> Inl (JournalSyncError ''broker journal lifecycle owner is malformed''))
      else if je_owner_token row \<noteq> owner then Inl (JournalSyncError ''broker journal lifecycle owner changed'')
      else if je_type row = StageStarted then rbind (validate_stage_start history (je_stage row)) (\<lambda>_. Inr owner)
      else rbind (validate_completion history row) (\<lambda>_. Inr owner))"

fun validate_rows :: "(operation \<Rightarrow> history) \<Rightarrow> (operation \<Rightarrow> utext option) \<Rightarrow> journal_event list \<Rightarrow> journal_error + unit" where
  "validate_rows histories owner_tokens [] = Inr ()"
| "validate_rows histories owner_tokens (row # rows) =
     (let i = je_identity row in
      rbind (validate_row (histories i) (owner_tokens i) row) (\<lambda>owner.
      validate_rows (histories(i := histories i @ [(je_type row, je_stage row, je_stage_status row)])) (owner_tokens(i := owner)) rows))"

definition validate_events :: "journal \<Rightarrow> journal_error + unit" where
  "validate_events db = validate_rows (\<lambda>_. []) (\<lambda>_. None) db"

subsection \<open>Operations\<close>

text \<open>
  How the commit of a transaction ends: it returns, or it raises and the event turns out to be stored or not.
\<close>

datatype commit_outcome = Committed | Uncertain bool

definition sync_failed :: journal_error where
  "sync_failed = JournalSyncError ''broker journal synchronization failed''"

definition journal_identity :: "broker_request \<Rightarrow> operation" where
  "journal_identity request = (bi_database_incarnation request, bi_operation_id request, bi_request_type request)"

definition decision :: "string \<Rightarrow> journal_decision" where
  "decision state = \<lparr> jd_state = state, jd_stage = None, jd_response_frame = None, jd_owner_broker_incarnation = None \<rparr>"

definition journal_terminal :: "operation \<Rightarrow> journal \<Rightarrow> journal_error + journal_decision option" where
  "journal_terminal i db =
     (case find (\<lambda>e. je_identity e = i \<and> is_terminal e) (rev db) of
        None \<Rightarrow> Inr None
      | Some row \<Rightarrow>
          (case je_response_frame row of
             None \<Rightarrow> Inl sync_failed
           | Some frame \<Rightarrow>
               Inr (Some ((decision (if je_type row = StageUnresolved then ''unresolved'' else ''terminal''))
                     \<lparr> jd_stage := je_stage row, jd_response_frame := Some frame \<rparr>))))"

text \<open>\<^verbatim>\<open>_exact_event_query\<close> on the columns that the operations pass for each kind of event.\<close>

definition exact_match :: "journal_event \<Rightarrow> journal_event \<Rightarrow> bool" where
  "exact_match event e \<longleftrightarrow> je_identity e = je_identity event \<and> je_type e = je_type event \<and>
     (case je_type event of
        AcceptedEvent \<Rightarrow> je_nonce e = je_nonce event \<and> je_sequence e = je_sequence event
          \<and> je_payload_digest e = je_payload_digest event \<and> je_request_frame e = je_request_frame event
      | LifecycleClaimed \<Rightarrow> je_broker_incarnation e = je_broker_incarnation event \<and> je_owner_token e = je_owner_token event
      | StageStarted \<Rightarrow> je_stage e = je_stage event \<and> je_owner_token e = je_owner_token event
      | StageOutcome \<Rightarrow> je_stage e = je_stage event \<and> je_owner_token e = je_owner_token event
          \<and> je_stage_status e = je_stage_status event \<and> je_stage_error e = je_stage_error event
          \<and> je_response_frame e = je_response_frame event
      | StageUnresolved \<Rightarrow> je_stage e = je_stage event \<and> je_owner_token e = je_owner_token event
          \<and> je_unresolved_reason e = je_unresolved_reason event \<and> je_response_frame e = je_response_frame event)"

definition find_exact :: "journal_event \<Rightarrow> journal \<Rightarrow> bool" where
  "find_exact event db = list_ex (exact_match event) db"

definition confirm_appended :: "journal_event \<Rightarrow> journal \<Rightarrow> journal_error + unit" where
  "confirm_appended event db =
     rbind (validate_events db) (\<lambda>_.
     if find_exact event db then Inr () else Inl (JournalCommitAbsent ''broker journal commit is absent after verification''))"

definition append_transaction :: "commit_outcome \<Rightarrow> journal_event \<Rightarrow> journal \<Rightarrow> (journal_error + unit) \<times> journal" where
  "append_transaction commit event db =
     (case insert_journal event db of
        None \<Rightarrow> (Inl sync_failed, db)
      | Some db' \<Rightarrow>
          (case commit of
             Committed \<Rightarrow> (Inr (), db')
           | Uncertain stored \<Rightarrow> (let later = (if stored then db' else db) in (confirm_appended event later, later))))"

definition append_verified :: "commit_outcome \<Rightarrow> journal_event \<Rightarrow> journal \<Rightarrow> (journal_error + unit) \<times> journal" where
  "append_verified commit event db =
     (case validate_events db of Inl e \<Rightarrow> (Inl e, db) | Inr _ \<Rightarrow> append_transaction commit event db)"

definition returning :: "'a \<Rightarrow> (journal_error + unit) \<times> journal \<Rightarrow> (journal_error + 'a) \<times> journal" where
  "returning x p = (rbind (fst p) (\<lambda>_. Inr x), snd p)"

definition accepted_event :: "broker_request \<Rightarrow> bytes \<Rightarrow> journal_event" where
  "accepted_event request frame = (empty_event (journal_identity request) AcceptedEvent)
     \<lparr> je_nonce := Some (bi_nonce request), je_sequence := Some (bi_connection_sequence request),
       je_payload_digest := Some (bi_payload_digest request), je_request_frame := Some frame \<rparr>"

definition latest_sequence :: "utext \<Rightarrow> journal \<Rightarrow> int option" where
  "latest_sequence database db =
     (case List.map_filter je_sequence (filter (\<lambda>e. fst (je_identity e) = database \<and> je_type e = AcceptedEvent) db) of
        [] \<Rightarrow> None
      | n # ns \<Rightarrow> Some (fold max ns n))"

definition journal_accept :: "commit_outcome \<Rightarrow> broker_request \<Rightarrow> bytes \<Rightarrow> journal \<Rightarrow> (journal_error + journal_decision) \<times> journal" where
  "journal_accept commit request frame db =
     (let i = journal_identity request in
      case validate_events db of
        Inl e \<Rightarrow> (Inl e, db)
      | Inr _ \<Rightarrow>
          (case find (\<lambda>e. je_identity e = i \<and> je_type e = AcceptedEvent) db of
             Some accepted \<Rightarrow>
               if je_nonce accepted \<noteq> Some (bi_nonce request) \<or> je_sequence accepted \<noteq> Some (bi_connection_sequence request)
                  \<or> je_payload_digest accepted \<noteq> Some (bi_payload_digest request) \<or> je_request_frame accepted \<noteq> Some frame
               then (Inl (JournalProtocolError ''operation payload mismatch''), db)
               else (rbind (journal_terminal i db) (\<lambda>t. Inr (case t of Some d \<Rightarrow> d | None \<Rightarrow> decision ''accepted'')), db)
           | None \<Rightarrow>
               if list_ex (\<lambda>e. fst (je_identity e) = bi_database_incarnation request \<and> je_nonce e = Some (bi_nonce request)
                             \<and> je_type e = AcceptedEvent) db
               then (Inl (JournalProtocolError ''duplicate nonce''), db)
               else if (case latest_sequence (bi_database_incarnation request) db of None \<Rightarrow> False
                        | Some latest \<Rightarrow> bi_connection_sequence request \<le> latest)
               then (Inl (JournalProtocolError ''stale connection sequence''), db)
               else returning (decision ''accepted'') (append_transaction commit (accepted_event request frame) db)))"

definition find_claim :: "operation \<Rightarrow> journal \<Rightarrow> journal_event option" where
  "find_claim i db = find (\<lambda>e. je_identity e = i \<and> je_type e = LifecycleClaimed) db"

definition claimed_event :: "operation \<Rightarrow> utext \<Rightarrow> utext \<Rightarrow> journal_event" where
  "claimed_event i broker_incarnation owner_token =
     (empty_event i LifecycleClaimed)\<lparr> je_broker_incarnation := Some broker_incarnation, je_owner_token := Some owner_token \<rparr>"

definition claim_lifecycle ::
    "commit_outcome \<Rightarrow> broker_request \<Rightarrow> utext \<Rightarrow> utext \<Rightarrow> journal \<Rightarrow> (journal_error + journal_decision) \<times> journal" where
  "claim_lifecycle commit request owner_token broker_incarnation db =
     (if \<not> TOKEN_PATTERN owner_token \<or> \<not> TOKEN_PATTERN broker_incarnation
      then (Inl (JournalValueError ''broker lifecycle owner is invalid''), db)
      else
        let i = journal_identity request in
        case rbind (validate_events db) (\<lambda>_. journal_terminal i db) of
          Inl e \<Rightarrow> (Inl e, db)
        | Inr (Some terminal) \<Rightarrow> (Inr terminal, db)
        | Inr None \<Rightarrow>
            (case find_claim i db of
               Some claim \<Rightarrow> (Inr ((decision ''in_flight'')\<lparr> jd_owner_broker_incarnation := je_broker_incarnation claim \<rparr>), db)
             | None \<Rightarrow>
                 returning ((decision ''claimed'')\<lparr> jd_owner_broker_incarnation := Some broker_incarnation \<rparr>)
                   (append_transaction commit (claimed_event i broker_incarnation owner_token) db)))"

definition claim_launcher ::
    "commit_outcome \<Rightarrow> broker_request \<Rightarrow> utext \<Rightarrow> utext \<Rightarrow> journal \<Rightarrow> (journal_error + journal_decision) \<times> journal" where
  "claim_launcher commit request owner_token broker_incarnation db = claim_lifecycle commit request owner_token broker_incarnation db"

definition started_event :: "operation \<Rightarrow> utext \<Rightarrow> string \<Rightarrow> journal_event" where
  "started_event i owner_token stage = (empty_event i StageStarted)\<lparr> je_stage := Some stage, je_owner_token := Some owner_token \<rparr>"

definition begin_stage :: "commit_outcome \<Rightarrow> broker_request \<Rightarrow> utext \<Rightarrow> string \<Rightarrow> journal \<Rightarrow> (journal_error + unit) \<times> journal" where
  "begin_stage commit request owner_token stage db =
     (if stage \<notin> set STAGES then (Inl (JournalValueError ''broker lifecycle stage is invalid''), db)
      else append_verified commit (started_event (journal_identity request) owner_token stage) db)"

definition outcome_event ::
    "operation \<Rightarrow> utext \<Rightarrow> string \<Rightarrow> string \<Rightarrow> utext option \<Rightarrow> bytes option \<Rightarrow> journal_event" where
  "outcome_event i owner_token stage stage_status stage_error response_frame =
     (empty_event i StageOutcome)\<lparr> je_stage := Some stage, je_owner_token := Some owner_token, je_stage_status := Some stage_status,
        je_stage_error := stage_error, je_response_frame := response_frame \<rparr>"

definition record_stage_outcome ::
    "commit_outcome \<Rightarrow> broker_request \<Rightarrow> utext \<Rightarrow> string \<Rightarrow> string \<Rightarrow> utext option \<Rightarrow> bytes option \<Rightarrow> journal \<Rightarrow> (journal_error + unit) \<times> journal" where
  "record_stage_outcome commit request owner_token stage stage_status stage_error response_frame db =
     (if stage \<notin> set STAGES \<or> stage_status \<notin> set (STAGE_STATUSES stage) then (Inl (JournalValueError ''broker lifecycle outcome is invalid''), db)
      else append_verified commit (outcome_event (journal_identity request) owner_token stage stage_status stage_error response_frame) db)"

definition unresolved_event :: "operation \<Rightarrow> utext \<Rightarrow> string \<Rightarrow> string \<Rightarrow> bytes \<Rightarrow> journal_event" where
  "unresolved_event i owner_token stage reason response_frame =
     (empty_event i StageUnresolved)\<lparr> je_stage := Some stage, je_owner_token := Some owner_token, je_unresolved_reason := Some reason,
        je_response_frame := Some response_frame \<rparr>"

definition record_stage_unresolved ::
    "commit_outcome \<Rightarrow> broker_request \<Rightarrow> utext \<Rightarrow> string \<Rightarrow> string \<Rightarrow> bytes \<Rightarrow> journal \<Rightarrow> (journal_error + unit) \<times> journal" where
  "record_stage_unresolved commit request owner_token stage reason response_frame db =
     (if stage \<notin> set STAGES \<or> reason \<notin> set UNRESOLVED_REASONS then (Inl (JournalValueError ''unresolved lifecycle outcome is invalid''), db)
      else
        let i = journal_identity request; event = unresolved_event i owner_token stage reason response_frame in
        case rbind (validate_events db) (\<lambda>_. journal_terminal i db) of
          Inl e \<Rightarrow> (Inl e, db)
        | Inr (Some _) \<Rightarrow>
            (if find_exact event db then (Inr (), db) else (Inl (JournalSyncError ''broker journal terminal state is immutable''), db))
        | Inr None \<Rightarrow> append_transaction commit event db)"

definition stage_progress :: "operation \<Rightarrow> journal \<Rightarrow> string \<times> bool" where
  "stage_progress i db =
     (let rows = filter (\<lambda>e. je_identity e = i \<and> je_type e \<in> {StageStarted, StageOutcome}) db;
          started = List.map_filter je_stage (filter (\<lambda>e. je_type e = StageStarted) rows);
          completed = List.map_filter je_stage (filter (\<lambda>e. je_type e = StageOutcome) rows)
      in case find (\<lambda>s. s \<in> set started \<and> s \<notin> set completed) STAGES of
           Some stage \<Rightarrow> (stage, True)
         | None \<Rightarrow>
             if ''runtime_setup'' \<in> set completed then (''launch'', False)
             else if ''prepare'' \<in> set completed then (''runtime_setup'', False)
             else (''prepare'', False))"

definition incomplete_lifecycles :: "journal \<Rightarrow> journal_error + incomplete_lifecycle list" where
  "incomplete_lifecycles db =
     rbind (validate_events db) (\<lambda>_.
     Inr (List.map_filter (\<lambda>a.
       if je_type a = AcceptedEvent \<and> \<not> list_ex (\<lambda>e. je_identity e = je_identity a \<and> is_terminal e) db then
         (case (je_request_frame a, find_claim (je_identity a) db) of
            (Some frame, Some claim) \<Rightarrow>
              (case (je_owner_token claim, stage_progress (je_identity a) db) of
                 (Some owner, stage, stage_started) \<Rightarrow>
                   Some \<lparr> il_request_frame = frame, il_owner_token = owner, il_stage = stage, il_stage_started = stage_started \<rparr>
               | _ \<Rightarrow> None)
          | _ \<Rightarrow> None)
       else None) db))"

definition journal_status :: "broker_request \<Rightarrow> journal \<Rightarrow> journal_error + journal_decision" where
  "journal_status request db =
     (let i = journal_identity request in
      rbind (validate_events db) (\<lambda>_.
      rbind (journal_terminal i db) (\<lambda>t.
      case t of
        Some d \<Rightarrow> Inr d
      | None \<Rightarrow>
          (case find_claim i db of
             None \<Rightarrow> Inr (decision ''accepted'')
           | Some claim \<Rightarrow>
               Inr ((decision ''in_flight'')
                 \<lparr> jd_stage := (case find (\<lambda>e. je_identity e = i \<and> je_type e = StageStarted) (rev db) of
                                  None \<Rightarrow> None | Some row \<Rightarrow> je_stage row),
                   jd_owner_broker_incarnation := je_broker_incarnation claim \<rparr>)))))"

subsection \<open>The file\<close>

text \<open>
  What a connection reads of a journal file besides the events: the result of the integrity check, the normalised schema
  objects and the rows of the metadata table. The expected objects are what SQLite reports for the schema statements.
\<close>

datatype sql_value = SqlInteger int | SqlText utext | SqlOther

type_synonym schema_object = "(string \<times> string) \<times> string"

record journal_file =
  jf_intact :: bool
  jf_objects :: "schema_object list"
  jf_meta :: "(sql_value \<times> sql_value \<times> sql_value) list"
  jf_events :: journal

definition BROKER_JOURNAL_SCHEMA_VERSION :: int where "BROKER_JOURNAL_SCHEMA_VERSION = 2"

definition alphanumeric :: "nat \<Rightarrow> bool" where
  "alphanumeric c \<longleftrightarrow> 65 \<le> c \<and> c \<le> 90 \<or> 97 \<le> c \<and> c \<le> 122 \<or> 48 \<le> c \<and> c \<le> 57"

definition APPLICATION_ID_PATTERN :: "utext \<Rightarrow> bool" where
  "APPLICATION_ID_PATTERN s \<longleftrightarrow> 1 \<le> length s \<and> length s \<le> 128 \<and>
     alphanumeric (hd s) \<and> list_all (\<lambda>c. alphanumeric c \<or> c \<in> {46, 95, 58, 45}) (tl s)"

definition validate_journal :: "schema_object list \<Rightarrow> utext \<Rightarrow> journal_file \<Rightarrow> journal_error + unit" where
  "validate_journal expected application_id file =
     (if \<not> jf_intact file then Inl (JournalSyncError ''broker journal integrity check failed'')
      else if set (jf_objects file) \<noteq> set expected then Inl (JournalSyncError ''broker journal schema objects are unsupported'')
      else if jf_meta file \<noteq> [(SqlInteger 0, SqlText application_id, SqlInteger BROKER_JOURNAL_SCHEMA_VERSION)]
      then Inl (JournalSyncError ''broker journal application or schema version is unsupported'')
      else validate_events (jf_events file))"

definition initialize_journal :: "schema_object list \<Rightarrow> utext \<Rightarrow> journal_file \<Rightarrow> (journal_error + unit) \<times> journal_file" where
  "initialize_journal expected application_id file =
     (if \<not> APPLICATION_ID_PATTERN application_id then (Inl (JournalValueError ''broker journal application ID is invalid''), file)
      else
        let file = (if jf_objects file = []
                    then file\<lparr> jf_objects := expected, jf_meta := [(SqlInteger 0, SqlText application_id, SqlInteger BROKER_JOURNAL_SCHEMA_VERSION)] \<rparr>
                    else file)
        in (validate_journal expected application_id file, file))"

subsection \<open>Legacy journals\<close>

datatype file_status = FileMissing | FileUnreadable | FileFound bool

datatype legacy_error = LegacyJournalStateError string | LegacyValueError string

text \<open>The queries on an open legacy database; \<open>None\<close> is an \<^verbatim>\<open>sqlite3.Error\<close>.\<close>

record legacy_database =
  ld_intact :: "bool option"
  ld_objects :: "schema_object list option"
  ld_meta :: "(sql_value \<times> sql_value \<times> sql_value) list option"
  ld_accepted :: "bool option"

definition legacy_query :: "'a option \<Rightarrow> legacy_error + 'a" where
  "legacy_query result =
     (case result of None \<Rightarrow> Inl (LegacyJournalStateError ''legacy broker journal is unreadable'') | Some x \<Rightarrow> Inr x)"

definition validate_legacy_v1_database :: "schema_object list \<Rightarrow> utext \<Rightarrow> legacy_database \<Rightarrow> legacy_error + unit" where
  "validate_legacy_v1_database expected application_id database =
     rbind (legacy_query (ld_intact database)) (\<lambda>intact.
     if \<not> intact then Inl (LegacyJournalStateError ''legacy broker journal is malformed'')
     else rbind (legacy_query (ld_objects database)) (\<lambda>objects.
     if set objects \<noteq> set expected then Inl (LegacyJournalStateError ''legacy broker journal schema is malformed'')
     else rbind (legacy_query (ld_meta database)) (\<lambda>meta.
     if meta = [(SqlInteger 0, SqlText application_id, SqlInteger 1)] then
       rbind (legacy_query (ld_accepted database)) (\<lambda>accepted.
       if accepted then Inl (LegacyJournalStateError ''legacy broker journal contains an accepted operation'') else Inr ())
     else
       (case meta of
          [(_, _, SqlInteger stored_version)] \<Rightarrow>
            if stored_version > 1 then Inl (LegacyJournalStateError ''legacy broker journal version is unsupported'')
            else Inl (LegacyJournalStateError ''legacy broker journal metadata is malformed'')
        | _ \<Rightarrow> Inl (LegacyJournalStateError ''legacy broker journal metadata is malformed'')))))"

definition legacy_sidecar_exists :: "file_status \<Rightarrow> legacy_error + bool" where
  "legacy_sidecar_exists status =
     (case status of
        FileMissing \<Rightarrow> Inr False
      | FileUnreadable \<Rightarrow> Inl (LegacyJournalStateError ''legacy broker journal sidecar is unreadable'')
      | FileFound _ \<Rightarrow> Inr True)"

definition no_sidecars :: "string \<Rightarrow> file_status \<Rightarrow> file_status \<Rightarrow> legacy_error + unit" where
  "no_sidecars message wal shm =
     rbind (legacy_sidecar_exists wal) (\<lambda>w.
     if w then Inl (LegacyJournalStateError message)
     else rbind (legacy_sidecar_exists shm) (\<lambda>s. if s then Inl (LegacyJournalStateError message) else Inr ()))"

definition inspect_legacy_v1_journal ::
    "schema_object list \<Rightarrow> utext \<Rightarrow> file_status \<Rightarrow> file_status \<Rightarrow> file_status \<Rightarrow> legacy_database option \<Rightarrow> legacy_error + unit" where
  "inspect_legacy_v1_journal expected application_id path wal shm connection =
     (if \<not> APPLICATION_ID_PATTERN application_id then Inl (LegacyValueError ''broker journal application ID is invalid'')
      else case path of
        FileMissing \<Rightarrow> no_sidecars ''legacy broker journal sidecar is orphaned'' wal shm
      | FileUnreadable \<Rightarrow> Inl (LegacyJournalStateError ''legacy broker journal is unreadable'')
      | FileFound regular \<Rightarrow>
          if \<not> regular then Inl (LegacyJournalStateError ''legacy broker journal is unreadable'')
          else rbind (no_sidecars ''legacy broker journal has unresolved sidecar state'' wal shm) (\<lambda>_.
               rbind (legacy_query connection) (validate_legacy_v1_database expected application_id)))"


end
