(* ===== verification/Broker_Lifecycle.thy ===== *)
theory Broker_Lifecycle
  imports Broker_Journal
begin

section \<open>The lifecycle of a broker operation\<close>

text \<open>
  The abstract specification of the broker journal: the state an operation is in after its events, and the steps that
  lead from one state to the next. The constraints and the trigger of the table admit exactly these steps, and a journal
  that follows them is always accepted by the validation.
\<close>

subsection \<open>The lifecycle of one operation\<close>

text \<open>
  The abstract specification: what the events of one operation add up to. An operation is accepted, claimed by one owner
  of one broker incarnation, and then goes through its stages, each started and completed by that owner, until it ends.
\<close>

datatype op_state =
    OpAbsent
  | OpAccepted
  | OpClaimed utext utext
  | OpStarted utext utext string
  | OpDone utext utext string
  | OpTerminal utext utext "string option" string bytes

definition next_stage :: "string \<Rightarrow> string option" where
  "next_stage stage = (if stage = ''prepare'' then Some ''runtime_setup'' else if stage = ''runtime_setup'' then Some ''launch'' else None)"

definition op_step :: "op_state \<Rightarrow> journal_event \<Rightarrow> op_state option" where
  "op_step s e =
     (case je_type e of
        AcceptedEvent \<Rightarrow> if s = OpAbsent then Some OpAccepted else None
      | LifecycleClaimed \<Rightarrow>
          (case (s, je_owner_token e, je_broker_incarnation e) of (OpAccepted, Some t, Some b) \<Rightarrow> Some (OpClaimed t b) | _ \<Rightarrow> None)
      | StageStarted \<Rightarrow>
          (case s of
             OpClaimed t b \<Rightarrow> if je_owner_token e = Some t \<and> je_stage e = Some ''prepare'' then Some (OpStarted t b ''prepare'') else None
           | OpDone t b st \<Rightarrow>
               (case next_stage st of
                  Some st' \<Rightarrow> if je_owner_token e = Some t \<and> je_stage e = Some st' then Some (OpStarted t b st') else None
                | None \<Rightarrow> None)
           | _ \<Rightarrow> None)
      | StageOutcome \<Rightarrow>
          (case s of
             OpStarted t b st \<Rightarrow>
               if je_owner_token e = Some t \<and> je_stage e = Some st
               then (if is_terminal e then map_option (OpTerminal t b None st) (je_response_frame e) else Some (OpDone t b st)) else None
           | _ \<Rightarrow> None)
      | StageUnresolved \<Rightarrow>
          (case s of
             OpStarted t b st \<Rightarrow>
               if je_owner_token e = Some t \<and> je_stage e = Some st \<and> je_unresolved_reason e \<noteq> None
               then map_option (OpTerminal t b (je_unresolved_reason e) st) (je_response_frame e) else None
           | _ \<Rightarrow> None))"

definition op_run :: "journal_event list \<Rightarrow> op_state option" where
  "op_run h = foldl (\<lambda>s e. Option.bind s (\<lambda>s. op_step s e)) (Some OpAbsent) h"

definition events_of :: "operation \<Rightarrow> journal \<Rightarrow> journal_event list" where
  "events_of i db = filter (\<lambda>e. je_identity e = i) db"

definition op_of :: "operation \<Rightarrow> journal \<Rightarrow> op_state option" where
  "op_of i db = op_run (events_of i db)"

lemma op_run_simps [simp]: "op_run [] = Some OpAbsent" "op_run (h @ [e]) = Option.bind (op_run h) (\<lambda>s. op_step s e)"
  by (simp_all add: op_run_def)

lemma events_of_append [simp]: "events_of i (db @ [e]) = (if je_identity e = i then events_of i db @ [e] else events_of i db)"
  by (simp add: events_of_def)

fun op_claim :: "op_state \<Rightarrow> (utext \<times> utext) option" where
  "op_claim (OpClaimed t b) = Some (t, b)"
| "op_claim (OpStarted t b st) = Some (t, b)"
| "op_claim (OpDone t b st) = Some (t, b)"
| "op_claim (OpTerminal t b u st f) = Some (t, b)"
| "op_claim _ = None"

definition earlier_stages :: "string \<Rightarrow> string set" where
  "earlier_stages st = (if st = ''runtime_setup'' then {''prepare''} else if st = ''launch'' then {''prepare'', ''runtime_setup''} else {})"

fun op_started :: "op_state \<Rightarrow> string set" where
  "op_started (OpStarted t b st) = insert st (earlier_stages st)"
| "op_started (OpDone t b st) = insert st (earlier_stages st)"
| "op_started (OpTerminal t b u st f) = insert st (earlier_stages st)"
| "op_started _ = {}"

fun op_completed :: "op_state \<Rightarrow> string set" where
  "op_completed (OpStarted t b st) = earlier_stages st"
| "op_completed (OpDone t b st) = insert st (earlier_stages st)"
| "op_completed (OpTerminal t b u st f) = insert st (earlier_stages st)"
| "op_completed _ = {}"

fun op_passed :: "op_state \<Rightarrow> string set" where
  "op_passed (OpStarted t b st) = earlier_stages st"
| "op_passed (OpDone t b st) = insert st (earlier_stages st)"
| "op_passed (OpTerminal t b u st f) = earlier_stages st"
| "op_passed _ = {}"

fun op_ended :: "op_state \<Rightarrow> bool" where
  "op_ended (OpTerminal t b u st f) = True"
| "op_ended _ = False"

fun op_wf :: "op_state \<Rightarrow> bool" where
  "op_wf (OpStarted t b st) = (st \<in> set STAGES)"
| "op_wf (OpDone t b st) = (st \<in> {''prepare'', ''runtime_setup''})"
| "op_wf (OpTerminal t b u st f) = (st \<in> set STAGES)"
| "op_wf _ = True"

text \<open>What the operations guarantee of a stored event beyond the constraints of the table.\<close>

definition event_ok :: "journal_event \<Rightarrow> bool" where
  "event_ok e \<longleftrightarrow> check_columns e \<and>
     (case je_type e of
        AcceptedEvent \<Rightarrow> is_ok (validate_accepted [] e)
      | LifecycleClaimed \<Rightarrow> (\<forall>t. je_owner_token e = Some t \<longrightarrow> TOKEN_PATTERN t) \<and> (\<forall>b. je_broker_incarnation e = Some b \<longrightarrow> TOKEN_PATTERN b)
      | StageStarted \<Rightarrow> True
      | StageOutcome \<Rightarrow> (\<forall>st. je_stage e = Some st \<longrightarrow> je_stage_status e \<in> Some ` set (STAGE_STATUSES st))
          \<and> (je_response_frame e = None \<or> is_ok (validate_stored_json (je_response_frame e) BROKER_RESPONSE_BYTES_MAX))
      | StageUnresolved \<Rightarrow> je_unresolved_reason e \<in> Some ` set UNRESOLVED_REASONS
          \<and> is_ok (validate_stored_json (je_response_frame e) BROKER_RESPONSE_BYTES_MAX))"

text \<open>Every question the triggers, indexes and queries ask of an operation's events is answered by its state.\<close>

definition claims_in :: "journal_event list \<Rightarrow> (utext \<times> utext) set" where
  "claims_in h = {(t, b). \<exists>e \<in> set h. je_type e = LifecycleClaimed \<and> je_owner_token e = Some t \<and> je_broker_incarnation e = Some b}"

definition starts_in :: "journal_event list \<Rightarrow> (string \<times> utext) set" where
  "starts_in h = {(st, t). \<exists>e \<in> set h. je_type e = StageStarted \<and> je_stage e = Some st \<and> je_owner_token e = Some t}"

definition completed_in :: "journal_event list \<Rightarrow> string set" where
  "completed_in h = {st. \<exists>e \<in> set h. je_type e \<in> {StageOutcome, StageUnresolved} \<and> je_stage e = Some st}"

definition passed_in :: "journal_event list \<Rightarrow> string set" where
  "passed_in h = {st. \<exists>e \<in> set h. je_type e = StageOutcome \<and> je_stage e = Some st \<and> \<not> is_terminal e}"

lemma in_snoc:
  "claims_in (h @ [e]) = claims_in h \<union> {(t, b). je_type e = LifecycleClaimed \<and> je_owner_token e = Some t \<and> je_broker_incarnation e = Some b}"
  "starts_in (h @ [e]) = starts_in h \<union> {(st, t). je_type e = StageStarted \<and> je_stage e = Some st \<and> je_owner_token e = Some t}"
  "completed_in (h @ [e]) = completed_in h \<union> {st. je_type e \<in> {StageOutcome, StageUnresolved} \<and> je_stage e = Some st}"
  "passed_in (h @ [e]) = passed_in h \<union> {st. je_type e = StageOutcome \<and> je_stage e = Some st \<and> \<not> is_terminal e}"
  by (auto simp: claims_in_def starts_in_def completed_in_def passed_in_def)

lemma in_Nil: "claims_in [] = {}" "starts_in [] = {}" "completed_in [] = {}" "passed_in [] = {}"
  by (auto simp: claims_in_def starts_in_def completed_in_def passed_in_def)

definition answers :: "journal_event list \<Rightarrow> op_state \<Rightarrow> bool" where
  "answers h s \<longleftrightarrow> op_wf s
     \<and> ((\<exists>e \<in> set h. je_type e = AcceptedEvent) \<longleftrightarrow> s \<noteq> OpAbsent)
     \<and> claims_in h = set_option (op_claim s)
     \<and> starts_in h = op_started s \<times> fst ` set_option (op_claim s)
     \<and> completed_in h = op_completed s
     \<and> passed_in h = op_passed s
     \<and> ((\<exists>e \<in> set h. is_terminal e) \<longleftrightarrow> op_ended s)"

lemma answers_start: "answers [] OpAbsent"
  by (simp add: answers_def in_Nil)

lemma event_ok_columns: "event_ok e \<Longrightarrow> check_columns e"
  by (simp add: event_ok_def)

lemma bex_snoc: "(\<exists>x \<in> set (h @ [e]). P x) \<longleftrightarrow> (\<exists>x \<in> set h. P x) \<or> P e"
  by auto

lemma collect_eqs: "{(t, b). x = t \<and> y = b} = {(x, y)}" "{st. x = st} = {x}"
  by auto

lemmas stage_defs = STAGES_def earlier_stages_def next_stage_def
lemmas answers_simps = answers_def bex_snoc in_snoc collect_eqs is_terminal_def

lemma answers_step:
  assumes "answers h s" "op_step s e = Some s'"
  shows "answers (h @ [e]) s'"
proof (cases "je_type e")
  case AcceptedEvent
  then show ?thesis using assms by (simp add: op_step_def answers_simps split: if_splits)
next
  case LifecycleClaimed
  then obtain t b where "s = OpAccepted" "je_owner_token e = Some t" "je_broker_incarnation e = Some b" "s' = OpClaimed t b"
    using assms(2) by (auto simp: op_step_def split: op_state.splits option.splits)
  then show ?thesis using assms(1) LifecycleClaimed by (simp add: answers_simps)
next
  case StageStarted
  then consider t b where "s = OpClaimed t b" "je_owner_token e = Some t" "je_stage e = Some ''prepare''" "s' = OpStarted t b ''prepare''"
    | t b st st' where "s = OpDone t b st" "next_stage st = Some st'" "je_owner_token e = Some t" "je_stage e = Some st'" "s' = OpStarted t b st'"
    using assms(2) by (auto simp: op_step_def split: op_state.splits option.splits if_splits)
  then show ?thesis
  proof cases
    case 1
    then show ?thesis using assms(1) StageStarted by (simp add: answers_simps stage_defs)
  next
    case 2
    then have "st = ''prepare'' \<and> st' = ''runtime_setup'' \<or> st = ''runtime_setup'' \<and> st' = ''launch''" by (auto simp: next_stage_def split: if_splits)
    then show ?thesis using 2 assms(1) StageStarted by (elim disjE) (auto simp: answers_simps stage_defs)
  qed
next
  case StageOutcome
  then obtain t b st where s: "s = OpStarted t b st" "je_owner_token e = Some t" "je_stage e = Some st"
    and s': "if is_terminal e then \<exists>f. s' = OpTerminal t b None st f else s' = OpDone t b st"
    using assms(2) by (auto simp: op_step_def split: op_state.splits if_splits)
  have st: "st \<in> set STAGES" using assms(1) s by (simp add: answers_def)
  show ?thesis
  proof (cases "is_terminal e")
    case True
    then obtain f where "s' = OpTerminal t b None st f" using s' by auto
    moreover have "st = ''launch'' \<or> je_stage_status e = Some ''rejected''" using True s StageOutcome by (auto simp: is_terminal_def)
    ultimately show ?thesis using s assms(1) StageOutcome st by (auto simp: answers_simps)
  next
    case False
    then have "st \<noteq> ''launch''" "je_stage_status e \<noteq> Some ''rejected''" using s StageOutcome by (auto simp: is_terminal_def)
    then show ?thesis using s s' False assms(1) StageOutcome st by (auto simp: answers_simps STAGES_def)
  qed
next
  case StageUnresolved
  then obtain t b st f where "s = OpStarted t b st" "je_owner_token e = Some t" "je_stage e = Some st" "s' = OpTerminal t b (je_unresolved_reason e) st f"
    using assms(2) by (auto simp: op_step_def split: op_state.splits if_splits)
  then show ?thesis using assms(1) StageUnresolved by (simp add: answers_simps)
qed

lemma op_run_answers: "op_run h = Some s \<Longrightarrow> answers h s"
proof (induction h arbitrary: s rule: rev_induct)
  case Nil
  then show ?case by (simp add: answers_start)
next
  case (snoc e h)
  then obtain s0 where "op_run h = Some s0" "op_step s0 e = Some s" by (cases "op_run h") auto
  then show ?case using snoc answers_step by auto
qed

subsection \<open>Constraints and the specification agree\<close>

lemma columns_ok: "check_columns e \<Longrightarrow> je_type e = LifecycleClaimed \<Longrightarrow> \<exists>t b. je_owner_token e = Some t \<and> je_broker_incarnation e = Some b"
  "check_columns e \<Longrightarrow> je_type e \<in> {StageStarted, StageOutcome, StageUnresolved} \<Longrightarrow> \<exists>st t. je_stage e = Some st \<and> st \<in> set STAGES \<and> je_owner_token e = Some t"
  by (auto simp: check_columns_def split: option.splits)

lemma claim_queries:
  assumes "\<forall>f \<in> set h. event_ok f"
  shows "(\<exists>f \<in> set h. je_type f = LifecycleClaimed \<and> je_owner_token f = Some t) \<longleftrightarrow> (\<exists>b. (t, b) \<in> claims_in h)"
    and "(\<exists>f \<in> set h. je_type f = LifecycleClaimed) \<longleftrightarrow> claims_in h \<noteq> {}"
  using assms columns_ok(1) by (fastforce simp: claims_in_def event_ok_def)+

lemma start_query:
  assumes "\<forall>f \<in> set h. event_ok f"
  shows "(\<exists>f \<in> set h. je_type f = StageStarted \<and> je_stage f = Some st) \<longleftrightarrow> (\<exists>t. (st, t) \<in> starts_in h)"
  using assms columns_ok(2) by (fastforce simp: starts_in_def event_ok_def)

lemma passed_query:
  assumes "\<forall>f \<in> set h. event_ok f"
  shows "(\<exists>f \<in> set h. je_type f = StageOutcome \<and> je_stage f = Some ''prepare'' \<and> je_stage_status f = Some ''prepared'') \<longleftrightarrow> ''prepare'' \<in> passed_in h"
    and "(\<exists>f \<in> set h. je_type f = StageOutcome \<and> je_stage f = Some ''runtime_setup'' \<and> je_stage_status f = Some ''runtime_ready'') \<longleftrightarrow> ''runtime_setup'' \<in> passed_in h"
  using assms by (fastforce simp: passed_in_def event_ok_def is_terminal_def STAGE_STATUSES_def)+

definition fresh_acceptance :: "journal_event \<Rightarrow> journal \<Rightarrow> bool" where
  "fresh_acceptance e db \<longleftrightarrow> (\<forall>f \<in> set db. je_type f = AcceptedEvent \<and> same_database f e \<longrightarrow> je_nonce f \<noteq> je_nonce e \<and> je_sequence f \<noteq> je_sequence e)"

lemma set_events_of: "set (events_of i db) = {e \<in> set db. je_identity e = i}"
  by (auto simp: events_of_def)

lemma list_ex_events: "list_ex (\<lambda>f. je_identity f = i \<and> P f) db \<longleftrightarrow> (\<exists>f \<in> set (events_of i db). P f)"
  by (auto simp: list_ex_iff set_events_of)

lemma column_eq:
  "(\<exists>f \<in> S. P f \<and> g f \<noteq> None \<and> g f = y \<and> k f \<noteq> None \<and> k f = z)
     \<longleftrightarrow> (\<exists>st t. y = Some st \<and> z = Some t \<and> (\<exists>f \<in> S. P f \<and> g f = Some st \<and> k f = Some t))"
  "(\<exists>f \<in> S. P f \<and> g f \<noteq> None \<and> g f = y) \<longleftrightarrow> (\<exists>t. y = Some t \<and> (\<exists>f \<in> S. P f \<and> g f = Some t))"
  by auto

lemma require_events:
  "require_transition db e \<longleftrightarrow> je_type e = AcceptedEvent \<or>
     (\<exists>f \<in> set (events_of (je_identity e) db). je_type f = AcceptedEvent)
     \<and> (je_type e \<noteq> LifecycleClaimed \<longrightarrow> (\<exists>t. je_owner_token e = Some t \<and> (\<exists>f \<in> set (events_of (je_identity e) db). je_type f = LifecycleClaimed \<and> je_owner_token f = Some t)))
     \<and> (je_type e \<in> {StageOutcome, StageUnresolved} \<longrightarrow> (\<exists>st t. je_stage e = Some st \<and> je_owner_token e = Some t \<and> (st, t) \<in> starts_in (events_of (je_identity e) db)))
     \<and> (je_type e = StageStarted \<and> je_stage e = Some ''runtime_setup'' \<longrightarrow>
          (\<exists>f \<in> set (events_of (je_identity e) db). je_type f = StageOutcome \<and> je_stage f = Some ''prepare'' \<and> je_stage_status f = Some ''prepared''))
     \<and> (je_type e = StageStarted \<and> je_stage e = Some ''launch'' \<longrightarrow>
          (\<exists>f \<in> set (events_of (je_identity e) db). je_type f = StageOutcome \<and> je_stage f = Some ''runtime_setup'' \<and> je_stage_status f = Some ''runtime_ready''))
     \<and> \<not> (\<exists>f \<in> set (events_of (je_identity e) db). is_terminal f)"
  unfolding require_transition_def Let_def events_of_def [symmetric] list_ex_iff column_eq starts_in_def by simp

lemma conflict_events:
  assumes "check_columns e"
  shows "list_ex (\<lambda>f. index_conflict f e) db \<longleftrightarrow>
    (case je_type e of
       AcceptedEvent \<Rightarrow> (\<exists>f \<in> set (events_of (je_identity e) db). je_type f = AcceptedEvent) \<or> \<not> fresh_acceptance e db
     | LifecycleClaimed \<Rightarrow> (\<exists>f \<in> set (events_of (je_identity e) db). je_type f = LifecycleClaimed)
     | StageStarted \<Rightarrow> (\<exists>f \<in> set (events_of (je_identity e) db). je_type f = StageStarted \<and> je_stage f = je_stage e)
     | _ \<Rightarrow> (\<exists>f \<in> set (events_of (je_identity e) db). je_type f \<in> {StageOutcome, StageUnresolved} \<and> je_stage f = je_stage e)
           \<or> is_terminal e \<and> (\<exists>f \<in> set (events_of (je_identity e) db). is_terminal f))"
  by (cases "je_type e") (auto simp: list_ex_iff set_events_of index_conflict_def fresh_acceptance_def is_terminal_def)

lemma op_wf_stages: "op_wf (OpStarted t b st) \<Longrightarrow> st = ''prepare'' \<or> st = ''runtime_setup'' \<or> st = ''launch''"
  by (auto simp: STAGES_def)

lemma insert_journal_iff:
  assumes ok: "\<forall>f \<in> set db. event_ok f" and c: "check_columns e" and s: "op_of (je_identity e) db = Some s"
  shows "insert_journal e db = Some db' \<longleftrightarrow>
    db' = db @ [e] \<and> op_step s e \<noteq> None \<and> (je_type e = AcceptedEvent \<longrightarrow> fresh_acceptance e db)"
proof -
  let ?h = "events_of (je_identity e) db"
  have h: "\<forall>f \<in> set ?h. event_ok f" using ok by (simp add: set_events_of)
  have a: "answers ?h s" using op_run_answers s by (simp add: op_of_def)
  have eq: "(require_transition db e \<and> \<not> list_ex (\<lambda>f. index_conflict f e) db) = (op_step s e \<noteq> None \<and> (je_type e = AcceptedEvent \<longrightarrow> fresh_acceptance e db))"
  proof (cases "je_type e")
    case AcceptedEvent
    then show ?thesis using a conflict_events [OF c, of db] require_events [of db e] by (simp add: answers_def op_step_def)
  next
    case LifecycleClaimed
    obtain t b where "je_owner_token e = Some t" "je_broker_incarnation e = Some b" using columns_ok(1) [OF c LifecycleClaimed] by blast
    then show ?thesis
      using a conflict_events [OF c, of db] require_events [of db e] claim_queries(2) [OF h] LifecycleClaimed
      by (cases s) (simp_all add: answers_def op_step_def)
  next
    case StageStarted
    obtain st t where f: "je_stage e = Some st" "st = ''prepare'' \<or> st = ''runtime_setup'' \<or> st = ''launch''" "je_owner_token e = Some t"
      using columns_ok(2) [OF c] StageStarted by (auto simp: STAGES_def)
    have "(require_transition db e \<and> \<not> list_ex (\<lambda>f. index_conflict f e) db) \<longleftrightarrow>
       s \<noteq> OpAbsent \<and> (\<exists>b. op_claim s = Some (t, b)) \<and> (st = ''runtime_setup'' \<longrightarrow> ''prepare'' \<in> op_passed s)
       \<and> (st = ''launch'' \<longrightarrow> ''runtime_setup'' \<in> op_passed s) \<and> \<not> op_ended s \<and> (st \<notin> op_started s \<or> op_claim s = None)"
      using a conflict_events [OF c, of db] require_events [of db e] StageStarted f(1,3)
      by (auto simp: answers_def claim_queries [OF h] passed_query [OF h] start_query [OF h])
    also have "\<dots> \<longleftrightarrow> op_step s e \<noteq> None"
      using a f StageStarted by (cases s) (auto simp: answers_def op_step_def stage_defs)
    finally show ?thesis using StageStarted by simp
  next
    case StageOutcome
    obtain st t where f: "je_stage e = Some st" "je_owner_token e = Some t" using columns_ok(2) [OF c] StageOutcome by auto
    have r: "is_terminal e \<Longrightarrow> je_response_frame e \<noteq> None" using c StageOutcome by (auto simp: check_columns_def is_terminal_def)
    have "(require_transition db e \<and> \<not> list_ex (\<lambda>f. index_conflict f e) db) \<longleftrightarrow>
       s \<noteq> OpAbsent \<and> (\<exists>b. op_claim s = Some (t, b)) \<and> st \<in> op_started s \<and> \<not> op_ended s \<and> st \<notin> op_completed s"
      using a conflict_events [OF c, of db] require_events [of db e] StageOutcome f
      by (auto simp: answers_def claim_queries [OF h] completed_in_def [symmetric] set_eq_iff completed_in_def)
    also have "\<dots> \<longleftrightarrow> op_step s e \<noteq> None"
      using a f StageOutcome r by (cases s) (auto simp: answers_def op_step_def stage_defs)
    finally show ?thesis using StageOutcome by simp
  next
    case StageUnresolved
    obtain st t where f: "je_stage e = Some st" "je_owner_token e = Some t" using columns_ok(2) [OF c] StageUnresolved by auto
    have r: "je_response_frame e \<noteq> None" "je_unresolved_reason e \<noteq> None" using c StageUnresolved by (auto simp: check_columns_def)
    have "(require_transition db e \<and> \<not> list_ex (\<lambda>f. index_conflict f e) db) \<longleftrightarrow>
       s \<noteq> OpAbsent \<and> (\<exists>b. op_claim s = Some (t, b)) \<and> st \<in> op_started s \<and> \<not> op_ended s \<and> st \<notin> op_completed s"
      using a conflict_events [OF c, of db] require_events [of db e] StageUnresolved f
      by (auto simp: answers_def claim_queries [OF h] set_eq_iff completed_in_def)
    also have "\<dots> \<longleftrightarrow> op_step s e \<noteq> None"
      using a f StageUnresolved r by (cases s) (auto simp: answers_def op_step_def stage_defs)
    finally show ?thesis using StageUnresolved by simp
  qed
  then show ?thesis using c by (auto simp: insert_journal_def)
qed

subsection \<open>A well-formed journal always opens\<close>

definition row_entry :: "journal_event \<Rightarrow> journal_event_type \<times> string option \<times> string option" where
  "row_entry e = (je_type e, je_stage e, je_stage_status e)"

fun shape :: "op_state \<Rightarrow> journal_event list \<Rightarrow> bool" where
  "shape OpAbsent h = (h = [])"
| "shape OpAccepted h = (map je_type h = [AcceptedEvent])"
| "shape (OpClaimed t b) h = (map je_type h = [AcceptedEvent, LifecycleClaimed])"
| "shape (OpStarted t b st) h = (take 2 (map je_type h) = [AcceptedEvent, LifecycleClaimed])"
| "shape (OpDone t b st) h = (take 2 (map je_type h) = [AcceptedEvent, LifecycleClaimed]
     \<and> je_type (last h) = StageOutcome \<and> je_stage (last h) = Some st \<and> \<not> is_terminal (last h))"
| "shape (OpTerminal t b u st f) h = (take 2 (map je_type h) = [AcceptedEvent, LifecycleClaimed])"

lemma take_snoc: "take 2 (xs @ [x]) = take 2 xs \<or> length xs < 2"
  by auto

lemma shape_step:
  assumes "shape s h" "op_step s e = Some s'"
  shows "shape s' (h @ [e])"
proof -
  have two: "take 2 (map je_type (h @ [e])) = [AcceptedEvent, LifecycleClaimed]" if "take 2 (map je_type h) = [AcceptedEvent, LifecycleClaimed]"
  proof -
    have "length (take 2 (map je_type h)) = 2" using that by simp
    then have "2 \<le> length h" by (simp del: take_map)
    then show ?thesis using that by simp
  qed
  show ?thesis
  proof (cases "je_type e")
    case StageStarted
    then show ?thesis using assms two by (cases s) (auto simp: op_step_def split: option.splits if_splits)
  next
    case StageOutcome
    then show ?thesis using assms two by (cases s) (auto simp: op_step_def split: if_splits)
  next
    case StageUnresolved
    then show ?thesis using assms two by (cases s) (auto simp: op_step_def split: if_splits)
  next
    case LifecycleClaimed
    then show ?thesis using assms by (cases s) (auto simp: op_step_def split: option.splits)
  qed (use assms in \<open>auto simp: op_step_def split: if_splits\<close>)
qed

lemma op_run_shape: "op_run h = Some s \<Longrightarrow> shape s h"
proof (induction h arbitrary: s rule: rev_induct)
  case (snoc e h)
  then obtain s0 where "op_run h = Some s0" "op_step s0 e = Some s" by (cases "op_run h") auto
  then show ?case using snoc shape_step by blast
qed auto

definition owner_of :: "op_state option \<Rightarrow> utext option" where
  "owner_of s = Option.bind s (\<lambda>s. map_option fst (op_claim s))"

lemma take2_types:
  assumes "take 2 (map je_type h) = [AcceptedEvent, LifecycleClaimed]"
  shows "2 \<le> length h" "je_type (h ! 0) = AcceptedEvent" "je_type (h ! 1) = LifecycleClaimed"
proof -
  have "length (take 2 (map je_type h)) = 2" using assms by simp
  then show l: "2 \<le> length h" by (simp del: take_map)
  have "take 2 (map je_type h) ! 0 = AcceptedEvent" "take 2 (map je_type h) ! 1 = LifecycleClaimed" unfolding assms by simp_all
  moreover have "0 < length h" "1 < length h" using l by linarith+
  ultimately show "je_type (h ! 0) = AcceptedEvent" "je_type (h ! 1) = LifecycleClaimed" by (simp_all del: take_map length_greater_0_conv)
qed

lemma validate_stage_start_ok:
  assumes "op_run h = Some s" "op_step s e = Some s'" "je_type e = StageStarted" "\<forall>f \<in> set h. event_ok f"
  shows "validate_stage_start (map row_entry h) (je_stage e) = Inr ()"
proof -
  have sh: "shape s h" using op_run_shape assms(1) by blast
  consider t b where "s = OpClaimed t b" "je_stage e = Some ''prepare''"
    | t b st st' where "s = OpDone t b st" "next_stage st = Some st'" "je_stage e = Some st'"
    using assms(2,3) by (auto simp: op_step_def split: op_state.splits option.splits if_splits)
  then show ?thesis
  proof cases
    case 1
    then have "map je_type h = [AcceptedEvent, LifecycleClaimed]" using sh by simp
    then obtain a c where "h = [a, c]" "je_type a = AcceptedEvent" "je_type c = LifecycleClaimed" by (auto simp: map_eq_Cons_conv)
    then show ?thesis using 1 by (simp add: validate_stage_start_def row_entry_def)
  next
    case 2
    then have h: "take 2 (map je_type h) = [AcceptedEvent, LifecycleClaimed]" "je_type (last h) = StageOutcome" "je_stage (last h) = Some st" "\<not> is_terminal (last h)"
      using sh by simp_all
    note l = take2_types [OF h(1)]
    then have "last h \<in> set h" by (cases h) auto
    then have "event_ok (last h)" using assms(4) by blast
    then have st: "je_stage_status (last h) \<in> Some ` set (STAGE_STATUSES st)" "je_stage_status (last h) \<noteq> Some ''rejected''"
      using h by (auto simp: event_ok_def is_terminal_def)
    have last: "last (map row_entry h) = row_entry (last h)" using l(1) by (cases h) (auto simp: last_map)
    have n: "\<not> (length (map row_entry h) < 2 \<or> fst (map row_entry h ! 0) \<noteq> AcceptedEvent \<or> fst (map row_entry h ! 1) \<noteq> LifecycleClaimed)"
    proof -
      have "0 < length h" "1 < length h" using l(1) by linarith+
      then show ?thesis using l by (simp add: row_entry_def del: length_greater_0_conv)
    qed
    have "st = ''prepare'' \<and> st' = ''runtime_setup'' \<or> st = ''runtime_setup'' \<and> st' = ''launch''" using 2(2) by (auto simp: next_stage_def split: if_splits)
    then show ?thesis
      unfolding validate_stage_start_def Let_def if_not_P [OF n]
      using 2(3) h(2,3) st last by (auto simp: row_entry_def STAGE_STATUSES_def)
  qed
qed

lemma validate_completion_ok:
  assumes "op_run h = Some s" "op_step s e = Some s'" "je_type e \<in> {StageOutcome, StageUnresolved}" "event_ok e"
  shows "validate_completion (map row_entry h) e = Inr ()"
proof -
  obtain t b st where s: "s = OpStarted t b st" "je_stage e = Some st"
    using assms(2,3) by (auto simp: op_step_def split: op_state.splits if_splits)
  have a: "answers h s" using op_run_answers assms(1) by blast
  then have "(st, t) \<in> starts_in h" "st \<in> set STAGES" using s by (auto simp: answers_def)
  then obtain f where "f \<in> set h" "je_type f = StageStarted" "je_stage f = Some st" by (auto simp: starts_in_def)
  then have "list_ex (\<lambda>(t, s, _). t = StageStarted \<and> s = Some st) (map row_entry h)" by (auto simp: list_ex_iff row_entry_def)
  moreover have "je_response_frame e = None \<or> is_ok (validate_stored_json (je_response_frame e) BROKER_RESPONSE_BYTES_MAX)"
    "je_type e = StageOutcome \<Longrightarrow> je_stage_status e \<in> Some ` set (STAGE_STATUSES st)" "je_type e = StageUnresolved \<Longrightarrow> je_unresolved_reason e \<in> Some ` set UNRESOLVED_REASONS"
    using assms(3,4) s(2) by (auto simp: event_ok_def)
  ultimately show ?thesis using s(2) \<open>st \<in> set STAGES\<close> by (auto simp: validate_completion_def is_ok_iff)
qed

lemma validate_row_ok:
  assumes "op_run h = Some s" "op_step s e = Some s'" "event_ok e" "\<forall>f \<in> set h. event_ok f"
  shows "validate_row (map row_entry h) (owner_of (Some s)) e = Inr (owner_of (Some s'))"
proof -
  have sh: "shape s h" using op_run_shape assms(1) by blast
  show ?thesis
  proof (cases "je_type e")
    case AcceptedEvent
    then have "s = OpAbsent" "s' = OpAccepted" using assms(2) by (auto simp: op_step_def split: if_splits)
    then show ?thesis using AcceptedEvent sh assms(3) by (auto simp: validate_row_def event_ok_def is_ok_iff owner_of_def)
  next
    case LifecycleClaimed
    then obtain t b where "s = OpAccepted" "je_owner_token e = Some t" "je_broker_incarnation e = Some b" "s' = OpClaimed t b"
      using assms(2) by (auto simp: op_step_def split: op_state.splits option.splits)
    moreover then have "map fst (map row_entry h) = [AcceptedEvent]" using sh by (simp add: row_entry_def o_def)
    ultimately show ?thesis using LifecycleClaimed assms(3) by (auto simp: validate_row_def event_ok_def owner_of_def)
  next
    case StageStarted
    then have "owner_of (Some s') = owner_of (Some s)" "je_owner_token e = owner_of (Some s)"
      using assms(2) by (auto simp: op_step_def owner_of_def split: op_state.splits option.splits if_splits)
    then show ?thesis using StageStarted validate_stage_start_ok [OF assms(1,2) _ assms(4)] by (simp add: validate_row_def)
  next
    case StageOutcome
    then have "owner_of (Some s') = owner_of (Some s)" "je_owner_token e = owner_of (Some s)"
      using assms(2) by (auto simp: op_step_def owner_of_def split: op_state.splits if_splits)
    then show ?thesis using StageOutcome validate_completion_ok [OF assms(1,2) _ assms(3)] by (simp add: validate_row_def)
  next
    case StageUnresolved
    then have "owner_of (Some s') = owner_of (Some s)" "je_owner_token e = owner_of (Some s)"
      using assms(2) by (auto simp: op_step_def owner_of_def split: op_state.splits if_splits)
    then show ?thesis using StageUnresolved validate_completion_ok [OF assms(1,2) _ assms(3)] by (simp add: validate_row_def)
  qed
qed

lemma op_run_append_None: "op_run h = None \<Longrightarrow> op_run (h @ k) = None"
proof (induction k rule: rev_induct)
  case (snoc e k)
  then show ?case using op_run_simps(2) [of "h @ k" e] by simp
qed simp

lemma validate_rows_ok:
  assumes "\<forall>e \<in> set (pre @ rows). event_ok e" "\<forall>i. op_of i (pre @ rows) \<noteq> None"
  shows "validate_rows (\<lambda>i. map row_entry (events_of i pre)) (\<lambda>i. owner_of (op_of i pre)) rows = Inr ()"
  using assms
proof (induction rows arbitrary: pre)
  case (Cons e rows)
  let ?i = "je_identity e"
  have "op_of ?i (pre @ [e]) \<noteq> None"
  proof
    assume "op_of ?i (pre @ [e]) = None"
    then have "op_of ?i ((pre @ [e]) @ rows) = None" unfolding op_of_def events_of_def filter_append [of _ "pre @ [e]"] by (rule op_run_append_None)
    then show False using Cons.prems(2) by (metis append.assoc append_Cons append_Nil)
  qed
  then obtain s s' where s: "op_of ?i pre = Some s" "op_step s e = Some s'" "op_of ?i (pre @ [e]) = Some s'"
    by (cases "op_of ?i pre") (auto simp: op_of_def)
  have v: "validate_row (map row_entry (events_of ?i pre)) (owner_of (op_of ?i pre)) e = Inr (owner_of (op_of ?i (pre @ [e])))"
    using validate_row_ok [of "events_of ?i pre" s e s'] s Cons.prems(1) by (auto simp: op_of_def set_events_of)
  have h: "(\<lambda>i. map row_entry (events_of i (pre @ [e]))) = (\<lambda>i. map row_entry (events_of i pre))(?i := map row_entry (events_of ?i pre) @ [row_entry e])"
    by (auto simp: fun_eq_iff)
  have o: "(\<lambda>i. owner_of (op_of i (pre @ [e]))) = (\<lambda>i. owner_of (op_of i pre))(?i := owner_of (op_of ?i (pre @ [e])))"
    by (auto simp: fun_eq_iff op_of_def)
  have "validate_rows (\<lambda>i. map row_entry (events_of i (pre @ [e]))) (\<lambda>i. owner_of (op_of i (pre @ [e]))) rows = Inr ()"
    using Cons.IH [of "pre @ [e]"] Cons.prems by simp
  then show ?case unfolding h o using v by (simp add: Let_def flip: row_entry_def)
qed simp

lemma validate_events_ok:
  "\<forall>e \<in> set db. event_ok e \<Longrightarrow> \<forall>i. op_of i db \<noteq> None \<Longrightarrow> validate_events db = Inr ()"
  using validate_rows_ok [of "[]" db] by (simp add: validate_events_def events_of_def op_of_def owner_of_def)

end
