(* ===== verification/Broker_Protocol_Properties.thy ===== *)
theory Broker_Protocol_Properties
  imports Broker_Canonical "HOL-Library.Code_Target_Nat"
begin

section \<open>Broker messages are authentic\<close>

text \<open>
  Requests and responses come back as they were signed; what a reader accepts was signed by the owner of the
  key, for this very identity and payload; a response is bound to the request it answers; and the two kinds
  of malformed frame whose error is not a \<^verbatim>\<open>BrokerProtocolError\<close>.
\<close>

subsection \<open>Requests\<close>

lemma ascii_inj [simp]: "ascii s = ascii t \<longleftrightarrow> s = t"
  by (auto simp: ascii_def inj_map_eq_map inj_def)

lemma ascii_points: "code_points (ascii s)"
proof -
  have "of_char c < (0x110000 :: nat)" for c :: char by (rule less_trans [of _ 256]) simp_all
  then show ?thesis by (auto simp: code_points_def ascii_def list_all_iff)
qed

definition identity_points :: "broker_identity \<Rightarrow> bool" where
  "identity_points i \<longleftrightarrow> code_points (bi_protocol_version i) \<and> code_points (bi_broker_incarnation i) \<and> code_points (bi_database_incarnation i)
     \<and> code_points (bi_operation_id i) \<and> code_points (bi_request_type i) \<and> code_points (bi_nonce i) \<and> code_points (bi_payload_digest i)"

lemma pattern_points:
  "TOKEN_PATTERN s \<Longrightarrow> code_points s" "OPERATION_ID_PATTERN s \<Longrightarrow> code_points s" "DIGEST_PATTERN s \<Longrightarrow> code_points s"
  by (fastforce simp: TOKEN_PATTERN_def OPERATION_ID_PATTERN_def DIGEST_PATTERN_def lower_hex_text_def code_points_def list_all_iff)+

lemma valid_identity_points: "valid_identity i \<Longrightarrow> code_points (bi_request_type i) \<Longrightarrow> identity_points i"
  by (auto simp: valid_identity_def identity_points_def pattern_points BROKER_PROTOCOL_VERSION_def ascii_points)

lemma encode_points: "code_points (encode_base64url b)"
proof -
  have "c < 0x110000" if "b64_value c \<noteq> None" for c using that by (auto simp: b64_value_def split: if_splits)
  then show ?thesis using encode_base64url_chars(2) [of b] by (auto simp: code_points_def list_all_iff)
qed

definition signed_message :: "message \<Rightarrow> bytes \<Rightarrow> message" where
  "signed_message m sig = m @ [(ascii ''signature'', JStr (encode_base64url sig))]"

lemma dset_request: "dset (request_message i payload) (ascii ''signature'') (JStr (encode_base64url sig)) = signed_message (request_message i payload) sig"
  unfolding signed_message_def by (rule dset_absent) (simp add: request_message_def)

lemma dset_response: "dset (response_message i st e r) (ascii ''signature'') (JStr (encode_base64url sig)) = signed_message (response_message i st e r) sig"
  unfolding signed_message_def by (rule dset_absent) (simp add: response_message_def)

lemma request_message_dict: "dict_ok (signed_message (request_message i payload) sig)"
  "set (map fst (signed_message (request_message i payload) sig)) = set REQUEST_KEYS"
  by (auto simp: signed_message_def request_message_def REQUEST_KEYS_def)

lemma response_message_dict: "dict_ok (signed_message (response_message i st e r) sig)"
  "set (map fst (signed_message (response_message i st e r) sig)) = set RESPONSE_KEYS"
  by (auto simp: signed_message_def response_message_def RESPONSE_KEYS_def)

lemma request_message_python:
  "identity_points i \<Longrightarrow> python_json (JObj payload) \<Longrightarrow> python_json (JObj (signed_message (request_message i payload) sig))"
  using request_message_dict(1) [of i payload sig]
  by (auto simp: identity_points_def signed_message_def request_message_def ascii_points encode_points)

lemma dpop_signed: "dpop (signed_message (request_message i payload) sig) (ascii ''signature'') = request_message i payload"
  "dpop (signed_message (response_message i st e r) sig) (ascii ''signature'') = response_message i st e r"
  by (simp_all add: signed_message_def request_message_def response_message_def)

lemma payload_digest_Inr: "payload_digest hexdigest v = Inr d \<longleftrightarrow> (\<exists>b. canonical_json v = Inr b \<and> d = ascii (hexdigest b))"
  by (auto simp: payload_digest_def rbind_Inr_iff)

text \<open>A reader accepts what was signed for a valid identity.\<close>

lemma parse_signed_requestI:
  assumes frame: "canonical_json (JObj (signed_message (request_message i payload) sig)) = Inr frame"
    and unsigned: "canonical_json (JObj (request_message i payload)) = Inr u" "verify sig (REQUEST_SIGNATURE_DOMAIN @ u)" "length sig = 64"
    and "valid_identity i" "code_points (bi_request_type i)" "python_json (JObj payload)"
    and digest: "payload_digest hexdigest (JObj payload) = Inr (bi_payload_digest i)"
  shows "parse_signed_request hexdigest verify frame = Inr (broker_identity.extend i \<lparr> brq_payload = sorted_items payload \<rparr>)"
proof -
  let ?m = "signed_message (request_message i payload) sig"
  have py: "python_json (JObj ?m)" using request_message_python valid_identity_points assms(5,6,7) by blast
  have m: "parse_canonical_json BROKER_FRAME_BYTES_MAX frame = Inr (sorted_items ?m)"
    using parse_canonical [OF frame py] frame by (auto simp: sorted_items_def canonical_json_iff)
  have get: "dget (sorted_items ?m) k = map_option (sort_json True) (dget ?m k)" for k
    by (rule dget_sorted_items [OF request_message_dict(1)])
  have u: "unsigned_message (sorted_items ?m) = Inr u"
    by (rule unsigned_message_sorted [OF request_message_dict(1)]) (simp only: dpop_signed unsigned(1))
  have id: "checked_identity ''nonce'' (sorted_items ?m) = Inr i"
    using assms(5) unfolding checked_identity_iff get by (simp add: signed_message_def request_message_def)
  have s: "decode_base64url (dget (sorted_items ?m) (ascii ''signature'')) 64 = Inr sig"
    unfolding get using decode_encode_signature [OF unsigned(3)] by (simp add: signed_message_def request_message_def)
  have p: "dget (sorted_items ?m) (ascii ''payload'') = Some (JObj (sorted_items payload))"
    unfolding get by (simp add: signed_message_def request_message_def sort_json_sorted_items)
  have d: "payload_digest hexdigest (JObj (sorted_items payload)) = Inr (bi_payload_digest i)"
    using digest canonical_json_cong [of "JObj payload" _ "JObj (sorted_items payload)"]
    by (auto simp: payload_digest_Inr sort_json_idem simp flip: sort_json_sorted_items)
  show ?thesis
    using m u id s p d unsigned(2) keys_sorted_items(1) [of ?m] request_message_dict(2) [of i payload sig]
    by (simp add: parse_signed_request_def)
qed

lemma if_Inl_Inr: "(if c then Inl e else r) = Inr y \<longleftrightarrow> \<not> c \<and> r = Inr y"
  by simp

lemma sum_case_Inr: "(case x of Inl _ \<Rightarrow> Inl e | Inr u \<Rightarrow> f u) = Inr y \<longleftrightarrow> (\<exists>u. x = Inr u \<and> f u = Inr y)"
  by (auto split: sum.splits)

lemma obj_case_Inr: "(case x of Some (JObj p) \<Rightarrow> f p | _ \<Rightarrow> Inl e) = Inr y \<longleftrightarrow> (\<exists>p. x = Some (JObj p) \<and> f p = Inr y)"
  by (auto split: option.splits json.splits)

lemmas reader_simps = rbind_Inr_iff if_Inl_Inr sum_case_Inr obj_case_Inr broker_identity.defs

lemma sorted_items_eqI:
  assumes "dict_ok m" "dict_ok m'" "\<And>k. dget m k = dget m' k"
  shows "sorted_items m = sorted_items m'"
proof -
  have "map_of m = map_of m'" using assms(3) by blast
  then have "set m = set m'" using map_of_inject_set assms(1,2) by blast
  then show ?thesis unfolding sorted_items_def using assms(1,2) by (intro sort_key_unique) (simp_all add: o_def case_prod_beta)
qed

lemma canonical_json_dict:
  "canonical_json (JObj m) = Inr b \<Longrightarrow> dict_ok m \<Longrightarrow> dict_ok m' \<Longrightarrow> (\<And>k. dget m k = dget m' k) \<Longrightarrow> canonical_json (JObj m') = Inr b"
  using canonical_json_cong [of "JObj m" b "JObj m'"] sorted_items_eqI [of m m'] by (simp add: sort_json_sorted_items)

lemma dget_keysI:
  assumes "set (map fst m) = set ks" "set (map fst m') = set ks" "\<forall>k \<in> set ks. dget m k = dget m' k"
  shows "dget m k = dget m' k"
proof (cases "k \<in> set ks")
  case False
  then show ?thesis using assms(1,2) by (metis list.set_map map_of_eq_None_iff)
qed (use assms(3) in blast)

lemma request_fields:
  assumes "set (map fst m) = set REQUEST_KEYS" "checked_identity ''nonce'' m = Inr i"
    and "dget m (ascii ''payload'') = Some (JObj payload)" "dget m (ascii ''signature'') = Some (JStr (encode_base64url sig))"
  shows "dget m k = dget (signed_message (request_message i payload) sig) k"
  by (rule dget_keysI [OF assms(1) request_message_dict(2)])
     (use assms(2-4) in \<open>simp add: checked_identity_iff REQUEST_KEYS_def signed_message_def request_message_def\<close>)

text \<open>Conversely, what a reader accepts is a signed message of a valid identity, and the frame is its only encoding.\<close>

lemma parse_signed_requestD:
  assumes "parse_signed_request hexdigest verify frame = Inr request"
  defines "i \<equiv> broker_identity.truncate request" and "payload \<equiv> brq_payload request"
  shows "\<exists>sig u. valid_identity i \<and> length sig = 64 \<and> canonical_json (JObj (request_message i payload)) = Inr u
    \<and> verify sig (REQUEST_SIGNATURE_DOMAIN @ u) \<and> canonical_json (JObj (signed_message (request_message i payload) sig)) = Inr frame
    \<and> payload_digest hexdigest (JObj payload) = Inr (bi_payload_digest i) \<and> python_json (JObj (request_message i payload))"
proof -
  obtain m sig u where p: "parse_canonical_json BROKER_FRAME_BYTES_MAX frame = Inr m" "set (map fst m) = set REQUEST_KEYS"
    "decode_base64url (dget m (ascii ''signature'')) 64 = Inr sig" "unsigned_message m = Inr u" "verify sig (REQUEST_SIGNATURE_DOMAIN @ u)"
    and i: "checked_identity ''nonce'' m = Inr i" "dget m (ascii ''payload'') = Some (JObj payload)"
      "payload_digest hexdigest (JObj payload) = Inr (bi_payload_digest i)"
    using assms unfolding parse_signed_request_def
    by (auto simp: reader_simps)
  note sig = decode_base64urlD [OF p(3)] and m = parse_canonicalD [OF p(1)]
  have get: "dget m k = dget (signed_message (request_message i payload) sig) k" for k
    using request_fields [OF p(2) i(1,2)] sig by blast
  have ok: "dict_ok m" "dict_ok (request_message i payload)" "dict_ok (dpop m (ascii ''signature''))"
    using m(2) by (simp_all add: request_message_def)
  have get': "dget (dpop m (ascii ''signature'')) k = dget (request_message i payload) k" for k
    using get dpop_signed(1) [of i payload sig] by (metis dget_dpop)
  have u: "canonical_json (JObj (request_message i payload)) = Inr u"
    using canonical_json_dict [OF _ ok(3,2) get'] p(4) by (simp add: unsigned_message_def)
  have f: "canonical_json (JObj (signed_message (request_message i payload) sig)) = Inr frame"
    using canonical_json_dict [OF m(1) ok(1) request_message_dict(1) get] .
  have "(k, v) \<in> set (request_message i payload) \<Longrightarrow> (k, v) \<in> set m" for k v
    using get' [of k] ok(2) get [of k] by (metis dget_dpop map_of_SomeD map_of_is_SomeI option.discI)
  then have "set (request_message i payload) \<subseteq> set m" by auto
  moreover have "\<forall>kv \<in> set m. case kv of (k, v) \<Rightarrow> code_points k \<and> python_json v" using m(2) by (simp add: list_all_iff)
  ultimately have "python_json (JObj (request_message i payload))"
    unfolding python_json.simps list_all_iff using ok(2) by blast
  then show ?thesis using u f p(5) sig i(1,3) by (auto simp: checked_identity_iff)
qed

lemma request_message_inj:
  assumes "sorted_items (request_message i p) = sorted_items (request_message i' p')"
  shows "i = i' \<and> sorted_items p = sorted_items p'"
proof -
  have ok: "dict_ok (request_message i p)" for i p by (simp add: request_message_def)
  have "map_option (sort_json True) (dget (request_message i p) k) = map_option (sort_json True) (dget (request_message i' p') k)" for k
    using dget_sorted_items [OF ok] assms by metis
  from this [of "ascii ''broker_incarnation''"] this [of "ascii ''connection_sequence''"] this [of "ascii ''database_incarnation''"]
    this [of "ascii ''nonce''"] this [of "ascii ''operation_id''"] this [of "ascii ''payload''"] this [of "ascii ''payload_digest''"]
    this [of "ascii ''protocol_version''"] this [of "ascii ''request_type''"]
  show ?thesis by (cases i; cases i') (simp add: request_message_def sort_json_sorted_items)
qed

subsection \<open>Responses\<close>

lemma response_fields:
  assumes "set (map fst m) = set RESPONSE_KEYS" "checked_identity ''request_nonce'' m = Inr i"
    and "checked_outcome m = Inr (st, e, r)" "dget m (ascii ''signature'') = Some (JStr (encode_base64url sig))"
  shows "dget m k = dget (signed_message (response_message i st e r) sig) k"
proof (rule dget_keysI [OF assms(1) response_message_dict(2)])
  have "dget m (ascii ''status'') = Some (JStr st) \<and> dget m (ascii ''result'') = Some (JObj r)
    \<and> dget m (ascii ''error'') = Some (case e of None \<Rightarrow> JNull | Some x \<Rightarrow> JStr x)"
    using assms(3) by (auto simp: checked_outcome_def rbind_Inr_iff checked_text_Inr split: option.splits json.splits if_splits)
  then show "\<forall>k \<in> set RESPONSE_KEYS. dget m k = dget (signed_message (response_message i st e r) sig) k"
    using assms(2,4) by (simp add: checked_identity_iff RESPONSE_KEYS_def signed_message_def response_message_def)
qed

definition valid_outcome :: "utext \<Rightarrow> utext option \<Rightarrow> bool" where
  "valid_outcome st e \<longleftrightarrow> st = ascii ''ok'' \<and> e = None
     \<or> st = ascii ''error'' \<and> (\<exists>x. e = Some x \<and> 1 \<le> length x \<and> length x \<le> 128)"

lemma checked_outcome_signed:
  assumes "valid_outcome st e"
  shows "checked_outcome (sorted_items (signed_message (response_message i st e r) sig)) = Inr (st, e, sorted_items r)"
proof -
  have get: "dget (sorted_items (signed_message (response_message i st e r) sig)) k = map_option (sort_json True) (dget (signed_message (response_message i st e r) sig) k)" for k
    by (rule dget_sorted_items [OF response_message_dict(1)])
  have "dget (sorted_items (signed_message (response_message i st e r) sig)) (ascii ''status'') = Some (JStr st)"
    "dget (sorted_items (signed_message (response_message i st e r) sig)) (ascii ''result'') = Some (JObj (sorted_items r))"
    "dget (sorted_items (signed_message (response_message i st e r) sig)) (ascii ''error'') = Some (case e of None \<Rightarrow> JNull | Some x \<Rightarrow> JStr x)"
    unfolding get by (simp_all add: signed_message_def response_message_def sort_json_sorted_items split: option.splits)
  then show ?thesis using assms by (auto simp: checked_outcome_def valid_outcome_def checked_text_def)
qed

lemma verify_broker_responseI:
  assumes frame: "canonical_json (JObj (signed_message (response_message i st e r) sig)) = Inr frame" "length frame \<le> BROKER_RESPONSE_BYTES_MAX"
    and unsigned: "canonical_json (JObj (response_message i st e r)) = Inr u" "verify sig (RESPONSE_SIGNATURE_DOMAIN @ u)" "length sig = 64"
    and "valid_identity i" "code_points (bi_request_type i)" "python_json (JObj r)" "valid_outcome st e" "\<forall>x. e = Some x \<longrightarrow> code_points x"
    and "i = broker_identity.truncate request"
  shows "verify_broker_response verify frame request = Inr (broker_identity.extend i \<lparr> brs_status = st, brs_error = e, brs_result = sorted_items r \<rparr>)"
proof -
  let ?m = "signed_message (response_message i st e r) sig"
  have "python_json (JObj ?m)"
    using response_message_dict(1) [of i st e r sig] valid_identity_points [OF assms(6,7)] assms(8-10)
    by (auto simp: identity_points_def signed_message_def response_message_def ascii_points encode_points valid_outcome_def)
  then have m: "parse_canonical_json BROKER_RESPONSE_BYTES_MAX frame = Inr (sorted_items ?m)"
    using parse_canonical [OF frame(1) _ frame(2)] by (simp add: sorted_items_def)
  have get: "dget (sorted_items ?m) k = map_option (sort_json True) (dget ?m k)" for k
    by (rule dget_sorted_items [OF response_message_dict(1)])
  have u: "unsigned_message (sorted_items ?m) = Inr u"
    by (rule unsigned_message_sorted [OF response_message_dict(1)]) (simp only: dpop_signed unsigned(1))
  have id: "checked_identity ''request_nonce'' (sorted_items ?m) = Inr i"
    using assms(6) unfolding checked_identity_iff get by (simp add: signed_message_def response_message_def)
  have s: "decode_base64url (dget (sorted_items ?m) (ascii ''signature'')) 64 = Inr sig"
    unfolding get using decode_encode_signature [OF unsigned(3)] by (simp add: signed_message_def response_message_def)
  show ?thesis
    using m u id s unsigned(2) keys_sorted_items(1) [of ?m] response_message_dict(2) [of i st e r sig] checked_outcome_signed [OF assms(9)] assms(11)
    by (simp add: verify_broker_response_def)
qed

lemma verify_broker_responseD:
  assumes "verify_broker_response verify frame request = Inr response"
  defines "i \<equiv> broker_identity.truncate response"
  shows "i = broker_identity.truncate request \<and> (\<exists>sig u. length sig = 64
    \<and> canonical_json (JObj (response_message i (brs_status response) (brs_error response) (brs_result response))) = Inr u
    \<and> verify sig (RESPONSE_SIGNATURE_DOMAIN @ u)
    \<and> canonical_json (JObj (signed_message (response_message i (brs_status response) (brs_error response) (brs_result response)) sig)) = Inr frame)
    \<and> valid_identity i \<and> valid_outcome (brs_status response) (brs_error response)"
proof -
  obtain m sig u st e r where p: "parse_canonical_json BROKER_RESPONSE_BYTES_MAX frame = Inr m" "set (map fst m) = set RESPONSE_KEYS"
    "decode_base64url (dget m (ascii ''signature'')) 64 = Inr sig" "unsigned_message m = Inr u" "verify sig (RESPONSE_SIGNATURE_DOMAIN @ u)"
    and i: "checked_identity ''request_nonce'' m = Inr i" "checked_outcome m = Inr (st, e, r)" "i = broker_identity.truncate request"
    and r: "st = brs_status response" "e = brs_error response" "r = brs_result response"
    using assms unfolding verify_broker_response_def
    by (auto simp: reader_simps)
  note sig = decode_base64urlD [OF p(3)] and m = parse_canonicalD [OF p(1)]
  have get: "dget m k = dget (signed_message (response_message i st e r) sig) k" for k
    using response_fields [OF p(2) i(1,2)] sig by blast
  have ok: "dict_ok m" "dict_ok (response_message i st e r)" "dict_ok (dpop m (ascii ''signature''))"
    using m(2) by (simp_all add: response_message_def)
  have get': "dget (dpop m (ascii ''signature'')) k = dget (response_message i st e r) k" for k
    using get dpop_signed(2) [of i st e r sig] by (metis dget_dpop)
  have "canonical_json (JObj (response_message i st e r)) = Inr u"
    using canonical_json_dict [OF _ ok(3,2) get'] p(4) by (simp add: unsigned_message_def)
  moreover have "canonical_json (JObj (signed_message (response_message i st e r) sig)) = Inr frame"
    using canonical_json_dict [OF m(1) ok(1) response_message_dict(1) get] .
  moreover have "valid_outcome st e"
    using i(2) by (auto simp: checked_outcome_def valid_outcome_def rbind_Inr_iff checked_text_Inr split: option.splits json.splits if_splits)
  ultimately show ?thesis using p(5) sig i(1,3) r by (auto simp: checked_identity_iff)
qed

text \<open>C18: Canonical encoding is invertible and unambiguous: a dictionary that \<^verbatim>\<open>canonical_json\<close> encodes within the reader's limit is
  read back by \<^verbatim>\<open>_parse_canonical_json\<close> with its keys in order at every level, and no other dictionary has the same bytes.\<close>

theorem canonical_json_roundtrip:
  assumes "canonical_json (JObj kvs) = Inr frame" "python_json (JObj kvs)" "length frame \<le> maximum"
  shows "parse_canonical_json maximum frame = Inr (sorted_items kvs)
    \<and> (\<forall>kvs'. python_json (JObj kvs') \<longrightarrow> canonical_json (JObj kvs') = Inr frame \<longrightarrow> sorted_items kvs' = sorted_items kvs)"
proof (intro conjI allI impI)
  show "parse_canonical_json maximum frame = Inr (sorted_items kvs)" using parse_canonical [OF assms] by (simp add: sorted_items_def)
  fix kvs' assume "python_json (JObj kvs')" "canonical_json (JObj kvs') = Inr frame"
  then have "sort_json True (JObj kvs') = sort_json True (JObj kvs)" using canonical_json_inj assms(1,2) by blast
  then show "sorted_items kvs' = sorted_items kvs" by (simp add: sort_json_sorted_items)
qed

lemma create_signed_requestD:
  "create_signed_request hexdigest sign pv b db seq op rt n payload = Inr frame \<Longrightarrow>
    \<exists>i u. payload_digest hexdigest (JObj payload) = Inr (bi_payload_digest i) \<and> canonical_json (JObj (request_message i payload)) = Inr u
      \<and> canonical_json (JObj (signed_message (request_message i payload) (sign (REQUEST_SIGNATURE_DOMAIN @ u)))) = Inr frame
      \<and> i = \<lparr> bi_protocol_version = pv, bi_broker_incarnation = b, bi_database_incarnation = db, bi_connection_sequence = seq,
          bi_operation_id = op, bi_request_type = rt, bi_nonce = n, bi_payload_digest = bi_payload_digest i \<rparr>"
  by (force simp: create_signed_request_def rbind_Inr_iff Let_def dset_request)

text \<open>C17: A request that \<^verbatim>\<open>create_signed_request\<close> builds from well-formed fields is accepted by \<^verbatim>\<open>parse_signed_request\<close> with the same
  fields, the digest of its payload and the payload itself, whatever its depth, its key order or the characters in it.
  Of the key pair it needs that signatures are 64 bytes long and verify, of the digest that it is 64 hexadecimal digits.\<close>

theorem request_roundtrip:
  assumes "create_signed_request hexdigest sign BROKER_PROTOCOL_VERSION broker database sequence operation request_type nonce payload = Inr frame"
    and "TOKEN_PATTERN broker" "TOKEN_PATTERN database" "TOKEN_PATTERN nonce" "OPERATION_ID_PATTERN operation"
    and "1 \<le> sequence" "1 \<le> length request_type" "length request_type \<le> 64"
    and "code_points request_type" "python_json (JObj payload)"
    and keys: "\<forall>m. verify (sign m) m \<and> length (sign m) = 64"
    and digests: "\<forall>b. DIGEST_PATTERN (ascii (hexdigest b))"
  shows "\<exists>digest. payload_digest hexdigest (JObj payload) = Inr digest \<and>
    parse_signed_request hexdigest verify frame = Inr \<lparr> bi_protocol_version = BROKER_PROTOCOL_VERSION, bi_broker_incarnation = broker,
      bi_database_incarnation = database, bi_connection_sequence = sequence, bi_operation_id = operation,
      bi_request_type = request_type, bi_nonce = nonce, bi_payload_digest = digest, brq_payload = sorted_items payload \<rparr>"
proof -
  obtain i u where d: "payload_digest hexdigest (JObj payload) = Inr (bi_payload_digest i)" "canonical_json (JObj (request_message i payload)) = Inr u"
    "canonical_json (JObj (signed_message (request_message i payload) (sign (REQUEST_SIGNATURE_DOMAIN @ u)))) = Inr frame"
    and i: "i = \<lparr> bi_protocol_version = BROKER_PROTOCOL_VERSION, bi_broker_incarnation = broker, bi_database_incarnation = database,
      bi_connection_sequence = sequence, bi_operation_id = operation, bi_request_type = request_type, bi_nonce = nonce,
      bi_payload_digest = bi_payload_digest i \<rparr>"
    using create_signed_requestD [OF assms(1)] by blast
  obtain digest where dg: "bi_payload_digest i = digest" by simp
  have f: "bi_connection_sequence i = sequence" "bi_request_type i = request_type" by (subst i, simp)+
  have "valid_json 0 (JObj (request_message i payload))" using d(2) by (simp add: canonical_json_iff)
  then have "\<bar>sequence\<bar> \<le> 2 ^ 53 - 1" using f(1) by (simp add: request_message_def)
  then have "sequence \<le> 2 ^ 63 - 1" by simp
  moreover have "DIGEST_PATTERN digest" using d(1) dg digests by (auto simp: payload_digest_Inr)
  ultimately have "valid_identity i" using assms(2-8) dg by (subst i) (simp add: valid_identity_def)
  then have "parse_signed_request hexdigest verify frame = Inr (broker_identity.extend i \<lparr> brq_payload = sorted_items payload \<rparr>)"
    using parse_signed_requestI [OF d(3,2)] keys assms(9,10) d(1) f(2) by blast
  then show ?thesis using d(1) dg by (subst (asm) i) (simp add: broker_identity.defs)
qed

lemma signed_message_sorted:
  "sorted_items payload = sorted_items payload' \<Longrightarrow>
    sort_json True (JObj (signed_message (request_message i payload) sig)) = sort_json True (JObj (signed_message (request_message i payload') sig))"
proof -
  assume "sorted_items payload = sorted_items payload'"
  then have "map (\<lambda>(k, v). (k, sort_json True v)) (signed_message (request_message i payload) sig)
      = map (\<lambda>(k, v). (k, sort_json True v)) (signed_message (request_message i payload') sig)"
    by (simp add: signed_message_def request_message_def sort_json_sorted_items)
  then show ?thesis by (simp only: sort_json_items)
qed

text \<open>C16: Authenticity: when the public key verifies only what its owner signed -- the requests in \<open>sent\<close>, or messages of the response
  domain -- every request the reader accepts is one of those in \<open>sent\<close>, with the same identity and an equal payload whose digest
  is the one in the identity, and the frame is the canonical encoding of just that request with a 64-byte signature that verifies on it. No
  response, and no other encoding of a request, can stand in for it.\<close>

theorem request_authentic:
  assumes "parse_signed_request hexdigest verify frame = Inr request"
    and unforgeable: "\<forall>sig m. verify sig m \<longrightarrow> (\<exists>i payload u. (i, payload) \<in> sent \<and> canonical_json (JObj (request_message i payload)) = Inr u
        \<and> m = REQUEST_SIGNATURE_DOMAIN @ u) \<or> (\<exists>u. m = RESPONSE_SIGNATURE_DOMAIN @ u)"
    and dicts: "\<forall>(i, payload) \<in> sent. python_json (JObj (request_message i payload))"
  shows "\<exists>(i, payload) \<in> sent. i = broker_identity.truncate request \<and> sorted_items payload = sorted_items (brq_payload request)
    \<and> valid_identity i \<and> payload_digest hexdigest (JObj payload) = Inr (bi_payload_digest i)
    \<and> (\<exists>sig u. canonical_json (JObj (signed_message (request_message i payload) sig)) = Inr frame \<and> length sig = 64
        \<and> canonical_json (JObj (request_message i payload)) = Inr u \<and> verify sig (REQUEST_SIGNATURE_DOMAIN @ u))"
proof -
  define i payload where "i = broker_identity.truncate request" "payload = brq_payload request"
  then obtain sig u where r: "valid_identity i" "canonical_json (JObj (request_message i payload)) = Inr u" "verify sig (REQUEST_SIGNATURE_DOMAIN @ u)"
    "payload_digest hexdigest (JObj payload) = Inr (bi_payload_digest i)" "python_json (JObj (request_message i payload))"
    and frame: "canonical_json (JObj (signed_message (request_message i payload) sig)) = Inr frame" "length sig = 64"
    using parse_signed_requestD [OF assms(1)] by blast
  obtain i' payload' where s: "(i', payload') \<in> sent" "canonical_json (JObj (request_message i' payload')) = Inr u"
    using unforgeable r(3) domains_disjoint by (metis append_same_eq same_append_eq)
  have "sort_json True (JObj (request_message i payload)) = sort_json True (JObj (request_message i' payload'))"
    using canonical_json_inj [OF r(2) s(2) r(5)] dicts s(1) by blast
  then have "sorted_items (request_message i payload) = sorted_items (request_message i' payload')" by (simp only: sort_json_sorted_items json.inject)
  from request_message_inj [OF this] have eq: "i = i'" "sorted_items payload = sorted_items payload'" by blast+
  have "payload_digest hexdigest (JObj payload') = Inr (bi_payload_digest i)"
    using r(4) eq(2) canonical_json_cong [of "JObj payload" _ "JObj payload'"] by (auto simp: payload_digest_Inr sort_json_sorted_items)
  moreover have "canonical_json (JObj (signed_message (request_message i' payload') sig)) = Inr frame"
    by (rule canonical_json_cong [OF frame(1)]) (use eq signed_message_sorted in blast)
  ultimately show ?thesis using s eq r(1,3) frame(2) i_payload_def by (auto intro!: bexI [of _ "(i', payload')"])
qed

lemma create_signed_response_iff:
  "create_signed_response sign request st e r = Inr frame \<longleftrightarrow> valid_outcome st e \<and> length frame \<le> BROKER_RESPONSE_BYTES_MAX
    \<and> (\<exists>u. canonical_json (JObj (response_message (broker_identity.truncate request) st e r)) = Inr u
      \<and> canonical_json (JObj (signed_message (response_message (broker_identity.truncate request) st e r) (sign (RESPONSE_SIGNATURE_DOMAIN @ u)))) = Inr frame)"
  by (cases e) (auto simp: create_signed_response_def rbind_Inr_iff Let_def dset_response valid_outcome_def if_Inl_Inr)

text \<open>A response that \<^verbatim>\<open>create_signed_response\<close> builds for a valid request is accepted by \<^verbatim>\<open>verify_broker_response\<close> for that request,
  with the status, the error and the result it was built from.\<close>

theorem response_roundtrip:
  assumes "create_signed_response sign request status error result = Inr frame"
    and "valid_identity (broker_identity.truncate request)" "code_points (bi_request_type request)"
    and "python_json (JObj result)" "\<forall>e. error = Some e \<longrightarrow> code_points e"
    and keys: "\<forall>m. verify (sign m) m \<and> length (sign m) = 64"
  shows "verify_broker_response verify frame request
    = Inr (broker_identity.extend (broker_identity.truncate request) \<lparr> brs_status = status, brs_error = error, brs_result = sorted_items result \<rparr>)"
proof -
  let ?m = "response_message (broker_identity.truncate request) status error result"
  obtain u where u: "canonical_json (JObj ?m) = Inr u"
    "canonical_json (JObj (signed_message ?m (sign (RESPONSE_SIGNATURE_DOMAIN @ u)))) = Inr frame"
    and o: "valid_outcome status error" "length frame \<le> BROKER_RESPONSE_BYTES_MAX"
    using assms(1) unfolding create_signed_response_iff by blast
  have "code_points (bi_request_type (broker_identity.truncate request))" using assms(3) by (simp add: broker_identity.defs)
  then show ?thesis
    using verify_broker_responseI [OF u(2) o(2) u(1)] keys assms(2,4,5) o(1) by blast
qed

text \<open>C19: What \<^verbatim>\<open>verify_broker_response\<close> accepts carries all eight identity fields of the expected request and a consistent outcome (an
  error message exactly when the status is error), under a signature on exactly these fields that cannot be one on a request.\<close>

theorem response_bound:
  assumes "verify_broker_response verify frame request = Inr response"
  shows "broker_identity.truncate response = broker_identity.truncate request
    \<and> valid_outcome (brs_status response) (brs_error response)
    \<and> (\<exists>sig u. verify sig (RESPONSE_SIGNATURE_DOMAIN @ u) \<and> (\<forall>u'. RESPONSE_SIGNATURE_DOMAIN @ u \<noteq> REQUEST_SIGNATURE_DOMAIN @ u')
        \<and> canonical_json (JObj (response_message (broker_identity.truncate request) (brs_status response) (brs_error response) (brs_result response))) = Inr u)"
  using verify_broker_responseD [OF assms] domains_disjoint by metis

definition demo_payload :: message where
  "demo_payload = [(ascii ''workspace'', JStr (ascii ''w1'')), (ascii ''count'', JInt 3)]"

definition demo_identity :: broker_identity where
  "demo_identity = \<lparr> bi_protocol_version = BROKER_PROTOCOL_VERSION, bi_broker_incarnation = ascii ''broker-incarnation-1'',
     bi_database_incarnation = ascii ''database-incarnation-1'', bi_connection_sequence = 7,
     bi_operation_id = ascii ''0123456789abcdef0123456789abcdef'', bi_request_type = ascii ''executor.launch'',
     bi_nonce = ascii ''nonce-0123456789'', bi_payload_digest = ascii (replicate 64 (CHR ''0'')) \<rparr>"

definition demo_signature :: bytes where "demo_signature = replicate 64 5"

definition demo_request :: broker_request where
  "demo_request = broker_identity.extend demo_identity \<lparr> brq_payload = demo_payload \<rparr>"

lemma demo_request_created:
  "is_ok (create_signed_request (\<lambda>_. replicate 64 (CHR ''0'')) (\<lambda>_. demo_signature) BROKER_PROTOCOL_VERSION (bi_broker_incarnation demo_identity)
     (bi_database_incarnation demo_identity) 7 (bi_operation_id demo_identity) (bi_request_type demo_identity) (bi_nonce demo_identity) demo_payload)"
  by code_simp

lemma demo_response_created:
  "is_ok (create_signed_response (\<lambda>_. demo_signature) demo_request (ascii ''ok'') None demo_payload)"
  by code_simp

lemma demo_facts: "TOKEN_PATTERN (bi_broker_incarnation demo_identity)" "TOKEN_PATTERN (bi_database_incarnation demo_identity)"
  "TOKEN_PATTERN (bi_nonce demo_identity)" "OPERATION_ID_PATTERN (bi_operation_id demo_identity)" "DIGEST_PATTERN (ascii (replicate 64 (CHR ''0'')))"
  "code_points (bi_request_type demo_identity)" "python_json (JObj demo_payload)" "python_json (JObj (request_message demo_identity demo_payload))"
  "valid_identity demo_identity" "1 \<le> length (bi_request_type demo_identity) \<and> length (bi_request_type demo_identity) \<le> 64" "length demo_signature = 64"
  apply code_simp apply code_simp apply code_simp apply code_simp apply code_simp apply code_simp apply code_simp apply code_simp apply code_simp apply code_simp apply code_simp done

theorem canonical_json_roundtrip_witness:
  "parse_canonical_json 4096 (bytes_of ''{'' @ [34, 99] @ bytes_of ''ount'' @ [34] @ bytes_of '':3,'' @ [34] @ bytes_of ''workspace'' @ [34] @ bytes_of '':''
     @ [34] @ bytes_of ''w1'' @ [34] @ bytes_of ''}'') = Inr [(ascii ''count'', JInt 3), (ascii ''workspace'', JStr (ascii ''w1''))]"
proof -
  let ?f = "bytes_of ''{'' @ [34, 99] @ bytes_of ''ount'' @ [34] @ bytes_of '':3,'' @ [34] @ bytes_of ''workspace'' @ [34] @ bytes_of '':''
     @ [34] @ bytes_of ''w1'' @ [34] @ bytes_of ''}''"
  have "canonical_json (JObj demo_payload) = Inr ?f" by code_simp
  moreover have "sorted_items demo_payload = [(ascii ''count'', JInt 3), (ascii ''workspace'', JStr (ascii ''w1''))]" by code_simp
  moreover have "length ?f \<le> 4096" by (simp add: bytes_of_def)
  ultimately show ?thesis using canonical_json_roundtrip [of demo_payload ?f 4096] demo_facts(7) by simp
qed

theorem request_roundtrip_witness:
  "\<exists>frame. create_signed_request (\<lambda>_. replicate 64 (CHR ''0'')) (\<lambda>_. demo_signature) BROKER_PROTOCOL_VERSION (bi_broker_incarnation demo_identity)
     (bi_database_incarnation demo_identity) 7 (bi_operation_id demo_identity) (bi_request_type demo_identity) (bi_nonce demo_identity) demo_payload = Inr frame
   \<and> is_ok (parse_signed_request (\<lambda>_. replicate 64 (CHR ''0'')) (\<lambda>s m. s = demo_signature) frame)"
proof -
  obtain frame where f: "create_signed_request (\<lambda>_. replicate 64 (CHR ''0'')) (\<lambda>_. demo_signature) BROKER_PROTOCOL_VERSION (bi_broker_incarnation demo_identity)
     (bi_database_incarnation demo_identity) 7 (bi_operation_id demo_identity) (bi_request_type demo_identity) (bi_nonce demo_identity) demo_payload = Inr frame"
    using demo_request_created by (auto simp: is_ok_iff)
  show ?thesis
    using request_roundtrip [OF f demo_facts(1-4), of "\<lambda>s m. s = demo_signature"] f demo_facts by (auto simp: is_ok_iff)
qed

text \<open>A key whose owner signed one request.\<close>

definition demo_verify :: "bytes \<Rightarrow> bytes \<Rightarrow> bool" where
  "demo_verify sig m \<longleftrightarrow> sig = demo_signature \<and> (\<exists>u. canonical_json (JObj (request_message demo_identity demo_payload)) = Inr u \<and> m = REQUEST_SIGNATURE_DOMAIN @ u)"

lemma demo_frame_parsed:
  assumes "\<And>u. canonical_json (JObj (request_message demo_identity demo_payload)) = Inr u \<Longrightarrow> verify demo_signature (REQUEST_SIGNATURE_DOMAIN @ u)"
  shows "\<exists>frame. parse_signed_request (\<lambda>_. replicate 64 (CHR ''0'')) verify frame = Inr (broker_identity.extend demo_identity \<lparr> brq_payload = sorted_items demo_payload \<rparr>)"
proof -
  let ?h = "\<lambda>_ :: bytes. replicate 64 (CHR ''0'')"
  have c: "create_signed_request ?h (\<lambda>_. demo_signature) BROKER_PROTOCOL_VERSION (bi_broker_incarnation demo_identity)
     (bi_database_incarnation demo_identity) 7 (bi_operation_id demo_identity) (bi_request_type demo_identity) (bi_nonce demo_identity) demo_payload
     = rbind (canonical_json (JObj demo_payload)) (\<lambda>_. rbind (canonical_json (JObj (request_message demo_identity demo_payload)))
         (\<lambda>_. canonical_json (JObj (signed_message (request_message demo_identity demo_payload) demo_signature))))"
    by (simp add: create_signed_request_def payload_digest_def dset_request demo_identity_def Let_def) (cases "canonical_json (JObj demo_payload)"; simp)
  obtain d u frame where p: "canonical_json (JObj demo_payload) = Inr d" "canonical_json (JObj (request_message demo_identity demo_payload)) = Inr u"
    "canonical_json (JObj (signed_message (request_message demo_identity demo_payload) demo_signature)) = Inr frame"
    using demo_request_created unfolding c by (auto simp: is_ok_iff rbind_Inr_iff)
  have "payload_digest ?h (JObj demo_payload) = Inr (bi_payload_digest demo_identity)" using p(1) by (simp add: payload_digest_def demo_identity_def)
  then show ?thesis using parse_signed_requestI [OF p(3,2)] assms [OF p(2)] demo_facts by auto
qed

theorem request_authentic_witness:
  "\<exists>frame request. parse_signed_request (\<lambda>_. replicate 64 (CHR ''0'')) demo_verify frame = Inr request
    \<and> demo_identity = broker_identity.truncate request
    \<and> (\<exists>sig. canonical_json (JObj (signed_message (request_message demo_identity demo_payload) sig)) = Inr frame)"
proof -
  obtain frame where r: "parse_signed_request (\<lambda>_. replicate 64 (CHR ''0'')) demo_verify frame
      = Inr (broker_identity.extend demo_identity \<lparr> brq_payload = sorted_items demo_payload \<rparr>)"
    using demo_frame_parsed [of demo_verify] by (auto simp: demo_verify_def)
  show ?thesis
    using request_authentic [OF r, of "{(demo_identity, demo_payload)}"] r demo_facts(8) by (auto simp: demo_verify_def)
qed

lemma demo_request_fields: "broker_identity.truncate demo_request = demo_identity" "bi_request_type demo_request = bi_request_type demo_identity"
  by (simp_all add: demo_request_def broker_identity.defs)

theorem response_roundtrip_witness:
  "\<exists>frame. create_signed_response (\<lambda>_. demo_signature) demo_request (ascii ''ok'') None demo_payload = Inr frame
    \<and> is_ok (verify_broker_response (\<lambda>s m. s = demo_signature) frame demo_request)"
proof -
  obtain frame where f: "create_signed_response (\<lambda>_. demo_signature) demo_request (ascii ''ok'') None demo_payload = Inr frame"
    using demo_response_created by (auto simp: is_ok_iff)
  have "is_ok (verify_broker_response (\<lambda>s m. s = demo_signature) frame demo_request)"
    using response_roundtrip [OF f, of "\<lambda>s m. s = demo_signature"] demo_facts demo_request_fields by (simp add: is_ok_iff)
  then show ?thesis using f by blast
qed

theorem response_bound_witness:
  "\<exists>frame response. verify_broker_response (\<lambda>s m. s = demo_signature) frame demo_request = Inr response
    \<and> broker_identity.truncate response = demo_identity"
proof -
  obtain frame where f: "create_signed_response (\<lambda>_. demo_signature) demo_request (ascii ''ok'') None demo_payload = Inr frame"
    using demo_response_created by (auto simp: is_ok_iff)
  note t = demo_request_fields
  obtain u where u: "canonical_json (JObj (response_message demo_identity (ascii ''ok'') None demo_payload)) = Inr u"
    "canonical_json (JObj (signed_message (response_message demo_identity (ascii ''ok'') None demo_payload) demo_signature)) = Inr frame"
    and l: "length frame \<le> BROKER_RESPONSE_BYTES_MAX" "valid_outcome (ascii ''ok'') None"
    using f unfolding create_signed_response_iff t by blast
  have v: "is_ok (verify_broker_response (\<lambda>s m. s = demo_signature) frame demo_request)"
    using verify_broker_responseI [OF u(2) l(1) u(1), where request = demo_request and verify = "\<lambda>s m. s = demo_signature"]
      demo_facts l(2) t by (simp add: is_ok_iff)
  then obtain response where "verify_broker_response (\<lambda>s m. s = demo_signature) frame demo_request = Inr response" by (auto simp: is_ok_iff)
  then show ?thesis using response_bound t(1) by metis
qed

lemma utf8_decode_ascii: "\<forall>b \<in> set bs. unat b < 0x80 \<Longrightarrow> utf8_decode bs = Some (map unat bs)"
  by (induction bs) (auto simp: utf8_decode.simps)

subsection \<open>Frames that leave the reader with other errors\<close>

interpretation escaped_json: json_writer escape_char unjoined "\<lambda>_. False" broker_hooks
proof unfold_locales
  show "unjoined s \<Longrightarrow> scan_string (concat (map escape_char s) @ 34 # rest) = Inr (s, rest)" for s rest by (rule scan_ascii)
  show "distinct (map fst kvs) \<Longrightarrow> object_pairs_hook broker_hooks kvs = Inr (JObj kvs)" for kvs by (rule raw_json.pairs_hook)
qed simp

lemma sort_json_False [simp]: "sort_json False v = v"
proof (induction v)
  case (JList xs)
  then show ?case by (simp add: map_idI)
next
  case (JObj kvs)
  then have "map (\<lambda>(k, v). (k, sort_json False v)) kvs = kvs" by (intro map_idI) auto
  then show ?case by (simp add: sort_json.simps)
qed simp_all

lemma utf8_encode_surrogate: "c \<in> set s \<Longrightarrow> 0xD800 \<le> c \<Longrightarrow> c \<le> 0xDFFF \<Longrightarrow> utf8_encode s = None"
proof -
  assume c: "c \<in> set s" "0xD800 \<le> c" "c \<le> 0xDFFF"
  then have "utf8_length s = None" by (induction s) (auto simp: utf8_len_def split: option.splits)
  then show ?thesis by (simp add: utf8_length_encode)
qed

lemma validate_items_stop:
  "list_all (\<lambda>(k, v). k \<noteq> [] \<and> valid_text 128 k \<and> valid_json d v) pre \<Longrightarrow> validate_items d ws = Inl e \<Longrightarrow> validate_items d (pre @ ws) = Inl e"
proof (induction pre)
  case (Cons kv pre)
  obtain k v where kv: "kv = (k, v)" by (cases kv)
  then have "encoded_at_most 128 l k = Inr ()" "validate_json d v = Inr v" for l
    using Cons.prems(1) by (simp_all add: encoded_at_most_Inr validate_json_ok)
  then show ?case using Cons kv by simp
qed simp

lemma surrogate_frame:
  assumes kvs: "kvs = pre @ (k, JStr s) # post" "json_ok unjoined (\<lambda>_. False) (JObj kvs)" "length kvs \<le> 64"
    and pre: "list_all (\<lambda>(k, v). k \<noteq> [] \<and> valid_text 128 k \<and> valid_json 1 v) pre" and k: "k \<noteq> []" "valid_text 128 k"
    and s: "c \<in> set s" "0xD800 \<le> c" "c \<le> 0xDFFF"
    and frame: "utf8_decode frame = Some (dumps False (JObj kvs))" "length frame \<le> BROKER_FRAME_BYTES_MAX"
  shows "parse_canonical_json BROKER_FRAME_BYTES_MAX frame = Inl BrokerUnicodeEncodeError"
proof -
  have "json_loads broker_hooks (dumps False (JObj kvs)) = Inr (JObj kvs)"
    using escaped_json.loads_dumps [OF kvs(2), of False] by (simp add: dumps_gen_ascii)
  moreover have "validate_items 1 ((k, JStr s) # post) = Inl BrokerUnicodeEncodeError"
    using k utf8_encode_surrogate [OF s] encoded_at_most_Inr [of 128 _ k] by (simp add: depth_checked_def encoded_at_most_def [of 4096])
  then have "validate_json 0 (JObj kvs) = Inl BrokerUnicodeEncodeError"
    using kvs(1,3) validate_items_stop [OF pre] by (simp add: depth_checked_def)
  moreover have "frame \<noteq> []" using frame(1) by (auto simp: dumps_gen_ascii dumps_gen_obj utf8_decode.simps)
  ultimately show ?thesis using frame by (simp add: parse_canonical_json_def loads_frame_def)
qed

lemma digits_value_less: "digits_value s < 10 ^ length s" if "\<forall>c \<in> set s. is_digit c"
  using that
proof (induction s rule: rev_induct)
  case (snoc c s)
  then have "digits_value s + 1 \<le> 10 ^ length s" "c - 48 \<le> 9" by (auto simp: is_digit_def Suc_le_eq)
  then have "digits_value s * 10 + (c - 48) < 10 ^ length s * 10" by linarith
  then show ?case by (simp add: digits_value_snoc mult.commute)
qed (simp add: digits_value_def)

lemma nat_text_long: "10 ^ m \<le> n \<Longrightarrow> m < length (nat_text n)"
proof -
  assume "10 ^ m \<le> n"
  moreover have "n < 10 ^ length (nat_text n)" using digits_value_less [of "nat_text n"] nat_text_digits by simp
  ultimately have "(10::nat) ^ m < 10 ^ length (nat_text n)" by (rule le_less_trans)
  then show ?thesis by simp
qed

lemma json_loads_fails:
  assumes "parse_value n h (skip_ws s) = Inl e" "e \<noteq> FuelErr" "take 1 s \<noteq> [0xFEFF]"
  shows "json_loads h s = Inl e"
proof -
  let ?m = "2 * length s + 2"
  have "parse_value ?m h (skip_ws s) \<noteq> Inl FuelErr"
    using parse_progress [of "skip_ws s" ?m h] skip_ws_length [of s] by (auto simp: progress_def)
  then have "parse_value ?m h (skip_ws s) = Inl e"
    using parse_value_mono [of n ?m h "skip_ws s"] parse_value_mono [of ?m n h "skip_ws s"] assms(1,2) by (cases "n \<le> ?m") auto
  then show ?thesis using assms(3) by (simp add: json_loads_def)
qed

text \<open>The members of an object before the one that matters, each followed by a comma.\<close>

definition members_text :: "message \<Rightarrow> utext" where
  "members_text kvs = concat (map (\<lambda>kv. dumps_member escape_char False kv @ [44]) kvs)"

lemma members_read:
  assumes "list_all (\<lambda>(k, v). unjoined k \<and> json_ok unjoined (\<lambda>_. False) v) pre"
  shows "\<exists>n0. \<forall>n \<ge> n0. parse_members (n + length pre) broker_hooks acc (members_text pre @ 34 # rest) = parse_members n broker_hooks (acc @ pre) (34 # rest)"
  using assms
proof (induction pre arbitrary: acc)
  case (Cons kv pre)
  obtain k v where kv: "kv = (k, v)" by (cases kv)
  then have ok: "unjoined k" "json_ok unjoined (\<lambda>_. False) v" using Cons.prems by simp_all
  let ?tail = "members_text pre @ 34 # rest"
  have ws: "skip_ws ?tail = ?tail" by (cases pre) (auto simp: members_text_def dumps_member_def skip_ws_plain)
  obtain n0 where n0: "\<forall>n \<ge> n0. parse_value n broker_hooks (dumps_gen escape_char False v @ 44 # ?tail) = Inr (sort_json False v, 44 # ?tail)"
    using readsD [OF escaped_json.dumps_reads [OF ok(2)], of 44] by blast
  obtain n1 where n1: "\<forall>n \<ge> n1. parse_members (n + length pre) broker_hooks (acc @ [(k, v)]) ?tail = parse_members n broker_hooks ((acc @ [(k, v)]) @ pre) (34 # rest)"
    using Cons.IH [of "acc @ [(k, v)]"] Cons.prems by auto
  have "parse_members (n + length (kv # pre)) broker_hooks acc (members_text (kv # pre) @ 34 # rest) = parse_members n broker_hooks (acc @ kv # pre) (34 # rest)"
    if "max n0 n1 \<le> n" for n
    using escaped_json.dumps_member_parse [OF ok _ n0, of "n + length pre" acc] that n1 ws kv by (simp add: members_text_def)
  then show ?case by blast
qed (simp add: members_text_def)

lemma long_integer_loads:
  assumes pre: "list_all (\<lambda>(k, v). unjoined k \<and> json_ok unjoined (\<lambda>_. False) v) pre" and k: "unjoined k"
    and i: "10 ^ INT_MAX_STR_DIGITS \<le> \<bar>i\<bar>" and rest: "ends_number rest"
  shows "json_loads broker_hooks (123 # members_text pre @ dumps_member escape_char False (k, JInt i) @ rest) = Inl IntDigitsErr"
proof -
  let ?v = "int_text i @ rest" and ?t = "members_text pre @ dumps_member escape_char False (k, JInt i) @ rest"
  have "(10::int) ^ INT_MAX_STR_DIGITS = int (10 ^ INT_MAX_STR_DIGITS)" by simp
  then have "10 ^ INT_MAX_STR_DIGITS \<le> nat \<bar>i\<bar>" using i by linarith
  then have long: "INT_MAX_STR_DIGITS < length (nat_text (nat \<bar>i\<bar>))" by (rule nat_text_long)
  have starts: "int_text i \<noteq> []" "is_digit (hd ?v) \<or> hd ?v = 45 \<and> length ?v > 1 \<and> is_digit (?v ! 1)"
    using escaped_json.number_starts [of i] by (auto simp: nth_append)
  have v: "parse_value (Suc n) broker_hooks ?v = Inl IntDigitsErr" for n
    using parse_value_number [of ?v n broker_hooks] starts long ends_number_plain [OF rest]
    by (simp add: parse_number_def match_int_text int_text_digit_count)
  have "hd ?v \<notin> {32, 9, 10, 13}" using starts(2) by (auto simp: is_digit_def)
  then have ws: "skip_ws ?v = ?v" using starts(1) by (cases ?v) (auto simp: skip_ws_plain)
  have m: "parse_members (Suc (Suc n)) broker_hooks acc (34 # concat (map escape_char k) @ 34 # 58 # ?v) = Inl IntDigitsErr" for n acc
    using scan_ascii [OF k, of "58 # ?v"] v [of n] ws by (simp add: parse_members.simps skip_ws_plain)
  have t: "?t = members_text pre @ 34 # concat (map escape_char k) @ 34 # 58 # ?v" by (simp add: dumps_member_def)
  obtain n0 where "\<forall>n \<ge> n0. parse_members (n + length pre) broker_hooks [] ?t = parse_members n broker_hooks ([] @ pre) (34 # concat (map escape_char k) @ 34 # 58 # ?v)"
    using members_read [OF pre, of "[]"] unfolding t by blast
  then have p: "parse_members (Suc (Suc n0) + length pre) broker_hooks [] ?t = Inl IntDigitsErr" using m by (metis le_SucI le_refl)
  obtain ts where ts: "?t = 34 # ts" unfolding t by (cases pre) (auto simp: members_text_def dumps_member_def)
  then have "parse_value (Suc (Suc (Suc n0) + length pre)) broker_hooks (123 # ?t) = Inl IntDigitsErr"
    using p by (simp add: parse_value.simps skip_ws_plain)
  then show ?thesis by (intro json_loads_fails) (auto simp: skip_ws_plain)
qed

text \<open>C21: Two kinds of malformed frame leave \<^verbatim>\<open>parse_signed_request\<close> with an error that is not a \<^verbatim>\<open>BrokerProtocolError\<close>. A dictionary sent as ASCII-escaped JSON in which a
  member, after valid ones, is a string with a surrogate code point anywhere in it raises \<^verbatim>\<open>UnicodeEncodeError\<close>; and a frame in which, after well-formed members, an integer of more
  than 4,300 digits stands under any key, whatever follows it, raises the \<^verbatim>\<open>ValueError\<close> of \<^verbatim>\<open>int\<close>.\<close>

theorem malformed_frame_errors:
  assumes "length frame \<le> 65536"
  shows "(utf8_decode frame = Some (dumps False (JObj (pre @ (k, JStr s) # post))) \<and> json_ok unjoined (\<lambda>_. False) (JObj (pre @ (k, JStr s) # post))
      \<and> length (pre @ (k, JStr s) # post) \<le> 64 \<and> list_all (\<lambda>(k, v). k \<noteq> [] \<and> valid_text 128 k \<and> valid_json 1 v) pre \<and> k \<noteq> [] \<and> valid_text 128 k
      \<and> (\<exists>c \<in> set s. 0xD800 \<le> c \<and> c \<le> 0xDFFF) \<longrightarrow>
        parse_signed_request hexdigest verify frame = Inl BrokerUnicodeEncodeError)
    \<and> (utf8_decode frame = Some (123 # members_text pre @ dumps_member escape_char False (k, JInt i) @ rest)
      \<and> list_all (\<lambda>(k, v). unjoined k \<and> json_ok unjoined (\<lambda>_. False) v) pre \<and> unjoined k \<and> 10 ^ INT_MAX_STR_DIGITS \<le> \<bar>i\<bar> \<and> ends_number rest \<longrightarrow>
        parse_signed_request hexdigest verify frame = Inl BrokerIntDigitsError)"
proof (intro conjI impI)
  assume a: "utf8_decode frame = Some (dumps False (JObj (pre @ (k, JStr s) # post))) \<and> json_ok unjoined (\<lambda>_. False) (JObj (pre @ (k, JStr s) # post))
      \<and> length (pre @ (k, JStr s) # post) \<le> 64 \<and> list_all (\<lambda>(k, v). k \<noteq> [] \<and> valid_text 128 k \<and> valid_json 1 v) pre \<and> k \<noteq> [] \<and> valid_text 128 k
      \<and> (\<exists>c \<in> set s. 0xD800 \<le> c \<and> c \<le> 0xDFFF)"
  then obtain c where c: "c \<in> set s" "0xD800 \<le> c" "c \<le> 0xDFFF" by blast
  have "parse_canonical_json BROKER_FRAME_BYTES_MAX frame = Inl BrokerUnicodeEncodeError"
    using a assms by (intro surrogate_frame [OF refl _ _ _ _ _ c, of pre k post]) (simp_all add: BROKER_FRAME_BYTES_MAX_def)
  then show "parse_signed_request hexdigest verify frame = Inl BrokerUnicodeEncodeError" by (simp add: parse_signed_request_def)
next
  assume b: "utf8_decode frame = Some (123 # members_text pre @ dumps_member escape_char False (k, JInt i) @ rest)
      \<and> list_all (\<lambda>(k, v). unjoined k \<and> json_ok unjoined (\<lambda>_. False) v) pre \<and> unjoined k \<and> 10 ^ INT_MAX_STR_DIGITS \<le> \<bar>i\<bar> \<and> ends_number rest"
  then have "json_loads broker_hooks (123 # members_text pre @ dumps_member escape_char False (k, JInt i) @ rest) = Inl IntDigitsErr"
    by (intro long_integer_loads) simp_all
  moreover have "frame \<noteq> []" using b by (auto simp: utf8_decode.simps)
  ultimately show "parse_signed_request hexdigest verify frame = Inl BrokerIntDigitsError"
    using b assms by (simp add: parse_signed_request_def parse_canonical_json_def loads_frame_def BROKER_FRAME_BYTES_MAX_def)
qed

lemma utf8_decode_of_nat: "\<forall>c \<in> set t. c < 0x80 \<Longrightarrow> utf8_decode (map of_nat t) = Some t"
proof -
  assume t: "\<forall>c \<in> set t. c < 0x80"
  then have "map unat (map of_nat t :: bytes) = t" by (induction t) (auto simp: unat_of_nat)
  moreover have "\<forall>b \<in> set (map of_nat t :: bytes). unat b < 0x80" using t by (auto simp: unat_of_nat)
  ultimately show ?thesis using utf8_decode_ascii by metis
qed

definition long_integer_frame :: bytes where
  "long_integer_frame = map of_nat (123 # dumps_member escape_char False (ascii ''a'', JInt (10 ^ INT_MAX_STR_DIGITS)) @ [125])"

lemma long_integer_frame_text:
  "utf8_decode long_integer_frame = Some (123 # dumps_member escape_char False (ascii ''a'', JInt (10 ^ INT_MAX_STR_DIGITS)) @ [125])"
  "length long_integer_frame \<le> 65536"
proof -
  let ?n = "10 ^ INT_MAX_STR_DIGITS :: nat" and ?t = "123 # dumps_member escape_char False (ascii ''a'', JInt (10 ^ INT_MAX_STR_DIGITS)) @ [125]"
  have i: "int_text (10 ^ INT_MAX_STR_DIGITS) = nat_text ?n" by (simp add: int_text_def nat_power_eq)
  have "\<forall>c \<in> set (nat_text ?n). c < 0x80" using nat_text_digits by (fastforce simp: is_digit_def)
  then have t: "\<forall>c \<in> set ?t. c < 0x80" by (auto simp: dumps_member_def i ascii_def escape_char_def)
  then show "utf8_decode long_integer_frame = Some ?t" unfolding long_integer_frame_def by (rule utf8_decode_of_nat)
  have "?n < 10 ^ Suc INT_MAX_STR_DIGITS" by simp
  then have "length (nat_text ?n) \<le> max 1 (Suc INT_MAX_STR_DIGITS)" by (rule length_nat_text)
  moreover have "max 1 (Suc INT_MAX_STR_DIGITS) = 4301" by (simp add: INT_MAX_STR_DIGITS_def)
  ultimately have "length (nat_text ?n) \<le> 4301" by simp
  then show "length long_integer_frame \<le> 65536" by (simp add: long_integer_frame_def dumps_member_def i ascii_def escape_char_def)
qed

theorem malformed_frame_errors_witness:
  "parse_signed_request (\<lambda>_. []) (\<lambda>s m. True) [123, 34, 97, 34, 58, 34, 92, 117, 100, 56, 48, 48, 34, 125] = Inl BrokerUnicodeEncodeError
    \<and> parse_signed_request (\<lambda>_. []) (\<lambda>s m. True) long_integer_frame = Inl BrokerIntDigitsError"
proof -
  let ?f = "[123, 34, 97, 34, 58, 34, 92, 117, 100, 56, 48, 48, 34, 125] :: bytes" and ?kvs = "[] @ (ascii ''a'', JStr [0xD800]) # []"
  have d1: "utf8_decode ?f = Some (dumps False (JObj ?kvs))" by code_simp
  have d2: "json_ok unjoined (\<lambda>_. False) (JObj ?kvs)" by code_simp
  have d3: "valid_text 128 (ascii ''a'')" by (simp add: valid_text_def ascii_def utf8_char_def)
  have e: "ends_number [125]" "unjoined (ascii ''a'')" "members_text [] = []" by (simp_all add: ends_number_def members_text_def ascii_def)
  have "parse_signed_request (\<lambda>_. []) (\<lambda>s m. True) ?f = Inl BrokerUnicodeEncodeError"
    using malformed_frame_errors [of ?f "[]" "ascii ''a''" "[0xD800]" "[]" "\<lambda>_. []" "\<lambda>s m. True"] d1 d2 d3
    by (auto simp del: dumps.simps) (simp_all add: ascii_def)
  moreover have "parse_signed_request (\<lambda>_. []) (\<lambda>s m. True) long_integer_frame = Inl BrokerIntDigitsError"
    using malformed_frame_errors [OF long_integer_frame_text(2), THEN conjunct2, of "[]" "ascii ''a''" "10 ^ INT_MAX_STR_DIGITS" "[125]"] long_integer_frame_text(1) e
    by simp
  ultimately show ?thesis by (rule conjI)
qed
end
