(* ===== verification/Broker_Journal_Refinement.thy ===== *)
theory Broker_Journal_Refinement
  imports Broker_Lifecycle Broker_Protocol_Properties
begin

section \<open>The journal implements the lifecycle\<close>

text \<open>
  The invariant \<open>journal_ok\<close> of the broker journal; every query answers from the abstract state of the operation, and every
  operation does to the journal what its specification does to that state, whatever becomes of the commit.
\<close>

subsection \<open>Stored frames\<close>

interpretation raw_default: json_writer escape_raw code_points "\<lambda>_. False" "default_hooks float_repr" for float_repr
proof unfold_locales
  show "scan_string (concat (map escape_raw s) @ 34 # rest) = Inr (s, rest)" for s rest by (rule scan_raw)
  show "distinct (map fst kvs) \<Longrightarrow> object_pairs_hook (default_hooks float_repr) kvs = Inr (JObj kvs)" for kvs
    using foldl_dset_distinct [of kvs "[]"] by (simp add: default_hooks_def)
qed simp

lemma stored_json_ok:
  assumes "canonical_json (JObj kvs) = Inr b" "python_json (JObj kvs)" "length b \<le> maximum"
  shows "validate_stored_json (Some b) maximum = Inr (sorted_items kvs)"
proof -
  note tx = canonical_json_text [OF assms(1,2)]
  have l: "journal_loads_frame b = Inr (JObj (sorted_items kvs))"
    using raw_default.loads_dumps [OF tx(1), of "\<lambda>t. t" True] tx(2) by (simp add: journal_loads_frame_def sort_json_sorted_items del: dumps_gen.simps)
  have "b \<noteq> []" using parse_canonical [OF assms] by (auto simp: parse_canonical_json_def)
  moreover have "canonical_json (JObj (sorted_items kvs)) = Inr b"
    using canonical_json_cong [OF assms(1)] by (simp add: sort_json_idem flip: sort_json_sorted_items)
  ultimately show ?thesis using l assms(3) by (simp add: validate_stored_json_def)
qed

lemma python_json_signed: "python_json (JObj (request_message i payload)) \<Longrightarrow> python_json (JObj (signed_message (request_message i payload) sig))"
  using request_message_dict(1) [of i payload sig] by (simp add: signed_message_def ascii_points encode_points)

lemma accepted_event_ok:
  assumes "parse_signed_request hexdigest verify frame = Inr request"
  shows "event_ok (accepted_event request frame)"
proof -
  define i payload where ip: "i = broker_identity.truncate request" "payload = brq_payload request"
  obtain sig where s: "valid_identity i" "canonical_json (JObj (signed_message (request_message i payload) sig)) = Inr frame"
    "python_json (JObj (request_message i payload))"
    using parse_signed_requestD [OF assms] unfolding ip by blast
  let ?m = "signed_message (request_message i payload) sig"
  have v: "validate_stored_json (Some frame) BROKER_FRAME_BYTES_MAX = Inr (sorted_items ?m)"
    using stored_json_ok [OF s(2) python_json_signed [OF s(3)]] s(2) by (simp add: canonical_json_iff)
  have get: "dget (sorted_items ?m) k = map_option (sort_json True) (dget ?m k)" for k
    by (rule dget_sorted_items [OF request_message_dict(1)])
  have f: "dget (sorted_items ?m) (ascii ''database_incarnation'') = Some (JStr (bi_database_incarnation request))"
    "dget (sorted_items ?m) (ascii ''operation_id'') = Some (JStr (bi_operation_id request))"
    "dget (sorted_items ?m) (ascii ''request_type'') = Some (JStr (bi_request_type request))"
    "dget (sorted_items ?m) (ascii ''nonce'') = Some (JStr (bi_nonce request))"
    "dget (sorted_items ?m) (ascii ''payload_digest'') = Some (JStr (bi_payload_digest request))"
    "dget (sorted_items ?m) (ascii ''connection_sequence'') = Some (JInt (bi_connection_sequence request))"
    unfolding get by (simp_all add: signed_message_def request_message_def ip broker_identity.defs)
  have "DIGEST_PATTERN (bi_payload_digest request)" using s(1) by (simp add: valid_identity_def ip broker_identity.defs)
  then show ?thesis
    using v f by (simp add: event_ok_def check_columns_def accepted_event_def empty_event_def validate_accepted_def journal_identity_def json_text_is_def json_int_is_def)
qed

definition response_frame_ok :: "bytes \<Rightarrow> bool" where
  "response_frame_ok f \<longleftrightarrow> (\<exists>sign request st e r. create_signed_response sign request st e r = Inr f
     \<and> identity_points (broker_identity.truncate request) \<and> python_json (JObj r) \<and> (\<forall>x. e = Some x \<longrightarrow> code_points x))"

lemma response_frame_stored:
  assumes "response_frame_ok f"
  shows "is_ok (validate_stored_json (Some f) BROKER_RESPONSE_BYTES_MAX)"
proof -
  obtain sign request st e r where c: "create_signed_response sign request st e r = Inr f"
    and p: "identity_points (broker_identity.truncate request)" "python_json (JObj r)" "\<forall>x. e = Some x \<longrightarrow> code_points x"
    using assms by (auto simp: response_frame_ok_def)
  let ?i = "broker_identity.truncate request"
  obtain u where u: "canonical_json (JObj (signed_message (response_message ?i st e r) (sign (RESPONSE_SIGNATURE_DOMAIN @ u)))) = Inr f"
    and o: "valid_outcome st e" "length f \<le> BROKER_RESPONSE_BYTES_MAX"
    using c unfolding create_signed_response_iff by blast
  have "python_json (JObj (signed_message (response_message ?i st e r) (sign (RESPONSE_SIGNATURE_DOMAIN @ u))))"
    using response_message_dict(1) p o(1)
    by (auto simp: identity_points_def signed_message_def response_message_def ascii_points encode_points valid_outcome_def)
  then show ?thesis using stored_json_ok [OF u _ o(2)] by (simp add: is_ok_iff)
qed

subsection \<open>Invariant\<close>

definition accepted_rows :: "utext \<Rightarrow> journal \<Rightarrow> journal_event list" where
  "accepted_rows d db = filter (\<lambda>e. fst (je_identity e) = d \<and> je_type e = AcceptedEvent) db"

definition journal_ok :: "journal \<Rightarrow> bool" where
  "journal_ok db \<longleftrightarrow> (\<forall>e \<in> set db. event_ok e) \<and> (\<forall>i. op_of i db \<noteq> None)
     \<and> (\<forall>d. sorted_wrt (\<lambda>e f. the (je_sequence e) < the (je_sequence f)) (accepted_rows d db) \<and> distinct (map je_nonce (accepted_rows d db)))"

lemma journal_opens_ok: "journal_ok db \<Longrightarrow> validate_events db = Inr ()"
  by (rule validate_events_ok) (simp_all add: journal_ok_def)

lemma accepted_columns: "event_ok e \<Longrightarrow> je_type e = AcceptedEvent \<Longrightarrow> \<exists>n k. je_nonce e = Some n \<and> je_sequence e = Some k"
  by (auto simp: event_ok_def check_columns_def)

lemma exact_match_conflict: "check_columns e \<Longrightarrow> exact_match e f \<Longrightarrow> index_conflict f e"
  by (cases "je_type e") (auto simp: exact_match_def index_conflict_def)

lemma exact_match_refl: "exact_match e e"
  by (simp add: exact_match_def split: journal_event_type.splits)

definition appendable :: "journal_event \<Rightarrow> journal \<Rightarrow> bool" where
  "appendable e db \<longleftrightarrow> Option.bind (op_of (je_identity e) db) (\<lambda>s. op_step s e) \<noteq> None \<and>
     (je_type e = AcceptedEvent \<longrightarrow> fresh_acceptance e db)"

lemma insert_appendable: "journal_ok db \<Longrightarrow> event_ok e \<Longrightarrow> insert_journal e db = (if appendable e db then Some (db @ [e]) else None)"
proof -
  assume ok: "journal_ok db" "event_ok e"
  then obtain s where s: "op_of (je_identity e) db = Some s" unfolding journal_ok_def by blast
  show ?thesis using insert_journal_iff [OF _ event_ok_columns [OF ok(2)] s] ok(1) s by (cases "insert_journal e db") (auto simp: journal_ok_def appendable_def)
qed

lemma journal_ok_append:
  assumes "journal_ok db" "event_ok e" "appendable e db"
    and "je_type e = AcceptedEvent \<Longrightarrow> \<forall>f \<in> set db. je_type f = AcceptedEvent \<and> same_database f e \<longrightarrow> the (je_sequence f) < the (je_sequence e)"
  shows "journal_ok (db @ [e])"
  using assms
  by (auto simp: journal_ok_def op_of_def appendable_def fresh_acceptance_def accepted_rows_def sorted_wrt_append same_database_def)

text \<open>An append either stores the event and succeeds, or changes nothing and fails.\<close>

lemma append_transaction_spec:
  assumes ok: "journal_ok db" "event_ok e"
    and seq: "je_type e = AcceptedEvent \<Longrightarrow> \<forall>f \<in> set db. je_type f = AcceptedEvent \<and> same_database f e \<longrightarrow> the (je_sequence f) < the (je_sequence e)"
  shows "append_transaction c e db =
    (if \<not> appendable e db then (Inl sync_failed, db)
     else if c = Uncertain False then (Inl (JournalCommitAbsent ''broker journal commit is absent after verification''), db)
     else (Inr (), db @ [e]))"
proof (cases "appendable e db")
  case True
  have "\<not> find_exact e db"
  proof
    assume "find_exact e db"
    then have "list_ex (\<lambda>f. index_conflict f e) db" using exact_match_conflict ok(2) by (auto simp: find_exact_def list_ex_iff event_ok_def)
    then show False using insert_appendable [OF ok] True by (auto simp: insert_journal_def split: if_splits)
  qed
  moreover have "validate_events (db @ [e]) = Inr ()" using journal_ok_append [OF ok True seq] journal_opens_ok by blast
  moreover have "find_exact e (db @ [e])" by (simp add: find_exact_def exact_match_refl)
  ultimately show ?thesis
    using True insert_appendable [OF ok] journal_opens_ok [OF ok(1)]
    by (auto simp: append_transaction_def confirm_appended_def Let_def split: commit_outcome.splits)
qed (simp add: append_transaction_def insert_appendable [OF ok])

lemma append_transaction_ok:
  assumes "journal_ok db" "event_ok e" "je_type e = AcceptedEvent \<Longrightarrow> \<forall>f \<in> set db. je_type f = AcceptedEvent \<and> same_database f e \<longrightarrow> the (je_sequence f) < the (je_sequence e)"
  shows "journal_ok (snd (append_transaction c e db))"
  using journal_ok_append [OF assms(1,2) _ assms(3)] assms(1) append_transaction_spec [OF assms, of c] by simp

subsection \<open>Queries\<close>

lemma journal_ok_op: "journal_ok db \<Longrightarrow> \<exists>s. op_of i db = Some s"
  unfolding journal_ok_def by blast

lemma find_conj: "find (\<lambda>e. A e \<and> B e) xs = find B (filter A xs)"
  by (induction xs) auto

lemma rev_events: "filter (\<lambda>e. je_identity e = i) (rev db) = rev (events_of i db)"
  by (simp add: events_of_def rev_filter)

fun op_stage :: "op_state \<Rightarrow> string option" where
  "op_stage (OpStarted t b st) = Some st"
| "op_stage (OpDone t b st) = Some st"
| "op_stage (OpTerminal t b u st f) = Some st"
| "op_stage _ = None"

fun terminal_view :: "op_state \<Rightarrow> journal_decision option" where
  "terminal_view (OpTerminal t b u st f) =
     Some ((decision (if u \<noteq> None then ''unresolved'' else ''terminal''))\<lparr> jd_stage := Some st, jd_response_frame := Some f \<rparr>)"
| "terminal_view _ = None"

definition op_view :: "op_state \<Rightarrow> journal_decision" where
  "op_view s =
     (case terminal_view s of
        Some d \<Rightarrow> d
      | None \<Rightarrow>
          (case op_claim s of
             None \<Rightarrow> decision ''accepted''
           | Some (t, b) \<Rightarrow> (decision ''in_flight'')\<lparr> jd_stage := op_stage s, jd_owner_broker_incarnation := Some b \<rparr>))"

lemma op_run_Some_snoc: "op_run (h @ [e]) = Some s \<Longrightarrow> \<exists>s0. op_run h = Some s0 \<and> op_step s0 e = Some s"
  by (cases "op_run h") auto

lemma last_started:
  "op_run h = Some s \<Longrightarrow> (case find (\<lambda>e. je_type e = StageStarted) (rev h) of None \<Rightarrow> None | Some row \<Rightarrow> je_stage row) = op_stage s"
proof (induction h arbitrary: s rule: rev_induct)
  case (snoc e h)
  then obtain s0 where s0: "op_run h = Some s0" "op_step s0 e = Some s" using op_run_Some_snoc by blast
  have "op_stage s = (if je_type e = StageStarted then je_stage e else op_stage s0)"
    using s0(2) by (auto simp: op_step_def split: journal_event_type.splits op_state.splits option.splits if_splits)
  then show ?case using snoc.IH [OF s0(1)] by simp
qed auto

lemma last_terminal:
  assumes "op_run h = Some s" "\<forall>f \<in> set h. event_ok f"
  shows "(case find is_terminal (rev h) of None \<Rightarrow> Inr None | Some row \<Rightarrow>
      (case je_response_frame row of None \<Rightarrow> Inl sync_failed
       | Some frame \<Rightarrow> Inr (Some ((decision (if je_type row = StageUnresolved then ''unresolved'' else ''terminal''))
           \<lparr> jd_stage := je_stage row, jd_response_frame := Some frame \<rparr>)))) = Inr (terminal_view s)"
proof (cases h rule: rev_cases)
  case Nil
  then show ?thesis using assms(1) by auto
next
  case (snoc k e)
  then obtain s0 where s0: "op_run k = Some s0" "op_step s0 e = Some s" using op_run_Some_snoc assms(1) by blast
  show ?thesis
  proof (cases "is_terminal e")
    case True
    then consider "je_type e = StageOutcome" | "je_type e = StageUnresolved" by (auto simp: is_terminal_def)
    then obtain t b u st f where "s = OpTerminal t b u st f" "u \<noteq> None \<longleftrightarrow> je_type e = StageUnresolved" "je_stage e = Some st" "je_response_frame e = Some f"
      using s0(2) True by cases (auto simp: op_step_def split: op_state.splits if_splits)
    then show ?thesis using snoc True by simp
  next
    case False
    then have "\<not> op_ended s" using s0(2) by (cases s0; cases "je_type e") (auto simp: op_step_def is_terminal_def split: option.splits if_splits)
    moreover have "answers h s" using op_run_answers assms(1) by blast
    ultimately have "find is_terminal (rev h) = None" by (auto simp: answers_def find_None_iff)
    then show ?thesis using \<open>\<not> op_ended s\<close> by (cases s) auto
  qed
qed

lemma op_step_ended: "op_step s e = Some s' \<Longrightarrow> \<not> op_ended s"
  by (cases s; cases "je_type e") (auto simp: op_step_def)

lemma unresolved_recorded:
  assumes "op_run h = Some s" "\<forall>f \<in> set h. je_identity f = i"
  shows "list_ex (exact_match (unresolved_event i t st reason f)) h \<longleftrightarrow> (\<exists>b. s = OpTerminal t b (Some reason) st f)"
proof (cases h rule: rev_cases)
  case Nil
  then show ?thesis using assms(1) by auto
next
  case (snoc k e)
  then obtain s0 where s0: "op_run k = Some s0" "op_step s0 e = Some s" using op_run_Some_snoc assms(1) by blast
  have "\<not> (\<exists>x \<in> set k. is_terminal x)" using op_run_answers [OF s0(1)] op_step_ended [OF s0(2)] by (simp add: answers_def)
  then have "\<not> list_ex (exact_match (unresolved_event i t st reason f)) k"
    by (auto simp: list_ex_iff exact_match_def unresolved_event_def empty_event_def is_terminal_def)
  moreover have "exact_match (unresolved_event i t st reason f) e \<longleftrightarrow> (\<exists>b. s = OpTerminal t b (Some reason) st f)"
    using s0(2) assms(2) snoc
    by (cases s0; cases "je_type e") (auto simp: op_step_def exact_match_def unresolved_event_def empty_event_def split: option.splits if_splits)
  ultimately show ?thesis using snoc by simp
qed

lemma journal_terminal_spec:
  assumes "journal_ok db" "op_of i db = Some s"
  shows "journal_terminal i db = Inr (terminal_view s)"
  unfolding journal_terminal_def find_conj rev_events
  by (rule last_terminal) (use assms in \<open>auto simp: op_of_def journal_ok_def set_events_of\<close>)

lemma find_claim_spec:
  assumes "journal_ok db" "op_of i db = Some s"
  shows "case op_claim s of None \<Rightarrow> find_claim i db = None
    | Some (t, b) \<Rightarrow> (\<exists>claim. find_claim i db = Some claim \<and> je_owner_token claim = Some t \<and> je_broker_incarnation claim = Some b)"
proof -
  let ?h = "events_of i db"
  have ok: "\<forall>f \<in> set ?h. event_ok f" using assms(1) by (auto simp: journal_ok_def set_events_of)
  have c: "claims_in ?h = set_option (op_claim s)" using op_run_answers assms(2) by (auto simp: op_of_def answers_def)
  have f: "find_claim i db = find (\<lambda>e. je_type e = LifecycleClaimed) ?h" by (simp add: find_claim_def find_conj events_of_def)
  show ?thesis
  proof (cases "find_claim i db")
    case None
    then have "claims_in ?h = {}" using f claim_queries(2) [OF ok] by (auto simp: find_None_iff)
    then show ?thesis using c None by (auto split: option.splits)
  next
    case (Some e)
    then have "find (\<lambda>e. je_type e = LifecycleClaimed) ?h = Some e" using f by simp
    from find_SomeD [OF this] have e: "e \<in> set ?h" "je_type e = LifecycleClaimed" by simp_all
    have "check_columns e" using ok e(1) event_ok_columns by blast
    from columns_ok(1) [OF this e(2)] obtain t b where tb: "je_owner_token e = Some t" "je_broker_incarnation e = Some b" by blast
    then have "(t, b) \<in> claims_in ?h" using e by (auto simp: claims_in_def)
    then have "op_claim s = Some (t, b)" using c by (cases "op_claim s") auto
    then show ?thesis using Some tb by simp
  qed
qed

lemma journal_status_spec:
  assumes "journal_ok db" "op_of (journal_identity request) db = Some s"
  shows "journal_status request db = Inr (op_view s)"
proof -
  let ?i = "journal_identity request"
  have "find (\<lambda>e. je_identity e = ?i \<and> je_type e = StageStarted) (rev db) = find (\<lambda>e. je_type e = StageStarted) (rev (events_of ?i db))"
    by (simp add: find_conj rev_events)
  then have "(case find (\<lambda>e. je_identity e = ?i \<and> je_type e = StageStarted) (rev db) of None \<Rightarrow> None | Some row \<Rightarrow> je_stage row) = op_stage s"
    using last_started assms(2) by (simp add: op_of_def)
  then show ?thesis
    using journal_opens_ok [OF assms(1)] journal_terminal_spec [OF assms] find_claim_spec [OF assms]
    by (auto simp: journal_status_def op_view_def Let_def split: option.splits prod.splits)
qed

fun op_progress :: "op_state \<Rightarrow> (string \<times> bool) option" where
  "op_progress (OpClaimed t b) = Some (''prepare'', False)"
| "op_progress (OpStarted t b st) = Some (st, True)"
| "op_progress (OpDone t b st) = Some (the (next_stage st), False)"
| "op_progress _ = None"

lemma set_map_filter: "set (List.map_filter f xs) = {y. \<exists>x \<in> set xs. f x = Some y}"
  by (force simp: List.map_filter_def)

lemma stage_progress_spec:
  assumes "journal_ok db" "op_of i db = Some s" "op_progress s = Some p"
  shows "stage_progress i db = p"
proof -
  let ?h = "events_of i db"
  have a: "answers ?h s" using op_run_answers assms(2) by (simp add: op_of_def)
  have ok: "\<forall>f \<in> set ?h. event_ok f" using assms(1) by (auto simp: journal_ok_def set_events_of)
  have s: "set (List.map_filter je_stage (filter (\<lambda>e. je_type e = StageStarted) (filter (\<lambda>e. je_identity e = i \<and> je_type e \<in> {StageStarted, StageOutcome}) db))) = {st. \<exists>t. (st, t) \<in> starts_in ?h}"
    using start_query [OF ok] by (auto simp: set_map_filter set_events_of)
  have c: "set (List.map_filter je_stage (filter (\<lambda>e. je_type e = StageOutcome) (filter (\<lambda>e. je_identity e = i \<and> je_type e \<in> {StageStarted, StageOutcome}) db))) = completed_in ?h"
  proof -
    have "\<not> (\<exists>e \<in> set ?h. is_terminal e)" using a assms(3) by (cases s) (auto simp: answers_def)
    then have "\<forall>e \<in> set ?h. je_type e \<noteq> StageUnresolved" by (auto simp: is_terminal_def)
    then show ?thesis by (auto simp: set_map_filter set_events_of completed_in_def)
  qed
  show ?thesis unfolding stage_progress_def Let_def s c
    using a assms(3) by (cases s) (auto simp: answers_def stage_defs split: if_splits)
qed

definition incomplete_of :: "journal \<Rightarrow> journal_event \<Rightarrow> incomplete_lifecycle option" where
  "incomplete_of db a =
     (case (je_request_frame a, op_of (je_identity a) db) of
        (Some frame, Some s) \<Rightarrow>
          (case (op_claim s, op_progress s) of
             (Some (t, b), Some (st, started)) \<Rightarrow> Some \<lparr> il_request_frame = frame, il_owner_token = t, il_stage = st, il_stage_started = started \<rparr>
           | _ \<Rightarrow> None)
      | _ \<Rightarrow> None)"

lemma map_filter_cong: "(\<And>x. x \<in> set xs \<Longrightarrow> f x = g x) \<Longrightarrow> List.map_filter f xs = List.map_filter g xs"
  by (auto simp: List.map_filter_def intro!: map_cong filter_cong)

lemma incomplete_spec:
  assumes "journal_ok db"
  shows "incomplete_lifecycles db = Inr (List.map_filter (\<lambda>a. if je_type a = AcceptedEvent then incomplete_of db a else None) db)"
  unfolding incomplete_lifecycles_def journal_opens_ok [OF assms] rbind.simps Inr_Inl_False sum.inject
proof (rule map_filter_cong)
  fix a assume a: "a \<in> set db"
  obtain s where s: "op_of (je_identity a) db = Some s" using journal_ok_op [OF assms] by blast
  have t: "list_ex (\<lambda>e. je_identity e = je_identity a \<and> is_terminal e) db \<longleftrightarrow> op_ended s"
    using op_run_answers s unfolding list_ex_events by (auto simp: op_of_def answers_def)
  show "(if je_type a = AcceptedEvent \<and> \<not> list_ex (\<lambda>e. je_identity e = je_identity a \<and> is_terminal e) db then
         (case (je_request_frame a, find_claim (je_identity a) db) of
            (Some frame, Some claim) \<Rightarrow>
              (case (je_owner_token claim, stage_progress (je_identity a) db) of
                 (Some owner, stage, stage_started) \<Rightarrow>
                   Some \<lparr> il_request_frame = frame, il_owner_token = owner, il_stage = stage, il_stage_started = stage_started \<rparr>
               | _ \<Rightarrow> None)
          | _ \<Rightarrow> None)
       else None) = (if je_type a = AcceptedEvent then incomplete_of db a else None)"
    unfolding t using find_claim_spec [OF assms s] stage_progress_spec [OF assms s] s
    by (cases s) (auto simp: incomplete_of_def split: option.splits prod.splits)
qed

subsection \<open>Operations against the specification\<close>

definition spec_append :: "commit_outcome \<Rightarrow> journal_event \<Rightarrow> op_state \<Rightarrow> (journal_error + unit) \<times> op_state" where
  "spec_append c e s =
     (case op_step s e of
        Some s' \<Rightarrow>
          if \<not> check_columns e then (Inl sync_failed, s)
          else if c = Uncertain False then (Inl (JournalCommitAbsent ''broker journal commit is absent after verification''), s)
          else (Inr (), s')
      | None \<Rightarrow> (Inl sync_failed, s))"

definition spec_claim :: "commit_outcome \<Rightarrow> operation \<Rightarrow> utext \<Rightarrow> utext \<Rightarrow> op_state \<Rightarrow> (journal_error + journal_decision) \<times> op_state" where
  "spec_claim c i t b s =
     (if \<not> (TOKEN_PATTERN t \<and> TOKEN_PATTERN b) then (Inl (JournalValueError ''broker lifecycle owner is invalid''), s)
      else case (terminal_view s, op_claim s) of
        (Some d, _) \<Rightarrow> (Inr d, s)
      | (None, Some (t', b')) \<Rightarrow> (Inr ((decision ''in_flight'')\<lparr> jd_owner_broker_incarnation := Some b' \<rparr>), s)
      | (None, None) \<Rightarrow>
          (case spec_append c (claimed_event i b t) s of
             (r, s') \<Rightarrow> (rbind r (\<lambda>_. Inr ((decision ''claimed'')\<lparr> jd_owner_broker_incarnation := Some b \<rparr>)), s')))"

definition spec_begin :: "commit_outcome \<Rightarrow> operation \<Rightarrow> utext \<Rightarrow> string \<Rightarrow> op_state \<Rightarrow> (journal_error + unit) \<times> op_state" where
  "spec_begin c i t st s =
     (if st \<notin> set STAGES then (Inl (JournalValueError ''broker lifecycle stage is invalid''), s) else spec_append c (started_event i t st) s)"

definition spec_outcome ::
    "commit_outcome \<Rightarrow> operation \<Rightarrow> utext \<Rightarrow> string \<Rightarrow> string \<Rightarrow> utext option \<Rightarrow> bytes option \<Rightarrow> op_state \<Rightarrow> (journal_error + unit) \<times> op_state" where
  "spec_outcome c i t st su er rf s =
     (if st \<notin> set STAGES \<or> su \<notin> set (STAGE_STATUSES st) then (Inl (JournalValueError ''broker lifecycle outcome is invalid''), s)
      else spec_append c (outcome_event i t st su er rf) s)"

definition spec_unresolved ::
    "commit_outcome \<Rightarrow> operation \<Rightarrow> utext \<Rightarrow> string \<Rightarrow> string \<Rightarrow> bytes \<Rightarrow> op_state \<Rightarrow> (journal_error + unit) \<times> op_state" where
  "spec_unresolved c i t st reason f s =
     (if st \<notin> set STAGES \<or> reason \<notin> set UNRESOLVED_REASONS then (Inl (JournalValueError ''unresolved lifecycle outcome is invalid''), s)
      else case s of
        OpTerminal t' b u st' f' \<Rightarrow>
          (if t' = t \<and> u = Some reason \<and> st' = st \<and> f' = f then Inr () else Inl (JournalSyncError ''broker journal terminal state is immutable''), s)
      | _ \<Rightarrow> spec_append c (unresolved_event i t st reason f) s)"

definition refines :: "operation \<Rightarrow> journal \<Rightarrow> 'r \<times> journal \<Rightarrow> 'r \<times> op_state \<Rightarrow> bool" where
  "refines i db p q \<longleftrightarrow> fst p = fst q \<and> op_of i (snd p) = Some (snd q) \<and> (\<forall>j. j \<noteq> i \<longrightarrow> op_of j (snd p) = op_of j db)"

lemma op_of_append: "op_of i (db @ [e]) = (if je_identity e = i then Option.bind (op_of i db) (\<lambda>s. op_step s e) else op_of i db)"
  by (simp add: op_of_def)

lemma insert_unchecked: "\<not> check_columns e \<Longrightarrow> insert_journal e db = None"
  by (simp add: insert_journal_def)

lemma append_transaction_refines:
  assumes "journal_ok db" "event_ok e \<or> \<not> check_columns e" "op_of (je_identity e) db = Some s" "je_type e \<noteq> AcceptedEvent"
  shows "refines (je_identity e) db (append_transaction c e db) (spec_append c e s)"
proof (cases "check_columns e")
  case True
  then have "append_transaction c e db = (if \<not> appendable e db then (Inl sync_failed, db)
     else if c = Uncertain False then (Inl (JournalCommitAbsent ''broker journal commit is absent after verification''), db) else (Inr (), db @ [e]))"
    using append_transaction_spec [OF assms(1), of e c] assms(2,4) by blast
  then show ?thesis
    using assms(3,4) True by (auto simp: refines_def spec_append_def appendable_def op_of_append split: option.splits)
next
  case False
  then show ?thesis
    using assms(3) by (auto simp: refines_def spec_append_def append_transaction_def insert_unchecked split: option.splits)
qed

lemma append_verified_refines:
  assumes "journal_ok db" "event_ok e \<or> \<not> check_columns e" "op_of (je_identity e) db = Some s" "je_type e \<noteq> AcceptedEvent"
  shows "refines (je_identity e) db (append_verified c e db) (spec_append c e s)"
  using append_transaction_refines [OF assms] journal_opens_ok [OF assms(1)] by (simp add: append_verified_def)

lemma event_identities [simp]:
  "je_identity (claimed_event i b t) = i" "je_identity (started_event i t st) = i" "je_identity (outcome_event i t st su er rf) = i"
  "je_identity (unresolved_event i t st re f) = i" "je_type (claimed_event i b t) = LifecycleClaimed" "je_type (started_event i t st) = StageStarted"
  "je_type (outcome_event i t st su er rf) = StageOutcome" "je_type (unresolved_event i t st re f) = StageUnresolved"
  "je_type (accepted_event rq fr) = AcceptedEvent" "je_identity (accepted_event rq fr) = journal_identity rq"
  by (simp_all add: claimed_event_def started_event_def outcome_event_def unresolved_event_def accepted_event_def empty_event_def)

lemma claimed_event_ok: "TOKEN_PATTERN t \<Longrightarrow> TOKEN_PATTERN b \<Longrightarrow> event_ok (claimed_event i b t)"
  by (simp add: event_ok_def check_columns_def claimed_event_def empty_event_def)

lemma started_event_ok: "st \<in> set STAGES \<Longrightarrow> event_ok (started_event i t st)"
  by (simp add: event_ok_def check_columns_def started_event_def empty_event_def)

lemma outcome_event_ok:
  assumes "st \<in> set STAGES" "su \<in> set (STAGE_STATUSES st)" "\<forall>f. rf = Some f \<longrightarrow> response_frame_ok f"
  shows "event_ok (outcome_event i t st su er rf) \<or> \<not> check_columns (outcome_event i t st su er rf)"
  using assms response_frame_stored by (cases rf) (auto simp: event_ok_def outcome_event_def empty_event_def)

lemma unresolved_event_ok:
  "st \<in> set STAGES \<Longrightarrow> re \<in> set UNRESOLVED_REASONS \<Longrightarrow> response_frame_ok f \<Longrightarrow> event_ok (unresolved_event i t st re f)"
  using response_frame_stored by (simp add: event_ok_def check_columns_def unresolved_event_def empty_event_def)

lemma claim_refines:
  assumes "journal_ok db" "op_of (journal_identity request) db = Some s"
  shows "refines (journal_identity request) db (claim_lifecycle c request t b db) (spec_claim c (journal_identity request) t b s)"
proof (cases "TOKEN_PATTERN t \<and> TOKEN_PATTERN b")
  case True
  let ?i = "journal_identity request"
  have v: "rbind (validate_events db) (\<lambda>_. journal_terminal ?i db) = Inr (terminal_view s)"
    using journal_opens_ok [OF assms(1)] journal_terminal_spec [OF assms(1,2)] by simp
  have r: "refines ?i db (append_transaction c (claimed_event ?i b t) db) (spec_append c (claimed_event ?i b t) s)"
    using append_transaction_refines [OF assms(1), of "claimed_event ?i b t" s c] claimed_event_ok assms True by simp
  show ?thesis
    using v find_claim_spec [OF assms(1,2)] assms(2) r True
    by (auto simp: claim_lifecycle_def spec_claim_def refines_def returning_def Let_def split: prod.splits option.splits)
qed (use assms in \<open>auto simp: claim_lifecycle_def spec_claim_def refines_def\<close>)

lemma begin_refines:
  assumes "journal_ok db" "op_of (journal_identity request) db = Some s"
  shows "refines (journal_identity request) db (begin_stage c request t st db) (spec_begin c (journal_identity request) t st s)"
  using append_verified_refines [OF assms(1), of "started_event (journal_identity request) t st" s c] assms(2) started_event_ok
  by (auto simp: begin_stage_def spec_begin_def refines_def)

lemma outcome_refines:
  assumes "journal_ok db" "op_of (journal_identity request) db = Some s" "\<forall>f. rf = Some f \<longrightarrow> response_frame_ok f"
  shows "refines (journal_identity request) db (record_stage_outcome c request t st su er rf db) (spec_outcome c (journal_identity request) t st su er rf s)"
proof (cases "st \<in> set STAGES \<and> su \<in> set (STAGE_STATUSES st)")
  case True
  then show ?thesis
    using append_verified_refines [OF assms(1), of "outcome_event (journal_identity request) t st su er rf" s c] assms(2) outcome_event_ok [OF _ _ assms(3)]
    by (simp add: record_stage_outcome_def spec_outcome_def)
qed (use assms in \<open>auto simp: record_stage_outcome_def spec_outcome_def refines_def\<close>)

lemma find_unresolved:
  assumes "op_of i db = Some s"
  shows "find_exact (unresolved_event i t st re f) db \<longleftrightarrow> (\<exists>b. s = OpTerminal t b (Some re) st f)"
proof -
  have "find_exact (unresolved_event i t st re f) db \<longleftrightarrow> list_ex (exact_match (unresolved_event i t st re f)) (events_of i db)"
    by (auto simp: find_exact_def list_ex_iff set_events_of exact_match_def)
  also have "\<dots> \<longleftrightarrow> (\<exists>b. s = OpTerminal t b (Some re) st f)"
    using unresolved_recorded [of "events_of i db"] assms by (simp add: op_of_def set_events_of)
  finally show ?thesis .
qed

lemma unresolved_refines:
  assumes "journal_ok db" "op_of (journal_identity request) db = Some s" "response_frame_ok f"
  shows "refines (journal_identity request) db (record_stage_unresolved c request t st re f db) (spec_unresolved c (journal_identity request) t st re f s)"
proof (cases "st \<in> set STAGES \<and> re \<in> set UNRESOLVED_REASONS")
  case True
  let ?i = "journal_identity request"
  have v: "rbind (validate_events db) (\<lambda>_. journal_terminal ?i db) = Inr (terminal_view s)"
    using journal_opens_ok [OF assms(1)] journal_terminal_spec [OF assms(1,2)] by simp
  have "refines ?i db (append_transaction c (unresolved_event ?i t st re f) db) (spec_append c (unresolved_event ?i t st re f) s)"
    using append_transaction_refines [OF assms(1), of "unresolved_event ?i t st re f" s c] assms(2,3) unresolved_event_ok True by simp
  then show ?thesis using v find_unresolved [OF assms(2)] True assms(2)
    by (cases s) (auto simp: record_stage_unresolved_def spec_unresolved_def refines_def Let_def)
qed (use assms in \<open>auto simp: record_stage_unresolved_def spec_unresolved_def refines_def\<close>)

subsection \<open>Acceptance\<close>

lemma latest_sequence_bound:
  assumes "journal_ok db" "f \<in> set db" "je_type f = AcceptedEvent" "fst (je_identity f) = d"
  shows "\<exists>n. latest_sequence d db = Some n \<and> the (je_sequence f) \<le> n"
proof -
  let ?l = "List.map_filter je_sequence (filter (\<lambda>e. fst (je_identity e) = d \<and> je_type e = AcceptedEvent) db)"
  have "event_ok f" using assms(1,2) unfolding journal_ok_def by blast
  from accepted_columns [OF this assms(3)] obtain k where k: "je_sequence f = Some k" by blast
  then have "k \<in> set ?l" using assms(2-4) by (auto simp: set_map_filter)
  then obtain n ns where l: "?l = n # ns" by (cases ?l) auto
  have "k \<le> Max (set (n # ns))" using \<open>k \<in> set ?l\<close> unfolding l by (intro Max_ge) auto
  then have "k \<le> fold max ns n" unfolding Max.set_eq_fold .
  then show ?thesis using l k by (simp add: latest_sequence_def)
qed

lemma latest_sequence_attained:
  assumes "latest_sequence d db = Some n"
  shows "\<exists>f \<in> set db. je_type f = AcceptedEvent \<and> fst (je_identity f) = d \<and> je_sequence f = Some n"
proof -
  let ?l = "List.map_filter je_sequence (filter (\<lambda>e. fst (je_identity e) = d \<and> je_type e = AcceptedEvent) db)"
  obtain m ms where l: "?l = m # ms" "n = fold max ms m" using assms by (cases ?l) (auto simp: latest_sequence_def)
  then have "n = Max (set ?l)" by (simp add: Max.set_eq_fold del: set_simps)
  moreover have "Max (set ?l) \<in> set ?l" using l(1) by (intro Max_in) auto
  ultimately show ?thesis by (auto simp: set_map_filter)
qed

lemma stale_iff:
  assumes "journal_ok db"
  shows "(case latest_sequence d db of None \<Rightarrow> False | Some latest \<Rightarrow> k \<le> latest)
    \<longleftrightarrow> (\<exists>f \<in> set db. je_type f = AcceptedEvent \<and> fst (je_identity f) = d \<and> k \<le> the (je_sequence f))"
  using latest_sequence_bound [OF assms] latest_sequence_attained
  by (fastforce split: option.splits)

definition accepted_at :: "operation \<Rightarrow> journal \<Rightarrow> journal_event option" where
  "accepted_at i db = find (\<lambda>e. je_identity e = i \<and> je_type e = AcceptedEvent) db"

lemma event_columns_eq:
  assumes "check_columns f" "je_type f = AcceptedEvent" "je_identity f = journal_identity request"
  shows "f = accepted_event request frame \<longleftrightarrow> je_nonce f = Some (bi_nonce request) \<and> je_sequence f = Some (bi_connection_sequence request)
    \<and> je_payload_digest f = Some (bi_payload_digest request) \<and> je_request_frame f = Some frame"
  using assms by (cases f) (auto simp: check_columns_def accepted_event_def empty_event_def)

lemma absent_unaccepted:
  assumes "op_of i db = Some s"
  shows "s = OpAbsent \<longleftrightarrow> accepted_at i db = None"
  using op_run_answers [of "events_of i db" s] assms by (auto simp: op_of_def answers_def accepted_at_def find_None_iff set_events_of)

text \<open>\<^verbatim>\<open>accept\<close> in full: an exact repetition is answered from the journal, everything else must be new.\<close>

lemma accept_cases:
  assumes ok: "journal_ok db" and p: "parse_signed_request hexdigest verify frame = Inr request"
    and s: "op_of (journal_identity request) db = Some s"
  defines "e \<equiv> accepted_event request frame"
  shows "journal_accept c request frame db =
    (case accepted_at (journal_identity request) db of
       Some f \<Rightarrow> (if f = e then Inr (case terminal_view s of Some d \<Rightarrow> d | None \<Rightarrow> decision ''accepted'')
                  else Inl (JournalProtocolError ''operation payload mismatch''), db)
     | None \<Rightarrow>
         if \<exists>f \<in> set db. je_type f = AcceptedEvent \<and> same_database f e \<and> je_nonce f = je_nonce e then (Inl (JournalProtocolError ''duplicate nonce''), db)
         else if \<exists>f \<in> set db. je_type f = AcceptedEvent \<and> same_database f e \<and> the (je_sequence e) \<le> the (je_sequence f)
         then (Inl (JournalProtocolError ''stale connection sequence''), db)
         else if c = Uncertain False then (Inl (JournalCommitAbsent ''broker journal commit is absent after verification''), db)
         else (Inr (decision ''accepted''), db @ [e]))"
proof -
  let ?i = "journal_identity request"
  have eok: "event_ok e" unfolding e_def by (rule accepted_event_ok [OF p])
  have e: "je_type e = AcceptedEvent" "je_identity e = ?i" "je_nonce e = Some (bi_nonce request)" "je_sequence e = Some (bi_connection_sequence request)"
    by (simp_all add: e_def accepted_event_def empty_event_def)
  note v = journal_opens_ok [OF ok] journal_terminal_spec [OF ok s]
  show ?thesis
  proof (cases "accepted_at ?i db")
    case (Some f)
    then have f: "f \<in> set db" "je_identity f = ?i" "je_type f = AcceptedEvent" unfolding accepted_at_def by (auto dest!: find_SomeD)
    then have "check_columns f" using ok event_ok_columns unfolding journal_ok_def by blast
    note x = event_columns_eq [OF this f(3,2), of frame, folded e_def]
    show ?thesis unfolding journal_accept_def Let_def v accepted_at_def [symmetric] Some using x by simp
  next
    case None
    have n: "list_ex (\<lambda>f. fst (je_identity f) = bi_database_incarnation request \<and> je_nonce f = Some (bi_nonce request) \<and> je_type f = AcceptedEvent) db
       \<longleftrightarrow> (\<exists>f \<in> set db. je_type f = AcceptedEvent \<and> same_database f e \<and> je_nonce f = je_nonce e)"
      by (auto simp: list_ex_iff same_database_def e journal_identity_def)
    have q: "(case latest_sequence (bi_database_incarnation request) db of None \<Rightarrow> False | Some latest \<Rightarrow> bi_connection_sequence request \<le> latest)
       \<longleftrightarrow> (\<exists>f \<in> set db. je_type f = AcceptedEvent \<and> same_database f e \<and> the (je_sequence e) \<le> the (je_sequence f))"
      unfolding stale_iff [OF ok] by (simp add: same_database_def e journal_identity_def)
    show ?thesis
    proof (cases "(\<exists>f \<in> set db. je_type f = AcceptedEvent \<and> same_database f e \<and> je_nonce f = je_nonce e)
        \<or> (\<exists>f \<in> set db. je_type f = AcceptedEvent \<and> same_database f e \<and> the (je_sequence e) \<le> the (je_sequence f))")
      case True
      then show ?thesis unfolding journal_accept_def Let_def v accepted_at_def [symmetric] None n q by auto
    next
      case False
      then have seq: "\<forall>f \<in> set db. je_type f = AcceptedEvent \<and> same_database f e \<longrightarrow> the (je_sequence f) < the (je_sequence e)" by force
      have "s = OpAbsent" using absent_unaccepted [OF s] None by simp
      moreover have "fresh_acceptance e db" using False seq by (fastforce simp: fresh_acceptance_def)
      ultimately have "appendable e db" using s e by (simp add: appendable_def op_step_def)
      then have a: "append_transaction c e db = (if c = Uncertain False then (Inl (JournalCommitAbsent ''broker journal commit is absent after verification''), db) else (Inr (), db @ [e]))"
        using append_transaction_spec [OF ok eok seq] by simp
      show ?thesis using False unfolding journal_accept_def Let_def v accepted_at_def [symmetric] None n q e_def [symmetric] a
        by (simp add: returning_def)
    qed
  qed
qed

end
