(* ===== verification/Broker_Journal_Properties.thy ===== *)
theory Broker_Journal_Properties
  imports Broker_Journal_Refinement
begin

section \<open>Properties of the broker journal\<close>

text \<open>
  Runs of the journal under any sequence of calls and any outcome of their commits: it always opens, it implements the
  lifecycle of every operation, it admits no replay, and what it recorded as the end of an operation stays.
\<close>

subsection \<open>Runs\<close>

text \<open>
  A step of the journal is one call of an operation with any outcome of its commit. Acceptance is only called with a frame
  that was read as this request, and responses are frames that the broker signed.
\<close>

inductive journal_step :: "(bytes \<Rightarrow> string) \<Rightarrow> (bytes \<Rightarrow> bytes \<Rightarrow> bool) \<Rightarrow> journal \<Rightarrow> journal \<Rightarrow> bool"
  for hexdigest verify where
  js_accept: "parse_signed_request hexdigest verify frame = Inr request
     \<Longrightarrow> journal_step hexdigest verify db (snd (journal_accept c request frame db))"
| js_claim: "journal_step hexdigest verify db (snd (claim_lifecycle c request t b db))"
| js_begin: "journal_step hexdigest verify db (snd (begin_stage c request t st db))"
| js_outcome: "\<forall>f. rf = Some f \<longrightarrow> response_frame_ok f
     \<Longrightarrow> journal_step hexdigest verify db (snd (record_stage_outcome c request t st su er rf db))"
| js_unresolved: "response_frame_ok f \<Longrightarrow> journal_step hexdigest verify db (snd (record_stage_unresolved c request t st re f db))"

abbreviation journal_start :: "journal \<Rightarrow> bool" where
  "journal_start db \<equiv> db = []"

definition grows :: "journal_event \<Rightarrow> journal \<Rightarrow> bool" where
  "grows e db \<longleftrightarrow> event_ok e \<and> appendable e db \<and>
     (je_type e = AcceptedEvent \<longrightarrow> (\<forall>f \<in> set db. je_type f = AcceptedEvent \<and> same_database f e \<longrightarrow> the (je_sequence f) < the (je_sequence e)))"

definition grown :: "journal \<Rightarrow> journal \<Rightarrow> bool" where
  "grown db db' \<longleftrightarrow> db' = db \<or> (\<exists>e. grows e db \<and> db' = db @ [e])"

lemma append_grown:
  assumes "journal_ok db" "event_ok e \<or> \<not> check_columns e"
    and "je_type e = AcceptedEvent \<Longrightarrow> \<forall>f \<in> set db. je_type f = AcceptedEvent \<and> same_database f e \<longrightarrow> the (je_sequence f) < the (je_sequence e)"
  shows "grown db (snd (append_transaction c e db))"
proof (cases "check_columns e")
  case True
  then show ?thesis using assms append_transaction_spec [OF assms(1) _ assms(3), of c] by (auto simp: grown_def grows_def)
qed (simp add: grown_def append_transaction_def insert_unchecked)

lemma lifecycle_grown:
  assumes "journal_ok db" "event_ok e \<or> \<not> check_columns e" "je_type e \<noteq> AcceptedEvent"
  shows "grown db (snd (append_transaction c e db))" "grown db (snd (append_verified c e db))"
proof -
  show "grown db (snd (append_transaction c e db))" using append_grown [OF assms(1,2)] assms(3) by blast
  then show "grown db (snd (append_verified c e db))" by (simp add: append_verified_def journal_opens_ok [OF assms(1)])
qed

lemma grown_refl [simp]: "grown db db"
  by (simp add: grown_def)

lemma accept_grown:
  assumes "journal_ok db" "parse_signed_request hexdigest verify frame = Inr request"
  shows "grown db (snd (journal_accept c request frame db))"
proof -
  let ?e = "accepted_event request frame"
  obtain s where s: "op_of (journal_identity request) db = Some s" using journal_ok_op [OF assms(1)] by blast
  have "snd (journal_accept c request frame db) = db \<or>
      snd (journal_accept c request frame db) = db @ [?e] \<and> accepted_at (journal_identity request) db = None
      \<and> \<not> (\<exists>f \<in> set db. je_type f = AcceptedEvent \<and> same_database f ?e \<and> je_nonce f = je_nonce ?e)
      \<and> \<not> (\<exists>f \<in> set db. je_type f = AcceptedEvent \<and> same_database f ?e \<and> the (je_sequence ?e) \<le> the (je_sequence f))"
    unfolding accept_cases [OF assms s] by (cases "accepted_at (journal_identity request) db") auto
  then show ?thesis
  proof (elim disjE conjE)
    assume g: "snd (journal_accept c request frame db) = db @ [?e]" "accepted_at (journal_identity request) db = None"
      "\<not> (\<exists>f \<in> set db. je_type f = AcceptedEvent \<and> same_database f ?e \<and> je_nonce f = je_nonce ?e)"
      "\<not> (\<exists>f \<in> set db. je_type f = AcceptedEvent \<and> same_database f ?e \<and> the (je_sequence ?e) \<le> the (je_sequence f))"
    have "s = OpAbsent" using absent_unaccepted [OF s] g(2) by simp
    moreover have "fresh_acceptance ?e db" using g(3,4) by (fastforce simp: fresh_acceptance_def)
    ultimately have "grows ?e db" using g(4) s accepted_event_ok [OF assms(2)] by (force simp: grows_def appendable_def op_step_def)
    then show ?thesis using g(1) by (auto simp: grown_def)
  qed simp
qed

lemma journal_step_grown:
  assumes "journal_step hexdigest verify db db'" "journal_ok db"
  shows "grown db db'"
  using assms
proof (cases rule: journal_step.cases)
  case (js_accept frame request c)
  then show ?thesis using accept_grown [OF assms(2)] by blast
next
  case (js_claim c request t b)
  have "grown db (snd (append_transaction c (claimed_event (journal_identity request) b t) db))" if "TOKEN_PATTERN t" "TOKEN_PATTERN b"
    using lifecycle_grown(1) [OF assms(2)] claimed_event_ok [OF that] by simp
  then show ?thesis unfolding js_claim
    by (auto simp: claim_lifecycle_def returning_def Let_def split: sum.splits option.splits)
next
  case (js_begin c request t st)
  then show ?thesis using lifecycle_grown(2) [OF assms(2)] started_event_ok by (auto simp: begin_stage_def)
next
  case (js_outcome rf c request t st su er)
  then show ?thesis using lifecycle_grown(2) [OF assms(2)] outcome_event_ok [of st su rf] by (auto simp: record_stage_outcome_def)
next
  case (js_unresolved f c request t st re)
  then show ?thesis using lifecycle_grown(1) [OF assms(2)] unresolved_event_ok
    by (auto simp: record_stage_unresolved_def Let_def split: sum.splits option.splits)
qed

lemma journal_ok_Nil: "journal_ok []"
  by (simp add: journal_ok_def op_of_def events_of_def accepted_rows_def)

lemma grown_ok: "grown db db' \<Longrightarrow> journal_ok db \<Longrightarrow> journal_ok db'"
  using journal_ok_append by (auto simp: grown_def grows_def)

interpretation journal_log: safe_system journal_start "journal_step hexdigest verify" journal_ok for hexdigest verify
  by unfold_locales (auto intro: journal_ok_Nil grown_ok dest: journal_step_grown)

text \<open>Along a run the journal only gets longer, and what it says of an operation that has ended does not change.\<close>

lemma grown_op:
  assumes "grown db db'" "op_of i db = Some s"
  shows "\<exists>s'. op_of i db' = Some s' \<and> (op_ended s \<longrightarrow> s' = s)"
  using assms op_step_ended by (fastforce simp: grown_def grows_def op_of_append appendable_def)

lemma run_keeps:
  assumes "(journal_step hexdigest verify)\<^sup>*\<^sup>* db db'" "journal_ok db"
  shows "journal_ok db' \<and> set db \<subseteq> set db' \<and> (\<forall>i s. op_of i db = Some s \<longrightarrow> op_ended s \<longrightarrow> op_of i db' = Some s)"
  using assms
proof (induction rule: rtranclp_induct)
  case (step y z)
  then have y: "journal_ok y" "set db \<subseteq> set y" "\<forall>i s. op_of i db = Some s \<longrightarrow> op_ended s \<longrightarrow> op_of i y = Some s" by auto
  have g: "grown y z" using journal_step_grown [OF step.hyps(2) y(1)] .
  then have "set y \<subseteq> set z" by (auto simp: grown_def)
  moreover have "\<forall>i s. op_of i y = Some s \<longrightarrow> op_ended s \<longrightarrow> op_of i z = Some s" using grown_op [OF g] by fastforce
  ultimately show ?case using y grown_ok [OF g y(1)] by blast
qed simp

subsection \<open>Properties\<close>

lemma reached_ok: "reach journal_start (journal_step hexdigest verify) db \<Longrightarrow> journal_ok db"
  by (rule journal_log.reach_inv)

text \<open>C7: Whatever is called, and however a commit ends, every journal that the operations can produce still opens; the sequence
  numbers it accepted for a database grow strictly, and no nonce was accepted twice.
\<close>

theorem journal_available:
  assumes "reach journal_start (journal_step hexdigest verify) db"
  shows "validate_events db = Inr ()
    \<and> sorted_wrt (<) (map (\<lambda>e. the (je_sequence e)) (accepted_rows d db)) \<and> distinct (map je_nonce (accepted_rows d db))"
  using reached_ok [OF assms] journal_opens_ok by (simp add: journal_ok_def sorted_wrt_map)

text \<open>The five forms of an event, column by column: an acceptance, a claim, the start, the outcome and the giving up of a stage. An outcome has an error
  exactly if it is a rejection, and a response exactly if it ends the operation.
\<close>

definition event_form :: "journal_event \<Rightarrow> bool" where
  "event_form e \<longleftrightarrow>
     (\<exists>i n k d f. e = (empty_event i AcceptedEvent)\<lparr> je_nonce := Some n, je_sequence := Some k, je_payload_digest := Some d, je_request_frame := Some f \<rparr>)
   \<or> (\<exists>i b t. e = (empty_event i LifecycleClaimed)\<lparr> je_broker_incarnation := Some b, je_owner_token := Some t \<rparr>)
   \<or> (\<exists>i t st. st \<in> {''prepare'', ''runtime_setup'', ''launch''} \<and> e = (empty_event i StageStarted)\<lparr> je_stage := Some st, je_owner_token := Some t \<rparr>)
   \<or> (\<exists>i t st su er rf. st \<in> {''prepare'', ''runtime_setup'', ''launch''} \<and> (er \<noteq> None \<longleftrightarrow> su = ''rejected'') \<and> (rf \<noteq> None \<longleftrightarrow> st = ''launch'' \<or> su = ''rejected'')
        \<and> e = (empty_event i StageOutcome)\<lparr> je_stage := Some st, je_owner_token := Some t, je_stage_status := Some su, je_stage_error := er, je_response_frame := rf \<rparr>)
   \<or> (\<exists>i t st re f. st \<in> {''prepare'', ''runtime_setup'', ''launch''}
        \<and> e = (empty_event i StageUnresolved)\<lparr> je_stage := Some st, je_owner_token := Some t, je_unresolved_reason := Some re, je_response_frame := Some f \<rparr>)"

lemma check_columns_form: "check_columns e \<longleftrightarrow> event_form e"
  by (cases e; cases "je_type e") (auto simp: check_columns_def event_form_def empty_event_def STAGES_def)

text \<open>C9: On every journal that can be reached, the check constraints, the unique indexes and the trigger of the table admit exactly the events that have the
  columns of their kind and no other, that the lifecycle of their operation admits in its present state and, for an acceptance, whose
  nonce and sequence number are new.
\<close>

theorem schema_admits_lifecycle:
  assumes "reach journal_start (journal_step hexdigest verify) db"
  shows "insert_journal e db = Some db' \<longleftrightarrow>
    db' = db @ [e] \<and> event_form e \<and> (\<exists>s s'. op_of (je_identity e) db = Some s \<and> op_step s e = Some s') \<and> (je_type e = AcceptedEvent \<longrightarrow> fresh_acceptance e db)"
proof -
  obtain s where s: "op_of (je_identity e) db = Some s" using journal_ok_op reached_ok [OF assms] by blast
  show ?thesis
  proof (cases "check_columns e")
    case True
    then show ?thesis using insert_journal_iff [OF _ True s] reached_ok [OF assms] s by (auto simp: journal_ok_def check_columns_form)
  qed (auto simp: insert_journal_def check_columns_form)
qed

text \<open>C4: On every journal that can be reached, the answer to a status query is the view of the operation's abstract state, and
  claiming, starting, completing and giving up a stage do to it what the specification does, with the same answer, for every outcome of
  the commit; no other operation is affected.
\<close>

theorem journal_refines_lifecycle:
  assumes "reach journal_start (journal_step hexdigest verify) db"
    and "\<forall>f. rf = Some f \<longrightarrow> response_frame_ok f" "response_frame_ok frame"
  shows "\<exists>s. op_of (journal_identity request) db = Some s
    \<and> journal_status request db = Inr (op_view s)
    \<and> refines (journal_identity request) db (claim_launcher c request t b db) (spec_claim c (journal_identity request) t b s)
    \<and> refines (journal_identity request) db (begin_stage c request t st db) (spec_begin c (journal_identity request) t st s)
    \<and> refines (journal_identity request) db (record_stage_outcome c request t st su er rf db) (spec_outcome c (journal_identity request) t st su er rf s)
    \<and> refines (journal_identity request) db (record_stage_unresolved c request t st re frame db) (spec_unresolved c (journal_identity request) t st re frame s)"
proof -
  note ok = reached_ok [OF assms(1)]
  obtain s where s: "op_of (journal_identity request) db = Some s" using journal_ok_op [OF ok] by blast
  then show ?thesis
    using journal_status_spec [OF ok s] claim_refines [OF ok s] begin_refines [OF ok s] outcome_refines [OF ok s assms(2)] unresolved_refines [OF ok s assms(3)]
    unfolding claim_launcher_def by blast
qed

text \<open>What acceptance does, on every branch: an exact repetition is answered from the journal, another frame for the operation, a
  nonce already accepted and a sequence number that is not the highest are refused, and anything else is stored.
\<close>

theorem accept_decides:
  assumes "reach journal_start (journal_step hexdigest verify) db" "parse_signed_request hexdigest verify frame = Inr request"
  shows "journal_accept c request frame db =
    (let e = accepted_event request frame; earlier = (\<lambda>f. je_type f = AcceptedEvent \<and> same_database f e) in
     case accepted_at (journal_identity request) db of
       Some f \<Rightarrow> (if f = e then Inr (case terminal_view (the (op_of (journal_identity request) db)) of Some d \<Rightarrow> d | None \<Rightarrow> decision ''accepted'')
                  else Inl (JournalProtocolError ''operation payload mismatch''), db)
     | None \<Rightarrow>
         if \<exists>f \<in> set db. earlier f \<and> je_nonce f = je_nonce e then (Inl (JournalProtocolError ''duplicate nonce''), db)
         else if \<exists>f \<in> set db. earlier f \<and> the (je_sequence e) \<le> the (je_sequence f) then (Inl (JournalProtocolError ''stale connection sequence''), db)
         else if c = Uncertain False then (Inl (JournalCommitAbsent ''broker journal commit is absent after verification''), db)
         else (Inr (decision ''accepted''), db @ [e]))"
proof -
  note ok = reached_ok [OF assms(1)]
  obtain s where s: "op_of (journal_identity request) db = Some s" using journal_ok_op [OF ok] by blast
  show ?thesis unfolding accept_cases [OF ok assms(2) s] s option.sel Let_def conj_assoc by (rule refl)
qed

lemma accepted_unique:
  assumes "journal_ok db" "e \<in> set db" "f \<in> set db" "je_type e = AcceptedEvent" "je_type f = AcceptedEvent" "same_database e f" "je_nonce e = je_nonce f"
  shows "e = f"
proof -
  have "distinct (map je_nonce (accepted_rows (fst (je_identity e)) db))" using assms(1) unfolding journal_ok_def by blast
  moreover have "e \<in> set (accepted_rows (fst (je_identity e)) db)" "f \<in> set (accepted_rows (fst (je_identity e)) db)"
    using assms(2-6) by (auto simp: accepted_rows_def same_database_def)
  ultimately show ?thesis using assms(7) by (auto simp: distinct_map dest: inj_onD)
qed

lemma accept_recorded:
  assumes "journal_ok db" "parse_signed_request hexdigest verify frame = Inr request" "journal_accept c request frame db = (Inr d, db')"
  shows "accepted_event request frame \<in> set db' \<and> grown db db'"
proof -
  obtain s where s: "op_of (journal_identity request) db = Some s" using journal_ok_op [OF assms(1)] by blast
  have "f \<in> set db" if "accepted_at (journal_identity request) db = Some f" for f
    using that by (auto simp: accepted_at_def dest: find_SomeD)
  then have "accepted_event request frame \<in> set db'"
    using assms(3) unfolding accept_cases [OF assms(1,2) s]
    by (cases "accepted_at (journal_identity request) db") (auto split: if_splits)
  then show ?thesis using accept_grown [OF assms(1,2), of c] assms(3) by simp
qed

lemma op_run_acceptance:
  "op_run h = Some s \<Longrightarrow> e \<in> set h \<Longrightarrow> f \<in> set h \<Longrightarrow> je_type e = AcceptedEvent \<Longrightarrow> je_type f = AcceptedEvent \<Longrightarrow> e = f"
proof (induction h arbitrary: s rule: rev_induct)
  case (snoc x h)
  then obtain s0 where s0: "op_run h = Some s0" "op_step s0 x = Some s" using op_run_Some_snoc by blast
  have "je_type x = AcceptedEvent \<Longrightarrow> \<not> (\<exists>y \<in> set h. je_type y = AcceptedEvent)"
    using op_run_answers [OF s0(1)] s0(2) by (auto simp: answers_def op_step_def split: if_splits)
  then show ?case using snoc s0(1) by auto
qed simp

lemma acceptance_single:
  assumes "journal_ok db" "e \<in> set db" "f \<in> set db" "je_type e = AcceptedEvent" "je_type f = AcceptedEvent" "je_identity e = je_identity f"
  shows "e = f"
proof -
  obtain s where "op_of (je_identity f) db = Some s" using journal_ok_op [OF assms(1)] by blast
  then show ?thesis using op_run_acceptance assms(2-6) by (auto simp: op_of_def set_events_of)
qed

lemma find_acceptance:
  assumes "journal_ok db" "e \<in> set db" "je_type e = AcceptedEvent"
  shows "accepted_at (je_identity e) db = Some e"
proof (cases "accepted_at (je_identity e) db")
  case None
  then show ?thesis using assms(2,3) by (auto simp: accepted_at_def find_None_iff)
next
  case (Some f)
  then have "f \<in> set db" "je_identity f = je_identity e" "je_type f = AcceptedEvent" unfolding accepted_at_def by (auto dest!: find_SomeD)
  then show ?thesis using Some acceptance_single assms by metis
qed

text \<open>C8: Once a frame has been accepted, then after any further calls a frame with its nonce is refused and leaves the journal as it is,
  unless it is the same frame, which is answered with the recorded end of the operation or as accepted.
\<close>

theorem replay_refused:
  assumes "reach journal_start (journal_step hexdigest verify) db0"
    and "parse_signed_request hexdigest verify frame = Inr request" "journal_accept c request frame db0 = (Inr d, db)"
    and "(journal_step hexdigest verify)\<^sup>*\<^sup>* db db'"
    and "parse_signed_request hexdigest verify frame' = Inr request'"
    and "bi_database_incarnation request' = bi_database_incarnation request" "bi_nonce request' = bi_nonce request"
  shows "if frame' = frame
    then journal_accept c' request' frame' db' =
       (Inr (case terminal_view (the (op_of (journal_identity request) db')) of Some d \<Rightarrow> d | None \<Rightarrow> decision ''accepted''), db')
    else \<exists>m \<in> {''operation payload mismatch'', ''duplicate nonce''}. journal_accept c' request' frame' db' = (Inl (JournalProtocolError m), db')"
proof -
  let ?e = "accepted_event request frame" and ?e' = "accepted_event request' frame'"
  have e: "je_nonce (accepted_event r fr) = Some (bi_nonce r)" "je_request_frame (accepted_event r fr) = Some fr" for r fr
    by (simp_all add: accepted_event_def empty_event_def)
  have ok: "journal_ok db'" and m: "?e \<in> set db'"
    using run_keeps [OF assms(4)] accept_recorded [OF reached_ok [OF assms(1)] assms(2,3)] grown_ok reached_ok [OF assms(1)] by auto
  obtain s where s: "op_of (journal_identity request') db' = Some s" using journal_ok_op [OF ok] by blast
  have same: "same_database ?e ?e'" using assms(6) by (simp add: same_database_def journal_identity_def)
  show ?thesis
  proof (cases "frame' = frame")
    case True
    then have r: "request' = request" using assms(2,5) by simp
    have "accepted_at (journal_identity request) db' = Some ?e" using find_acceptance [OF ok m] by simp
    then show ?thesis using accept_cases [OF ok assms(5) s, of c'] True r s by simp
  next
    case False
    show ?thesis
    proof (cases "accepted_at (journal_identity request') db'")
      case None
      moreover have "\<exists>f \<in> set db'. je_type f = AcceptedEvent \<and> same_database f ?e' \<and> je_nonce f = je_nonce ?e'"
        using m same assms(7) e(1) by (intro bexI [of _ ?e]) auto
      ultimately show ?thesis using accept_cases [OF ok assms(5) s, of c'] False by simp
    next
      case (Some f)
      then have f: "f \<in> set db'" "je_type f = AcceptedEvent" unfolding accepted_at_def by (auto dest: find_SomeD)
      have "f \<noteq> ?e'"
      proof
        assume "f = ?e'"
        then have "?e = ?e'" using accepted_unique [OF ok m _ _ _ same] f(1) assms(7) e(1) by simp
        then show False using False e(2) by (metis option.inject)
      qed
      then show ?thesis using accept_cases [OF ok assms(5) s, of c'] Some False by simp
    qed
  qed
qed

lemma ended_refused:
  assumes "journal_ok db" "op_of (je_identity e) db = Some s" "op_ended s" "je_type e \<noteq> AcceptedEvent"
  shows "append_transaction c e db = (Inl sync_failed, db)" "append_verified c e db = (Inl sync_failed, db)"
proof -
  have "\<exists>f \<in> set (events_of (je_identity e) db). is_terminal f"
    using op_run_answers [of "events_of (je_identity e) db"] assms(2,3) by (simp add: op_of_def answers_def)
  then have "insert_journal e db = None" using assms(4) by (auto simp: insert_journal_def require_events)
  then show "append_transaction c e db = (Inl sync_failed, db)" by (simp add: append_transaction_def)
  then show "append_verified c e db = (Inl sync_failed, db)" by (simp add: append_verified_def journal_opens_ok [OF assms(1)])
qed

lemma settled_view: "op_view s = d \<Longrightarrow> jd_state d \<in> {''terminal'', ''unresolved''} \<Longrightarrow> op_ended s \<and> terminal_view s = Some d"
  by (cases s) (auto simp: op_view_def decision_def split: prod.splits option.splits)

lemma terminal_view_op_view: "terminal_view s = Some d \<Longrightarrow> op_view s = d"
  by (simp add: op_view_def)

text \<open>Once an operation has ended, its status never changes again: a later claim gets the recorded end, and starting, completing or
  giving up a stage leaves the journal as it is.
\<close>

theorem settled_forever:
  assumes "reach journal_start (journal_step hexdigest verify) db"
    and "journal_status request db = Inr d" "jd_state d \<in> {''terminal'', ''unresolved''}"
    and "(journal_step hexdigest verify)\<^sup>*\<^sup>* db db'"
  shows "journal_status request db' = Inr d
    \<and> (TOKEN_PATTERN t \<and> TOKEN_PATTERN b \<longrightarrow> claim_lifecycle c request t b db' = (Inr d, db'))
    \<and> (\<exists>e. begin_stage c request t st db' = (Inl e, db'))
    \<and> (\<exists>e. record_stage_outcome c request t st su er rf db' = (Inl e, db'))
    \<and> snd (record_stage_unresolved c request t st re f db') = db'"
proof -
  note ok = reached_ok [OF assms(1)]
  obtain s where s: "op_of (journal_identity request) db = Some s" using journal_ok_op [OF ok] by blast
  have v: "op_ended s" "terminal_view s = Some d" using settled_view [of s d] journal_status_spec [OF ok s] assms(2,3) by simp_all
  have ok': "journal_ok db'" and s': "op_of (journal_identity request) db' = Some s" using run_keeps [OF assms(4) ok] s v(1) by blast+
  note r = ended_refused [OF ok' _ v(1)] journal_opens_ok [OF ok'] journal_terminal_spec [OF ok' s']
  show ?thesis
    using journal_status_spec [OF ok' s'] terminal_view_op_view [OF v(2)] r s' v(2)
    by (simp add: claim_lifecycle_def begin_stage_def record_stage_outcome_def record_stage_unresolved_def Let_def)
qed

text \<open>The list of incomplete lifecycles holds, in the order of acceptance, exactly the operations that are claimed and have not ended,
  each with its owner, the stage it is in and whether that stage was started.
\<close>

theorem incomplete_exact:
  assumes "reach journal_start (journal_step hexdigest verify) db"
  shows "incomplete_lifecycles db = Inr (List.map_filter (\<lambda>a. if je_type a = AcceptedEvent then incomplete_of db a else None) db)"
  using incomplete_spec [OF reached_ok [OF assms]] .

subsection \<open>Files\<close>

lemma legacy_query_iff: "legacy_query r = Inr x \<longleftrightarrow> r = Some x"
  by (cases r) (auto simp: legacy_query_def)

lemma no_sidecars_iff: "no_sidecars m wal shm = Inr () \<longleftrightarrow> wal = FileMissing \<and> shm = FileMissing"
  by (auto simp: no_sidecars_def legacy_sidecar_exists_def split: file_status.splits)

lemma legacy_metadata_error:
  "(case meta of [(_, _, SqlInteger v)] \<Rightarrow> if v > 1 then Inl a else Inl b | _ \<Rightarrow> Inl b) \<noteq> Inr x"
  by (auto split: list.splits sql_value.splits)

lemma validate_legacy_iff:
  "validate_legacy_v1_database expected application_id database = Inr () \<longleftrightarrow>
     ld_intact database = Some True \<and> (\<exists>objects. ld_objects database = Some objects \<and> set objects = set expected)
     \<and> ld_meta database = Some [(SqlInteger 0, SqlText application_id, SqlInteger 1)] \<and> ld_accepted database = Some False"
  unfolding validate_legacy_v1_database_def rbind_Inr_iff legacy_query_iff
  by (auto simp: rbind_Inr_iff legacy_query_iff legacy_metadata_error split: if_splits)

text \<open>A broker starts over a legacy path only if nothing is there, or a sound version 1 journal that never accepted an operation.\<close>

theorem legacy_inspection_exact:
  assumes "APPLICATION_ID_PATTERN application_id"
  shows "inspect_legacy_v1_journal expected application_id path wal shm connection = Inr () \<longleftrightarrow>
    wal = FileMissing \<and> shm = FileMissing \<and>
    (path = FileMissing \<or> path = FileFound True \<and> (\<exists>database. connection = Some database
       \<and> ld_intact database = Some True \<and> (\<exists>objects. ld_objects database = Some objects \<and> set objects = set expected)
       \<and> ld_meta database = Some [(SqlInteger 0, SqlText application_id, SqlInteger 1)] \<and> ld_accepted database = Some False))"
  using assms
  by (cases path) (auto simp: inspect_legacy_v1_journal_def no_sidecars_iff rbind_Inr_iff legacy_query_iff validate_legacy_iff)

text \<open>A journal file belongs to the application that created it.\<close>

theorem journal_file_bound:
  assumes "jf_intact file" "jf_objects file = []" "validate_events (jf_events file) = Inr ()" "expected \<noteq> []"
    and "APPLICATION_ID_PATTERN a" "APPLICATION_ID_PATTERN b" "validate_events db = Inr ()"
  shows "fst (initialize_journal expected a file) = Inr ()
    \<and> initialize_journal expected b ((snd (initialize_journal expected a file))\<lparr> jf_events := db \<rparr>)
      = (if a = b then Inr () else Inl (JournalSyncError ''broker journal application or schema version is unsupported''),
         (snd (initialize_journal expected a file))\<lparr> jf_events := db \<rparr>)"
  using assms by (simp add: initialize_journal_def validate_journal_def)

subsection \<open>A run of the journal\<close>

abbreviation demo_digest :: "bytes \<Rightarrow> string" where "demo_digest \<equiv> \<lambda>_. replicate 64 (CHR ''0'')"
abbreviation demo_accepts :: "bytes \<Rightarrow> bytes \<Rightarrow> bool" where "demo_accepts \<equiv> \<lambda>s m. s = demo_signature"
abbreviation demo_steps :: "journal \<Rightarrow> journal \<Rightarrow> bool" where "demo_steps \<equiv> journal_step demo_digest demo_accepts"
abbreviation demo_reach :: "journal \<Rightarrow> bool" where "demo_reach \<equiv> reach journal_start demo_steps"

definition demo_owner :: utext where "demo_owner = ascii ''owner-token-0123456789''"

lemma demo_owner_ok: "TOKEN_PATTERN demo_owner"
  by code_simp

lemma demo_parsed: "\<exists>frame. parse_signed_request demo_digest demo_accepts frame = Inr (broker_identity.extend demo_identity \<lparr> brq_payload = sorted_items demo_payload \<rparr>)"
  by (rule demo_frame_parsed) simp

lemma demo_response: "\<exists>f. response_frame_ok f"
proof -
  obtain f where "create_signed_response (\<lambda>_. demo_signature) demo_request (ascii ''ok'') None demo_payload = Inr f"
    using demo_response_created by (auto simp: is_ok_iff)
  then have "response_frame_ok f"
    unfolding response_frame_ok_def using valid_identity_points [OF demo_facts(9,6)] demo_facts(7) demo_request_fields(1)
    by (intro exI [of _ "\<lambda>_. demo_signature"] exI [of _ demo_request] exI [of _ "ascii ''ok''"] exI [of _ None] exI [of _ demo_payload]) simp
  then show ?thesis ..
qed

lemma demo_run:
  "\<exists>frame request d db0 db f. parse_signed_request demo_digest demo_accepts frame = Inr request \<and> response_frame_ok f
     \<and> journal_accept Committed request frame [] = (Inr d, [accepted_event request frame])
     \<and> demo_reach db0 \<and> op_of (journal_identity request) db0 = Some (OpStarted demo_owner (bi_broker_incarnation demo_identity) ''prepare'')
     \<and> demo_reach [accepted_event request frame] \<and> demo_steps\<^sup>*\<^sup>* [accepted_event request frame] db \<and> demo_reach db
     \<and> op_of (journal_identity request) db = Some (OpTerminal demo_owner (bi_broker_incarnation demo_identity) (Some ''timeout_unknown'') ''prepare'' f)"
proof -
  obtain frame request where p: "parse_signed_request demo_digest demo_accepts frame = Inr request" using demo_parsed by blast
  obtain f where f: "response_frame_ok f" using demo_response by blast
  let ?i = "journal_identity request" and ?b = "bi_broker_incarnation demo_identity"
  define d1 where "d1 = [accepted_event request frame]"
  define d2 where "d2 = snd (claim_lifecycle Committed request demo_owner ?b d1)"
  define d3 where "d3 = snd (begin_stage Committed request demo_owner ''prepare'' d2)"
  define d4 where "d4 = snd (record_stage_unresolved Committed request demo_owner ''prepare'' ''timeout_unknown'' f d3)"
  have a: "journal_accept Committed request frame [] = (Inr (decision ''accepted''), d1)"
    using accept_cases [OF journal_ok_Nil p, of OpAbsent Committed] by (simp add: d1_def op_of_def events_of_def accepted_at_def)
  have r1: "demo_reach d1" using reach_step [OF reach_init [of journal_start "[]" demo_steps] js_accept [OF p, of "[]" Committed]] a by simp
  have s: "demo_steps d1 d2" "demo_steps d2 d3" "demo_steps d3 d4"
    unfolding d2_def d3_def d4_def using f by (auto intro: js_claim js_begin js_unresolved)
  have r2: "demo_reach d2" by (rule reach_step [OF r1 s(1)])
  have r3: "demo_reach d3" by (rule reach_step [OF r2 s(2)])
  have r4: "demo_reach d4" by (rule reach_step [OF r3 s(3)])
  note r = r2 r3 r4
  have o1: "op_of ?i d1 = Some OpAccepted" by (simp add: d1_def op_of_def events_of_def op_run_def op_step_def)
  have o2: "op_of ?i d2 = Some (OpClaimed demo_owner ?b)"
    using claim_refines [OF reached_ok [OF r1] o1, of Committed demo_owner ?b] demo_owner_ok demo_facts(1) claimed_event_ok
    by (simp add: refines_def spec_claim_def spec_append_def d2_def op_step_def claimed_event_def empty_event_def check_columns_def)
  have o3: "op_of ?i d3 = Some (OpStarted demo_owner ?b ''prepare'')"
    using begin_refines [OF reached_ok [OF r(1)] o2, of Committed demo_owner "''prepare''"]
    by (simp add: refines_def spec_begin_def spec_append_def d3_def op_step_def started_event_def empty_event_def check_columns_def STAGES_def)
  have o4: "op_of ?i d4 = Some (OpTerminal demo_owner ?b (Some ''timeout_unknown'') ''prepare'' f)"
    using unresolved_refines [OF reached_ok [OF r(2)] o3 f, of Committed demo_owner "''prepare''" "''timeout_unknown''"]
    by (simp add: refines_def spec_unresolved_def spec_append_def d4_def op_step_def unresolved_event_def empty_event_def check_columns_def STAGES_def UNRESOLVED_REASONS_def)
  have "demo_steps\<^sup>*\<^sup>* d1 d4" using s by (meson converse_rtranclp_into_rtranclp rtranclp.rtrancl_refl)
  then show ?thesis using p f a r1 r(2,3) o3 o4 unfolding d1_def by blast
qed

theorem journal_available_witness:
  "\<exists>db. db \<noteq> [] \<and> demo_reach db \<and> validate_events db = Inr ()"
  using demo_run journal_available by blast

theorem schema_admits_lifecycle_witness:
  "\<exists>db e. demo_reach db \<and> je_type e = LifecycleClaimed \<and> insert_journal e db = Some (db @ [e]) \<and> insert_journal (e\<lparr>je_stage := Some ''launch''\<rparr>) db = None"
proof -
  obtain frame request where r: "demo_reach [accepted_event request frame]" using demo_run by blast
  let ?c = "claimed_event (journal_identity request) (bi_broker_incarnation demo_identity) demo_owner"
  have form: "event_form ?c" "\<not> event_form (?c\<lparr>je_stage := Some ''launch''\<rparr>)" by (auto simp: event_form_def claimed_event_def empty_event_def journal_identity_def)
  have "op_of (journal_identity request) [accepted_event request frame] = Some OpAccepted"
    by (simp add: op_of_def events_of_def op_run_def op_step_def)
  moreover have "op_step OpAccepted ?c = Some (OpClaimed demo_owner (bi_broker_incarnation demo_identity))"
    by (simp add: op_step_def claimed_event_def empty_event_def)
  ultimately have "insert_journal ?c [accepted_event request frame] = Some ([accepted_event request frame] @ [?c])"
    using form by (subst schema_admits_lifecycle [OF r]) (simp_all add: claimed_event_def empty_event_def)
  moreover have "insert_journal (?c\<lparr>je_stage := Some ''launch''\<rparr>) [accepted_event request frame] = None"
    using schema_admits_lifecycle [OF r] form(2) by (cases "insert_journal (?c\<lparr>je_stage := Some ''launch''\<rparr>) [accepted_event request frame]") auto
  moreover have "je_type ?c = LifecycleClaimed" by (simp add: claimed_event_def empty_event_def)
  ultimately show ?thesis using r by blast
qed

theorem journal_refines_lifecycle_witness:
  "\<exists>db request s. demo_reach db \<and> op_of (journal_identity request) db = Some s \<and> op_ended s \<and> journal_status request db = Inr (op_view s)"
proof -
  obtain request db s f where r: "demo_reach db" "op_of (journal_identity request) db = Some s" "op_ended s" "response_frame_ok f" using demo_run by fastforce
  have "journal_status request db = Inr (op_view s)" using journal_refines_lifecycle [OF r(1) _ r(4), of None request] r(2) by auto
  then show ?thesis using r by blast
qed

theorem accept_decides_witness:
  "\<exists>frame request. parse_signed_request demo_digest demo_accepts frame = Inr request
     \<and> journal_accept Committed request frame [] = (Inr (decision ''accepted''), [accepted_event request frame])"
proof -
  obtain frame request where p: "parse_signed_request demo_digest demo_accepts frame = Inr request" using demo_parsed by blast
  then show ?thesis using accept_decides [OF reach_init p, of "[]" Committed] by (auto simp: accepted_at_def)
qed

theorem replay_refused_witness:
  "\<exists>frame request db. demo_reach db \<and> jd_state (projr (fst (journal_accept Committed request frame db))) = ''unresolved''"
proof -
  obtain frame request d db b f where r: "parse_signed_request demo_digest demo_accepts frame = Inr request"
    "journal_accept Committed request frame [] = (Inr d, [accepted_event request frame])" "demo_steps\<^sup>*\<^sup>* [accepted_event request frame] db" "demo_reach db"
    "op_of (journal_identity request) db = Some (OpTerminal demo_owner b (Some ''timeout_unknown'') ''prepare'' f)" using demo_run by blast
  have "demo_reach []" by (rule reach_init) simp
  from replay_refused [OF this r(1-3) r(1)] have "jd_state (projr (fst (journal_accept Committed request frame db))) = ''unresolved''"
    using r(5) by (simp add: decision_def)
  then show ?thesis using r(4) by blast
qed

theorem settled_forever_witness:
  "\<exists>request db d. demo_reach db \<and> journal_status request db = Inr d \<and> jd_state d = ''unresolved''
     \<and> (\<exists>e. begin_stage Committed request demo_owner ''prepare'' db = (Inl e, db))"
proof -
  obtain request db b f where r: "demo_reach db" "op_of (journal_identity request) db = Some (OpTerminal demo_owner b (Some ''timeout_unknown'') ''prepare'' f)"
    using demo_run by blast
  then have s: "journal_status request db = Inr (op_view (OpTerminal demo_owner b (Some ''timeout_unknown'') ''prepare'' f))"
    using journal_status_spec [OF reached_ok] by blast
  have u: "jd_state (op_view (OpTerminal demo_owner b (Some ''timeout_unknown'') ''prepare'' f)) = ''unresolved''" by (simp add: op_view_def decision_def)
  show ?thesis using settled_forever [OF r(1) s] r(1) s u by blast
qed

theorem incomplete_exact_witness:
  "\<exists>db ls l. demo_reach db \<and> incomplete_lifecycles db = Inr ls \<and> l \<in> set ls \<and> il_stage l = ''prepare'' \<and> il_stage_started l"
proof -
  obtain request db b where r: "demo_reach db" and s: "op_of (journal_identity request) db = Some (OpStarted demo_owner b ''prepare'')" using demo_run by blast
  have "accepted_at (journal_identity request) db \<noteq> None" using absent_unaccepted [OF s] by auto
  then obtain a where a: "a \<in> set db" "je_type a = AcceptedEvent" "je_identity a = journal_identity request"
    unfolding accepted_at_def by (auto dest: find_SomeD)
  have "event_ok a" using reached_ok [OF r] a(1) unfolding journal_ok_def by blast
  then obtain f where "je_request_frame a = Some f" using a(2) by (auto simp: event_ok_def check_columns_def)
  then have "incomplete_of db a = Some \<lparr> il_request_frame = f, il_owner_token = demo_owner, il_stage = ''prepare'', il_stage_started = True \<rparr>"
    using s a(3) by (simp add: incomplete_of_def)
  then have "\<lparr> il_request_frame = f, il_owner_token = demo_owner, il_stage = ''prepare'', il_stage_started = True \<rparr>
      \<in> set (List.map_filter (\<lambda>a. if je_type a = AcceptedEvent then incomplete_of db a else None) db)"
    using a by (auto simp: set_map_filter intro: bexI [of _ a])
  then show ?thesis using incomplete_exact [OF r] r by (intro exI conjI) auto
qed

end
