(* ===== verification/Execution_Broker.thy ===== *)
theory Execution_Broker
  imports Broker_Journal_Properties
begin

section \<open>The execution broker\<close>

text \<open>
  The orchestration of launches, \<^verbatim>\<open>services/execution_broker.py\<close>: authentication of frames, the lifecycle of one request through
  prepare, runtime setup and launch, the recording of every outcome in the broker journal, recovery at startup, and the routing of
  control frames. The code is cut at its suspension points: each definition is an action that runs without interruption.
\<close>

subsection \<open>Service and requests\<close>

text \<open>
  The fields of \<^verbatim>\<open>BrokerService\<close> that decide what it does. The keys are the functions they are used for; the owner token is
  drawn when the service is built.
\<close>

record broker_service =
  bs_broker_incarnation :: utext
  bs_database_incarnation :: utext
  bs_application_uid :: int
  bs_hexdigest :: "bytes \<Rightarrow> string"
  bs_verify :: "bytes \<Rightarrow> bytes \<Rightarrow> bool"
  bs_sign :: "bytes \<Rightarrow> bytes"
  bs_owner_token :: utext

datatype service_error =
    ServiceProtocol broker_error
  | ServiceJournal journal_error
  | ServiceRuntime string
  | LauncherTransport string

definition SUPPORTED_REQUEST_TYPE :: utext where "SUPPORTED_REQUEST_TYPE = ascii ''executor.launch''"
definition REPLICA_REQUEST_TYPE :: utext where "REPLICA_REQUEST_TYPE = ascii ''replica.lifecycle''"
definition REPLICA_DRAIN_REQUEST_TYPE :: utext where "REPLICA_DRAIN_REQUEST_TYPE = ascii ''replica.drain''"

definition FORBIDDEN_LAUNCH_FIELDS :: "string list" where
  "FORBIDDEN_LAUNCH_FIELDS = [''capabilities'', ''cgroup'', ''command'', ''commands'', ''environment'', ''executable'', ''gid'', ''home'',
     ''mount'', ''mounts'', ''path'', ''paths'', ''properties'', ''replica'', ''socket'', ''systemd_properties'', ''uid'', ''unit'']"

definition MAX_ABANDONED_EFFECTS :: nat where "MAX_ABANDONED_EFFECTS = 64"

text \<open>
  \<^verbatim>\<open>key.lower().replace("-", "_")\<close>, for comparison with the forbidden names. These are ASCII; besides the capital letters, the only
  characters whose lower case contains an ASCII letter are the Kelvin sign and the capital I with a dot, so every other character may stay.
\<close>

definition lower_char :: "nat \<Rightarrow> utext" where
  "lower_char c = (if 65 \<le> c \<and> c \<le> 90 then [c + 32] else if c = 0x212A then [107] else if c = 0x130 then [105, 0x307] else [c])"

definition normalized_key :: "utext \<Rightarrow> utext" where
  "normalized_key key = map (\<lambda>c. if c = 45 then 95 else c) (concat (map lower_char key))"

fun contains_forbidden_control :: "json \<Rightarrow> bool" where
  "contains_forbidden_control (JList xs) = list_ex contains_forbidden_control xs"
| "contains_forbidden_control (JObj kvs) =
     list_ex (\<lambda>(key, item). normalized_key key \<in> set (map ascii FORBIDDEN_LAUNCH_FIELDS) \<or> contains_forbidden_control item) kvs"
| "contains_forbidden_control _ = False"

definition authenticate :: "broker_service \<Rightarrow> bytes \<Rightarrow> int \<Rightarrow> broker_error + broker_request" where
  "authenticate svc frame peer_uid =
     (if peer_uid \<noteq> bs_application_uid svc then Inl (BrokerProtocolError ''broker peer UID is not authorized'')
      else rbind (parse_signed_request (bs_hexdigest svc) (bs_verify svc) frame) (\<lambda>request.
        if bi_broker_incarnation request \<noteq> bs_broker_incarnation svc then Inl (BrokerProtocolError ''broker incarnation is stale'')
        else if bi_database_incarnation request \<noteq> bs_database_incarnation svc then Inl (BrokerProtocolError ''database incarnation is stale'')
        else if bi_request_type request \<noteq> SUPPORTED_REQUEST_TYPE then Inl (BrokerProtocolError ''broker request type is not supported'')
        else if contains_forbidden_control (JObj (brq_payload request))
        then Inl (BrokerProtocolError ''request contains forbidden launch control'')
        else Inr request))"

subsection \<open>Launcher results\<close>

record launcher_result =
  lr_status :: string
  lr_error :: "utext option"

text \<open>What the launcher call returned: a \<^verbatim>\<open>LauncherResult\<close> or any other object.\<close>

datatype raw_result = RawResult launcher_result | RawOther

definition ERROR_CODE_PATTERN :: "utext \<Rightarrow> bool" where
  "ERROR_CODE_PATTERN s \<longleftrightarrow> 1 \<le> length s \<and> length s \<le> 64 \<and> 97 \<le> hd s \<and> hd s \<le> 122
     \<and> list_all (\<lambda>c. 97 \<le> c \<and> c \<le> 122 \<or> 48 \<le> c \<and> c \<le> 57 \<or> c = 95) (tl s)"

definition confirmed_launcher_result :: "raw_result \<Rightarrow> string \<Rightarrow> launcher_result option" where
  "confirmed_launcher_result v stage =
     (case v of
        RawOther \<Rightarrow> None
      | RawResult r \<Rightarrow>
          let expected = (if stage = ''prepare'' then ''prepared'' else ''launched'') in
          if lr_status r = expected \<and> lr_error r = None then Some r
          else if lr_status r = ''rejected'' \<and> (case lr_error r of Some e \<Rightarrow> ERROR_CODE_PATTERN e | None \<Rightarrow> False) then Some r
          else None)"

definition stage_result :: "string \<Rightarrow> string \<Rightarrow> message" where
  "stage_result status stage = [(ascii ''launcher_status'', JStr (ascii status)), (ascii ''lifecycle_stage'', JStr (ascii stage))]"

definition confirmed_response :: "broker_service \<Rightarrow> broker_request \<Rightarrow> launcher_result \<Rightarrow> string \<Rightarrow> broker_error + bytes" where
  "confirmed_response svc request r stage =
     create_signed_response (bs_sign svc) request (ascii (if lr_status r = ''launched'' then ''ok'' else ''error''))
       (if lr_status r = ''launched'' then None else lr_error r) (stage_result (lr_status r) stage)"

definition unresolved_response :: "broker_service \<Rightarrow> broker_request \<Rightarrow> string \<Rightarrow> broker_error + bytes" where
  "unresolved_response svc request stage =
     create_signed_response (bs_sign svc) request (ascii ''error'') (Some (ascii ''launcher_outcome_unresolved'')) (stage_result ''unresolved'' stage)"

subsection \<open>Actions\<close>

text \<open>
  What a service shares between its requests: the journal, the number of abandoned effects, and, as a record of what it did, the
  effects it has started on the launcher and the runtime, by operation identifier and stage. An action is code between two
  suspension points. The outcome of each commit in it is given by the call.
\<close>

record broker_world =
  bw_journal :: journal
  bw_effects :: "(utext \<times> string) list"
  bw_abandoned :: nat

type_synonym 'a action = "broker_world \<Rightarrow> (service_error + 'a) \<times> broker_world"

datatype journal_call = CallAccept | CallClaim | CallBegin string | CallOutcome string | CallUnresolved string

type_synonym commits = "journal_call \<Rightarrow> commit_outcome"

definition act_return :: "'a \<Rightarrow> 'a action" where
  "act_return x w = (Inr x, w)"

definition act_bind :: "'a action \<Rightarrow> ('a \<Rightarrow> 'b action) \<Rightarrow> 'b action" where
  "act_bind m f w = (case m w of (Inl e, w') \<Rightarrow> (Inl e, w') | (Inr x, w') \<Rightarrow> f x w')"

definition act_signed :: "broker_error + 'a \<Rightarrow> 'a action" where
  "act_signed r w = (case r of Inl e \<Rightarrow> (Inl (ServiceProtocol e), w) | Inr x \<Rightarrow> (Inr x, w))"

definition on_journal :: "(journal \<Rightarrow> (journal_error + 'a) \<times> journal) \<Rightarrow> 'a action" where
  "on_journal op w =
     (case op (bw_journal w) of
        (Inl e, db) \<Rightarrow> (Inl (ServiceJournal e), w\<lparr> bw_journal := db \<rparr>)
      | (Inr x, db) \<Rightarrow> (Inr x, w\<lparr> bw_journal := db \<rparr>))"

definition perform :: "utext \<Rightarrow> string \<Rightarrow> unit action" where
  "perform operation_id stage w = (Inr (), w\<lparr> bw_effects := bw_effects w @ [(operation_id, stage)] \<rparr>)"

definition abandon :: "unit action" where
  "abandon w = (Inr (), w\<lparr> bw_abandoned := Suc (bw_abandoned w) \<rparr>)"

definition record_unresolved :: "broker_service \<Rightarrow> commits \<Rightarrow> broker_request \<Rightarrow> string \<Rightarrow> string \<Rightarrow> bytes action" where
  "record_unresolved svc commit request stage reason =
     act_bind (act_signed (unresolved_response svc request stage)) (\<lambda>response.
     act_bind (on_journal (record_stage_unresolved (commit (CallUnresolved stage)) request (bs_owner_token svc) stage reason response)) (\<lambda>_.
     act_return response))"

text \<open>How the wait for an effect ends: it is cancelled, its deadline passes, or the effect is done.\<close>

datatype effect_outcome =
    WaitCancelled
  | WaitTimedOut
  | EffectCancelled
  | EffectTimeout
  | EffectVerification
  | EffectTransport
  | EffectFailed
  | EffectReturned raw_result

text \<open>\<^verbatim>\<open>_root_effect\<close> up to the suspension: \<open>Some\<close> is the response it returns without starting the effect.\<close>

definition root_effect_begin :: "broker_service \<Rightarrow> commits \<Rightarrow> broker_request \<Rightarrow> string \<Rightarrow> bytes option action" where
  "root_effect_begin svc commit request stage w =
     (if bw_abandoned w \<ge> MAX_ABANDONED_EFFECTS
      then act_bind (record_unresolved svc commit request stage ''timeout_unknown'') (\<lambda>r. act_return (Some r)) w
      else act_bind (perform (bi_operation_id request) stage) (\<lambda>_. act_return None) w)"

definition root_effect_end :: "broker_service \<Rightarrow> commits \<Rightarrow> broker_request \<Rightarrow> string \<Rightarrow> effect_outcome \<Rightarrow> (launcher_result + bytes) action" where
  "root_effect_end svc commit request stage outcome =
     (let unresolved = (\<lambda>reason. act_bind (record_unresolved svc commit request stage reason) (\<lambda>r. act_return (Inr r))) in
      case outcome of
        WaitCancelled \<Rightarrow> act_bind abandon (\<lambda>_. unresolved ''cancellation_unknown'')
      | WaitTimedOut \<Rightarrow> act_bind abandon (\<lambda>_. unresolved ''timeout_unknown'')
      | EffectCancelled \<Rightarrow> unresolved ''cancellation_unknown''
      | EffectTimeout \<Rightarrow> unresolved ''timeout_unknown''
      | EffectVerification \<Rightarrow> unresolved ''verification_unknown''
      | EffectTransport \<Rightarrow> unresolved ''transport_unknown''
      | EffectFailed \<Rightarrow> unresolved ''verification_unknown''
      | EffectReturned v \<Rightarrow>
          (case confirmed_launcher_result v stage of
             None \<Rightarrow> unresolved ''verification_unknown''
           | Some r \<Rightarrow> act_return (Inl r)))"

definition persist_outcome ::
    "broker_service \<Rightarrow> commits \<Rightarrow> broker_request \<Rightarrow> string \<Rightarrow> string \<Rightarrow> utext option \<Rightarrow> bytes option \<Rightarrow> bytes option action" where
  "persist_outcome svc commit request stage stage_status stage_error response_frame w =
     (case on_journal (record_stage_outcome (commit (CallOutcome stage)) request (bs_owner_token svc) stage stage_status stage_error response_frame) w of
        (Inl (ServiceJournal (JournalCommitAbsent _)), w') \<Rightarrow>
          act_bind (record_unresolved svc commit request stage ''sqlite_commit_unknown'') (\<lambda>r. act_return (Some r)) w'
      | (Inl e, w') \<Rightarrow> (Inl e, w')
      | (Inr _, w') \<Rightarrow> (Inr response_frame, w'))"

subsection \<open>The finalizer\<close>

datatype finalizer_phase = FinalizerCreated | AwaitPrepare | AwaitLaunch

datatype progress = Suspended finalizer_phase | Responded bytes

definition act_terminal :: "string \<Rightarrow> bytes option action \<Rightarrow> progress action" where
  "act_terminal message m =
     act_bind m (\<lambda>r w. case r of None \<Rightarrow> (Inl (ServiceRuntime message), w) | Some f \<Rightarrow> (Inr (Responded f), w))"

definition or_continue :: "bytes option action \<Rightarrow> progress action \<Rightarrow> progress action" where
  "or_continue m k = act_bind m (\<lambda>r. case r of Some f \<Rightarrow> act_return (Responded f) | None \<Rightarrow> k)"

definition finalize_start :: "broker_service \<Rightarrow> commits \<Rightarrow> broker_request \<Rightarrow> progress action" where
  "finalize_start svc commit request = or_continue (root_effect_begin svc commit request ''prepare'') (act_return (Suspended AwaitPrepare))"

definition launch_stage :: "broker_service \<Rightarrow> commits \<Rightarrow> broker_request \<Rightarrow> progress action" where
  "launch_stage svc commit request =
     act_bind (on_journal (begin_stage (commit (CallBegin ''launch'')) request (bs_owner_token svc) ''launch'')) (\<lambda>_.
     or_continue (root_effect_begin svc commit request ''launch'') (act_return (Suspended AwaitLaunch)))"

definition setup_stage :: "broker_service \<Rightarrow> commits \<Rightarrow> broker_request \<Rightarrow> bool \<Rightarrow> progress action" where
  "setup_stage svc commit request setup_ok =
     act_bind (on_journal (begin_stage (commit (CallBegin ''runtime_setup'')) request (bs_owner_token svc) ''runtime_setup'')) (\<lambda>_.
     act_bind (perform (bi_operation_id request) ''runtime_setup'') (\<lambda>_.
     if \<not> setup_ok
     then act_bind (record_unresolved svc commit request ''runtime_setup'' ''verification_unknown'') (\<lambda>r. act_return (Responded r))
     else or_continue (persist_outcome svc commit request ''runtime_setup'' ''runtime_ready'' None None) (launch_stage svc commit request)))"

definition finalize_prepared :: "broker_service \<Rightarrow> commits \<Rightarrow> broker_request \<Rightarrow> effect_outcome \<Rightarrow> bool \<Rightarrow> progress action" where
  "finalize_prepared svc commit request outcome setup_ok =
     act_bind (root_effect_end svc commit request ''prepare'' outcome) (\<lambda>prepare.
     case prepare of
       Inr f \<Rightarrow> act_return (Responded f)
     | Inl r \<Rightarrow>
         if lr_status r = ''rejected'' then
           act_bind (act_signed (confirmed_response svc request r ''prepare'')) (\<lambda>response.
           act_terminal ''terminal prepare outcome has no response''
             (persist_outcome svc commit request ''prepare'' ''rejected'' (lr_error r) (Some response)))
         else
           or_continue (persist_outcome svc commit request ''prepare'' ''prepared'' None None) (setup_stage svc commit request setup_ok))"

definition finalize_launched :: "broker_service \<Rightarrow> commits \<Rightarrow> broker_request \<Rightarrow> effect_outcome \<Rightarrow> progress action" where
  "finalize_launched svc commit request outcome =
     act_bind (root_effect_end svc commit request ''launch'' outcome) (\<lambda>launch.
     case launch of
       Inr f \<Rightarrow> act_return (Responded f)
     | Inl r \<Rightarrow>
         act_bind (act_signed (confirmed_response svc request r ''launch'')) (\<lambda>response.
         act_terminal ''terminal launch outcome has no response''
           (persist_outcome svc commit request ''launch'' (lr_status r) (lr_error r) (Some response))))"

text \<open>The finalizer is cancelled before its first step: the owner records that, and this is its response.\<close>

definition finalize_cancelled :: "broker_service \<Rightarrow> commits \<Rightarrow> broker_request \<Rightarrow> progress action" where
  "finalize_cancelled svc commit request =
     act_bind (record_unresolved svc commit request ''prepare'' ''cancellation_unknown'') (\<lambda>r. act_return (Responded r))"

subsection \<open>Requests and recovery\<close>

datatype handled = HandledResponse broker_request bytes | HandledOwner broker_request | HandledWait broker_request

definition decided_response :: "broker_request \<Rightarrow> journal_decision \<Rightarrow> handled action" where
  "decided_response request d w =
     (case jd_response_frame d of
        None \<Rightarrow> (Inl (ServiceRuntime ''terminal broker journal entry has no response''), w)
      | Some f \<Rightarrow> (Inr (HandledResponse request f), w))"

definition invalid_transition :: "handled action" where
  "invalid_transition w = (Inl (ServiceRuntime ''broker journal returned an invalid transition''), w)"

text \<open>\<^verbatim>\<open>handle\<close> up to its first suspension: a response, a finalizer to wait for, or the owner to wait for.\<close>

definition take_ownership :: "broker_service \<Rightarrow> commits \<Rightarrow> broker_request \<Rightarrow> handled action" where
  "take_ownership svc commit request =
     act_bind (on_journal (claim_lifecycle (commit CallClaim) request (bs_owner_token svc) (bs_broker_incarnation svc))) (\<lambda>ownership.
     if jd_state ownership = ''claimed'' then
       act_bind (on_journal (begin_stage (commit (CallBegin ''prepare'')) request (bs_owner_token svc) ''prepare'')) (\<lambda>_.
       act_return (HandledOwner request))
     else if jd_state ownership \<in> {''terminal'', ''unresolved''} then decided_response request ownership
     else if jd_state ownership = ''in_flight'' then act_return (HandledWait request)
     else invalid_transition)"

definition handle_begin :: "broker_service \<Rightarrow> commits \<Rightarrow> bytes \<Rightarrow> int \<Rightarrow> handled action" where
  "handle_begin svc commit frame peer_uid =
     act_bind (act_signed (authenticate svc frame peer_uid)) (\<lambda>request.
     act_bind (on_journal (journal_accept (commit CallAccept) request frame)) (\<lambda>d.
     if jd_state d \<in> {''terminal'', ''unresolved''} then decided_response request d
     else if jd_state d \<noteq> ''accepted'' then invalid_transition
     else take_ownership svc commit request))"

text \<open>\<^verbatim>\<open>_wait_for_owner\<close>, over the journals that its polls see before the deadline.\<close>

fun wait_for_owner :: "broker_request \<Rightarrow> journal list \<Rightarrow> service_error + bytes" where
  "wait_for_owner request [] = Inl (LauncherTransport ''broker lifecycle owner is still active'')"
| "wait_for_owner request (db # dbs) =
     (case journal_status request db of
        Inl e \<Rightarrow> Inl (ServiceJournal e)
      | Inr d \<Rightarrow>
          if jd_state d \<in> {''terminal'', ''unresolved''} then
            (case jd_response_frame d of
               None \<Rightarrow> Inl (ServiceRuntime ''terminal broker journal entry has no response'')
             | Some f \<Rightarrow> Inr f)
          else wait_for_owner request dbs)"

definition recover_one :: "broker_service \<Rightarrow> commits \<Rightarrow> incomplete_lifecycle \<Rightarrow> unit action" where
  "recover_one svc commit l =
     act_bind (act_signed (authenticate svc (il_request_frame l) (bs_application_uid svc))) (\<lambda>request.
     act_bind (if il_stage_started l then act_return ()
               else on_journal (begin_stage (commit (CallBegin (il_stage l))) request (il_owner_token l) (il_stage l))) (\<lambda>_.
     act_bind (act_signed (unresolved_response svc request (il_stage l))) (\<lambda>response.
     on_journal (record_stage_unresolved (commit (CallUnresolved (il_stage l))) request (il_owner_token l) (il_stage l)
       ''broker_restart_unknown'' response))))"

fun recover_all :: "broker_service \<Rightarrow> (nat \<Rightarrow> commits) \<Rightarrow> nat \<Rightarrow> incomplete_lifecycle list \<Rightarrow> unit action" where
  "recover_all svc commit n [] = act_return ()"
| "recover_all svc commit n (l # ls) = act_bind (recover_one svc (commit n) l) (\<lambda>_. recover_all svc commit (Suc n) ls)"

definition recover_startup :: "broker_service \<Rightarrow> (nat \<Rightarrow> commits) \<Rightarrow> unit action" where
  "recover_startup svc commit =
     act_bind (on_journal (\<lambda>db. (incomplete_lifecycles db, db))) (\<lambda>ls. recover_all svc commit 0 ls)"

subsection \<open>Routing of control frames\<close>

datatype control_route = RouteLaunch | RouteReplica broker_request | RouteDrain broker_request | RouteRefused bytes

definition control_authenticate :: "broker_service \<Rightarrow> bytes \<Rightarrow> int \<Rightarrow> broker_error + broker_request" where
  "control_authenticate svc frame peer_uid =
     (if peer_uid \<noteq> bs_application_uid svc then Inl (BrokerProtocolError ''broker peer UID is not authorized'')
      else rbind (parse_signed_request (bs_hexdigest svc) (bs_verify svc) frame) (\<lambda>request.
        if bi_broker_incarnation request \<noteq> bs_broker_incarnation svc then Inl (BrokerProtocolError ''broker incarnation is stale'')
        else if bi_database_incarnation request \<noteq> bs_database_incarnation svc then Inl (BrokerProtocolError ''database incarnation is stale'')
        else Inr request))"

definition disabled_replica_response :: "broker_service \<Rightarrow> broker_request \<Rightarrow> broker_error + bytes" where
  "disabled_replica_response svc request =
     create_signed_response (bs_sign svc) request (ascii ''error'') (Some (ascii ''replica_lifecycle_disabled''))
       [(ascii ''stage'', JStr (ascii ''ingest'')), (ascii ''state'', JStr (ascii ''rejected'')),
        (ascii ''code'', JStr (ascii ''replica_lifecycle_disabled''))]"

text \<open>Which handler \<^verbatim>\<open>BrokerControlService.handle\<close> passes an authenticated frame to.\<close>

definition control_route_of :: "broker_service \<Rightarrow> bool \<Rightarrow> bytes \<Rightarrow> int \<Rightarrow> broker_error + control_route" where
  "control_route_of svc replica_lifecycle_enabled frame peer_uid =
     rbind (control_authenticate svc frame peer_uid) (\<lambda>request.
     if bi_request_type request = SUPPORTED_REQUEST_TYPE then Inr RouteLaunch
     else if bi_request_type request \<notin> {REPLICA_REQUEST_TYPE, REPLICA_DRAIN_REQUEST_TYPE}
     then Inl (BrokerProtocolError ''broker request type is not supported'')
     else if \<not> replica_lifecycle_enabled then rbind (disabled_replica_response svc request) (\<lambda>f. Inr (RouteRefused f))
     else if bi_request_type request = REPLICA_REQUEST_TYPE then Inr (RouteReplica request)
     else Inr (RouteDrain request))"

end
