(* ===== verification/Execution_Broker_Logic.thy ===== *)
theory Execution_Broker_Logic
  imports Execution_Broker
begin

section \<open>Reasoning about the execution broker\<close>

text \<open>
  A small logic for the actions of the broker, and what each of them does to the operation it concerns: a triple says that an action
  touches one operation only, starts an effect only for a stage that the journal records as started, never starts one twice, and ends
  in the state that its result announces.
\<close>

subsection \<open>Reasoning about actions\<close>

text \<open>
  \<open>op_at oid i w s p\<close>: in the world \<open>w\<close> the operation \<open>i\<close> is in state \<open>s\<close>, and \<open>p\<close> are the stages whose effect was started for its
  identifier \<open>oid\<close>. A triple \<open>runs oid i s p m Q\<close> says that from there the action \<open>m\<close> concerns this operation only, never repeats an
  effect, and ends as \<open>Q\<close> tells when it returns.
\<close>

definition effects_of :: "utext \<Rightarrow> broker_world \<Rightarrow> string set" where
  "effects_of oid w = {st. (oid, st) \<in> set (bw_effects w)}"

definition op_at :: "utext \<Rightarrow> operation \<Rightarrow> broker_world \<Rightarrow> op_state \<Rightarrow> string set \<Rightarrow> bool" where
  "op_at oid i w s p \<longleftrightarrow> journal_ok (bw_journal w) \<and> op_of i (bw_journal w) = Some s \<and> effects_of oid w = p \<and> p \<subseteq> op_started s \<and> distinct (bw_effects w)"

definition others_kept :: "utext \<Rightarrow> operation \<Rightarrow> broker_world \<Rightarrow> broker_world \<Rightarrow> bool" where
  "others_kept oid i w w' \<longleftrightarrow> (\<forall>j. j \<noteq> i \<longrightarrow> op_of j (bw_journal w') = op_of j (bw_journal w)) \<and> (\<forall>x. x \<noteq> oid \<longrightarrow> effects_of x w' = effects_of x w)"

definition advances :: "op_state \<Rightarrow> op_state \<Rightarrow> bool" where
  "advances s s' \<longleftrightarrow> op_started s \<subseteq> op_started s' \<and> (op_ended s \<longrightarrow> s' = s)"

lemma advances_refl [simp, intro!]: "advances s s"
  by (simp add: advances_def)

lemma advances_trans: "advances a b \<Longrightarrow> advances b c \<Longrightarrow> advances a c"
  by (auto simp: advances_def)

definition runs :: "utext \<Rightarrow> operation \<Rightarrow> op_state \<Rightarrow> string set \<Rightarrow> 'a action \<Rightarrow> ('a \<Rightarrow> op_state \<Rightarrow> string set \<Rightarrow> bool) \<Rightarrow> bool" where
  "runs oid i s p m Q \<longleftrightarrow> (\<forall>w. op_at oid i w s p \<longrightarrow>
     (\<exists>s' p'. op_at oid i (snd (m w)) s' p' \<and> advances s s' \<and> others_kept oid i w (snd (m w)) \<and> (\<forall>x. fst (m w) = Inr x \<longrightarrow> Q x s' p')))"

lemma runs_return [intro]: "Q x s p \<Longrightarrow> runs oid i s p (act_return x) Q"
  by (auto simp: runs_def act_return_def others_kept_def)

lemma runs_signed [intro]: "(\<And>x. r = Inr x \<Longrightarrow> Q x s p) \<Longrightarrow> runs oid i s p (act_signed r) Q"
  by (cases r) (auto simp: runs_def act_signed_def others_kept_def)

lemma others_kept_trans: "others_kept oid i a b \<Longrightarrow> others_kept oid i b c \<Longrightarrow> others_kept oid i a c"
  by (simp add: others_kept_def)

lemma runs_bind:
  assumes "runs oid i s p m Q" "\<And>x s' p'. Q x s' p' \<Longrightarrow> runs oid i s' p' (f x) R"
  shows "runs oid i s p (act_bind m f) R"
  unfolding runs_def
proof (intro allI impI)
  fix w assume w: "op_at oid i w s p"
  obtain r w1 where m: "m w = (r, w1)" by fastforce
  obtain s1 p1 where 1: "op_at oid i w1 s1 p1" "others_kept oid i w w1" "\<forall>x. r = Inr x \<longrightarrow> Q x s1 p1" "advances s s1"
    using assms(1) w m unfolding runs_def by fastforce
  show "\<exists>s' p'. op_at oid i (snd (act_bind m f w)) s' p' \<and> advances s s' \<and> others_kept oid i w (snd (act_bind m f w)) \<and> (\<forall>x. fst (act_bind m f w) = Inr x \<longrightarrow> R x s' p')"
  proof (cases r)
    case (Inl e)
    then show ?thesis using 1 m by (auto simp: act_bind_def)
  next
    case (Inr x)
    then have "runs oid i s1 p1 (f x) R" using 1(3) assms(2) by blast
    then obtain s2 p2 where 2: "op_at oid i (snd (f x w1)) s2 p2" "advances s1 s2" "others_kept oid i w1 (snd (f x w1))" "\<forall>y. fst (f x w1) = Inr y \<longrightarrow> R y s2 p2"
      using 1(1) unfolding runs_def by blast
    moreover have "act_bind m f w = f x w1" using Inr m by (simp add: act_bind_def)
    ultimately show ?thesis using others_kept_trans [OF 1(2) 2(3)] advances_trans [OF 1(4) 2(2)] by auto
  qed
qed

lemma runs_weaken: "runs oid i s p m Q \<Longrightarrow> (\<And>x s' p'. Q x s' p' \<Longrightarrow> R x s' p') \<Longrightarrow> runs oid i s p m R"
  unfolding runs_def by meson

lemma effects_perform:
  "effects_of x (snd (perform oid st w)) = (if x = oid then insert st (effects_of x w) else effects_of x w)"
  by (auto simp: perform_def effects_of_def)

lemma runs_perform [intro]:
  assumes "st \<in> op_started s" "st \<notin> p" "Q () s (insert st p)"
  shows "runs oid i s p (perform oid st) Q"
  unfolding runs_def
proof (intro allI impI)
  fix w assume w: "op_at oid i w s p"
  then have "(oid, st) \<notin> set (bw_effects w)" using assms(2) by (auto simp: op_at_def effects_of_def)
  then have "op_at oid i (snd (perform oid st w)) s (insert st p)"
    using w assms(1) effects_perform [of oid oid st w] by (simp add: op_at_def perform_def)
  moreover have "others_kept oid i w (snd (perform oid st w))" using effects_perform [of _ oid st w] by (simp add: others_kept_def) (simp add: perform_def)
  moreover have "\<forall>x. Q x s (insert st p)" using assms(3) by simp
  ultimately show "\<exists>s' p'. op_at oid i (snd (perform oid st w)) s' p' \<and> advances s s' \<and> others_kept oid i w (snd (perform oid st w))
      \<and> (\<forall>x. fst (perform oid st w) = Inr x \<longrightarrow> Q x s' p')" using advances_refl by blast
qed

lemma runs_abandon [intro]: "Q () s p \<Longrightarrow> runs oid i s p abandon Q"
  by (auto simp: runs_def abandon_def op_at_def others_kept_def effects_of_def)

lemma runs_if: "runs oid i s p m Q \<Longrightarrow> runs oid i s p k Q \<Longrightarrow> runs oid i s p (\<lambda>w. if P w then m w else k w) Q"
  by (simp add: runs_def)

lemma on_journal_at:
  assumes "op_at oid i w s p" "refines i (bw_journal w) (op (bw_journal w)) (r, s')" "journal_ok (snd (op (bw_journal w)))" "advances s s'"
  shows "fst (on_journal op w) = (case r of Inl e \<Rightarrow> Inl (ServiceJournal e) | Inr x \<Rightarrow> Inr x)"
    and "op_at oid i (snd (on_journal op w)) s' p" and "others_kept oid i w (snd (on_journal op w))"
proof -
  have n: "snd (on_journal op w) = w\<lparr> bw_journal := snd (op (bw_journal w)) \<rparr>" by (simp add: on_journal_def split: prod.splits sum.splits)
  show "op_at oid i (snd (on_journal op w)) s' p" "others_kept oid i w (snd (on_journal op w))"
    using assms unfolding n by (auto simp: op_at_def others_kept_def refines_def effects_of_def advances_def)
  show "fst (on_journal op w) = (case r of Inl e \<Rightarrow> Inl (ServiceJournal e) | Inr x \<Rightarrow> Inr x)"
    using assms(2) by (auto simp: on_journal_def refines_def split: prod.splits sum.splits)
qed

lemma runs_journal_call:
  assumes "\<And>db. journal_ok db \<Longrightarrow> op_of i db = Some s \<Longrightarrow>
    \<exists>r s'. refines i db (op db) (r, s') \<and> journal_ok (snd (op db)) \<and> advances s s' \<and> (\<forall>x. r = Inr x \<longrightarrow> Q x s' p)"
  shows "runs oid i s p (on_journal op) Q"
  unfolding runs_def
proof (intro allI impI)
  fix w assume w: "op_at oid i w s p"
  then obtain r s' where r: "refines i (bw_journal w) (op (bw_journal w)) (r, s')" "journal_ok (snd (op (bw_journal w)))" "advances s s'" "\<forall>x. r = Inr x \<longrightarrow> Q x s' p"
    using assms [of "bw_journal w"] by (auto simp: op_at_def)
  note n = on_journal_at [where op = op, OF w r(1-3)]
  then have "fst (on_journal op w) = Inr x \<Longrightarrow> r = Inr x" for x by (auto split: sum.splits)
  then show "\<exists>s' p'. op_at oid i (snd (on_journal op w)) s' p' \<and> advances s s' \<and> others_kept oid i w (snd (on_journal op w)) \<and> (\<forall>x. fst (on_journal op w) = Inr x \<longrightarrow> Q x s' p')"
    using r(3,4) n(2,3) by blast
qed

lemma runs_journal:
  assumes "\<And>db. journal_ok db \<Longrightarrow> op_of i db = Some s \<Longrightarrow> refines i db (op db) (spec s) \<and> journal_ok (snd (op db))"
    and "advances s (snd (spec s))" "\<And>x. fst (spec s) = Inr x \<Longrightarrow> Q x (snd (spec s)) p"
  shows "runs oid i s p (on_journal op) Q"
  by (rule runs_journal_call, rule exI [of _ "fst (spec s)"], rule exI [of _ "snd (spec s)"]) (use assms in simp)

subsection \<open>Journal calls\<close>

lemma journal_step_ok: "journal_ok db \<Longrightarrow> journal_step hexdigest verify db db' \<Longrightarrow> journal_ok db'"
  by (rule journal_log.step_inv)

lemma journal_ops_ok:
  assumes "journal_ok db"
  shows "journal_ok (snd (claim_lifecycle c request t b db))" "journal_ok (snd (begin_stage c request t st db))"
    "\<forall>f. rf = Some f \<longrightarrow> response_frame_ok f \<Longrightarrow> journal_ok (snd (record_stage_outcome c request t st su er rf db))"
    "response_frame_ok f \<Longrightarrow> journal_ok (snd (record_stage_unresolved c request t st re f db))"
    "parse_signed_request hexdigest verify frame = Inr request \<Longrightarrow> journal_ok (snd (journal_accept c request frame db))"
  by (rule journal_step_ok [OF assms js_claim], rule journal_step_ok [OF assms js_begin], erule journal_step_ok [OF assms js_outcome],
      erule journal_step_ok [OF assms js_unresolved], erule journal_step_ok [OF assms js_accept])

lemma spec_append_cases:
  assumes "spec_append c e s = (r, s')"
  shows "r = Inr () \<and> op_step s e = Some s' \<and> check_columns e \<or> (\<exists>x. r = Inl x) \<and> s' = s"
  using assms by (auto simp: spec_append_def split: option.splits if_splits)

lemma op_step_started:
  assumes "op_step s e = Some s'" "op_wf s"
  shows "op_started s \<subseteq> op_started s'"
proof (cases "op_started s = {}")
  case False
  then consider t b st where "s = OpStarted t b st" | t b st where "s = OpDone t b st" | t b u st f where "s = OpTerminal t b u st f" by (cases s) auto
  then show ?thesis
  proof cases
    case 1
    then have "(\<exists>u f. s' = OpTerminal t b u st f) \<or> s' = OpDone t b st"
      using assms(1) by (cases "je_type e") (auto simp: op_step_def split: if_splits)
    then show ?thesis using 1 by auto
  next
    case 2
    then obtain st' where "next_stage st = Some st'" "s' = OpStarted t b st'" using assms(1) by (cases "je_type e") (auto simp: op_step_def split: option.splits if_splits)
    then show ?thesis using 2 by (auto simp: stage_defs split: if_splits)
  next
    case 3
    then show ?thesis using op_step_ended [OF assms(1)] by simp
  qed
qed simp

lemma op_of_wf: "op_of i db = Some s \<Longrightarrow> op_wf s"
  using op_run_answers by (auto simp: op_of_def answers_def)

lemma spec_append_advances: "op_wf s \<Longrightarrow> advances s (snd (spec_append c e s))"
  using spec_append_cases [of c e s] op_step_started op_step_ended by (cases "spec_append c e s") (fastforce simp: advances_def)

lemma runs_wf: "(op_wf s \<Longrightarrow> runs oid i s p m Q) \<Longrightarrow> runs oid i s p m Q"
  using op_of_wf unfolding runs_def op_at_def by metis

lemma runs_begin:
  assumes "\<And>s'. op_step s (started_event (journal_identity request) t st) = Some s' \<Longrightarrow> Q () s' p"
  shows "runs oid (journal_identity request) s p (on_journal (begin_stage c request t st)) Q"
proof (rule runs_wf, rule runs_journal [where spec = "spec_begin c (journal_identity request) t st"])
  assume wf: "op_wf s"
  show "advances s (snd (spec_begin c (journal_identity request) t st s))"
    using spec_append_advances [OF wf] by (simp add: spec_begin_def)
  show "Q x (snd (spec_begin c (journal_identity request) t st s)) p" if "fst (spec_begin c (journal_identity request) t st s) = Inr x" for x
    using that assms spec_append_cases [of c "started_event (journal_identity request) t st" s] by (cases "spec_append c (started_event (journal_identity request) t st) s") (auto simp: spec_begin_def split: if_splits)
qed (auto intro: begin_refines journal_ops_ok)

lemma runs_outcome:
  assumes "\<forall>f. rf = Some f \<longrightarrow> response_frame_ok f"
    and "\<And>s'. op_step s (outcome_event (journal_identity request) t st su er rf) = Some s' \<Longrightarrow> check_columns (outcome_event (journal_identity request) t st su er rf) \<Longrightarrow> Q () s' p"
  shows "runs oid (journal_identity request) s p (on_journal (record_stage_outcome c request t st su er rf)) Q"
proof (rule runs_wf, rule runs_journal [where spec = "spec_outcome c (journal_identity request) t st su er rf"])
  let ?e = "outcome_event (journal_identity request) t st su er rf"
  assume wf: "op_wf s"
  show "advances s (snd (spec_outcome c (journal_identity request) t st su er rf s))"
    using spec_append_advances [OF wf] by (simp add: spec_outcome_def)
  show "Q x (snd (spec_outcome c (journal_identity request) t st su er rf s)) p" if "fst (spec_outcome c (journal_identity request) t st su er rf s) = Inr x" for x
    using that assms(2) spec_append_cases [of c ?e s] by (cases "spec_append c ?e s") (auto simp: spec_outcome_def split: if_splits)
qed (use assms(1) in \<open>auto intro: outcome_refines journal_ops_ok\<close>)

lemma runs_unresolved:
  assumes "response_frame_ok f"
    and "\<And>s'. op_step s (unresolved_event (journal_identity request) t st re f) = Some s' \<Longrightarrow> Q () s' p"
    and "\<And>b. s = OpTerminal t b (Some re) st f \<Longrightarrow> Q () s p"
  shows "runs oid (journal_identity request) s p (on_journal (record_stage_unresolved c request t st re f)) Q"
proof (rule runs_wf, rule runs_journal [where spec = "spec_unresolved c (journal_identity request) t st re f"])
  let ?e = "unresolved_event (journal_identity request) t st re f"
  assume wf: "op_wf s"
  show "advances s (snd (spec_unresolved c (journal_identity request) t st re f s))"
    using spec_append_advances [OF wf] by (cases s) (auto simp: spec_unresolved_def)
  show "Q x (snd (spec_unresolved c (journal_identity request) t st re f s)) p" if "fst (spec_unresolved c (journal_identity request) t st re f s) = Inr x" for x
    using that assms(2,3) spec_append_cases [of c ?e s] by (cases "spec_append c ?e s"; cases s) (auto simp: spec_unresolved_def split: if_splits)
qed (use assms(1) in \<open>auto intro: unresolved_refines journal_ops_ok\<close>)

subsection \<open>The owner of an operation\<close>

lemma stage_result_python: "python_json (JObj (stage_result status stage))"
  by (simp add: stage_result_def ascii_points)

lemma response_frame_okI:
  assumes "create_signed_response sign request st e (stage_result status stage) = Inr f" "identity_points (broker_identity.truncate request)"
    "\<forall>x. e = Some x \<longrightarrow> code_points x"
  shows "response_frame_ok f"
  unfolding response_frame_ok_def using assms stage_result_python by blast

lemma unresolved_response_ok:
  "unresolved_response svc request stage = Inr f \<Longrightarrow> identity_points (broker_identity.truncate request) \<Longrightarrow> response_frame_ok f"
  unfolding unresolved_response_def by (erule response_frame_okI) (auto simp: ascii_points)

lemma error_code_points: "ERROR_CODE_PATTERN e \<Longrightarrow> code_points e"
  by (cases e) (auto simp: ERROR_CODE_PATTERN_def code_points_def list_all_iff)

lemma confirmed_response_ok:
  assumes "confirmed_response svc request r stage = Inr f" "identity_points (broker_identity.truncate request)" "confirmed_launcher_result v stage' = Some r"
  shows "response_frame_ok f"
  using assms(1) unfolding confirmed_response_def
  by (rule response_frame_okI [OF _ assms(2)])
     (use assms(3) error_code_points in \<open>auto simp: confirmed_launcher_result_def Let_def split: raw_result.splits if_splits option.splits\<close>)

lemma confirmed_status:
  "confirmed_launcher_result v stage = Some r \<Longrightarrow> lr_status r \<in> {if stage = ''prepare'' then ''prepared'' else ''launched'', ''rejected''}"
  by (auto simp: confirmed_launcher_result_def Let_def split: raw_result.splits if_splits)

definition ended_with :: "utext \<Rightarrow> utext \<Rightarrow> bytes \<Rightarrow> op_state \<Rightarrow> bool" where
  "ended_with t b f s \<longleftrightarrow> (\<exists>u st. s = OpTerminal t b u st f)"

fun phase_stage :: "finalizer_phase \<Rightarrow> string" where
  "phase_stage FinalizerCreated = ''prepare''"
| "phase_stage AwaitPrepare = ''prepare''"
| "phase_stage AwaitLaunch = ''launch''"

fun progress_post :: "utext \<Rightarrow> utext \<Rightarrow> progress \<Rightarrow> op_state \<Rightarrow> string set \<Rightarrow> bool" where
  "progress_post t b (Responded f) s p = ended_with t b f s"
| "progress_post t b (Suspended ph) s p = (s = OpStarted t b (phase_stage ph) \<and> ph \<noteq> FinalizerCreated)"

fun optional_post :: "utext \<Rightarrow> utext \<Rightarrow> op_state \<Rightarrow> string set \<Rightarrow> bytes option \<Rightarrow> op_state \<Rightarrow> string set \<Rightarrow> bool" where
  "optional_post t b s0 p0 (Some f) s p = ended_with t b f s"
| "optional_post t b s0 p0 None s p = (s = s0 \<and> p = p0)"

lemma step_unresolved:
  "op_step (OpStarted t b st) (unresolved_event i t' st' re f) = Some s' \<Longrightarrow> s' = OpTerminal t b (Some re) st f"
  by (auto simp: op_step_def unresolved_event_def empty_event_def split: if_splits)

lemma step_started:
  "op_step s (started_event i t st) = Some s' \<Longrightarrow> op_claim s = Some (t, b) \<Longrightarrow> s' = OpStarted t b st"
  by (auto simp: op_step_def started_event_def empty_event_def split: op_state.splits option.splits if_splits)

lemma step_outcome:
  "op_step (OpStarted t b st) (outcome_event i t' st' su er rf) = Some s' \<Longrightarrow> check_columns (outcome_event i t' st' su er rf)
     \<Longrightarrow> (case rf of Some f \<Rightarrow> s' = OpTerminal t b None st f | None \<Rightarrow> s' = OpDone t b st)"
  by (cases rf) (auto simp: op_step_def outcome_event_def empty_event_def check_columns_def is_terminal_def split: if_splits)

lemma runs_record_unresolved:
  assumes "identity_points (broker_identity.truncate request)" "bs_owner_token svc = t"
  shows "runs oid (journal_identity request) (OpStarted t b st) p (record_unresolved svc commit request st reason) (\<lambda>f s' p'. ended_with t b f s')"
  unfolding record_unresolved_def
proof (rule runs_bind [where Q = "\<lambda>f s' p'. response_frame_ok f \<and> s' = OpStarted t b st"])
  show "runs oid (journal_identity request) (OpStarted t b st) p (act_signed (unresolved_response svc request st)) (\<lambda>f s' p'. response_frame_ok f \<and> s' = OpStarted t b st)"
    using unresolved_response_ok assms(1) by blast
next
  fix f s' p' assume f: "response_frame_ok f \<and> s' = OpStarted t b st"
  show "runs oid (journal_identity request) s' p'
      (act_bind (on_journal (record_stage_unresolved (commit (CallUnresolved st)) request (bs_owner_token svc) st reason f)) (\<lambda>_. act_return f))
      (\<lambda>f s' p'. ended_with t b f s')"
    by (rule runs_bind [where Q = "\<lambda>_ s' p'. ended_with t b f s'"])
       (use f in \<open>auto intro!: runs_unresolved runs_return simp: ended_with_def dest: step_unresolved\<close>)
qed

lemma runs_within: "(p \<subseteq> op_started s \<Longrightarrow> runs oid i s p m Q) \<Longrightarrow> runs oid i s p m Q"
  unfolding runs_def op_at_def by metis

lemma runs_or_continue:
  assumes "runs oid i s p m Q" "\<And>f s' p'. Q (Some f) s' p' \<Longrightarrow> R (Responded f) s' p'" "\<And>s' p'. Q None s' p' \<Longrightarrow> runs oid i s' p' k R"
  shows "runs oid i s p (or_continue m k) R"
  unfolding or_continue_def by (rule runs_bind [OF assms(1)]) (auto intro: assms(2,3) runs_return split: option.splits)

lemma runs_terminal:
  assumes "runs oid i s p m Q" "\<And>f s' p'. Q (Some f) s' p' \<Longrightarrow> R (Responded f) s' p'"
  shows "runs oid i s p (act_terminal message m) R"
proof -
  have "runs oid i s' p' (\<lambda>w. case r of None \<Rightarrow> (Inl (ServiceRuntime message), w) | Some f \<Rightarrow> (Inr (Responded f), w)) R" if "Q r s' p'" for r s' p'
  proof (cases r)
    case (Some f)
    then show ?thesis using runs_return [of R "Responded f" s' p' oid i] assms(2) that by (simp add: act_return_def [abs_def])
  qed (auto simp: runs_def others_kept_def)
  then show ?thesis unfolding act_terminal_def by (intro runs_bind [OF assms(1)])
qed

definition owned_by :: "broker_service \<Rightarrow> broker_request \<Rightarrow> utext \<Rightarrow> bool" where
  "owned_by svc request t \<longleftrightarrow> identity_points (broker_identity.truncate request) \<and> bs_owner_token svc = t"

lemma runs_giving_up:
  assumes "owned_by svc request t" "\<And>f s' p'. ended_with t b f s' \<Longrightarrow> Q (g f) s' p'"
  shows "runs oid (journal_identity request) (OpStarted t b st) p (act_bind (record_unresolved svc commit request st reason) (\<lambda>f. act_return (g f))) Q"
  by (rule runs_bind [OF runs_record_unresolved]) (use assms in \<open>auto simp: owned_by_def\<close>)

lemma runs_effect_begin:
  assumes "owned_by svc request t" "st \<notin> p"
  shows "runs (bi_operation_id request) (journal_identity request) (OpStarted t b st) p (root_effect_begin svc commit request st)
    (optional_post t b (OpStarted t b st) (insert st p))"
proof -
  have "runs (bi_operation_id request) (journal_identity request) (OpStarted t b st) p
      (act_bind (perform (bi_operation_id request) st) (\<lambda>_. act_return None)) (optional_post t b (OpStarted t b st) (insert st p))"
    by (rule runs_bind [OF runs_perform [where Q = "\<lambda>_ s' p'. s' = OpStarted t b st \<and> p' = insert st p"]]) (use assms(2) in auto)
  then show ?thesis unfolding root_effect_begin_def by (intro runs_if runs_giving_up [OF assms(1)]) auto
qed

fun effect_post :: "utext \<Rightarrow> utext \<Rightarrow> string \<Rightarrow> launcher_result + bytes \<Rightarrow> op_state \<Rightarrow> string set \<Rightarrow> bool" where
  "effect_post t b st (Inr f) s p = ended_with t b f s"
| "effect_post t b st (Inl r) s p = (s = OpStarted t b st \<and> (\<exists>v. confirmed_launcher_result v st = Some r))"

lemma runs_effect_end:
  assumes "owned_by svc request t"
  shows "runs oid (journal_identity request) (OpStarted t b st) p (root_effect_end svc commit request st outcome) (effect_post t b st)"
proof -
  have u: "runs oid (journal_identity request) (OpStarted t b st) p (act_bind (record_unresolved svc commit request st reason) (\<lambda>r. act_return (Inr r))) (effect_post t b st)" for reason p
    by (rule runs_giving_up [OF assms]) simp
  have a: "runs oid (journal_identity request) (OpStarted t b st) p (act_bind abandon (\<lambda>_. act_bind (record_unresolved svc commit request st reason) (\<lambda>r. act_return (Inr r)))) (effect_post t b st)" for reason
    by (rule runs_bind [OF runs_abandon [where Q = "\<lambda>_ s' p'. s' = OpStarted t b st"]]) (auto intro: u)
  show ?thesis unfolding root_effect_end_def Let_def
    by (auto intro!: u a runs_return split: effect_outcome.splits option.splits)
qed

lemma outcome_spec_error: "fst (spec_outcome c i t st su er rf s) = Inl e \<Longrightarrow> snd (spec_outcome c i t st su er rf s) = s"
  by (auto simp: spec_outcome_def spec_append_def split: option.splits if_splits)

fun persist_post :: "utext \<Rightarrow> utext \<Rightarrow> string \<Rightarrow> bytes option \<Rightarrow> bytes option \<Rightarrow> op_state \<Rightarrow> string set \<Rightarrow> bool" where
  "persist_post t b st rf (Some f) s p = ended_with t b f s"
| "persist_post t b st rf None s p = (s = OpDone t b st \<and> rf = None)"

lemma runs_persist:
  assumes "owned_by svc request t" "\<forall>f. rf = Some f \<longrightarrow> response_frame_ok f"
  shows "runs oid (journal_identity request) (OpStarted t b st) p (persist_outcome svc commit request st su er rf) (persist_post t b st rf)"
  unfolding runs_def
proof (intro allI impI)
  fix w assume w: "op_at oid (journal_identity request) w (OpStarted t b st) p"
  let ?i = "journal_identity request" and ?s = "OpStarted t b st" and ?c = "commit (CallOutcome st)"
  let ?op = "record_stage_outcome ?c request (bs_owner_token svc) st su er rf" and ?m = "persist_outcome svc commit request st su er rf"
  obtain r s' where sp: "spec_outcome ?c ?i (bs_owner_token svc) st su er rf ?s = (r, s')" by fastforce
  have "refines ?i (bw_journal w) (?op (bw_journal w)) (spec_outcome ?c ?i (bs_owner_token svc) st su er rf ?s)"
    by (rule outcome_refines) (use w assms(2) in \<open>simp_all add: op_at_def\<close>)
  moreover have "journal_ok (snd (?op (bw_journal w)))" by (rule journal_ops_ok(3)) (use w assms(2) in \<open>simp_all add: op_at_def\<close>)
  ultimately have d: "refines ?i (bw_journal w) (?op (bw_journal w)) (r, s')" "journal_ok (snd (?op (bw_journal w)))" unfolding sp by simp_all
  have wf: "op_wf ?s" using op_of_wf [of ?i "bw_journal w" ?s] w unfolding op_at_def by blast
  have sub: "advances ?s s'" using sp spec_append_advances [OF wf, of ?c "outcome_event ?i (bs_owner_token svc) st su er rf"] advances_refl
    by (auto simp: spec_outcome_def split: if_splits)
  note n = on_journal_at [where op = ?op, OF w d sub]
  obtain w' where j: "on_journal ?op w = (case r of Inl e \<Rightarrow> Inl (ServiceJournal e) | Inr x \<Rightarrow> Inr x, w')" using n(1) by (metis prod.collapse)
  show "\<exists>s' p'. op_at oid ?i (snd (?m w)) s' p' \<and> advances ?s s' \<and> others_kept oid ?i w (snd (?m w)) \<and> (\<forall>x. fst (?m w) = Inr x \<longrightarrow> persist_post t b st rf x s' p')"
  proof (cases r)
    case (Inr u)
    have "r = Inr () \<and> op_step ?s (outcome_event ?i (bs_owner_token svc) st su er rf) = Some s' \<and> check_columns (outcome_event ?i (bs_owner_token svc) st su er rf)"
      using sp Inr by (auto simp: spec_outcome_def split: if_splits dest!: spec_append_cases)
    then have "persist_post t b st rf rf s' p" using step_outcome by (cases rf) (fastforce simp: ended_with_def)+
    then show ?thesis using n(2,3) j Inr sub by (auto simp: persist_outcome_def)
  next
    case (Inl e)
    then have s': "s' = ?s" using outcome_spec_error [of ?c ?i "bs_owner_token svc" st su er rf ?s e] sp by simp
    have k: "runs oid ?i ?s p (act_bind (record_unresolved svc commit request st ''sqlite_commit_unknown'') (\<lambda>r. act_return (Some r))) (persist_post t b st rf)"
      by (rule runs_giving_up [OF assms(1)]) simp
    show ?thesis
    proof (cases "\<exists>x. e = JournalCommitAbsent x")
      case True
      then have m: "?m w = act_bind (record_unresolved svc commit request st ''sqlite_commit_unknown'') (\<lambda>r. act_return (Some r)) w'"
        using j Inl by (auto simp: persist_outcome_def)
      have w': "op_at oid ?i w' ?s p" "others_kept oid ?i w w'" using n(2,3) j s' by simp_all
      obtain s2 p2 where 2: "op_at oid ?i (snd (?m w)) s2 p2" "advances ?s s2" "others_kept oid ?i w' (snd (?m w))" "\<forall>x. fst (?m w) = Inr x \<longrightarrow> persist_post t b st rf x s2 p2"
        using k w'(1) unfolding m runs_def by blast
      then show ?thesis using others_kept_trans [OF w'(2) 2(3)] by blast
    next
      case False
      then have "?m w = (Inl (ServiceJournal e), w')" using j Inl by (cases e) (auto simp: persist_outcome_def)
      then show ?thesis using n(2,3) j sub by auto
    qed
  qed
qed

text \<open>The segments of the finalizer, from the state their phase promises.\<close>

lemma runs_finalize_start:
  assumes "owned_by svc request t"
  shows "runs (bi_operation_id request) (journal_identity request) (OpStarted t b ''prepare'') {} (finalize_start svc commit request) (progress_post t b)"
  unfolding finalize_start_def
  by (rule runs_or_continue [OF runs_effect_begin [OF assms]]) (auto intro: runs_return)

lemma runs_finalize_cancelled:
  assumes "owned_by svc request t"
  shows "runs oid (journal_identity request) (OpStarted t b ''prepare'') p (finalize_cancelled svc commit request) (progress_post t b)"
  unfolding finalize_cancelled_def by (rule runs_giving_up [OF assms]) simp

lemma runs_launch_stage:
  assumes "owned_by svc request t"
  shows "runs (bi_operation_id request) (journal_identity request) (OpDone t b ''runtime_setup'') p (launch_stage svc commit request) (progress_post t b)"
proof (rule runs_within)
  assume "p \<subseteq> op_started (OpDone t b ''runtime_setup'')"
  then have "''launch'' \<notin> p" by (auto simp: earlier_stages_def)
  then have k: "runs (bi_operation_id request) (journal_identity request) (OpStarted t b ''launch'') p
      (or_continue (root_effect_begin svc commit request ''launch'') (act_return (Suspended AwaitLaunch))) (progress_post t b)"
    by (intro runs_or_continue [OF runs_effect_begin [OF assms]]) (auto intro: runs_return)
  show "runs (bi_operation_id request) (journal_identity request) (OpDone t b ''runtime_setup'') p (launch_stage svc commit request) (progress_post t b)"
    unfolding launch_stage_def
    by (rule runs_bind [OF runs_begin [where Q = "\<lambda>_ s' p'. s' = OpStarted t b ''launch'' \<and> p' = p"]])
       (use assms k in \<open>auto simp: owned_by_def dest: step_started [where b = b]\<close>)
qed

lemma runs_setup_stage:
  assumes "owned_by svc request t"
  shows "runs (bi_operation_id request) (journal_identity request) (OpDone t b ''prepare'') p (setup_stage svc commit request setup_ok) (progress_post t b)"
proof (rule runs_within)
  let ?o = "bi_operation_id request" and ?i = "journal_identity request" and ?s = "OpStarted t b ''runtime_setup''"
  assume "p \<subseteq> op_started (OpDone t b ''prepare'')"
  then have p: "''runtime_setup'' \<notin> p" by (auto simp: earlier_stages_def)
  have k: "runs ?o ?i ?s p' (if \<not> setup_ok then act_bind (record_unresolved svc commit request ''runtime_setup'' ''verification_unknown'') (\<lambda>r. act_return (Responded r))
      else or_continue (persist_outcome svc commit request ''runtime_setup'' ''runtime_ready'' None None) (launch_stage svc commit request)) (progress_post t b)" for p'
    using runs_giving_up [OF assms, where Q = "progress_post t b" and g = Responded] runs_or_continue [OF runs_persist [OF assms, of None]] runs_launch_stage [OF assms] by simp
  have e: "runs ?o ?i ?s p (act_bind (perform ?o ''runtime_setup'') (\<lambda>_. if \<not> setup_ok then act_bind (record_unresolved svc commit request ''runtime_setup'' ''verification_unknown'') (\<lambda>r. act_return (Responded r))
      else or_continue (persist_outcome svc commit request ''runtime_setup'' ''runtime_ready'' None None) (launch_stage svc commit request))) (progress_post t b)"
    by (rule runs_bind [OF runs_perform [where Q = "\<lambda>_ s' p'. s' = ?s"]]) (use p k in auto)
  show "runs ?o ?i (OpDone t b ''prepare'') p (setup_stage svc commit request setup_ok) (progress_post t b)"
    unfolding setup_stage_def
    by (rule runs_bind [OF runs_begin [where Q = "\<lambda>_ s' p'. s' = ?s \<and> p' = p"]])
       (use assms e in \<open>auto simp: owned_by_def dest: step_started [where b = b]\<close>)
qed

lemma runs_confirmed:
  assumes "owned_by svc request t" "confirmed_launcher_result v st = Some r"
  shows "runs oid (journal_identity request) (OpStarted t b st) p
    (act_bind (act_signed (confirmed_response svc request r st)) (\<lambda>response.
       act_terminal message (persist_outcome svc commit request st su (lr_error r) (Some response)))) (progress_post t b)"
proof (rule runs_bind [where Q = "\<lambda>f s' p'. response_frame_ok f \<and> s' = OpStarted t b st"])
  show "runs oid (journal_identity request) (OpStarted t b st) p (act_signed (confirmed_response svc request r st)) (\<lambda>f s' p'. response_frame_ok f \<and> s' = OpStarted t b st)"
    using confirmed_response_ok [OF _ _ assms(2)] assms(1) unfolding owned_by_def by blast
next
  fix f s' p' assume "response_frame_ok f \<and> s' = OpStarted t b st"
  then show "runs oid (journal_identity request) s' p' (act_terminal message (persist_outcome svc commit request st su (lr_error r) (Some f))) (progress_post t b)"
    using runs_terminal [OF runs_persist [OF assms(1)]] by simp
qed

lemma runs_finalize_prepared:
  assumes "owned_by svc request t"
  shows "runs (bi_operation_id request) (journal_identity request) (OpStarted t b ''prepare'') p
    (finalize_prepared svc commit request outcome setup_ok) (progress_post t b)"
  unfolding finalize_prepared_def
proof (rule runs_bind [OF runs_effect_end [OF assms]])
  fix x s' p' assume x: "effect_post t b ''prepare'' x s' p'"
  show "runs (bi_operation_id request) (journal_identity request) s' p'
      (case x of Inl r \<Rightarrow> if lr_status r = ''rejected''
           then act_bind (act_signed (confirmed_response svc request r ''prepare'')) (\<lambda>response.
             act_terminal ''terminal prepare outcome has no response'' (persist_outcome svc commit request ''prepare'' ''rejected'' (lr_error r) (Some response)))
           else or_continue (persist_outcome svc commit request ''prepare'' ''prepared'' None None) (setup_stage svc commit request setup_ok)
       | Inr f \<Rightarrow> act_return (Responded f)) (progress_post t b)"
    using x runs_confirmed [OF assms] runs_or_continue [OF runs_persist [OF assms, of None]] runs_setup_stage [OF assms]
    by (cases x) (auto intro: runs_return)
qed

lemma runs_finalize_launched:
  assumes "owned_by svc request t"
  shows "runs oid (journal_identity request) (OpStarted t b ''launch'') p (finalize_launched svc commit request outcome) (progress_post t b)"
  unfolding finalize_launched_def
proof (rule runs_bind [OF runs_effect_end [OF assms]])
  fix x s' p' assume x: "effect_post t b ''launch'' x s' p'"
  show "runs oid (journal_identity request) s' p'
      (case x of Inl r \<Rightarrow> act_bind (act_signed (confirmed_response svc request r ''launch'')) (\<lambda>response.
           act_terminal ''terminal launch outcome has no response'' (persist_outcome svc commit request ''launch'' (lr_status r) (lr_error r) (Some response)))
       | Inr f \<Rightarrow> act_return (Responded f)) (progress_post t b)"
    using x runs_confirmed [OF assms] by (cases x) (auto intro: runs_return)
qed

subsection \<open>Requests\<close>

definition launch_operation :: "broker_service \<Rightarrow> utext \<Rightarrow> operation" where
  "launch_operation svc oid = (bs_database_incarnation svc, oid, SUPPORTED_REQUEST_TYPE)"

lemma authenticateD:
  assumes "authenticate svc frame uid = Inr request"
  shows "parse_signed_request (bs_hexdigest svc) (bs_verify svc) frame = Inr request"
    "journal_identity request = launch_operation svc (bi_operation_id request)" "identity_points (broker_identity.truncate request)"
proof -
  show p: "parse_signed_request (bs_hexdigest svc) (bs_verify svc) frame = Inr request"
    and i: "journal_identity request = launch_operation svc (bi_operation_id request)"
    using assms by (auto simp: authenticate_def rbind_Inr_iff journal_identity_def launch_operation_def split: if_splits)
  have "valid_identity (broker_identity.truncate request)" using parse_signed_requestD [OF p] by blast
  then show "identity_points (broker_identity.truncate request)"
    using i by (intro valid_identity_points) (simp_all add: journal_identity_def launch_operation_def broker_identity.defs SUPPORTED_REQUEST_TYPE_def ascii_points)
qed

lemma accept_refines:
  assumes "journal_ok db" "parse_signed_request hexdigest verify frame = Inr request" "op_of (journal_identity request) db = Some s"
  shows "\<exists>r s'. refines (journal_identity request) db (journal_accept c request frame db) (r, s') \<and> (s' = s \<or> s = OpAbsent \<and> s' = OpAccepted)
    \<and> (\<forall>d. r = Inr d \<longrightarrow> terminal_view s' = Some d \<or> terminal_view s' = None \<and> d = decision ''accepted'')"
proof (cases "accepted_at (journal_identity request) db")
  case None
  then have "s = OpAbsent" using absent_unaccepted [OF assms(3)] by simp
  then show ?thesis
    using accept_cases [OF assms, of c] assms(3) None
    by (auto simp: refines_def op_of_append op_step_def)
next
  case (Some f)
  then show ?thesis using accept_cases [OF assms, of c] assms(3) by (auto simp: refines_def split: option.splits)
qed

lemma terminal_view_state: "terminal_view s = Some d \<Longrightarrow> jd_state d \<in> {''terminal'', ''unresolved''} \<and> (\<exists>t b f. jd_response_frame d = Some f \<and> ended_with t b f s)"
  by (cases s) (auto simp: decision_def ended_with_def split: if_splits)

lemma runs_accept:
  assumes "parse_signed_request hexdigest verify frame = Inr request"
    and "\<And>d s'. op_claim s' = op_claim s \<Longrightarrow> terminal_view s' = Some d \<or> terminal_view s' = None \<and> d = decision ''accepted'' \<Longrightarrow> Q d s' p"
  shows "runs oid (journal_identity request) s p (on_journal (journal_accept c request frame)) Q"
proof (rule runs_journal_call)
  fix db assume db: "journal_ok db" "op_of (journal_identity request) db = Some s"
  obtain r s' where r: "refines (journal_identity request) db (journal_accept c request frame db) (r, s')" "s' = s \<or> s = OpAbsent \<and> s' = OpAccepted"
    "\<forall>d. r = Inr d \<longrightarrow> terminal_view s' = Some d \<or> terminal_view s' = None \<and> d = decision ''accepted''"
    using accept_refines [OF db(1) assms(1) db(2)] by blast
  then have "advances s s'" "op_claim s' = op_claim s" by (auto simp: advances_def)
  then show "\<exists>r s'. refines (journal_identity request) db (journal_accept c request frame db) (r, s') \<and> journal_ok (snd (journal_accept c request frame db))
      \<and> advances s s' \<and> (\<forall>x. r = Inr x \<longrightarrow> Q x s' p)"
    using r assms(2) journal_ops_ok(5) [OF db(1) assms(1)] by blast
qed

definition claim_post :: "utext \<Rightarrow> utext \<Rightarrow> op_state \<Rightarrow> journal_decision \<Rightarrow> op_state \<Rightarrow> bool" where
  "claim_post t b s0 d s \<longleftrightarrow> terminal_view s = Some d \<or> jd_state d = ''in_flight'' \<or> jd_state d = ''claimed'' \<and> s = OpClaimed t b \<and> op_claim s0 = None"

lemma spec_claim_cases:
  assumes "spec_claim c i t b s = (r, s')"
  shows "advances s s' \<and> (\<forall>d. r = Inr d \<longrightarrow> claim_post t b s d s')"
proof -
  have k: "op_step s (claimed_event i b t) = Some s1 \<Longrightarrow> s = OpAccepted \<and> s1 = OpClaimed t b" for s1
    by (auto simp: op_step_def claimed_event_def empty_event_def split: op_state.splits)
  show ?thesis
    using assms by (auto simp: spec_claim_def claim_post_def decision_def advances_def split: if_splits option.splits prod.splits dest!: spec_append_cases k)
qed

lemma runs_claim:
  assumes "\<And>d s'. claim_post t b s d s' \<Longrightarrow> Q d s' p"
  shows "runs oid (journal_identity request) s p (on_journal (claim_lifecycle c request t b)) Q"
proof (rule runs_journal [where spec = "spec_claim c (journal_identity request) t b"])
  obtain r s' where "spec_claim c (journal_identity request) t b s = (r, s')" by fastforce
  then show "advances s (snd (spec_claim c (journal_identity request) t b s))"
    "\<And>x. fst (spec_claim c (journal_identity request) t b s) = Inr x \<Longrightarrow> Q x (snd (spec_claim c (journal_identity request) t b s)) p"
    using spec_claim_cases assms by auto
qed (auto intro: claim_refines journal_ops_ok)

fun handled_post :: "op_state \<Rightarrow> utext \<Rightarrow> broker_request \<Rightarrow> handled \<Rightarrow> op_state \<Rightarrow> string set \<Rightarrow> bool" where
  "handled_post s0 t request (HandledResponse r f) s p = (r = request \<and> (\<exists>t b. ended_with t b f s))"
| "handled_post s0 t request (HandledOwner r) s p = (r = request \<and> (\<exists>b. s = OpStarted t b ''prepare'') \<and> p = {} \<and> op_claim s0 = None)"
| "handled_post s0 t request (HandledWait r) s p = (r = request)"

lemma runs_decided:
  assumes "terminal_view s = Some d"
  shows "runs oid i s p (decided_response request d) (handled_post s0 t request)"
proof -
  obtain t' b f where "jd_response_frame d = Some f" "ended_with t' b f s" using terminal_view_state [OF assms] by blast
  then show ?thesis using runs_return [of "handled_post s0 t request" "HandledResponse request f" s p oid i]
    by (auto simp: decided_response_def [abs_def] act_return_def [abs_def])
qed

lemma runs_fails: "(\<And>w. m w = (Inl e, w)) \<Longrightarrow> runs oid i s p m Q"
  by (auto simp: runs_def others_kept_def)

lemma runs_begin_owned:
  assumes "op_claim s0 = None"
  shows "runs oid (journal_identity request) (OpClaimed t b) p
     (act_bind (on_journal (begin_stage c request t ''prepare'')) (\<lambda>_. act_return (HandledOwner request))) (handled_post s0 t request)"
proof (rule runs_within)
  assume "p \<subseteq> op_started (OpClaimed t b)"
  then show "runs oid (journal_identity request) (OpClaimed t b) p
     (act_bind (on_journal (begin_stage c request t ''prepare'')) (\<lambda>_. act_return (HandledOwner request))) (handled_post s0 t request)"
    by (intro runs_bind [OF runs_begin [where Q = "\<lambda>_ s' p'. s' = OpStarted t b ''prepare'' \<and> p' = {}"]] runs_return)
       (auto simp: assms dest: step_started [where b = b])
qed

lemma runs_take_ownership:
  assumes "op_claim s1 = op_claim s0"
  shows "runs oid (journal_identity request) s1 p (take_ownership svc commit request) (handled_post s0 (bs_owner_token svc) request)"
  unfolding take_ownership_def
proof (rule runs_bind [OF runs_claim [where Q = "\<lambda>d s p. claim_post (bs_owner_token svc) (bs_broker_incarnation svc) s1 d s"]])
  let ?t = "bs_owner_token svc"
  fix d s p assume "claim_post ?t (bs_broker_incarnation svc) s1 d s"
  then consider "terminal_view s = Some d" | "jd_state d = ''in_flight''" | "jd_state d = ''claimed''" "s = OpClaimed ?t (bs_broker_incarnation svc)" "op_claim s0 = None"
    using assms by (auto simp: claim_post_def)
  then show "runs oid (journal_identity request) s p
    (if jd_state d = ''claimed'' then act_bind (on_journal (begin_stage (commit (CallBegin ''prepare'')) request ?t ''prepare'')) (\<lambda>_. act_return (HandledOwner request))
     else if jd_state d \<in> {''terminal'', ''unresolved''} then decided_response request d
     else if jd_state d = ''in_flight'' then act_return (HandledWait request) else invalid_transition) (handled_post s0 ?t request)"
  proof cases
    case 1
    have "jd_state d \<in> {''terminal'', ''unresolved''}" "jd_state d \<noteq> ''claimed''" using terminal_view_state [OF 1] by auto
    then show ?thesis using runs_decided [OF 1] by simp
  next
    case 2
    then show ?thesis by (auto intro: runs_return)
  next
    case 3
    then show ?thesis using runs_begin_owned [OF 3(3)] by simp
  qed
qed

lemma handle_authenticated:
  assumes "authenticate svc frame uid = Inr request"
  shows "handle_begin svc commit frame uid = act_bind (on_journal (journal_accept (commit CallAccept) request frame)) (\<lambda>d.
     if jd_state d \<in> {''terminal'', ''unresolved''} then decided_response request d
     else if jd_state d \<noteq> ''accepted'' then invalid_transition else take_ownership svc commit request)"
  by (simp add: handle_begin_def assms act_bind_def [abs_def] act_signed_def)

lemma runs_handle:
  assumes "authenticate svc frame uid = Inr request"
  shows "runs oid (journal_identity request) s p (handle_begin svc commit frame uid) (handled_post s (bs_owner_token svc) request)"
proof -
  let ?Q = "\<lambda>d s' p'. op_claim s' = op_claim s \<and> (terminal_view s' = Some d \<or> terminal_view s' = None \<and> d = decision ''accepted'')"
  have k: "runs oid (journal_identity request) s' p' (if jd_state d \<in> {''terminal'', ''unresolved''} then decided_response request d
       else if jd_state d \<noteq> ''accepted'' then invalid_transition else take_ownership svc commit request) (handled_post s (bs_owner_token svc) request)"
    if "?Q d s' p'" for d s' p'
  proof (cases "terminal_view s' = Some d")
    case True
    then have "jd_state d \<in> {''terminal'', ''unresolved''}" using terminal_view_state by blast
    then show ?thesis using runs_decided [OF True] by simp
  next
    case False
    then show ?thesis using that runs_take_ownership by (simp add: decision_def)
  qed
  have a: "runs oid (journal_identity request) s p (on_journal (journal_accept (commit CallAccept) request frame)) ?Q"
    by (rule runs_accept [OF authenticateD(1) [OF assms]]) simp
  show ?thesis unfolding handle_authenticated [OF assms] by (rule runs_bind [where Q = ?Q, OF a k])
qed

lemma handle_refused: "authenticate svc frame uid = Inl e \<Longrightarrow> handle_begin svc commit frame uid w = (Inl (ServiceProtocol e), w)"
  by (simp add: handle_begin_def act_bind_def act_signed_def)

end
