(* ===== verification/Execution_Broker_System.thy ===== *)
theory Execution_Broker_System
  imports Execution_Broker_Logic
begin

section \<open>Runs of the execution broker\<close>

text \<open>
  The broker as a system whose steps are the actions of its requests and finalizers in any order, with any outcome of the effects and
  of the commits, and with crashes and restarts between any two actions; and the invariant of all its runs.
\<close>

subsection \<open>The broker as a system\<close>

text \<open>
  A running broker: the world it shares, the owner token of the process, its live finalizers with the phase they are in, and the
  responses it has given. A step is the code between two suspension points of one request or finalizer, so any interleaving is a run;
  the process may also stop between any two of these pieces and be started again, with the same configuration and a new owner token, and it serves only after
  its recovery has succeeded. A crash inside a piece leaves the journal that its first commits made, which the piece leaves as well when its later
  commits are lost.
\<close>

record broker_state =
  bx_world :: broker_world
  bx_owner :: utext
  bx_finalizers :: "(broker_request \<times> finalizer_phase) list"
  bx_responses :: "(operation \<times> bytes) list"
  bx_serving :: bool

definition service_of :: "broker_service \<Rightarrow> broker_state \<Rightarrow> broker_service" where
  "service_of svc st = svc\<lparr> bs_owner_token := bx_owner st \<rparr>"

datatype finalizer_event = RunFirst | CancelFirst | PrepareDone effect_outcome bool | LaunchDone effect_outcome

fun finalizer_segment :: "broker_service \<Rightarrow> commits \<Rightarrow> broker_request \<Rightarrow> finalizer_phase \<Rightarrow> finalizer_event \<Rightarrow> progress action option" where
  "finalizer_segment svc commit request FinalizerCreated RunFirst = Some (finalize_start svc commit request)"
| "finalizer_segment svc commit request FinalizerCreated CancelFirst = Some (finalize_cancelled svc commit request)"
| "finalizer_segment svc commit request AwaitPrepare (PrepareDone outcome setup_ok) = Some (finalize_prepared svc commit request outcome setup_ok)"
| "finalizer_segment svc commit request AwaitLaunch (LaunchDone outcome) = Some (finalize_launched svc commit request outcome)"
| "finalizer_segment svc commit request _ _ = None"

definition after_handle :: "service_error + handled \<Rightarrow> broker_state \<Rightarrow> broker_state" where
  "after_handle r st =
     (case r of
        Inr (HandledResponse request f) \<Rightarrow> st\<lparr> bx_responses := bx_responses st @ [(journal_identity request, f)] \<rparr>
      | Inr (HandledOwner request) \<Rightarrow> st\<lparr> bx_finalizers := bx_finalizers st @ [(request, FinalizerCreated)] \<rparr>
      | _ \<Rightarrow> st)"

definition after_finalize :: "nat \<Rightarrow> broker_request \<Rightarrow> service_error + progress \<Rightarrow> broker_state \<Rightarrow> broker_state" where
  "after_finalize k request r st =
     (let rest = take k (bx_finalizers st) @ drop (Suc k) (bx_finalizers st) in
      case r of
        Inr (Suspended ph) \<Rightarrow> st\<lparr> bx_finalizers := (bx_finalizers st)[k := (request, ph)] \<rparr>
      | Inr (Responded f) \<Rightarrow> st\<lparr> bx_finalizers := rest, bx_responses := bx_responses st @ [(journal_identity request, f)] \<rparr>
      | Inl _ \<Rightarrow> st\<lparr> bx_finalizers := rest \<rparr>)"

inductive broker_step :: "broker_service \<Rightarrow> broker_state \<Rightarrow> broker_state \<Rightarrow> bool" for svc where
  bx_handle: "bx_serving st \<Longrightarrow> handle_begin (service_of svc st) commit frame uid (bx_world st) = (r, w)
     \<Longrightarrow> broker_step svc st (after_handle r (st\<lparr> bx_world := w \<rparr>))"
| bx_finalize: "bx_serving st \<Longrightarrow> k < length (bx_finalizers st) \<Longrightarrow> bx_finalizers st ! k = (request, ph)
     \<Longrightarrow> finalizer_segment (service_of svc st) commit request ph event = Some m \<Longrightarrow> m (bx_world st) = (r, w)
     \<Longrightarrow> broker_step svc st (after_finalize k request r (st\<lparr> bx_world := w \<rparr>))"
| bx_poll: "bx_serving st \<Longrightarrow> wait_for_owner request [bw_journal (bx_world st)] = Inr f
     \<Longrightarrow> broker_step svc st (st\<lparr> bx_responses := bx_responses st @ [(journal_identity request, f)] \<rparr>)"
| bx_settle: "broker_step svc st (st\<lparr> bx_world := (bx_world st)\<lparr> bw_abandoned := bw_abandoned (bx_world st) - 1 \<rparr> \<rparr>)"
| bx_restart: "TOKEN_PATTERN t \<Longrightarrow> broker_step svc st
     (st\<lparr> bx_world := (bx_world st)\<lparr> bw_abandoned := 0 \<rparr>, bx_owner := t, bx_finalizers := [], bx_serving := False \<rparr>)"
| bx_recover: "\<not> bx_serving st \<Longrightarrow> recover_startup (service_of svc st) commits (bx_world st) = (r, w)
     \<Longrightarrow> broker_step svc st (st\<lparr> bx_world := w, bx_serving := (r = Inr ()) \<rparr>)"

definition broker_start :: "broker_state \<Rightarrow> bool" where
  "broker_start st \<longleftrightarrow> bw_journal (bx_world st) = [] \<and> bw_effects (bx_world st) = [] \<and> bx_finalizers st = [] \<and> bx_responses st = [] \<and> \<not> bx_serving st"

subsection \<open>Invariant\<close>

definition world_ok :: "broker_service \<Rightarrow> broker_world \<Rightarrow> bool" where
  "world_ok svc w \<longleftrightarrow> (\<forall>oid. \<exists>s. op_at oid (launch_operation svc oid) w s (effects_of oid w))"

definition finalizer_ok :: "broker_service \<Rightarrow> utext \<Rightarrow> broker_world \<Rightarrow> broker_request \<Rightarrow> finalizer_phase \<Rightarrow> bool" where
  "finalizer_ok svc owner w request ph \<longleftrightarrow>
     journal_identity request = launch_operation svc (bi_operation_id request) \<and> identity_points (broker_identity.truncate request)
     \<and> (\<exists>b. op_of (journal_identity request) (bw_journal w) = Some (OpStarted owner b (phase_stage ph)))
     \<and> (ph = FinalizerCreated \<longrightarrow> effects_of (bi_operation_id request) w = {})"

definition response_ok :: "broker_world \<Rightarrow> operation \<times> bytes \<Rightarrow> bool" where
  "response_ok w r \<longleftrightarrow> (\<exists>t b s. op_of (fst r) (bw_journal w) = Some s \<and> ended_with t b (snd r) s)"

text \<open>Every acceptance in the journal is that of a frame which the service authenticates.\<close>

definition authentic :: "broker_service \<Rightarrow> journal \<Rightarrow> bool" where
  "authentic svc db \<longleftrightarrow> (\<forall>e \<in> set db. je_type e = AcceptedEvent \<longrightarrow>
     (\<exists>frame request. authenticate svc frame (bs_application_uid svc) = Inr request \<and> e = accepted_event request frame))"

definition broker_inv :: "broker_service \<Rightarrow> broker_state \<Rightarrow> bool" where
  "broker_inv svc st \<longleftrightarrow> world_ok svc (bx_world st) \<and> distinct (map (\<lambda>(request, _). bi_operation_id request) (bx_finalizers st))
     \<and> (\<forall>(request, ph) \<in> set (bx_finalizers st). finalizer_ok svc (bx_owner st) (bx_world st) request ph)
     \<and> (\<forall>r \<in> set (bx_responses st). response_ok (bx_world st) r)
     \<and> (bx_serving st \<or> bx_finalizers st = []) \<and> authentic svc (bw_journal (bx_world st))"

lemma service_of_fields [simp]:
  "bs_broker_incarnation (service_of svc st) = bs_broker_incarnation svc" "bs_database_incarnation (service_of svc st) = bs_database_incarnation svc"
  "bs_application_uid (service_of svc st) = bs_application_uid svc" "bs_hexdigest (service_of svc st) = bs_hexdigest svc"
  "bs_verify (service_of svc st) = bs_verify svc" "bs_sign (service_of svc st) = bs_sign svc" "bs_owner_token (service_of svc st) = bx_owner st"
  by (simp_all add: service_of_def)

lemma service_of_same [simp]:
  "launch_operation (service_of svc st) = launch_operation svc" "authenticate (service_of svc st) = authenticate svc" "authentic (service_of svc st) = authentic svc"
  by (simp_all only: fun_eq_iff launch_operation_def authentic_def authenticate_def service_of_fields simp_thms)

lemma append_authentic:
  assumes "authentic svc db" "je_type e \<noteq> AcceptedEvent"
  shows "authentic svc (snd (append_transaction c e db))" "authentic svc (snd (append_verified c e db))"
proof -
  show a: "authentic svc (snd (append_transaction c e db))"
    using assms by (auto simp: append_transaction_def insert_journal_def authentic_def Let_def split: option.splits commit_outcome.splits if_splits)
  show "authentic svc (snd (append_verified c e db))" using a assms(1) by (auto simp: append_verified_def split: sum.splits)
qed

lemma journal_ops_authentic:
  assumes "authentic svc db"
  shows "authentic svc (snd (claim_lifecycle c request t b db))" "authentic svc (snd (begin_stage c request t st db))"
    "authentic svc (snd (record_stage_outcome c request t st su er rf db))" "authentic svc (snd (record_stage_unresolved c request t st re f db))"
  using assms by (auto simp: claim_lifecycle_def begin_stage_def record_stage_outcome_def record_stage_unresolved_def returning_def Let_def
      intro!: append_authentic split: sum.splits option.splits)

lemma accept_authentic:
  assumes "authentic svc db" "authenticate svc frame uid = Inr request"
  shows "authentic svc (snd (journal_accept c request frame db))"
proof -
  have u: "authenticate svc frame (bs_application_uid svc) = Inr request" using assms(2) by (auto simp: authenticate_def split: if_splits)
  have "authentic svc (snd (append_transaction c (accepted_event request frame) db))"
    using assms(1) u by (auto simp: append_transaction_def insert_journal_def authentic_def Let_def split: option.splits commit_outcome.splits if_splits)
  then show ?thesis using assms(1) by (auto simp: journal_accept_def Let_def returning_def split: sum.splits option.splits)
qed

definition keeps :: "broker_service \<Rightarrow> 'a action \<Rightarrow> bool" where
  "keeps svc m \<longleftrightarrow> (\<forall>w. authentic svc (bw_journal w) \<longrightarrow> authentic svc (bw_journal (snd (m w))))"

lemma keeps_basic [intro!]: "keeps svc (act_return x)" "keeps svc (act_signed r)" "keeps svc (perform oid st)" "keeps svc abandon"
  "keeps svc (decided_response q d)" "keeps svc invalid_transition" "(\<And>x. keeps svc (f x)) \<Longrightarrow> keeps svc m \<Longrightarrow> keeps svc (act_bind m f)"
  "(\<And>db. authentic svc db \<Longrightarrow> authentic svc (snd (op db))) \<Longrightarrow> keeps svc (on_journal op)"
  by (auto simp: keeps_def act_return_def act_signed_def perform_def abandon_def decided_response_def invalid_transition_def act_bind_def on_journal_def
      split: sum.splits option.splits prod.splits) (metis snd_conv)+

lemma keeps_unresolved [intro!]: "keeps svc (record_unresolved v commit request stage reason)"
  by (auto simp: record_unresolved_def intro: journal_ops_authentic)

lemma keeps_if [intro!]: "keeps svc m \<Longrightarrow> keeps svc k \<Longrightarrow> keeps svc (\<lambda>w. if P w then m w else k w)"
  by (simp add: keeps_def)

lemma keeps_persist [intro!]: "keeps svc (persist_outcome v commit request stage su er rf)"
proof -
  have j: "keeps svc (on_journal (record_stage_outcome c request t stage su er rf))" for c t by (intro keeps_basic journal_ops_authentic)
  have u: "keeps svc (act_bind (record_unresolved v commit request stage re) (\<lambda>r. act_return (Some r)))" for re by (intro keeps_basic keeps_unresolved)
  show ?thesis unfolding keeps_def
  proof (intro allI impI)
    fix w :: broker_world assume a: "authentic svc (bw_journal w)"
    obtain r w1 where 1: "on_journal (record_stage_outcome (commit (CallOutcome stage)) request (bs_owner_token v) stage su er rf) w = (r, w1)" by fastforce
    then have "authentic svc (bw_journal w1)" using j a unfolding keeps_def by (metis snd_conv)
    then show "authentic svc (bw_journal (snd (persist_outcome v commit request stage su er rf w)))"
      using u 1 unfolding keeps_def by (auto simp: persist_outcome_def split: sum.splits service_error.splits journal_error.splits)
  qed
qed

lemma keeps_or_continue [intro!]: "keeps svc m \<Longrightarrow> keeps svc k \<Longrightarrow> keeps svc (or_continue m k)"
  unfolding or_continue_def by (auto split: option.splits)

lemma keeps_terminal [intro!]: "keeps svc m \<Longrightarrow> keeps svc (act_terminal message m)"
  unfolding act_terminal_def by (rule keeps_basic(7)) (auto simp: keeps_def split: option.splits)

lemma keeps_effect_begin [intro!]: "keeps svc (root_effect_begin v commit request stage)"
  unfolding root_effect_begin_def by (intro keeps_if keeps_basic keeps_unresolved)

lemma keeps_effect_end [intro!]: "keeps svc (root_effect_end v commit request stage outcome)"
  unfolding root_effect_end_def Let_def by (auto split: effect_outcome.splits option.splits)

lemma keeps_begin [intro!]: "keeps svc (on_journal (begin_stage c request t st))"
  by (intro keeps_basic journal_ops_authentic)

lemma keeps_segment:
  assumes "finalizer_segment v commit request ph event = Some m"
  shows "keeps svc m"
proof -
  have l: "keeps svc (launch_stage v commit request)" unfolding launch_stage_def by blast
  have s: "keeps svc (setup_stage v commit request ok)" for ok unfolding setup_stage_def using l by auto
  show ?thesis using assms l s
    by (cases "(v, commit, request, ph, event)" rule: finalizer_segment.cases)
       (auto simp: finalize_start_def finalize_cancelled_def finalize_prepared_def finalize_launched_def split: sum.splits)
qed

lemma keeps_handle: "keeps svc (handle_begin svc commit frame uid)"
proof (cases "authenticate svc frame uid")
  case (Inl e)
  then show ?thesis using handle_refused by (auto simp: keeps_def)
next
  case (Inr request)
  have "keeps svc (take_ownership svc commit request)" unfolding take_ownership_def by (auto intro: journal_ops_authentic)
  then show ?thesis unfolding handle_authenticated [OF Inr] using accept_authentic [OF _ Inr] by auto
qed

lemma launch_operation_inj: "launch_operation svc a = launch_operation svc b \<longleftrightarrow> a = b"
  by (simp add: launch_operation_def)

lemma others_keptD:
  assumes "others_kept oid i w w'"
  shows "j \<noteq> i \<Longrightarrow> op_of j (bw_journal w') = op_of j (bw_journal w)" "x \<noteq> oid \<Longrightarrow> effects_of x w' = effects_of x w"
  using assms unfolding others_kept_def by blast+

text \<open>What a segment does for one operation keeps the world, the responses and all other finalizers in order.\<close>

lemma segment_world:
  assumes "world_ok svc w" "op_at oid (launch_operation svc oid) w' s' p'" "others_kept oid (launch_operation svc oid) w w'"
  shows "world_ok svc w'"
  unfolding world_ok_def
proof
  fix x
  obtain s where s: "op_at x (launch_operation svc x) w s (effects_of x w)" using assms(1) unfolding world_ok_def by blast
  show "\<exists>s. op_at x (launch_operation svc x) w' s (effects_of x w')"
  proof (cases "x = oid")
    case True
    then show ?thesis using assms(2) by (auto simp: op_at_def)
  next
    case False
    then have "launch_operation svc x \<noteq> launch_operation svc oid" by (simp add: launch_operation_inj)
    then show ?thesis using s assms(2) others_keptD(1) [OF assms(3)] others_keptD(2) [OF assms(3) False] by (auto simp: op_at_def)
  qed
qed

lemma segment_response:
  assumes "response_ok w r" "op_at oid i w s p" "op_at oid i w' s' p'" "advances s s'" "others_kept oid i w w'"
  shows "response_ok w' r"
proof -
  obtain t b x where x: "op_of (fst r) (bw_journal w) = Some x" "ended_with t b (snd r) x" using assms(1) by (auto simp: response_ok_def)
  then have "op_ended x" by (auto simp: ended_with_def)
  then have "op_of (fst r) (bw_journal w') = Some x"
    using x(1) assms(2-4) others_keptD(1) [OF assms(5), of "fst r"] by (cases "fst r = i") (auto simp: op_at_def advances_def)
  then show ?thesis using x(2) by (auto simp: response_ok_def)
qed

lemma segment_finalizer:
  assumes "finalizer_ok svc owner w request ph" "bi_operation_id request \<noteq> oid" "others_kept oid (launch_operation svc oid) w w'"
  shows "finalizer_ok svc owner w' request ph"
  using assms(1,2) others_keptD(1) [OF assms(3), of "journal_identity request"] others_keptD(2) [OF assms(3) assms(2)]
  by (auto simp: finalizer_ok_def launch_operation_inj)

lemma runs_from:
  assumes "runs oid i s p m Q" "op_at oid i w s p" "m w = (r, w')"
  obtains s' p' where "op_at oid i w' s' p'" "advances s s'" "others_kept oid i w w'" "\<forall>x. r = Inr x \<longrightarrow> Q x s' p'"
  using assms unfolding runs_def by (metis fst_conv snd_conv)

subsection \<open>Steps keep the invariant\<close>

lemma world_at: "world_ok svc w \<Longrightarrow> \<exists>s. op_at oid (launch_operation svc oid) w s (effects_of oid w)"
  by (simp add: world_ok_def)

lemma runs_segment:
  assumes "finalizer_segment svc commit request ph event = Some m" "owned_by svc request t"
  shows "runs (bi_operation_id request) (journal_identity request) (OpStarted t b (phase_stage ph)) (if ph = FinalizerCreated then {} else p) m (progress_post t b)"
  using assms runs_finalize_start [OF assms(2)] runs_finalize_cancelled [OF assms(2)] runs_finalize_prepared [OF assms(2)] runs_finalize_launched [OF assms(2)]
  by (cases "(svc, commit, request, ph, event)" rule: finalizer_segment.cases) auto

lemma on_journal_same: "snd (op (bw_journal w)) = bw_journal w \<Longrightarrow> snd (on_journal op w) = w"
  by (auto simp: on_journal_def split: prod.splits sum.splits)

lemma act_bind_same: "snd (m w) = w \<Longrightarrow> (\<And>x. snd (f x w) = w) \<Longrightarrow> snd (act_bind m f w) = w"
  by (auto simp: act_bind_def split: prod.splits sum.splits)

text \<open>A request for an operation that already has an owner changes nothing.\<close>

lemma claim_idle:
  assumes "journal_ok db" "op_of (journal_identity request) db = Some s" "op_claim s \<noteq> None"
  shows "snd (claim_lifecycle c request t b db) = db" "fst (claim_lifecycle c request t b db) = Inr d \<Longrightarrow> jd_state d \<noteq> ''claimed''"
proof -
  obtain e where e: "find_claim (journal_identity request) db = Some e" using find_claim_spec [OF assms(1,2)] assms(3) by (auto split: option.splits)
  show "snd (claim_lifecycle c request t b db) = db"
    using e by (auto simp: claim_lifecycle_def Let_def split: sum.splits option.splits)
  show "jd_state d \<noteq> ''claimed''" if "fst (claim_lifecycle c request t b db) = Inr d"
    using that e journal_opens_ok [OF assms(1)] journal_terminal_spec [OF assms(1,2)] terminal_view_state [of s]
    by (auto simp: claim_lifecycle_def Let_def decision_def split: if_splits option.splits)
qed

lemma handle_idle:
  assumes "journal_ok (bw_journal w)" "op_of (journal_identity request) (bw_journal w) = Some s" "op_claim s \<noteq> None" "authenticate svc frame uid = Inr request"
  shows "snd (handle_begin svc commit frame uid w) = w"
proof -
  have "accepted_at (journal_identity request) (bw_journal w) \<noteq> None" using absent_unaccepted [OF assms(2)] assms(3) by (cases s) auto
  then have a: "snd (journal_accept c request frame (bw_journal w)) = bw_journal w" for c
    using accept_cases [OF assms(1) authenticateD(1) [OF assms(4)] assms(2), of c] by auto
  have t: "snd (take_ownership svc commit request w) = w"
    using claim_idle [OF assms(1-3), of "commit CallClaim" "bs_owner_token svc" "bs_broker_incarnation svc"]
    by (auto simp: take_ownership_def act_bind_def on_journal_def act_return_def decided_response_def invalid_transition_def split: prod.splits sum.splits option.splits)
  show ?thesis unfolding handle_authenticated [OF assms(4)]
    by (intro act_bind_same on_journal_same) (auto simp: a t decided_response_def invalid_transition_def split: option.splits)
qed

lemma handle_inv:
  assumes inv: "broker_inv svc st" and serving: "bx_serving st" and h: "handle_begin (service_of svc st) commit frame uid (bx_world st) = (r, w)"
  shows "broker_inv svc (after_handle r (st\<lparr> bx_world := w \<rparr>))"
proof (cases "authenticate (service_of svc st) frame uid")
  case (Inl e)
  then show ?thesis using handle_refused [OF Inl] h inv by (auto simp: after_handle_def)
next
  case (Inr request)
  let ?o = "bi_operation_id request" and ?i = "journal_identity request"
  have i: "?i = launch_operation svc ?o" "identity_points (broker_identity.truncate request)" using authenticateD(2,3) [OF Inr] by simp_all
  have wok: "world_ok svc (bx_world st)" using inv by (simp add: broker_inv_def)
  obtain s where s: "op_at ?o ?i (bx_world st) s (effects_of ?o (bx_world st))" using world_at [OF wok] i(1) by metis
  obtain s' p' where k: "op_at ?o ?i w s' p'" "advances s s'" "others_kept ?o ?i (bx_world st) w" and q: "\<forall>x. r = Inr x \<longrightarrow> handled_post s (bx_owner st) request x s' p'"
    using runs_from [OF runs_handle [OF Inr] s h] by auto
  have world: "world_ok svc w" using segment_world [OF wok] k(1,3) i(1) by metis
  have resp: "\<forall>x \<in> set (bx_responses st). response_ok w x" using segment_response [OF _ s k] inv by (simp add: broker_inv_def)
  have other: "op_claim s = None \<Longrightarrow> bi_operation_id q \<noteq> ?o" if "(q, ph) \<in> set (bx_finalizers st)" for q ph
    using that inv s i(1) by (force simp: broker_inv_def finalizer_ok_def op_at_def)
  have fins: "finalizer_ok svc (bx_owner st) w q ph" if q: "(q, ph) \<in> set (bx_finalizers st)" for q ph
  proof (cases "op_claim s = None")
    case True
    then show ?thesis using segment_finalizer [OF _ other [OF q True] k(3) [unfolded i(1)]] q inv by (auto simp: broker_inv_def)
  next
    case False
    then have "w = bx_world st" using handle_idle [OF _ _ False Inr, of "bx_world st" commit] s h by (simp add: op_at_def)
    then show ?thesis using q inv by (auto simp: broker_inv_def)
  qed
  have auth: "authentic svc (bw_journal w)"
    using keeps_handle [of "service_of svc st"] inv h unfolding keeps_def broker_inv_def service_of_same by (metis snd_conv)
  have base: "broker_inv svc (st\<lparr> bx_world := w \<rparr>)" using world resp fins inv auth serving by (auto simp: broker_inv_def)
  show ?thesis
  proof (cases "\<exists>x. r = Inr x \<and> (\<forall>q. x \<noteq> HandledWait q)")
    case False
    then show ?thesis using base by (cases r) (auto simp: after_handle_def split: handled.splits)
  next
    case True
    then consider t b f where "r = Inr (HandledResponse request f)" "ended_with t b f s'"
      | b where "r = Inr (HandledOwner request)" "s' = OpStarted (bx_owner st) b ''prepare''" "p' = {}" "op_claim s = None"
      using q by (auto elim!: handled_post.elims)
    then show ?thesis
    proof cases
      case 1
      then show ?thesis using base k(1) by (auto simp: after_handle_def broker_inv_def response_ok_def op_at_def)
    next
      case 2
      have "finalizer_ok svc (bx_owner st) w request FinalizerCreated" using i k(1) 2 by (auto simp: finalizer_ok_def op_at_def)
      moreover have "?o \<notin> (\<lambda>(request, _). bi_operation_id request) ` set (bx_finalizers st)" using other [OF _ 2(4)] by force
      ultimately show ?thesis using base 2(1) serving by (auto simp: after_handle_def broker_inv_def)
    qed
  qed
qed

lemma distinct_rest:
  assumes "distinct (map f xs)" "k < length xs"
  shows "distinct (map f (take k xs @ drop (Suc k) xs))" "f (xs ! k) \<notin> f ` set (take k xs @ drop (Suc k) xs)"
proof -
  have "map f xs = map f (take k xs) @ f (xs ! k) # map f (drop (Suc k) xs)" using id_take_nth_drop [OF assms(2)] by (metis list.simps(9) map_append)
  then have "distinct (map f (take k xs) @ f (xs ! k) # map f (drop (Suc k) xs))" using assms(1) by simp
  then show "distinct (map f (take k xs @ drop (Suc k) xs))" "f (xs ! k) \<notin> f ` set (take k xs @ drop (Suc k) xs)"
    unfolding map_append set_append image_Un distinct_append distinct.simps set_map list.set by blast+
qed

lemma in_rest: "y \<in> set (take k xs @ drop (Suc k) xs) \<Longrightarrow> y \<in> set xs"
  by (auto dest: in_set_takeD in_set_dropD)

lemma finalize_inv:
  assumes inv: "broker_inv svc st" and serving: "bx_serving st" and k: "k < length (bx_finalizers st)" "bx_finalizers st ! k = (request, ph)"
    and m: "finalizer_segment (service_of svc st) commit request ph event = Some m" "m (bx_world st) = (r, w)"
  shows "broker_inv svc (after_finalize k request r (st\<lparr> bx_world := w \<rparr>))"
proof -
  let ?o = "bi_operation_id request" and ?i = "journal_identity request" and ?g = "\<lambda>(request, _). bi_operation_id request"
  have wok: "world_ok svc (bx_world st)" and dis: "distinct (map ?g (bx_finalizers st))" using inv by (simp_all add: broker_inv_def)
  have "finalizer_ok svc (bx_owner st) (bx_world st) request ph" using inv nth_mem [OF k(1)] k(2) by (auto simp: broker_inv_def)
  then obtain b where i: "?i = launch_operation svc ?o" "identity_points (broker_identity.truncate request)"
    and b: "op_of ?i (bw_journal (bx_world st)) = Some (OpStarted (bx_owner st) b (phase_stage ph))" "ph = FinalizerCreated \<longrightarrow> effects_of ?o (bx_world st) = {}"
    by (auto simp: finalizer_ok_def)
  have s: "op_at ?o ?i (bx_world st) (OpStarted (bx_owner st) b (phase_stage ph)) (if ph = FinalizerCreated then {} else effects_of ?o (bx_world st))"
    using world_at [OF wok, of ?o] i(1) b by (auto simp: op_at_def)
  have "owned_by (service_of svc st) request (bx_owner st)" using i(2) by (simp add: owned_by_def)
  from runs_from [OF runs_segment [OF m(1) this] s m(2)]
  obtain s' p' where q: "op_at ?o ?i w s' p'" "advances (OpStarted (bx_owner st) b (phase_stage ph)) s'" "others_kept ?o ?i (bx_world st) w"
    and post: "\<forall>x. r = Inr x \<longrightarrow> progress_post (bx_owner st) b x s' p'" by blast
  have world: "world_ok svc w" using segment_world [OF wok] q(1,3) i(1) by metis
  have resp: "\<forall>x \<in> set (bx_responses st). response_ok w x" using segment_response [OF _ s q] inv by (simp add: broker_inv_def)
  let ?rest = "take k (bx_finalizers st) @ drop (Suc k) (bx_finalizers st)"
  note rest = distinct_rest [OF dis k(1)]
  have fins: "finalizer_ok svc (bx_owner st) w x ph'" if "(x, ph') \<in> set ?rest" for x ph'
  proof (rule segment_finalizer [OF _ _ q(3) [unfolded i(1)]])
    show "finalizer_ok svc (bx_owner st) (bx_world st) x ph'" using in_rest [OF that] inv by (auto simp: broker_inv_def)
    show "bi_operation_id x \<noteq> ?o" using rest(2) that k(2) by force
  qed
  have auth: "authentic svc (bw_journal w)"
    using keeps_segment [OF m(1)] inv m(2) unfolding keeps_def broker_inv_def by (metis snd_conv)
  have gone: "broker_inv svc (st\<lparr> bx_world := w, bx_finalizers := ?rest \<rparr>)"
    using world resp fins rest(1) auth serving by (auto simp: broker_inv_def simp del: set_append)
  show ?thesis
  proof (cases r)
    case (Inl e)
    then show ?thesis using gone by (simp add: after_finalize_def)
  next
    case (Inr x)
    then have x: "progress_post (bx_owner st) b x s' p'" using post by simp
    show ?thesis
    proof (cases x)
      case (Responded f)
      then have "response_ok w (?i, f)" using x q(1) by (auto simp: response_ok_def op_at_def)
      then show ?thesis using gone Inr Responded by (auto simp: after_finalize_def broker_inv_def)
    next
      case (Suspended ph')
      then have f: "finalizer_ok svc (bx_owner st) w request ph'" using x q(1) i by (auto simp: finalizer_ok_def op_at_def)
      have u: "(bx_finalizers st)[k := (request, ph')] = take k (bx_finalizers st) @ (request, ph') # drop (Suc k) (bx_finalizers st)"
        using k(1) by (rule upd_conv_take_nth_drop)
      have "map ?g ((bx_finalizers st)[k := (request, ph')]) = map ?g (bx_finalizers st)" using k by (auto simp: map_update list_update_same_conv)
      then show ?thesis using Inr Suspended world resp dis f fins auth serving by (auto simp: after_finalize_def broker_inv_def u)
    qed
  qed
qed

subsection \<open>Recovery\<close>

definition ended_kept :: "broker_world \<Rightarrow> broker_world \<Rightarrow> bool" where
  "ended_kept w w' \<longleftrightarrow> (\<forall>i s. op_of i (bw_journal w) = Some s \<longrightarrow> op_ended s \<longrightarrow> op_of i (bw_journal w') = Some s)"

lemma ended_kept_response: "ended_kept w w' \<Longrightarrow> response_ok w x \<Longrightarrow> response_ok w' x"
  unfolding ended_kept_def response_ok_def ended_with_def by (metis op_ended.simps(1))

definition recovered :: "broker_service \<Rightarrow> broker_world \<Rightarrow> incomplete_lifecycle \<Rightarrow> bool" where
  "recovered svc w l \<longleftrightarrow> (\<exists>request s. authenticate svc (il_request_frame l) (bs_application_uid svc) = Inr request
     \<and> op_of (journal_identity request) (bw_journal w) = Some s \<and> op_ended s)"

definition concerns :: "broker_service \<Rightarrow> incomplete_lifecycle \<Rightarrow> operation \<Rightarrow> bool" where
  "concerns svc l i \<longleftrightarrow> (\<exists>request. authenticate svc (il_request_frame l) (bs_application_uid svc) = Inr request \<and> journal_identity request = i)"

lemma runs_recover_one:
  assumes "authenticate svc (il_request_frame l) (bs_application_uid svc) = Inr request"
  shows "runs oid (journal_identity request) s p (recover_one svc commit l) (\<lambda>_ s' p'. op_ended s')"
proof -
  let ?i = "journal_identity request"
  let ?tail = "act_bind (act_signed (unresolved_response svc request (il_stage l))) (\<lambda>response.
     on_journal (record_stage_unresolved (commit (CallUnresolved (il_stage l))) request (il_owner_token l) (il_stage l) ''broker_restart_unknown'' response))"
  have ended: "op_step x (unresolved_event i t st re f) = Some y \<Longrightarrow> op_ended y" for x i t st re f y
    by (auto simp: op_step_def unresolved_event_def empty_event_def split: op_state.splits if_splits)
  have tail: "runs oid ?i s p ?tail (\<lambda>_ s' p'. op_ended s')" for s p
    by (rule runs_bind [OF runs_signed [where Q = "\<lambda>f s' p'. response_frame_ok f"]])
       (auto intro!: runs_unresolved intro: unresolved_response_ok [OF _ authenticateD(3) [OF assms]] dest: ended)
  have h: "recover_one svc commit l = act_bind (if il_stage_started l then act_return ()
      else on_journal (begin_stage (commit (CallBegin (il_stage l))) request (il_owner_token l) (il_stage l))) (\<lambda>_. ?tail)"
    by (simp add: recover_one_def assms act_bind_def [abs_def] act_signed_def)
  have b: "runs oid ?i s p (if il_stage_started l then act_return () else on_journal (begin_stage (commit (CallBegin (il_stage l))) request (il_owner_token l) (il_stage l))) (\<lambda>_ _ _. True)"
    by (auto intro: runs_return runs_begin)
  show ?thesis unfolding h by (rule runs_bind [OF b tail])
qed

lemma recover_one_world:
  assumes "world_ok svc w" "recover_one svc commit l w = (r, w')"
  shows "world_ok svc w'" "ended_kept w w'" "r = Inr () \<Longrightarrow> recovered svc w' l" "op_of j (bw_journal w') \<noteq> op_of j (bw_journal w) \<Longrightarrow> concerns svc l j"
proof -
  have "world_ok svc w' \<and> ended_kept w w' \<and> (r = Inr () \<longrightarrow> recovered svc w' l) \<and> (\<forall>j. op_of j (bw_journal w') \<noteq> op_of j (bw_journal w) \<longrightarrow> concerns svc l j)"
  proof (cases "authenticate svc (il_request_frame l) (bs_application_uid svc)")
    case (Inl e)
    then have "r = Inl (ServiceProtocol e) \<and> w' = w" using assms(2) by (simp add: recover_one_def act_bind_def act_signed_def)
    then show ?thesis using assms(1) by (auto simp: ended_kept_def)
  next
    case (Inr request)
    let ?o = "bi_operation_id request" and ?i = "journal_identity request"
    have i: "?i = launch_operation svc ?o" by (rule authenticateD(2) [OF Inr])
    obtain s where s: "op_at ?o ?i w s (effects_of ?o w)" using world_at [OF assms(1)] i by metis
    obtain s' p' where k: "op_at ?o ?i w' s' p'" "advances s s'" "others_kept ?o ?i w w'" "\<forall>x. r = Inr x \<longrightarrow> op_ended s'"
      using runs_from [OF runs_recover_one [OF Inr] s assms(2)] by blast
    have "world_ok svc w'" using segment_world [OF assms(1)] k(1,3) i by metis
    moreover have "ended_kept w w'" unfolding ended_kept_def
    proof (intro allI impI)
      fix j x assume x: "op_of j (bw_journal w) = Some x" "op_ended x"
      show "op_of j (bw_journal w') = Some x"
        using x s k(1,2) others_keptD(1) [OF k(3), of j] by (cases "j = ?i") (auto simp: op_at_def advances_def)
    qed
    moreover have "op_of ?i (bw_journal w') = Some s'" using k(1) by (simp add: op_at_def)
    then have "r = Inr () \<Longrightarrow> recovered svc w' l" using k(4) Inr unfolding recovered_def by blast
    moreover have "op_of j (bw_journal w') \<noteq> op_of j (bw_journal w) \<Longrightarrow> concerns svc l j" for j
      using others_keptD(1) [OF k(3), of j] Inr unfolding concerns_def by blast
    ultimately show ?thesis by blast
  qed
  then show "world_ok svc w'" "ended_kept w w'" "r = Inr () \<Longrightarrow> recovered svc w' l" "op_of j (bw_journal w') \<noteq> op_of j (bw_journal w) \<Longrightarrow> concerns svc l j" by blast+
qed

lemma recovered_kept: "recovered svc w l \<Longrightarrow> ended_kept w w' \<Longrightarrow> recovered svc w' l"
  unfolding recovered_def ended_kept_def by blast

lemma recover_all_world:
  assumes "world_ok svc w" "recover_all svc commit n ls w = (r, w')"
  shows "world_ok svc w' \<and> ended_kept w w' \<and> (r = Inr () \<longrightarrow> (\<forall>l \<in> set ls. recovered svc w' l))
    \<and> (\<forall>j. op_of j (bw_journal w') \<noteq> op_of j (bw_journal w) \<longrightarrow> (\<exists>l \<in> set ls. concerns svc l j))"
  using assms
proof (induction ls arbitrary: n w)
  case Nil
  then show ?case by (auto simp: act_return_def ended_kept_def)
next
  case (Cons l ls)
  obtain r1 w1 where 1: "recover_one svc (commit n) l w = (r1, w1)" by fastforce
  note o = recover_one_world [OF Cons.prems(1) 1]
  show ?case
  proof (cases r1)
    case (Inl e)
    then have "r = Inl e \<and> w' = w1" using Cons.prems(2) 1 by (simp add: act_bind_def)
    then show ?thesis using o by auto
  next
    case (Inr u)
    then have 2: "recover_all svc commit (Suc n) ls w1 = (r, w')" using Cons.prems(2) 1 by (simp add: act_bind_def)
    note ih = Cons.IH [OF o(1) 2]
    have "ended_kept w w'" using o(2) ih unfolding ended_kept_def by blast
    moreover have "r = Inr () \<longrightarrow> (\<forall>x \<in> set (l # ls). recovered svc w' x)" using ih recovered_kept [OF o(3)] Inr by auto
    moreover have "\<forall>j. op_of j (bw_journal w') \<noteq> op_of j (bw_journal w) \<longrightarrow> (\<exists>x \<in> set (l # ls). concerns svc x j)" using ih o(4) by (metis list.set_intros)
    ultimately show ?thesis using ih by blast
  qed
qed

lemma world_journal_ok: "world_ok svc w \<Longrightarrow> journal_ok (bw_journal w)"
  using world_at [of svc w undefined] by (auto simp: op_at_def)

lemma recover_startup_world:
  assumes "world_ok svc w" "recover_startup svc commit w = (r, w')"
  shows "world_ok svc w' \<and> ended_kept w w' \<and> (r = Inr () \<longrightarrow> (\<exists>ls. incomplete_lifecycles (bw_journal w) = Inr ls \<and> (\<forall>l \<in> set ls. recovered svc w' l)
    \<and> (\<forall>j. op_of j (bw_journal w') \<noteq> op_of j (bw_journal w) \<longrightarrow> (\<exists>l \<in> set ls. concerns svc l j))))"
proof -
  obtain ls where ls: "incomplete_lifecycles (bw_journal w) = Inr ls" using incomplete_spec [OF world_journal_ok [OF assms(1)]] by blast
  then have "recover_all svc commit 0 ls w = (r, w')" using assms(2) by (simp add: recover_startup_def act_bind_def on_journal_def)
  then show ?thesis using recover_all_world [OF assms(1)] ls by blast
qed

subsection \<open>Every step keeps the invariant\<close>

lemma wait_for_owner_ended:
  assumes "journal_ok (bw_journal w)" "wait_for_owner request [bw_journal w] = Inr f"
  shows "response_ok w (journal_identity request, f)"
proof -
  obtain s where s: "op_of (journal_identity request) (bw_journal w) = Some s" using journal_ok_op [OF assms(1)] by blast
  have v: "jd_state (op_view s) \<in> {''terminal'', ''unresolved''}" "jd_response_frame (op_view s) = Some f"
    using assms(2) journal_status_spec [OF assms(1) s] by (auto split: if_splits option.splits)
  then have "terminal_view s = Some (op_view s)" using settled_view [of s "op_view s"] by blast
  then obtain t b where "ended_with t b f s" using terminal_view_state [of s "op_view s"] v(2) by auto
  then show ?thesis using s by (auto simp: response_ok_def)
qed

lemma world_same_journal: "world_ok svc w \<Longrightarrow> world_ok svc (w\<lparr> bw_abandoned := n \<rparr>)" "response_ok (w\<lparr> bw_abandoned := n \<rparr>) = response_ok w"
  "finalizer_ok svc t (w\<lparr> bw_abandoned := n \<rparr>) = finalizer_ok svc t w"
  by (simp_all add: world_ok_def op_at_def effects_of_def response_ok_def fun_eq_iff finalizer_ok_def)

lemma keeps_recover: "keeps svc (recover_startup v commit)"
proof -
  have o: "keeps svc (recover_one v c l)" for c l unfolding recover_one_def by (auto intro: journal_ops_authentic)
  have "keeps svc (recover_all v commit n ls)" for n ls by (induction ls arbitrary: n) (auto intro: o)
  then show ?thesis unfolding recover_startup_def by auto
qed

lemma broker_step_inv:
  assumes "broker_inv svc st" "broker_step svc st st'"
  shows "broker_inv svc st'"
  using assms(2)
proof (cases rule: broker_step.cases)
  case (bx_handle commit frame uid r w)
  then show ?thesis using handle_inv [OF assms(1)] by blast
next
  case (bx_finalize k request ph commit event m r w)
  then show ?thesis using finalize_inv [OF assms(1)] by blast
next
  case (bx_poll request f)
  then show ?thesis using assms(1) wait_for_owner_ended world_journal_ok by (auto simp: broker_inv_def)
next
  case bx_settle
  then show ?thesis using assms(1) by (simp add: broker_inv_def world_same_journal)
next
  case (bx_restart t)
  then show ?thesis using assms(1) by (simp add: broker_inv_def world_same_journal)
next
  case (bx_recover commits r w)
  have "world_ok (service_of svc st) (bx_world st)" using assms(1) by (simp add: broker_inv_def world_ok_def)
  from recover_startup_world [OF this bx_recover(3)] have w: "world_ok svc w" "ended_kept (bx_world st) w" by (simp_all add: world_ok_def)
  have "bx_finalizers st = []" using assms(1) bx_recover(2) by (simp add: broker_inv_def)
  moreover have "authentic svc (bw_journal w)" using keeps_recover assms(1) bx_recover(3) unfolding keeps_def broker_inv_def by (metis snd_conv)
  ultimately show ?thesis using w assms(1) ended_kept_response [OF w(2)] bx_recover(1) by (auto simp: broker_inv_def)
qed

lemma broker_start_inv: "broker_start st \<Longrightarrow> broker_inv svc st"
  by (auto simp: broker_start_def broker_inv_def world_ok_def op_at_def effects_of_def authentic_def journal_ok_Nil op_of_def events_of_def)

interpretation execution: safe_system broker_start "broker_step svc" "broker_inv svc" for svc
  by unfold_locales (auto intro: broker_start_inv broker_step_inv)

lemma started_recorded:
  assumes "op_of i db = Some s" "stage \<in> op_started s"
  shows "\<exists>e \<in> set db. je_type e = AcceptedEvent \<and> je_identity e = i" "\<exists>e \<in> set db. je_type e = StageStarted \<and> je_identity e = i \<and> je_stage e = Some stage"
proof -
  have a: "answers (events_of i db) s" using op_run_answers assms(1) by (simp add: op_of_def)
  have "s \<noteq> OpAbsent" using assms(2) by auto
  then have "\<exists>e \<in> set (events_of i db). je_type e = AcceptedEvent" using a unfolding answers_def by blast
  then show "\<exists>e \<in> set db. je_type e = AcceptedEvent \<and> je_identity e = i" by (auto simp: set_events_of)
  obtain t b where "op_claim s = Some (t, b)" using assms(2) by (cases s) auto
  then have "(stage, t) \<in> starts_in (events_of i db)" using a assms(2) unfolding answers_def by simp
  then show "\<exists>e \<in> set db. je_type e = StageStarted \<and> je_identity e = i \<and> je_stage e = Some stage" by (auto simp: starts_in_def set_events_of)
qed


end
