(* ===== verification/Execution_Broker_Properties.thy ===== *)
theory Execution_Broker_Properties
  imports Execution_Broker_System "HOL-Library.Multiset"
begin

section \<open>Properties of the execution broker\<close>

text \<open>
  At most once execution of every stage, durable responses, responses that always fit their limit, and a recovery that always
  completes; with a run of a concrete broker.
\<close>

text \<open>C3: In every run, whatever the interleaving of requests, the outcomes of effects and commits and the crashes, each stage of an operation is
  started on the launcher or the runtime at most once, and only after the journal durably recorded the start of that stage for a
  request that the broker authenticated: sent by the application's user, signed, of the current incarnations, of the launch type and without forbidden controls.
\<close>

theorem effects_at_most_once:
  assumes "reach broker_start (broker_step svc) st"
  shows "distinct (bw_effects (bx_world st)) \<and>
    (\<forall>(oid, stage) \<in> set (bw_effects (bx_world st)).
       (\<exists>frame request. authenticate svc frame (bs_application_uid svc) = Inr request \<and> bi_operation_id request = oid
          \<and> accepted_event request frame \<in> set (bw_journal (bx_world st)))
       \<and> (\<exists>e \<in> set (bw_journal (bx_world st)). je_type e = StageStarted \<and> je_identity e = launch_operation svc oid \<and> je_stage e = Some stage))"
proof -
  have inv: "broker_inv svc st" by (rule execution.reach_inv [OF assms])
  let ?db = "bw_journal (bx_world st)"
  have d: "distinct (bw_effects (bx_world st))" using inv world_at [of svc "bx_world st"] by (auto simp: broker_inv_def op_at_def)
  have "(\<exists>frame request. authenticate svc frame (bs_application_uid svc) = Inr request \<and> bi_operation_id request = oid \<and> accepted_event request frame \<in> set ?db)
       \<and> (\<exists>e \<in> set ?db. je_type e = StageStarted \<and> je_identity e = launch_operation svc oid \<and> je_stage e = Some stage)"
    if e: "(oid, stage) \<in> set (bw_effects (bx_world st))" for oid stage
  proof -
    obtain s where s: "op_at oid (launch_operation svc oid) (bx_world st) s (effects_of oid (bx_world st))" using world_at inv unfolding broker_inv_def by blast
    then have st: "stage \<in> op_started s" and o: "op_of (launch_operation svc oid) ?db = Some s" using e by (auto simp: op_at_def effects_of_def)
    obtain x where x: "x \<in> set ?db" "je_type x = AcceptedEvent" "je_identity x = launch_operation svc oid" using started_recorded(1) [OF o st] by blast
    have "\<exists>frame request. authenticate svc frame (bs_application_uid svc) = Inr request \<and> x = accepted_event request frame"
      using inv x by (simp add: broker_inv_def authentic_def)
    then obtain frame request where f: "authenticate svc frame (bs_application_uid svc) = Inr request" "x = accepted_event request frame" by blast
    then have "bi_operation_id request = oid" using x(3) authenticateD(2) [OF f(1)] by (simp add: launch_operation_inj)
    then show ?thesis using f x(1) started_recorded(2) [OF o st] by blast
  qed
  then show ?thesis using d by auto
qed

text \<open>C5: Every response that the broker gives for an operation is the one that the journal records as its end, so a repeated request, a waiting
  request and a request after a restart all get the same bytes.
\<close>

theorem responses_durable:
  assumes "reach broker_start (broker_step svc) st" "(i, f) \<in> set (bx_responses st)"
  shows "(\<exists>d. journal_terminal i (bw_journal (bx_world st)) = Inr (Some d) \<and> jd_response_frame d = Some f)
    \<and> (\<forall>f'. (i, f') \<in> set (bx_responses st) \<longrightarrow> f' = f)"
proof -
  have inv: "broker_inv svc st" by (rule execution.reach_inv [OF assms(1)])
  then have ok: "journal_ok (bw_journal (bx_world st))" using world_journal_ok by (auto simp: broker_inv_def)
  have r: "\<exists>t b s. op_of i (bw_journal (bx_world st)) = Some s \<and> ended_with t b g s" if "(i, g) \<in> set (bx_responses st)" for g
    using inv that by (force simp: broker_inv_def response_ok_def)
  obtain t b s where s: "op_of i (bw_journal (bx_world st)) = Some s" "ended_with t b f s" using r [OF assms(2)] by blast
  then show ?thesis using journal_terminal_spec [OF ok s(1)] r by (fastforce simp: ended_with_def)
qed

subsection \<open>Recovery ends every lifecycle\<close>

lemma accepted_frame_fields:
  assumes "event_ok e" "je_type e = AcceptedEvent" "je_request_frame e = Some frame"
  shows "\<exists>m. validate_stored_json (Some frame) BROKER_FRAME_BYTES_MAX = Inr m \<and>
    (dget m (ascii ''database_incarnation''), dget m (ascii ''operation_id''), dget m (ascii ''request_type''))
      = (case je_identity e of (d, oid, ty) \<Rightarrow> (Some (JStr d), Some (JStr oid), Some (JStr ty)))"
proof -
  obtain d oid ty where i: "je_identity e = (d, oid, ty)" by (cases "je_identity e") auto
  have "validate_accepted [] e = Inr ()" using assms(1,2) by (auto simp: event_ok_def is_ok_iff)
  then obtain m where m: "validate_stored_json (Some frame) BROKER_FRAME_BYTES_MAX = Inr m"
    "json_text_is (dget m (ascii ''database_incarnation'')) (Some d)" "json_text_is (dget m (ascii ''operation_id'')) (Some oid)"
    "json_text_is (dget m (ascii ''request_type'')) (Some ty)"
    using assms(3) i by (auto simp: validate_accepted_def rbind_Inr_iff raise_if_def split: if_splits)
  have "json_text_is v (Some u) \<Longrightarrow> v = Some (JStr u)" for v u by (auto simp: json_text_is_def split: option.splits json.splits)
  then show ?thesis using m i by (intro exI [of _ m]) auto
qed

lemma frame_identity:
  assumes "event_ok e" "je_type e = AcceptedEvent" "je_request_frame e = Some frame" "parse_signed_request hexdigest verify frame = Inr request"
  shows "je_identity e = journal_identity request"
proof -
  have "je_request_frame (accepted_event request frame) = Some frame" by (simp add: accepted_event_def)
  from accepted_frame_fields [OF accepted_event_ok [OF assms(4)] _ this] accepted_frame_fields [OF assms(1-3)]
  show ?thesis by (auto split: prod.splits)
qed

lemma incomplete_ofD:
  assumes "incomplete_of db a = Some l"
  shows "\<exists>s b. je_request_frame a = Some (il_request_frame l) \<and> op_of (je_identity a) db = Some s
    \<and> op_claim s = Some (il_owner_token l, b) \<and> op_progress s = Some (il_stage l, il_stage_started l)"
  using assms by (auto simp: incomplete_of_def split: option.splits prod.splits)

lemma incomplete_ofI:
  assumes "event_ok a" "je_type a = AcceptedEvent" "op_of (je_identity a) db = Some s" "op_claim s \<noteq> None" "\<not> op_ended s"
  shows "incomplete_of db a \<noteq> None"
proof -
  obtain f where "je_request_frame a = Some f" using assms(1,2) by (auto simp: event_ok_def check_columns_def)
  then show ?thesis using assms(3-5) by (cases s) (auto simp: incomplete_of_def)
qed

lemma incomplete_progress: "op_progress s = Some x \<Longrightarrow> op_claim s \<noteq> None \<and> \<not> op_ended s"
  by (cases s) auto

lemma recovery_ends:
  assumes "reach broker_start (broker_step svc) st" "recover_startup (service_of svc st) commits (bx_world st) = (Inr (), w)"
  shows "incomplete_lifecycles (bw_journal w) = Inr []"
proof -
  let ?v = "service_of svc st" and ?db = "bw_journal (bx_world st)"
  have inv: "broker_inv svc st" by (rule execution.reach_inv [OF assms(1)])
  have wok: "world_ok ?v (bx_world st)" using inv by (simp add: broker_inv_def world_ok_def)
  note ok = world_journal_ok [OF wok]
  obtain ls where ls: "incomplete_lifecycles ?db = Inr ls" "\<forall>l \<in> set ls. recovered ?v w l"
    "\<forall>j. op_of j (bw_journal w) \<noteq> op_of j ?db \<longrightarrow> (\<exists>l \<in> set ls. concerns ?v l j)" and w: "world_ok ?v w" "ended_kept (bx_world st) w"
    using recover_startup_world [OF wok assms(2)] by blast
  note ok' = world_journal_ok [OF w(1)]
  have none: "incomplete_of (bw_journal w) a = None" if a: "a \<in> set (bw_journal w)" "je_type a = AcceptedEvent" for a
  proof (rule ccontr)
    assume "incomplete_of (bw_journal w) a \<noteq> None"
    then obtain x where "incomplete_of (bw_journal w) a = Some x" by blast
    from incomplete_ofD [OF this] obtain l :: incomplete_lifecycle and s b where l: "op_of (je_identity a) (bw_journal w) = Some s"
      "op_claim s = Some (il_owner_token l, b)" "op_progress s = Some (il_stage l, il_stage_started l)" by blast
    have live: "\<not> op_ended s" using incomplete_progress [OF l(3)] by blast
    have "\<exists>k \<in> set ls. concerns ?v k (je_identity a)"
    proof (cases "op_of (je_identity a) ?db = Some s")
      case True
      have "s \<noteq> OpAbsent" using l(2) by auto
      then obtain e where e: "e \<in> set ?db" "je_type e = AcceptedEvent" "je_identity e = je_identity a"
        using absent_unaccepted [OF True] unfolding accepted_at_def by (auto dest: find_SomeD)
      have eok: "event_ok e" using ok e(1) unfolding journal_ok_def by blast
      obtain k where k: "incomplete_of ?db e = Some k" using incomplete_ofI [OF eok e(2), of ?db s] True e(3) l(2) live by auto
      then have "k \<in> set ls" using ls(1) incomplete_spec [OF ok] e(1,2) by (auto simp: set_map_filter)
      then obtain request where r: "authenticate ?v (il_request_frame k) (bs_application_uid ?v) = Inr request" using ls(2) by (auto simp: recovered_def)
      have "je_identity e = journal_identity request" using frame_identity [OF eok e(2) _ authenticateD(1) [OF r]] incomplete_ofD [OF k] by blast
      then show ?thesis using r \<open>k \<in> set ls\<close> e(3) unfolding concerns_def by metis
    qed (use ls(3) l(1) in metis)
    then obtain k request where "k \<in> set ls" "authenticate ?v (il_request_frame k) (bs_application_uid ?v) = Inr request" "journal_identity request = je_identity a"
      unfolding concerns_def by blast
    then show False using ls(2) l(1) live unfolding recovered_def by fastforce
  qed
  have "List.map_filter (\<lambda>a. if je_type a = AcceptedEvent then incomplete_of (bw_journal w) a else None) (bw_journal w) = []"
    using none by (auto simp: List.map_filter_def filter_empty_conv)
  then show ?thesis using incomplete_spec [OF ok'] by simp
qed

definition ready :: "broker_service \<Rightarrow> broker_world \<Rightarrow> incomplete_lifecycle \<Rightarrow> operation \<Rightarrow> bool" where
  "ready svc w l i \<longleftrightarrow> (\<exists>request s b f. authenticate svc (il_request_frame l) (bs_application_uid svc) = Inr request \<and> journal_identity request = i
     \<and> op_of i (bw_journal w) = Some s \<and> op_claim s = Some (il_owner_token l, b) \<and> op_progress s = Some (il_stage l, il_stage_started l)
     \<and> unresolved_response svc request (il_stage l) = Inr f)"

lemma progress_stage:
  "op_wf s \<Longrightarrow> op_claim s = Some (t, b) \<Longrightarrow> op_progress s = Some (st, started) \<Longrightarrow>
     st \<in> set STAGES \<and> (if started then s = OpStarted t b st else op_step s (started_event i t st) = Some (OpStarted t b st))"
  by (cases s) (auto simp: STAGES_def next_stage_def op_step_def started_event_def empty_event_def split: if_splits)

lemma give_up_succeeds:
  assumes "journal_ok db" "op_of (journal_identity request) db = Some (OpStarted t b st)" "st \<in> set STAGES" "response_frame_ok f" "c \<noteq> Uncertain False"
  shows "fst (record_stage_unresolved c request t st ''broker_restart_unknown'' f db) = Inr ()"
  using unresolved_refines [OF assms(1,2,4), of c t st "''broker_restart_unknown''"] assms(3,5)
  by (auto simp: refines_def spec_unresolved_def spec_append_def op_step_def unresolved_event_def empty_event_def check_columns_def UNRESOLVED_REASONS_def split: if_splits)

lemma on_journal_result: "fst (on_journal op w) = (case fst (op (bw_journal w)) of Inl e \<Rightarrow> Inl (ServiceJournal e) | Inr x \<Rightarrow> Inr x)"
  "bw_journal (snd (on_journal op w)) = snd (op (bw_journal w))"
  by (simp_all add: on_journal_def split: prod.splits sum.splits)

lemma act_bind_Inr: "m w = (Inr x, w') \<Longrightarrow> act_bind m f w = f x w'"
  by (simp add: act_bind_def)

lemma recover_one_succeeds:
  assumes w: "world_ok svc w" and r: "ready svc w l i" and c: "\<forall>call. commit call \<noteq> Uncertain False"
  shows "fst (recover_one svc commit l w) = Inr ()"
proof -
  obtain request s b f where a: "authenticate svc (il_request_frame l) (bs_application_uid svc) = Inr request" "unresolved_response svc request (il_stage l) = Inr f"
    and s: "op_of (journal_identity request) (bw_journal w) = Some s" "op_claim s = Some (il_owner_token l, b)" "op_progress s = Some (il_stage l, il_stage_started l)"
    using r by (auto simp: ready_def)
  note ok = world_journal_ok [OF w]
  note st = progress_stage [OF op_of_wf [OF s(1)] s(2,3), of "journal_identity request"]
  let ?start = "if il_stage_started l then act_return () else on_journal (begin_stage (commit (CallBegin (il_stage l))) request (il_owner_token l) (il_stage l))"
  obtain w' where b: "?start w = (Inr (), w')" "journal_ok (bw_journal w')" "op_of (journal_identity request) (bw_journal w') = Some (OpStarted (il_owner_token l) b (il_stage l))"
  proof (cases "il_stage_started l")
    case True
    then show ?thesis using that [of w] st s(1) ok by (simp add: act_return_def)
  next
    case False
    let ?op = "begin_stage (commit (CallBegin (il_stage l))) request (il_owner_token l) (il_stage l)"
    have "refines (journal_identity request) (bw_journal w) (?op (bw_journal w)) (Inr (), OpStarted (il_owner_token l) b (il_stage l))"
      using begin_refines [OF ok s(1), of "commit (CallBegin (il_stage l))" "il_owner_token l" "il_stage l"] st False c
        event_ok_columns [OF started_event_ok [of "il_stage l" "journal_identity request" "il_owner_token l"]]
      by (simp add: spec_begin_def spec_append_def)
    then show ?thesis
      using that [of "snd (on_journal ?op w)"] False on_journal_result [of ?op w] journal_ops_ok(2) [OF ok] by (simp add: refines_def prod_eq_iff)
  qed
  have "fst (record_stage_unresolved (commit (CallUnresolved (il_stage l))) request (il_owner_token l) (il_stage l) ''broker_restart_unknown'' f (bw_journal w')) = Inr ()"
    using give_up_succeeds [OF b(2,3)] st unresolved_response_ok [OF a(2) authenticateD(3) [OF a(1)]] c by blast
  then show ?thesis
    using a b(1) by (simp add: on_journal_result(1) recover_one_def act_bind_Inr [where m = ?start, OF b(1)] act_bind_def [of "act_signed _"] act_signed_def)
qed

lemma ready_kept:
  assumes "ready svc w l i" "op_of i (bw_journal w') = op_of i (bw_journal w)"
  shows "ready svc w' l i"
  using assms by (simp add: ready_def)

lemma recover_all_succeeds:
  assumes "world_ok svc w" "distinct is" "list_all2 (ready svc w) ls is" "\<forall>n call. commit n call \<noteq> Uncertain False"
  shows "fst (recover_all svc commit n ls w) = Inr ()"
  using assms(1-3)
proof (induction ls arbitrary: w "is" n)
  case Nil
  then show ?case by (simp add: act_return_def)
next
  case (Cons l ls)
  then obtain i js where i: "is = i # js" "ready svc w l i" "list_all2 (ready svc w) ls js" "i \<notin> set js" "distinct js" by (auto simp: list_all2_Cons1)
  obtain w1 where 1: "recover_one svc (commit n) l w = (Inr (), w1)"
    using recover_one_succeeds [OF Cons.prems(1) i(2), of "commit n"] assms(4) by (metis prod.collapse)
  note o = recover_one_world [OF Cons.prems(1) 1]
  have "op_of j (bw_journal w1) = op_of j (bw_journal w)" if "j \<in> set js" for j
  proof (rule ccontr)
    assume "op_of j (bw_journal w1) \<noteq> op_of j (bw_journal w)"
    then have "concerns svc l j" by (rule o(4))
    then show False using i(2,4) that by (auto simp: concerns_def ready_def)
  qed
  then have "list_all2 (ready svc w1) ls js"
    using ready_kept [of svc w] by (intro list.rel_mono_strong [OF i(3)]) metis
  from Cons.IH [OF o(1) i(5) this] show ?case using 1 by (simp add: act_bind_def)
qed

lemma acceptances_distinct:
  assumes "journal_ok db" "authentic svc db"
  shows "distinct (map je_identity (filter (\<lambda>e. je_type e = AcceptedEvent) db))"
proof -
  let ?r = "filter (\<lambda>e. je_type e = AcceptedEvent) db"
  have "fst (je_identity e) = bs_database_incarnation svc" if "e \<in> set ?r" for e
    using that assms(2) authenticateD(2) by (fastforce simp: authentic_def launch_operation_def)
  then have "accepted_rows (bs_database_incarnation svc) db = ?r" unfolding accepted_rows_def by (auto intro!: filter_cong)
  then have "distinct (map je_nonce ?r)" using assms(1) unfolding journal_ok_def by metis
  then have "distinct ?r" using distinct_map by blast
  moreover have "inj_on je_identity (set ?r)" using acceptance_single [OF assms(1)] by (auto intro!: inj_onI)
  ultimately show ?thesis by (simp add: distinct_map)
qed

lemma map_filter_aligned:
  assumes "\<forall>x \<in> set xs. \<forall>y. f x = Some y \<longrightarrow> P y (g x)" "distinct (map g xs)"
  shows "\<exists>is. list_all2 P (List.map_filter f xs) is \<and> distinct is \<and> set is \<subseteq> g ` set xs"
  using assms
proof (induction xs)
  case Nil
  then show ?case by (simp add: List.map_filter_def)
next
  case (Cons x xs)
  then obtain js where js: "list_all2 P (List.map_filter f xs) js" "distinct js" "set js \<subseteq> g ` set xs" by auto
  show ?case
  proof (cases "f x")
    case None
    then show ?thesis using js by (intro exI [of _ js]) (auto simp: List.map_filter_simps)
  next
    case (Some y)
    then show ?thesis using js Cons.prems by (intro exI [of _ "g x # js"]) (auto simp: List.map_filter_simps)
  qed
qed

lemma incomplete_ready:
  assumes "journal_ok (bw_journal w)" "authentic svc (bw_journal w)" "e \<in> set (bw_journal w)" "je_type e = AcceptedEvent" "incomplete_of (bw_journal w) e = Some l"
    and "\<And>request. authenticate svc (il_request_frame l) (bs_application_uid svc) = Inr request \<Longrightarrow> is_ok (unresolved_response svc request (il_stage l))"
  shows "ready svc w l (je_identity e)"
proof -
  obtain frame request where r: "authenticate svc frame (bs_application_uid svc) = Inr request" "e = accepted_event request frame"
    using assms(2-4) by (auto simp: authentic_def)
  then have "il_request_frame l = frame" using incomplete_ofD [OF assms(5)] by (auto simp: accepted_event_def)
  then show ?thesis using incomplete_ofD [OF assms(5)] r assms(6) [of request] by (auto simp: ready_def is_ok_iff)
qed

subsection \<open>Responses fit\<close>

text \<open>A text that is written as it is, one byte for each character, and a bound on what a value of such texts takes.\<close>

definition plain_text :: "utext \<Rightarrow> bool" where
  "plain_text s \<longleftrightarrow> (\<forall>c \<in> set s. 32 \<le> c \<and> c < 127 \<and> c \<noteq> 34 \<and> c \<noteq> 92)"

abbreviation byte_text :: "utext \<Rightarrow> bool" where "byte_text s \<equiv> \<forall>c \<in> set s. c < 128"

abbreviation plain_json :: "json \<Rightarrow> bool" where "plain_json \<equiv> json_ok plain_text (\<lambda>_. False)"

fun json_bound :: "json \<Rightarrow> nat" where
  "json_bound JNull = 4"
| "json_bound (JBool b) = 5"
| "json_bound (JInt i) = length (int_text i)"
| "json_bound (JFloat t) = length t"
| "json_bound (JStr s) = length s + 2"
| "json_bound (JList xs) = 2 + sum_list (map (\<lambda>x. Suc (json_bound x)) xs)"
| "json_bound (JObj kvs) = 2 + sum_list (map (\<lambda>(k, v). length k + 4 + json_bound v) kvs)"

lemma escape_plain: "plain_text s \<Longrightarrow> concat (map escape_raw s) = s"
  by (induction s) (auto simp: plain_text_def escape_raw_def)

lemma plain_byte: "plain_text s \<Longrightarrow> byte_text s"
  by (auto simp: plain_text_def)

lemma comma_join_bound: "length (comma_join xs) \<le> sum_list (map (\<lambda>x. Suc (length x)) xs)"
  by (induction xs rule: comma_join.induct) auto

lemma comma_join_byte: "\<forall>s \<in> set xs. byte_text s \<Longrightarrow> byte_text (comma_join xs)"
  by (induction xs rule: comma_join.induct) auto

lemma sum_list_sort: "sum_list (map f (sort_key g xs)) = (sum_list (map f xs) :: nat)"
  by (metis mset_map mset_sort sum_mset_sum_list)

lemma utf8_byte_text: "byte_text s \<Longrightarrow> \<exists>b. utf8_encode s = Some b \<and> length b = length s"
proof (induction s)
  case (Cons c s)
  then obtain b where "utf8_encode s = Some b" "length b = length s" by auto
  then show ?case using Cons.prems by (simp add: utf8_char_def)
qed simp

lemma dumps_plain: "plain_json v \<Longrightarrow> byte_text (dumps_gen escape_raw True v) \<and> length (dumps_gen escape_raw True v) \<le> json_bound v"
proof (induction v)
  case (JInt i)
  have "c \<in> set (nat_text n) \<Longrightarrow> c < 128" for c n using nat_text_digits [of c n] by (simp add: is_digit_def)
  then show ?case by (auto simp: int_text_def)
next
  case (JStr s)
  then show ?case using plain_byte [of s] by (simp add: escape_plain)
next
  case (JList xs)
  then have x: "\<forall>x \<in> set xs. byte_text (dumps_gen escape_raw True x) \<and> length (dumps_gen escape_raw True x) \<le> json_bound x" by (auto simp: list_all_iff)
  then have "sum_list (map (\<lambda>x. Suc (length (dumps_gen escape_raw True x))) xs) \<le> sum_list (map (\<lambda>x. Suc (json_bound x)) xs)" by (intro sum_list_mono) auto
  moreover have "byte_text (comma_join (map (dumps_gen escape_raw True) xs))" by (rule comma_join_byte) (use x in auto)
  ultimately show ?case using comma_join_bound [of "map (dumps_gen escape_raw True) xs"] by (auto simp: o_def)
next
  case (JObj kvs)
  let ?m = "dumps_member escape_raw True" and ?b = "\<lambda>(k, v). length k + 4 + json_bound v"
  have m: "byte_text (?m kv) \<and> Suc (length (?m kv)) \<le> ?b kv" if "kv \<in> set kvs" for kv
  proof -
    obtain k v where kv: "kv = (k, v)" by (cases kv)
    have "plain_text k" "byte_text (dumps_gen escape_raw True v)" "length (dumps_gen escape_raw True v) \<le> json_bound v"
      using JObj that kv by (fastforce simp: list_all_iff)+
    then show ?thesis using plain_byte [of k] kv by (auto simp: dumps_member_def escape_plain)
  qed
  have "length (comma_join (map ?m (sort_key fst kvs))) \<le> sum_list (map (\<lambda>kv. Suc (length (?m kv))) (sort_key fst kvs))"
    using comma_join_bound [of "map ?m (sort_key fst kvs)"] by (simp add: o_def)
  also have "\<dots> \<le> sum_list (map ?b kvs)" unfolding sum_list_sort using m by (intro sum_list_mono) blast
  finally have "length (comma_join (map ?m (sort_key fst kvs))) \<le> sum_list (map ?b kvs)" .
  moreover have "byte_text (comma_join (map ?m (sort_key fst kvs)))" by (rule comma_join_byte) (use m in auto)
  ultimately show ?case unfolding dumps_gen_obj if_True by auto
qed (auto simp: ascii_def)

lemma canonical_plain:
  assumes "valid_json 0 v" "plain_json v" "json_bound v \<le> n" "n \<le> BROKER_FRAME_BYTES_MAX"
  shows "\<exists>b. canonical_json v = Inr b \<and> length b \<le> n"
proof -
  obtain b where "utf8_encode (dumps_gen escape_raw True v) = Some b" "length b = length (dumps_gen escape_raw True v)" using utf8_byte_text dumps_plain [OF assms(2)] by blast
  then show ?thesis using dumps_plain [OF assms(2)] assms(1,3,4) unfolding canonical_json_iff by (intro exI [of _ b]) auto
qed

lemma plain_valid: "plain_text s \<Longrightarrow> length s \<le> n \<Longrightarrow> valid_text n s"
  using utf8_byte_text [OF plain_byte] by (fastforce simp: valid_text_def)

lemma length_encode64: "length sig = 64 \<Longrightarrow> length (encode_base64url sig) \<le> 88"
proof -
  have "3 * length (sextets bs) \<le> 4 * length bs + 8" for bs by (induction bs rule: sextets.induct) auto
  from this [of "map unat sig"] show "length sig = 64 \<Longrightarrow> length (encode_base64url sig) \<le> 88" by (simp add: encode_base64url_chars(1))
qed

lemma plain_encode64: "plain_text (encode_base64url sig)"
proof -
  have "b64_value c \<noteq> None \<Longrightarrow> 32 \<le> c \<and> c < 127 \<and> c \<noteq> 34 \<and> c \<noteq> 92" for c
  proof (rule ccontr)
    assume "b64_value c \<noteq> None" "\<not> (32 \<le> c \<and> c < 127 \<and> c \<noteq> 34 \<and> c \<noteq> 92)"
    then have "c < 32 \<or> 127 \<le> c \<or> c = 34 \<or> c = 92" by auto
    then have "b64_value c = None" by (elim disjE) (simp_all add: b64_value_def)
    then show False using \<open>b64_value c \<noteq> None\<close> by blast
  qed
  then show ?thesis using encode_base64url_chars(2) [of sig] unfolding plain_text_def by blast
qed

lemma plain_patterns: "TOKEN_PATTERN s \<Longrightarrow> plain_text s" "lower_hex_text s \<Longrightarrow> plain_text s" "ERROR_CODE_PATTERN s \<Longrightarrow> plain_text s"
  by (cases s; force simp: TOKEN_PATTERN_def lower_hex_text_def ERROR_CODE_PATTERN_def plain_text_def list_all_iff)+

lemma int_text_bound: "0 \<le> i \<Longrightarrow> i \<le> 2 ^ 53 - 1 \<Longrightarrow> length (int_text i) \<le> 16"
  using length_nat_text [of "nat i" 16] by (simp add: int_text_def)

text \<open>A plain text of at most \<open>n\<close> characters; as a string of a message it is valid and takes at most two more bytes.\<close>

definition small_text :: "nat \<Rightarrow> utext \<Rightarrow> bool" where
  "small_text n s \<longleftrightarrow> plain_text s \<and> length s \<le> n"

lemma small_names: "small_text 20 (ascii ''broker_incarnation'')" "small_text 20 (ascii ''connection_sequence'')" "small_text 20 (ascii ''database_incarnation'')"
  "small_text 20 (ascii ''error'')" "small_text 20 (ascii ''operation_id'')" "small_text 20 (ascii ''payload_digest'')" "small_text 20 (ascii ''protocol_version'')"
  "small_text 20 (ascii ''request_nonce'')" "small_text 20 (ascii ''request_type'')" "small_text 20 (ascii ''result'')" "small_text 20 (ascii ''status'')"
  "small_text 20 (ascii ''signature'')" "small_text 20 (ascii ''launcher_status'')" "small_text 20 (ascii ''lifecycle_stage'')"
  "small_text 20 BROKER_PROTOCOL_VERSION" "small_text 20 SUPPORTED_REQUEST_TYPE" "small_text 20 (ascii ''ok'')"
  by code_simp+

lemma small_patterns: "TOKEN_PATTERN s \<Longrightarrow> small_text 128 s" "OPERATION_ID_PATTERN s \<Longrightarrow> small_text 128 s" "DIGEST_PATTERN s \<Longrightarrow> small_text 128 s"
  "ERROR_CODE_PATTERN s \<Longrightarrow> small_text 128 s" "length sig = 64 \<Longrightarrow> small_text 128 (encode_base64url sig)"
  using plain_patterns [of s] plain_encode64 [of sig] length_encode64 [of sig]
  by (auto simp: small_text_def TOKEN_PATTERN_def OPERATION_ID_PATTERN_def DIGEST_PATTERN_def ERROR_CODE_PATTERN_def)

lemma small_mono: "small_text n s \<Longrightarrow> n \<le> m \<Longrightarrow> small_text m s"
  by (simp add: small_text_def)

fun small_member :: "nat \<Rightarrow> utext \<times> json \<Rightarrow> bool" where
  "small_member d (k, v) \<longleftrightarrow> k \<noteq> [] \<and> small_text 20 k \<and> valid_json d v \<and> plain_json v \<and> json_bound v \<le> 200"

lemma small_object:
  assumes "list_all (small_member (Suc d)) kvs" "length kvs \<le> 12" "d \<le> 8" "distinct (map fst kvs)"
  shows "valid_json d (JObj kvs) \<and> plain_json (JObj kvs) \<and> json_bound (JObj kvs) \<le> 2 + length kvs * 224"
proof -
  have "sum_list (map (\<lambda>(k, v). length k + 4 + json_bound v) kvs) \<le> length kvs * 224"
    using assms(1) by (induction kvs) (auto simp: small_text_def)
  moreover have "\<forall>(k, v) \<in> set kvs. k \<noteq> [] \<and> valid_text 128 k \<and> valid_json (d + 1) v \<and> plain_text k \<and> plain_json v"
    using assms(1) plain_valid [of _ 128] by (fastforce simp: list_all_iff small_text_def)
  ultimately show ?thesis using assms(2-4) by (auto simp: list_all_iff)
qed

lemma small_string: "small_text 128 s \<Longrightarrow> d \<le> 8 \<Longrightarrow> valid_json d (JStr s) \<and> plain_json (JStr s) \<and> json_bound (JStr s) \<le> 130"
  using plain_valid [of s 4096] by (simp add: small_text_def)

lemma small_sequence: "1 \<le> i \<Longrightarrow> i \<le> 2 ^ 53 - 1 \<Longrightarrow> d \<le> 8 \<Longrightarrow> valid_json d (JInt i) \<and> plain_json (JInt i) \<and> json_bound (JInt i) \<le> 16"
  using int_text_bound [of i] by (simp add: INT_MAX_STR_DIGITS_def int_text_def)

text \<open>The messages of a response, without and with its signature.\<close>

lemma response_messages_small:
  assumes i: "valid_identity i" "bi_connection_sequence i \<le> 2 ^ 53 - 1" "bi_request_type i = SUPPORTED_REQUEST_TYPE"
    and o: "small_text 20 st" "\<forall>x. e = Some x \<longrightarrow> small_text 128 x" "small_text 20 (ascii status)" "small_text 20 (ascii stage)" "length sig = 64"
  shows "list_all (small_member (Suc 0)) (signed_message (response_message i st e (stage_result status stage)) sig)"
proof -
  note n = small_names
  have nonempty: "ascii (c # cs) \<noteq> []" for c cs by (simp add: ascii_def)
  have s: "small_text 128 s \<Longrightarrow> k \<noteq> [] \<Longrightarrow> small_text 20 k \<Longrightarrow> d \<le> 8 \<Longrightarrow> small_member d (k, JStr s)" for s k d
    using small_string [of s d] by simp
  have "small_member (Suc 0) (ascii ''connection_sequence'', JInt (bi_connection_sequence i))"
    using small_sequence [of "bi_connection_sequence i" "Suc 0"] i n(2) nonempty by (simp add: valid_identity_def)
  moreover have "small_member (Suc 0) (ascii ''error'', (case e of None \<Rightarrow> JNull | Some x \<Rightarrow> JStr x))"
    using s [of _ "ascii ''error''" "Suc 0"] o(2) n(4) nonempty by (cases e) auto
  moreover have "small_member (Suc 0) (ascii ''result'', JObj (stage_result status stage))"
  proof -
    have r: "list_all (small_member 2) (stage_result status stage)"
      using s [of "ascii status" "ascii ''launcher_status''" 2] s [of "ascii stage" "ascii ''lifecycle_stage''" 2] o(3,4) n nonempty small_mono
      by (simp add: stage_result_def)
    have "json_bound (JObj (stage_result status stage)) \<le> 200" using o(3,4) by (simp add: stage_result_def small_text_def ascii_def)
    moreover have "distinct (map fst (stage_result status stage)) \<and> length (stage_result status stage) = 2" by (simp add: stage_result_def ascii_def)
    ultimately show ?thesis using small_object [of 1 "stage_result status stage"] r n(10) nonempty by (simp add: numeral_2_eq_2)
  qed
  moreover have "small_text 128 (bi_broker_incarnation i)" "small_text 128 (bi_database_incarnation i)" "small_text 128 (bi_nonce i)"
    "small_text 128 (bi_operation_id i)" "small_text 128 (bi_payload_digest i)" "small_text 128 (bi_protocol_version i)" "small_text 128 (bi_request_type i)"
    "small_text 128 (encode_base64url sig)" "small_text 128 st"
    using i(1,3) o(1,5) small_patterns n(15,16) small_mono [of 20 _ 128] by (auto simp: valid_identity_def)
  ultimately show ?thesis
    using s n nonempty by (simp add: signed_message_def response_message_def del: small_member.simps)
qed

lemma response_created:
  assumes i: "valid_identity (broker_identity.truncate request)" "bi_connection_sequence request \<le> 2 ^ 53 - 1" "bi_request_type request = SUPPORTED_REQUEST_TYPE"
    and o: "valid_outcome st e" "\<forall>x. e = Some x \<longrightarrow> small_text 128 x" "small_text 20 (ascii status)" "small_text 20 (ascii stage)" "\<And>m. length (sign m) = 64"
  shows "is_ok (create_signed_response sign request st e (stage_result status stage))"
proof -
  let ?i = "broker_identity.truncate request"
  let ?m = "response_message ?i st e (stage_result status stage)"
  have st: "small_text 20 st" using o(1) small_names(4,17) by (auto simp: valid_outcome_def)
  have all: "list_all (small_member (Suc 0)) (signed_message ?m sig)" if "length sig = 64" for sig
    by (rule response_messages_small) (use i o st that in \<open>simp_all add: broker_identity.defs\<close>)
  have plain: "\<exists>b. canonical_json (JObj kvs) = Inr b \<and> length b \<le> BROKER_RESPONSE_BYTES_MAX"
    if "list_all (small_member (Suc 0)) kvs" "distinct (map fst kvs)" "length kvs \<le> 12" for kvs
    using small_object [OF that(1,3) _ that(2)] that(3) canonical_plain [of "JObj kvs" BROKER_RESPONSE_BYTES_MAX]
    by (simp add: BROKER_RESPONSE_BYTES_MAX_def BROKER_FRAME_BYTES_MAX_def)
  have l: "length (signed_message ?m sig) = 12 \<and> length ?m = 11 \<and> distinct (map fst (signed_message ?m sig)) \<and> distinct (map fst ?m)" for sig
    by (simp add: signed_message_def response_message_def ascii_def)
  have m: "list_all (small_member (Suc 0)) ?m" using all [OF o(5), of "[]"] by (simp add: signed_message_def)
  obtain u where u: "canonical_json (JObj ?m) = Inr u" using plain [OF m] l by auto
  obtain f where "canonical_json (JObj (signed_message ?m (sign (RESPONSE_SIGNATURE_DOMAIN @ u)))) = Inr f" "length f \<le> BROKER_RESPONSE_BYTES_MAX"
    using plain [OF all [OF o(5), of "RESPONSE_SIGNATURE_DOMAIN @ u"]] l [of "sign (RESPONSE_SIGNATURE_DOMAIN @ u)"] by auto
  then have "create_signed_response sign request st e (stage_result status stage) = Inr f" using o(1) u unfolding create_signed_response_iff by blast
  then show ?thesis by (auto simp: is_ok_iff)
qed

lemma authenticated_identity:
  assumes "authenticate svc frame uid = Inr request"
  shows "valid_identity (broker_identity.truncate request)" "bi_connection_sequence request \<le> 2 ^ 53 - 1" "bi_request_type request = SUPPORTED_REQUEST_TYPE"
proof -
  obtain u where u: "canonical_json (JObj (request_message (broker_identity.truncate request) (brq_payload request))) = Inr u"
    and v: "valid_identity (broker_identity.truncate request)" using parse_signed_requestD [OF authenticateD(1) [OF assms]] by blast
  show "valid_identity (broker_identity.truncate request)" by (rule v)
  have "valid_json 0 (JObj (request_message (broker_identity.truncate request) (brq_payload request)))" using u unfolding canonical_json_iff by blast
  then have "\<bar>bi_connection_sequence request\<bar> \<le> 2 ^ 53 - 1" by (simp add: request_message_def broker_identity.defs)
  then show "bi_connection_sequence request \<le> 2 ^ 53 - 1" by linarith
  show "bi_request_type request = SUPPORTED_REQUEST_TYPE" using authenticateD(2) [OF assms] by (simp add: journal_identity_def launch_operation_def)
qed

lemma unresolved_created:
  assumes "authenticate svc frame uid = Inr request" "\<forall>m. length (bs_sign svc m) = 64" "stage \<in> set STAGES"
  shows "is_ok (unresolved_response svc request stage)"
proof -
  have "small_text 20 (ascii stage)" using assms(3) by (auto simp: STAGES_def) code_simp+
  moreover have "small_text 20 (ascii ''unresolved'')" "small_text 128 (ascii ''launcher_outcome_unresolved'')" by code_simp+
  moreover have "valid_outcome (ascii ''error'') (Some (ascii ''launcher_outcome_unresolved''))" by (simp add: valid_outcome_def ascii_def)
  ultimately show ?thesis unfolding unresolved_response_def using response_created [OF authenticated_identity [OF assms(1)]] assms(2) by simp
qed

lemma confirmed_created:
  assumes "authenticate svc frame uid = Inr request" "\<forall>m. length (bs_sign svc m) = 64" "stage \<in> set STAGES"
    and r: "confirmed_launcher_result v stage = Some r" "lr_status r \<noteq> ''prepared''"
  shows "is_ok (confirmed_response svc request r stage)"
proof -
  note i = authenticated_identity [OF assms(1)]
  have stage: "small_text 20 (ascii stage)" using assms(3) by (auto simp: STAGES_def) code_simp+
  have words: "small_text 20 (ascii ''rejected'')" "small_text 20 (ascii ''launched'')" by code_simp+
  show ?thesis
  proof (cases "lr_status r = ''launched''")
    case True
    have "valid_outcome (ascii ''ok'') None" by (simp add: valid_outcome_def)
    from response_created [OF i this _ words(2) stage] show ?thesis unfolding confirmed_response_def True using assms(2) by simp
  next
    case False
    then obtain x where x: "lr_status r = ''rejected''" "lr_error r = Some x" "ERROR_CODE_PATTERN x"
      using r by (auto simp: confirmed_launcher_result_def Let_def split: raw_result.splits if_splits option.splits)
    then have "valid_outcome (ascii ''error'') (Some x)" by (auto simp: valid_outcome_def ERROR_CODE_PATTERN_def)
    from response_created [OF i this _ words(1) stage] x show ?thesis unfolding confirmed_response_def using small_patterns(4) [OF x(3)] assms(2) by simp
  qed
qed

text \<open>C20: For every request that the broker authenticates, the response to an unresolved stage and the response to every final launcher result can
  be built and fit the protocol limit of 4,096 bytes, so no lifecycle is left without an answer because of its size. Signatures have 64 bytes.
\<close>

theorem launch_responses_fit:
  assumes "authenticate svc frame uid = Inr request" "\<forall>m. length (bs_sign svc m) = 64" "stage \<in> set STAGES"
  shows "(\<exists>f. unresolved_response svc request stage = Inr f \<and> length f \<le> BROKER_RESPONSE_BYTES_MAX)
    \<and> (\<forall>v r. confirmed_launcher_result v stage = Some r \<and> lr_status r \<noteq> ''prepared'' \<longrightarrow>
         (\<exists>f. confirmed_response svc request r stage = Inr f \<and> length f \<le> BROKER_RESPONSE_BYTES_MAX))"
proof -
  have "unresolved_response svc request stage = Inr f \<Longrightarrow> length f \<le> BROKER_RESPONSE_BYTES_MAX"
    "confirmed_response svc request r stage = Inr f \<Longrightarrow> length f \<le> BROKER_RESPONSE_BYTES_MAX" for r f
    unfolding unresolved_response_def confirmed_response_def create_signed_response_iff by blast+
  then show ?thesis using unresolved_created [OF assms] confirmed_created [OF assms] unfolding is_ok_iff by blast
qed

lemma incomplete_stage: "journal_ok db \<Longrightarrow> incomplete_of db a = Some l \<Longrightarrow> il_stage l \<in> set STAGES"
  using incomplete_ofD [of db a l] progress_stage op_of_wf by (metis prod.exhaust)

text \<open>C6: In whatever state a broker was interrupted, recovery at startup succeeds when no commit is lost, and no lifecycle is incomplete
  afterwards: every operation that was claimed has a recorded end.
\<close>

theorem recovery_succeeds:
  assumes "reach broker_start (broker_step svc) st" "\<forall>m. length (bs_sign svc m) = 64" "\<forall>n call. commits n call \<noteq> Uncertain False"
  shows "\<exists>w. recover_startup (service_of svc st) commits (bx_world st) = (Inr (), w) \<and> incomplete_lifecycles (bw_journal w) = Inr []"
proof -
  let ?v = "service_of svc st" and ?w = "bx_world st"
  have inv: "broker_inv svc st" by (rule execution.reach_inv [OF assms(1)])
  have wok: "world_ok ?v ?w" and auth: "authentic svc (bw_journal ?w)" using inv by (simp_all add: broker_inv_def world_ok_def)
  note ok = world_journal_ok [OF wok]
  let ?rows = "filter (\<lambda>e. je_type e = AcceptedEvent) (bw_journal ?w)" and ?f = "\<lambda>a. if je_type a = AcceptedEvent then incomplete_of (bw_journal ?w) a else None"
  have ls: "incomplete_lifecycles (bw_journal ?w) = Inr (List.map_filter ?f ?rows)"
    using incomplete_spec [OF ok] by (simp add: List.map_filter_def conj_commute cong: conj_cong)
  have "ready ?v ?w l (je_identity a)" if "a \<in> set ?rows" "?f a = Some l" for a l
  proof (rule incomplete_ready [OF ok])
    show "is_ok (unresolved_response ?v request (il_stage l))" if "authenticate ?v (il_request_frame l) (bs_application_uid ?v) = Inr request" for request
      using unresolved_created [OF that] incomplete_stage [OF ok] \<open>a \<in> set ?rows\<close> \<open>?f a = Some l\<close> assms(2) by simp
  qed (use that auth in auto)
  then obtain js where "list_all2 (ready ?v ?w) (List.map_filter ?f ?rows) js" "distinct js"
    using map_filter_aligned [of ?rows ?f "ready ?v ?w" je_identity] acceptances_distinct [OF ok auth] by blast
  then have "fst (recover_all ?v commits 0 (List.map_filter ?f ?rows) ?w) = Inr ()" using recover_all_succeeds [OF wok] assms(3) by blast
  then have "fst (recover_startup ?v commits ?w) = Inr ()" using ls by (simp add: recover_startup_def act_bind_def on_journal_def)
  then show ?thesis using recovery_ends [OF assms(1)] by (metis prod.collapse)
qed

text \<open>
  Recovery relies on the configured incarnation staying the same: under another one, the first incomplete lifecycle is refused as
  stale, and the broker does not start.
\<close>

lemma recovery_needs_incarnation:
  assumes "reach broker_start (broker_step svc) st" "incomplete_lifecycles (bw_journal (bx_world st)) = Inr (l # ls)"
    and "bs_broker_incarnation svc' \<noteq> bs_broker_incarnation svc" "bs_hexdigest svc' = bs_hexdigest svc" "bs_verify svc' = bs_verify svc"
  shows "recover_startup svc' commits (bx_world st) = (Inl (ServiceProtocol (BrokerProtocolError ''broker incarnation is stale'')), bx_world st)"
proof -
  let ?db = "bw_journal (bx_world st)"
  have inv: "broker_inv svc st" by (rule execution.reach_inv [OF assms(1)])
  then have ok: "journal_ok ?db" and auth: "authentic svc ?db" using world_journal_ok by (auto simp: broker_inv_def)
  have "l \<in> set (List.map_filter (\<lambda>a. if je_type a = AcceptedEvent then incomplete_of ?db a else None) ?db)"
    using incomplete_spec [OF ok] assms(2) by (metis list.set_intros(1) sum.inject(2))
  then obtain e where e: "e \<in> set ?db" "je_type e = AcceptedEvent" "incomplete_of ?db e = Some l" by (auto simp: set_map_filter split: if_splits)
  obtain frame request where r: "authenticate svc frame (bs_application_uid svc) = Inr request" "e = accepted_event request frame"
    using auth e(1,2) by (auto simp: authentic_def)
  have "il_request_frame l = frame" using incomplete_ofD [OF e(3)] r(2) by (auto simp: accepted_event_def)
  moreover have "bi_broker_incarnation request = bs_broker_incarnation svc" using r(1) by (auto simp: authenticate_def rbind_Inr_iff split: if_splits)
  ultimately have "authenticate svc' (il_request_frame l) (bs_application_uid svc') = Inl (BrokerProtocolError ''broker incarnation is stale'')"
    using authenticateD(1) [OF r(1)] assms(3-5) by (simp add: authenticate_def)
  then show ?thesis using assms(2) by (simp add: recover_startup_def recover_one_def act_bind_def act_signed_def on_journal_def)
qed

lemma control_authenticate_request:
  "authenticate svc frame uid = rbind (control_authenticate svc frame uid) (\<lambda>request.
     if bi_request_type request \<noteq> SUPPORTED_REQUEST_TYPE then Inl (BrokerProtocolError ''broker request type is not supported'')
     else if contains_forbidden_control (JObj (brq_payload request)) then Inl (BrokerProtocolError ''request contains forbidden launch control'')
     else Inr request)"
  by (cases "parse_signed_request (bs_hexdigest svc) (bs_verify svc) frame") (simp_all add: authenticate_def control_authenticate_def)

lemma launch_route_exact:
  "authenticate svc frame uid = Inr request \<longleftrightarrow>
     control_authenticate svc frame uid = Inr request \<and> control_route_of svc enabled frame uid = Inr RouteLaunch
     \<and> \<not> contains_forbidden_control (JObj (brq_payload request))"
proof (cases "control_authenticate svc frame uid")
  case (Inr r)
  then show ?thesis
    by (cases "disabled_replica_response svc r") (auto simp: control_authenticate_request control_route_of_def)
qed (simp add: control_authenticate_request)

subsection \<open>A run of the broker\<close>

definition demo_service :: broker_service where
  "demo_service = \<lparr> bs_broker_incarnation = bi_broker_incarnation demo_identity, bs_database_incarnation = bi_database_incarnation demo_identity,
     bs_application_uid = 1000, bs_hexdigest = (\<lambda>_. replicate 64 (CHR ''0'')), bs_verify = (\<lambda>s m. s = demo_signature),
     bs_sign = (\<lambda>_. demo_signature), bs_owner_token = demo_owner \<rparr>"

definition demo_launch :: broker_request where
  "demo_launch = broker_identity.extend demo_identity \<lparr> brq_payload = sorted_items demo_payload \<rparr>"

abbreviation demo_committed :: commits where "demo_committed \<equiv> \<lambda>_. Committed"

lemma demo_launch_fields: "journal_identity demo_launch = (bi_database_incarnation demo_identity, bi_operation_id demo_identity, ascii ''executor.launch'')"
  "bi_operation_id demo_launch = bi_operation_id demo_identity"
  by (simp_all add: journal_identity_def demo_launch_def demo_identity_def broker_identity.defs)

lemma demo_authenticated: "\<exists>frame. authenticate demo_service frame 1000 = Inr demo_launch"
proof -
  obtain frame where "parse_signed_request (\<lambda>_. replicate 64 (CHR ''0'')) (\<lambda>s m. s = demo_signature) frame = Inr demo_launch"
    using demo_parsed unfolding demo_launch_def by blast
  moreover have "\<not> contains_forbidden_control (JObj (brq_payload demo_launch))" by code_simp
  moreover have "bi_broker_incarnation demo_launch = bi_broker_incarnation demo_identity" "bi_database_incarnation demo_launch = bi_database_incarnation demo_identity"
    "bi_request_type demo_launch = SUPPORTED_REQUEST_TYPE"
    by (simp_all add: demo_launch_def broker_identity.defs demo_identity_def SUPPORTED_REQUEST_TYPE_def)
  ultimately have "authenticate demo_service frame 1000 = Inr demo_launch" by (simp add: authenticate_def demo_service_def)
  then show ?thesis ..
qed

lemma demo_unresolved: "is_ok (unresolved_response demo_service demo_launch ''prepare'')"
  by code_simp

lemma demo_ownership:
  assumes "authenticate demo_service frame 1000 = Inr demo_launch"
  shows "\<exists>db. handle_begin demo_service demo_committed frame 1000 \<lparr> bw_journal = [], bw_effects = [], bw_abandoned = 0 \<rparr>
    = (Inr (HandledOwner demo_launch), \<lparr> bw_journal = db, bw_effects = [], bw_abandoned = 0 \<rparr>)"
proof -
  let ?i = "journal_identity demo_launch" and ?b = "bi_broker_incarnation demo_identity"
  note p = authenticateD(1) [OF assms]
  let ?d1 = "[accepted_event demo_launch frame]"
  define d2 where "d2 = snd (claim_lifecycle Committed demo_launch demo_owner ?b ?d1)"
  have a: "journal_accept Committed demo_launch frame [] = (Inr (decision ''accepted''), ?d1)"
    using accept_cases [OF journal_ok_Nil p, of OpAbsent Committed] by (simp add: op_of_def events_of_def accepted_at_def)
  have ok1: "journal_ok ?d1" using journal_ops_ok(5) [OF journal_ok_Nil p, of Committed] a by simp
  have o1: "op_of ?i ?d1 = Some OpAccepted" by (simp add: op_of_def events_of_def op_run_def op_step_def)
  have c: "refines ?i ?d1 (claim_lifecycle Committed demo_launch demo_owner ?b ?d1) (Inr ((decision ''claimed'')\<lparr> jd_owner_broker_incarnation := Some ?b \<rparr>), OpClaimed demo_owner ?b)"
    using claim_refines [OF ok1 o1, of Committed demo_owner ?b] demo_owner_ok demo_facts(1)
    by (simp add: spec_claim_def spec_append_def op_step_def claimed_event_def empty_event_def check_columns_def)
  have ok2: "journal_ok d2" unfolding d2_def by (rule journal_ops_ok(1) [OF ok1])
  have o2: "op_of ?i d2 = Some (OpClaimed demo_owner ?b)" using c by (simp add: refines_def d2_def)
  have g: "fst (begin_stage Committed demo_launch demo_owner ''prepare'' d2) = Inr ()"
    using begin_refines [OF ok2 o2, of Committed demo_owner "''prepare''"]
    by (simp add: refines_def spec_begin_def spec_append_def op_step_def started_event_def empty_event_def check_columns_def STAGES_def)
  have c': "claim_lifecycle Committed demo_launch demo_owner ?b ?d1 = (Inr ((decision ''claimed'')\<lparr> jd_owner_broker_incarnation := Some ?b \<rparr>), d2)"
    using c by (simp add: refines_def d2_def prod_eq_iff)
  have v: "bs_owner_token demo_service = demo_owner" "bs_broker_incarnation demo_service = ?b" by (simp_all add: demo_service_def)
  show ?thesis
    unfolding handle_authenticated [OF assms] take_ownership_def act_bind_def on_journal_def v
    using a c' g by (cases "begin_stage Committed demo_launch demo_owner ''prepare'' d2") (simp add: decision_def act_return_def)
qed

abbreviation demo_broker_reach :: "broker_state \<Rightarrow> bool" where "demo_broker_reach \<equiv> reach broker_start (broker_step demo_service)"

lemma demo_service_of: "bx_owner st = demo_owner \<Longrightarrow> service_of demo_service st = demo_service"
  by (simp add: service_of_def demo_service_def)

lemma demo_finalize:
  assumes "bx_serving st" "bx_owner st = demo_owner" "bx_finalizers st = [(demo_launch, ph)]"
    "finalizer_segment demo_service demo_committed demo_launch ph event = Some m" "m (bx_world st) = (r, w)"
  shows "broker_step demo_service st (after_finalize 0 demo_launch r (st\<lparr> bx_world := w \<rparr>))"
  by (rule bx_finalize [of st 0 demo_launch ph demo_service demo_committed event m r w]) (use assms in \<open>simp_all add: demo_service_of\<close>)

lemma demo_launching:
  "\<exists>st. demo_broker_reach st \<and> bx_serving st \<and> bx_owner st = demo_owner \<and> bx_finalizers st = [(demo_launch, AwaitPrepare)]
     \<and> bw_effects (bx_world st) = [(bi_operation_id demo_identity, ''prepare'')]"
proof -
  let ?w = "\<lambda>db es. \<lparr> bw_journal = db, bw_effects = es, bw_abandoned = 0 \<rparr>"
  let ?st = "\<lambda>w fs s. \<lparr> bx_world = w, bx_owner = demo_owner, bx_finalizers = fs, bx_responses = [], bx_serving = s \<rparr>"
  have r0: "demo_broker_reach (?st (?w [] []) [] False)" by (rule reach_init) (simp add: broker_start_def)
  have "incomplete_lifecycles [] = Inr []" using incomplete_spec [OF journal_ok_Nil] by (simp add: List.map_filter_def)
  then have "recover_startup demo_service (\<lambda>_. demo_committed) (?w [] []) = (Inr (), ?w [] [])"
    by (simp add: recover_startup_def act_bind_def on_journal_def act_return_def)
  then have "broker_step demo_service (?st (?w [] []) [] False) (?st (?w [] []) [] True)"
    using bx_recover [of "?st (?w [] []) [] False" demo_service "\<lambda>_. demo_committed"] by (simp add: demo_service_of)
  note r1 = reach_step [OF r0 this]
  obtain frame where f: "authenticate demo_service frame 1000 = Inr demo_launch" using demo_authenticated ..
  obtain db where "handle_begin demo_service demo_committed frame 1000 (?w [] []) = (Inr (HandledOwner demo_launch), ?w db [])" using demo_ownership [OF f] ..
  then have "broker_step demo_service (?st (?w [] []) [] True) (?st (?w db []) [(demo_launch, FinalizerCreated)] True)"
    using bx_handle [of "?st (?w [] []) [] True" demo_service demo_committed frame 1000] by (simp add: demo_service_of after_handle_def)
  note r2 = reach_step [OF r1 this]
  have "finalize_start demo_service demo_committed demo_launch (?w db []) = (Inr (Suspended AwaitPrepare), ?w db [(bi_operation_id demo_identity, ''prepare'')])"
    by (simp add: finalize_start_def or_continue_def root_effect_begin_def perform_def act_bind_def act_return_def MAX_ABANDONED_EFFECTS_def demo_launch_fields)
  note d = this
  define x where "x = ?st (?w db []) [(demo_launch, FinalizerCreated)] True"
  define y where "y = after_finalize 0 demo_launch (Inr (Suspended AwaitPrepare)) (x\<lparr> bx_world := ?w db [(bi_operation_id demo_identity, ''prepare'')] \<rparr>)"
  have "broker_step demo_service x y" unfolding y_def
    by (rule demo_finalize [where m = "finalize_start demo_service demo_committed demo_launch" and ph = FinalizerCreated and event = RunFirst]) (use d in \<open>simp_all add: x_def\<close>)
  then have "demo_broker_reach y" using reach_step [OF r2 [folded x_def]] by blast
  then show ?thesis by (intro exI [of _ y]) (simp add: y_def x_def after_finalize_def)
qed

theorem effects_at_most_once_witness:
  "\<exists>st. demo_broker_reach st \<and> bw_effects (bx_world st) = [(bi_operation_id demo_identity, ''prepare'')]
    \<and> (\<exists>e \<in> set (bw_journal (bx_world st)). je_type e = StageStarted \<and> je_stage e = Some ''prepare'')"
proof -
  obtain st where st: "demo_broker_reach st" "bw_effects (bx_world st) = [(bi_operation_id demo_identity, ''prepare'')]" using demo_launching by blast
  then show ?thesis using effects_at_most_once [OF st(1)] by (intro exI [of _ st]) auto
qed

lemma demo_answered:
  "\<exists>st f. demo_broker_reach st \<and> (journal_identity demo_launch, f) \<in> set (bx_responses st)"
proof -
  obtain st where r: "demo_broker_reach st" and st: "bx_serving st" "bx_owner st = demo_owner" "bx_finalizers st = [(demo_launch, AwaitPrepare)]"
    using demo_launching by blast
  let ?db = "bw_journal (bx_world st)"
  obtain f where f: "unresolved_response demo_service demo_launch ''prepare'' = Inr f" using demo_unresolved by (auto simp: is_ok_iff)
  have inv: "broker_inv demo_service st" by (rule execution.reach_inv [OF r])
  then have fin: "finalizer_ok demo_service demo_owner (bx_world st) demo_launch AwaitPrepare" using st by (simp add: broker_inv_def)
  then obtain b where o: "op_of (journal_identity demo_launch) ?db = Some (OpStarted demo_owner b ''prepare'')" by (auto simp: finalizer_ok_def)
  have ok: "journal_ok ?db" using inv world_journal_ok by (auto simp: broker_inv_def)
  have rf: "response_frame_ok f" using unresolved_response_ok [OF f] fin by (simp add: finalizer_ok_def)
  have "fst (record_stage_unresolved Committed demo_launch demo_owner ''prepare'' ''timeout_unknown'' f ?db) = Inr ()"
    using unresolved_refines [OF ok o rf, of Committed demo_owner "''prepare''" "''timeout_unknown''"]
    by (simp add: refines_def spec_unresolved_def spec_append_def op_step_def unresolved_event_def empty_event_def check_columns_def STAGES_def UNRESOLVED_REASONS_def)
  then obtain db' where d: "record_stage_unresolved Committed demo_launch demo_owner ''prepare'' ''timeout_unknown'' f ?db = (Inr (), db')" by (metis prod.collapse)
  have "bs_owner_token demo_service = demo_owner" by (simp add: demo_service_def)
  then have "\<exists>w. finalize_prepared demo_service demo_committed demo_launch WaitTimedOut True (bx_world st) = (Inr (Responded f), w)"
    using f d by (simp add: finalize_prepared_def root_effect_end_def abandon_def record_unresolved_def act_bind_def act_return_def act_signed_def on_journal_def)
  then obtain w where w: "finalize_prepared demo_service demo_committed demo_launch WaitTimedOut True (bx_world st) = (Inr (Responded f), w)" ..
  have "broker_step demo_service st (after_finalize 0 demo_launch (Inr (Responded f)) (st\<lparr> bx_world := w \<rparr>))"
    by (rule demo_finalize [where m = "finalize_prepared demo_service demo_committed demo_launch WaitTimedOut True" and ph = AwaitPrepare
        and event = "PrepareDone WaitTimedOut True"]) (use st w in simp_all)
  from reach_step [OF r this] show ?thesis by (intro exI conjI) (auto simp: after_finalize_def)
qed

theorem responses_durable_witness:
  "\<exists>st f d. demo_broker_reach st \<and> journal_terminal (journal_identity demo_launch) (bw_journal (bx_world st)) = Inr (Some d) \<and> jd_response_frame d = Some f"
proof -
  obtain st f where st: "demo_broker_reach st" "(journal_identity demo_launch, f) \<in> set (bx_responses st)" using demo_answered by blast
  then show ?thesis using responses_durable [OF st] by blast
qed

lemma started_incomplete:
  assumes "journal_ok db" "op_of i db = Some (OpStarted t b st)"
  shows "incomplete_lifecycles db \<noteq> Inr []"
proof -
  have "accepted_at i db \<noteq> None" using absent_unaccepted [OF assms(2)] by auto
  then obtain a where a: "a \<in> set db" "je_type a = AcceptedEvent" "je_identity a = i" unfolding accepted_at_def by (auto dest: find_SomeD)
  have "event_ok a" using assms(1) a(1) unfolding journal_ok_def by blast
  then obtain l where "incomplete_of db a = Some l" using incomplete_ofI [of a db] a(2,3) assms(2) by fastforce
  then have "l \<in> set (List.map_filter (\<lambda>a. if je_type a = AcceptedEvent then incomplete_of db a else None) db)" using a by (auto simp: set_map_filter)
  then show ?thesis using incomplete_spec [OF assms(1)] by auto
qed

lemma demo_sign: "\<forall>m. length (bs_sign demo_service m) = 64"
  by (simp add: demo_service_def demo_facts(11))

theorem recovery_succeeds_witness:
  "\<exists>st w. demo_broker_reach st \<and> \<not> bx_serving st \<and> incomplete_lifecycles (bw_journal (bx_world st)) \<noteq> Inr []
     \<and> recover_startup demo_service (\<lambda>_ _. Committed) (bx_world st) = (Inr (), w) \<and> incomplete_lifecycles (bw_journal w) = Inr []"
proof -
  obtain st where r: "demo_broker_reach st" and st: "bx_serving st" "bx_owner st = demo_owner" "bx_finalizers st = [(demo_launch, AwaitPrepare)]"
    using demo_launching by blast
  have inv: "broker_inv demo_service st" by (rule execution.reach_inv [OF r])
  then have "finalizer_ok demo_service demo_owner (bx_world st) demo_launch AwaitPrepare" using st by (simp add: broker_inv_def)
  then obtain b where o: "op_of (journal_identity demo_launch) (bw_journal (bx_world st)) = Some (OpStarted demo_owner b ''prepare'')" by (auto simp: finalizer_ok_def)
  have "journal_ok (bw_journal (bx_world st))" using inv world_journal_ok by (auto simp: broker_inv_def)
  note i = started_incomplete [OF this o]
  define st' where "st' = st\<lparr> bx_world := (bx_world st)\<lparr> bw_abandoned := 0 \<rparr>, bx_owner := demo_owner, bx_finalizers := [], bx_serving := False \<rparr>"
  have r': "demo_broker_reach st'" unfolding st'_def by (rule reach_step [OF r bx_restart [OF demo_owner_ok]])
  have "service_of demo_service st' = demo_service" by (rule demo_service_of) (simp add: st'_def)
  then show ?thesis
    using recovery_succeeds [OF r' demo_sign, of "\<lambda>_ _. Committed"] r' i by (intro exI [of _ st']) (auto simp: st'_def)
qed

theorem launch_responses_fit_witness:
  "\<exists>frame f. authenticate demo_service frame 1000 = Inr demo_launch \<and> unresolved_response demo_service demo_launch ''prepare'' = Inr f \<and> length f \<le> 4096"
proof -
  obtain frame where "authenticate demo_service frame 1000 = Inr demo_launch" using demo_authenticated ..
  then show ?thesis using launch_responses_fit [OF _ demo_sign, of frame 1000 demo_launch "''prepare''"] by (auto simp: STAGES_def BROKER_RESPONSE_BYTES_MAX_def)
qed


end
