(* ===== verification/Live_Auth_Sessions.thy ===== *)
theory Live_Auth_Sessions
  imports Yinshi_Prelude
begin

section \<open>Live authenticated connections\<close>

text \<open>
  The registry of long-lived connections that must end when their session is revoked, \<^verbatim>\<open>services/live_auth_sessions.py\<close>: two
  indexes over the same registrations, one by session and one by user. Every region under the registry's lock is one function; a
  revocation takes its registrations under the lock and signals them afterwards, one by one, while other threads go on.
\<close>

subsection \<open>The registry\<close>

text \<open>A registration object: its identity, the two identifiers, and the event loop that its connection runs on.\<close>

record registration =
  lr_id :: nat
  lr_user_id :: string
  lr_auth_session_id :: string
  lr_loop :: nat

text \<open>The two indexes, and the registrations whose event was set.\<close>

record auth_registry =
  registrations_by_session :: "(string, (nat, registration) pydict) pydict"
  registrations_by_user :: "(string, (nat, registration) pydict) pydict"
  ar_events :: "nat set"

definition normalize_identifier :: "string \<Rightarrow> string \<Rightarrow> py_error + string" where
  "normalize_identifier v name =
     (let n = str_strip v in if n = [] then Inl (ValueErr (name @ '' must not be empty'')) else Inr n)"

text \<open>\<^verbatim>\<open>index.setdefault(key, {})[id(registration)] = registration\<close>, and the removal that drops an empty entry.\<close>

definition index_add :: "(string, (nat, registration) pydict) pydict \<Rightarrow> string \<Rightarrow> registration \<Rightarrow> (string, (nat, registration) pydict) pydict" where
  "index_add idx key r = dset idx key (dset (case dget idx key of None \<Rightarrow> [] | Some d \<Rightarrow> d) (lr_id r) r)"

definition index_remove :: "(string, (nat, registration) pydict) pydict \<Rightarrow> string \<Rightarrow> registration \<Rightarrow> (string, (nat, registration) pydict) pydict" where
  "index_remove idx key r =
     (case dget idx key of
        None \<Rightarrow> idx
      | Some d \<Rightarrow> let d' = dpop d (lr_id r) in if d' = [] then dpop idx key else dset idx key d')"

definition index_values :: "(string, (nat, registration) pydict) pydict \<Rightarrow> string \<Rightarrow> registration list" where
  "index_values idx key = (case dget idx key of None \<Rightarrow> [] | Some d \<Rightarrow> dvalues d)"

definition register_live_auth_session :: "nat \<Rightarrow> nat \<Rightarrow> string \<Rightarrow> string \<Rightarrow> auth_registry \<Rightarrow> (py_error + registration) \<times> auth_registry" where
  "register_live_auth_session i loop user_id auth_session_id reg =
     (case rbind (normalize_identifier user_id ''user_id'') (\<lambda>u. rbind (normalize_identifier auth_session_id ''auth_session_id'') (\<lambda>s. Inr (u, s))) of
        Inl e \<Rightarrow> (Inl e, reg)
      | Inr (u, s) \<Rightarrow>
          let r = \<lparr> lr_id = i, lr_user_id = u, lr_auth_session_id = s, lr_loop = loop \<rparr> in
          (Inr r, reg\<lparr> registrations_by_session := index_add (registrations_by_session reg) s r,
                       registrations_by_user := index_add (registrations_by_user reg) u r \<rparr>))"

definition register_live_desktop_device :: "nat \<Rightarrow> nat \<Rightarrow> string \<Rightarrow> string \<Rightarrow> auth_registry \<Rightarrow> (py_error + registration) \<times> auth_registry" where
  "register_live_desktop_device i loop user_id device_id reg =
     (case normalize_identifier device_id ''device_id'' of
        Inl e \<Rightarrow> (Inl e, reg)
      | Inr d \<Rightarrow> register_live_auth_session i loop user_id (''desktop-device:'' @ d) reg)"

definition remove_registration :: "registration \<Rightarrow> auth_registry \<Rightarrow> auth_registry" where
  "remove_registration r reg =
     reg\<lparr> registrations_by_session := index_remove (registrations_by_session reg) (lr_auth_session_id r) r,
          registrations_by_user := index_remove (registrations_by_user reg) (lr_user_id r) r \<rparr>"

text \<open>One turn of the loop of \<^verbatim>\<open>_signal_registrations\<close>; a closed event loop raises \<^verbatim>\<open>RuntimeError\<close>.\<close>

definition signal_one :: "nat set \<Rightarrow> registration \<Rightarrow> auth_registry \<Rightarrow> auth_registry" where
  "signal_one closed_loops r reg = (if lr_loop r \<in> closed_loops then remove_registration r reg else reg\<lparr> ar_events := insert (lr_id r) (ar_events reg) \<rparr>)"

text \<open>What a revocation takes under the lock.\<close>

definition signal_auth_session_revoked :: "string \<Rightarrow> auth_registry \<Rightarrow> py_error + registration list" where
  "signal_auth_session_revoked auth_session_id reg =
     rbind (normalize_identifier auth_session_id ''auth_session_id'') (\<lambda>s. Inr (index_values (registrations_by_session reg) s))"

definition signal_desktop_device_revoked :: "string \<Rightarrow> auth_registry \<Rightarrow> py_error + registration list" where
  "signal_desktop_device_revoked device_id reg =
     rbind (normalize_identifier device_id ''device_id'') (\<lambda>d. signal_auth_session_revoked (''desktop-device:'' @ d) reg)"

definition signal_user_sessions_revoked :: "string \<Rightarrow> auth_registry \<Rightarrow> py_error + registration list" where
  "signal_user_sessions_revoked user_id reg =
     rbind (normalize_identifier user_id ''user_id'') (\<lambda>u. Inr (index_values (registrations_by_user reg) u))"

subsection \<open>Indexes\<close>

text \<open>\<open>indexes f L idx\<close>: the index holds exactly the registrations of \<open>L\<close>, grouped by \<open>f\<close>, and no empty group.\<close>

definition member_at :: "(string, (nat, registration) pydict) pydict \<Rightarrow> string \<Rightarrow> nat \<Rightarrow> registration option" where
  "member_at idx k i = (case dget idx k of None \<Rightarrow> None | Some d \<Rightarrow> dget d i)"

definition groups_ok :: "(string, (nat, registration) pydict) pydict \<Rightarrow> bool" where
  "groups_ok idx \<longleftrightarrow> (\<forall>k d. dget idx k = Some d \<longrightarrow> d \<noteq> [] \<and> dict_ok d)"

definition indexes :: "(registration \<Rightarrow> string) \<Rightarrow> registration set \<Rightarrow> (string, (nat, registration) pydict) pydict \<Rightarrow> bool" where
  "indexes f L idx \<longleftrightarrow> groups_ok idx \<and> (\<forall>k i r. member_at idx k i = Some r \<longleftrightarrow> r \<in> L \<and> f r = k \<and> lr_id r = i)"

lemma indexes_empty: "indexes f {} []"
  by (simp add: indexes_def groups_ok_def member_at_def)

lemma member_add: "member_at (index_add idx key r) k i = (if k = key \<and> i = lr_id r then Some r else member_at idx k i)"
  by (auto simp: member_at_def index_add_def split: option.splits)

lemma member_remove: "member_at (index_remove idx key r) k i = (if k = key \<and> i = lr_id r then None else member_at idx k i)"
proof (cases "dget idx key")
  case (Some d)
  have "dpop d (lr_id r) = [] \<Longrightarrow> j \<noteq> lr_id r \<Longrightarrow> dget d j = None" for j using dget_dpop [of "lr_id r" d j] by simp
  then show ?thesis using Some by (auto simp: member_at_def index_remove_def Let_def)
qed (auto simp: member_at_def index_remove_def)

lemma groups_add: "groups_ok idx \<Longrightarrow> groups_ok (index_add idx key r)"
proof -
  have n: "dset e (lr_id r) r \<noteq> []" for e by (cases e) auto
  assume g: "groups_ok idx"
  then have "dict_ok (case dget idx key of None \<Rightarrow> [] | Some d \<Rightarrow> d)" by (simp add: groups_ok_def split: option.splits)
  then show ?thesis using g n by (simp add: groups_ok_def index_add_def)
qed

lemma groups_remove: "groups_ok idx \<Longrightarrow> groups_ok (index_remove idx key r)"
  by (cases "dget idx key") (auto simp: groups_ok_def index_remove_def Let_def)

lemma indexes_values:
  assumes "indexes f L idx"
  shows "set (index_values idx k) = {r \<in> L. f r = k}"
proof -
  have m: "r \<in> L \<and> f r = k \<longleftrightarrow> (\<exists>i. member_at idx k i = Some r)" for r using assms by (auto simp: indexes_def)
  have "set (index_values idx k) = {r. \<exists>i. member_at idx k i = Some r}"
  proof (cases "dget idx k")
    case (Some d)
    then have "dict_ok d" using assms by (simp add: indexes_def groups_ok_def)
    then have "set (dvalues d) = {r. \<exists>i. dget d i = Some r}" by (force dest: map_of_SomeD intro: map_of_is_SomeI)
    then show ?thesis using Some by (simp add: index_values_def member_at_def)
  qed (simp add: index_values_def member_at_def)
  then show ?thesis using m by blast
qed

lemma indexes_add:
  assumes "indexes f L idx" "\<forall>x \<in> L. lr_id x \<noteq> lr_id r"
  shows "indexes f (insert r L) (index_add idx (f r) r)"
  using assms groups_add unfolding indexes_def member_add by auto

lemma indexes_remove:
  assumes "indexes f L idx" "r \<in> L \<or> (\<forall>x \<in> L. lr_id x \<noteq> lr_id r)" "inj_on lr_id L"
  shows "indexes f (L - {r}) (index_remove idx (f r) r)"
  using assms groups_remove unfolding indexes_def member_remove by (auto dest: inj_onD)

subsection \<open>Runs\<close>

text \<open>
  The registry under threads that register, close, revoke and signal in any order. Beside the registry a state records every
  registration object, those that were registered and not yet removed, the ones that running revocations still have to signal, the
  ones that were registered when their session, device or user was revoked, and the event loops that are closed. An object that can
  still be used keeps its identity, so a new one has a fresh one.
\<close>

record auth_system =
  ax_registry :: auth_registry
  ax_objects :: "registration set"
  ax_open :: "registration set"
  ax_pending :: "registration list"
  ax_due :: "registration set"
  ax_closed_loops :: "nat set"

definition after_registration :: "(py_error + registration) \<times> auth_registry \<Rightarrow> auth_system \<Rightarrow> auth_system" where
  "after_registration res st =
     (case res of
        (Inl _, reg) \<Rightarrow> st\<lparr> ax_registry := reg \<rparr>
      | (Inr r, reg) \<Rightarrow> st\<lparr> ax_registry := reg, ax_objects := insert r (ax_objects st), ax_open := insert r (ax_open st) \<rparr>)"

definition after_revocation :: "py_error + registration list \<Rightarrow> (registration \<Rightarrow> bool) \<Rightarrow> auth_system \<Rightarrow> auth_system" where
  "after_revocation res concerned st =
     (case res of
        Inl _ \<Rightarrow> st
      | Inr rs \<Rightarrow> st\<lparr> ax_pending := ax_pending st @ rs, ax_due := ax_due st \<union> {r \<in> ax_open st. concerned r} \<rparr>)"

inductive auth_step :: "auth_system \<Rightarrow> auth_system \<Rightarrow> bool" where
  ax_register: "\<forall>r \<in> ax_objects st. lr_id r \<noteq> i
     \<Longrightarrow> auth_step st (after_registration (register_live_auth_session i loop u s (ax_registry st)) st)"
| ax_register_device: "\<forall>r \<in> ax_objects st. lr_id r \<noteq> i
     \<Longrightarrow> auth_step st (after_registration (register_live_desktop_device i loop u d (ax_registry st)) st)"
| ax_close: "r \<in> ax_objects st
     \<Longrightarrow> auth_step st (st\<lparr> ax_registry := remove_registration r (ax_registry st), ax_open := ax_open st - {r} \<rparr>)"
| ax_revoke_session: "auth_step st (after_revocation (signal_auth_session_revoked s (ax_registry st)) (\<lambda>r. lr_auth_session_id r = str_strip s) st)"
| ax_revoke_device: "auth_step st
     (after_revocation (signal_desktop_device_revoked d (ax_registry st)) (\<lambda>r. lr_auth_session_id r = str_strip (''desktop-device:'' @ str_strip d)) st)"
| ax_revoke_user: "auth_step st (after_revocation (signal_user_sessions_revoked u (ax_registry st)) (\<lambda>r. lr_user_id r = str_strip u) st)"
| ax_signal: "ax_pending st = before @ r # rest
     \<Longrightarrow> auth_step st (st\<lparr> ax_registry := signal_one (ax_closed_loops st) r (ax_registry st), ax_pending := before @ rest,
           ax_open := (if lr_loop r \<in> ax_closed_loops st then ax_open st - {r} else ax_open st) \<rparr>)"
| ax_loop_closes: "auth_step st (st\<lparr> ax_closed_loops := insert l (ax_closed_loops st) \<rparr>)"

definition auth_start :: "auth_system \<Rightarrow> bool" where
  "auth_start st \<longleftrightarrow> ax_registry st = \<lparr> registrations_by_session = [], registrations_by_user = [], ar_events = {} \<rparr>
     \<and> ax_objects st = {} \<and> ax_open st = {} \<and> ax_pending st = [] \<and> ax_due st = {}"

definition registry_holds :: "registration set \<Rightarrow> auth_registry \<Rightarrow> bool" where
  "registry_holds L reg \<longleftrightarrow> indexes lr_auth_session_id L (registrations_by_session reg) \<and> indexes lr_user_id L (registrations_by_user reg)"

definition auth_inv :: "auth_system \<Rightarrow> bool" where
  "auth_inv st \<longleftrightarrow> registry_holds (ax_open st) (ax_registry st) \<and> ax_open st \<subseteq> ax_objects st \<and> inj_on lr_id (ax_objects st)
     \<and> set (ax_pending st) \<subseteq> ax_due st \<and> ax_due st \<subseteq> ax_objects st
     \<and> (\<forall>r \<in> ax_due st. r \<in> set (ax_pending st) \<or> lr_id r \<in> ar_events (ax_registry st) \<or> lr_loop r \<in> ax_closed_loops st)
     \<and> ar_events (ax_registry st) \<subseteq> lr_id ` ax_due st"

lemma registered:
  assumes "register_live_auth_session i loop u s reg = (res, reg')"
  shows "(\<exists>e. res = Inl e) \<and> reg' = reg \<or>
    (\<exists>r. res = Inr r \<and> lr_id r = i \<and> ar_events reg' = ar_events reg \<and> lr_auth_session_id r = str_strip s \<and> lr_user_id r = str_strip u
      \<and> registrations_by_session reg' = index_add (registrations_by_session reg) (lr_auth_session_id r) r
      \<and> registrations_by_user reg' = index_add (registrations_by_user reg) (lr_user_id r) r)"
  using assms by (auto simp: register_live_auth_session_def normalize_identifier_def Let_def split: if_splits)

lemma registration_inv:
  assumes "auth_inv st" "\<forall>r \<in> ax_objects st. lr_id r \<noteq> i"
  shows "auth_inv (after_registration (register_live_auth_session i loop u s (ax_registry st)) st)"
proof -
  obtain res reg where r: "register_live_auth_session i loop u s (ax_registry st) = (res, reg)" by fastforce
  show ?thesis using registered [OF r]
  proof (elim disjE exE conjE)
    fix e assume "res = Inl e" "reg = ax_registry st"
    then show ?thesis using assms(1) r by (simp add: after_registration_def auth_inv_def)
  next
    fix x assume x: "res = Inr x" "lr_id x = i" "ar_events reg = ar_events (ax_registry st)"
      "registrations_by_session reg = index_add (registrations_by_session (ax_registry st)) (lr_auth_session_id x) x"
      "registrations_by_user reg = index_add (registrations_by_user (ax_registry st)) (lr_user_id x) x"
    have "\<forall>y \<in> ax_open st. lr_id y \<noteq> lr_id x" using assms x(2) by (auto simp: auth_inv_def)
    then have "registry_holds (insert x (ax_open st)) reg"
      using assms(1) x(4,5) indexes_add by (simp add: registry_holds_def auth_inv_def)
    then show ?thesis using assms r x by (auto simp: after_registration_def auth_inv_def)
  qed
qed

lemma removal_inv:
  assumes "auth_inv st" "r \<in> ax_objects st"
  shows "auth_inv (st\<lparr> ax_registry := remove_registration r (ax_registry st), ax_open := ax_open st - {r} \<rparr>)"
proof -
  have i: "inj_on lr_id (ax_objects st)" "ax_open st \<subseteq> ax_objects st" using assms(1) by (simp_all add: auth_inv_def)
  then have "r \<in> ax_open st \<or> (\<forall>x \<in> ax_open st. lr_id x \<noteq> lr_id r)" using assms(2) by (auto dest: inj_onD)
  then have "registry_holds (ax_open st - {r}) (remove_registration r (ax_registry st))"
    using assms(1) indexes_remove [OF _ _ inj_on_subset [OF i]] by (simp add: registry_holds_def auth_inv_def remove_registration_def)
  moreover have "ar_events (remove_registration r (ax_registry st)) = ar_events (ax_registry st)" by (simp add: remove_registration_def)
  ultimately show ?thesis using assms(1) by (auto simp: auth_inv_def)
qed

lemma revocation_inv:
  assumes "auth_inv st" "\<And>rs. res = Inr rs \<Longrightarrow> set rs = {r \<in> ax_open st. P r}"
  shows "auth_inv (after_revocation res P st)"
  using assms by (cases res) (auto simp: after_revocation_def auth_inv_def)

lemma revoked_registrations:
  assumes "registry_holds L reg"
  shows "signal_auth_session_revoked s reg = Inr rs \<Longrightarrow> set rs = {r \<in> L. lr_auth_session_id r = str_strip s}"
    "signal_user_sessions_revoked u reg = Inr rs \<Longrightarrow> set rs = {r \<in> L. lr_user_id r = str_strip u}"
    "signal_desktop_device_revoked d reg = Inr rs \<Longrightarrow> set rs = {r \<in> L. lr_auth_session_id r = str_strip (''desktop-device:'' @ str_strip d)}"
  using assms indexes_values
  by (auto simp: signal_auth_session_revoked_def signal_user_sessions_revoked_def signal_desktop_device_revoked_def normalize_identifier_def
      registry_holds_def Let_def rbind_Inr_iff split: if_splits)

lemma signal_inv:
  assumes "auth_inv st" "ax_pending st = before @ r # rest"
  shows "auth_inv (st\<lparr> ax_registry := signal_one (ax_closed_loops st) r (ax_registry st), ax_pending := before @ rest,
           ax_open := (if lr_loop r \<in> ax_closed_loops st then ax_open st - {r} else ax_open st) \<rparr>)"
proof (cases "lr_loop r \<in> ax_closed_loops st")
  case True
  have "r \<in> ax_objects st" using assms by (auto simp: auth_inv_def)
  from removal_inv [OF assms(1) this] show ?thesis using assms(2) True by (auto simp: auth_inv_def signal_one_def)
next
  case False
  then show ?thesis using assms by (auto simp: auth_inv_def signal_one_def registry_holds_def)
qed

lemma auth_step_inv: "auth_inv st \<Longrightarrow> auth_step st st' \<Longrightarrow> auth_inv st'"
proof -
  assume inv: "auth_inv st" and step: "auth_step st st'"
  note revoked = revoked_registrations [of "ax_open st" "ax_registry st"]
  have h: "registry_holds (ax_open st) (ax_registry st)" using inv by (simp add: auth_inv_def)
  from step show ?thesis
  proof cases
    case (ax_register i loop u s)
    then show ?thesis using registration_inv [OF inv] by blast
  next
    case (ax_register_device i loop u d)
    show ?thesis
    proof (cases "normalize_identifier d ''device_id''")
      case (Inl e)
      then show ?thesis using inv ax_register_device(1) by (simp add: register_live_desktop_device_def after_registration_def auth_inv_def)
    next
      case (Inr n)
      then show ?thesis using registration_inv [OF inv ax_register_device(2)] ax_register_device(1) by (simp add: register_live_desktop_device_def)
    qed
  next
    case (ax_close r)
    then show ?thesis using removal_inv [OF inv] by blast
  next
    case (ax_revoke_session s)
    show ?thesis unfolding ax_revoke_session(1) by (rule revocation_inv [OF inv revoked(1) [OF h]])
  next
    case (ax_revoke_device d)
    show ?thesis unfolding ax_revoke_device(1) by (rule revocation_inv [OF inv revoked(3) [OF h]])
  next
    case (ax_revoke_user u)
    show ?thesis unfolding ax_revoke_user(1) by (rule revocation_inv [OF inv revoked(2) [OF h]])
  next
    case (ax_signal before r rest)
    then show ?thesis using signal_inv [OF inv] by blast
  next
    case (ax_loop_closes l)
    then show ?thesis using inv by (auto simp: auth_inv_def)
  qed
qed

interpretation live_auth: safe_system auth_start auth_step auth_inv
proof
  show "auth_inv st" if "auth_start st" for st
    using that indexes_empty by (auto simp: auth_start_def auth_inv_def registry_holds_def)
qed (rule auth_step_inv)

subsection \<open>Properties\<close>

text \<open>C15: Under every interleaving of connections, revocations and signals, both indexes hold exactly the registrations that are open, and every
  connection that was registered when its session, device or user was revoked is still to be signalled by that revocation, has been
  signalled, or has lost its event loop; a connection that was not revoked is never signalled.\<close>

theorem revocation_reaches:
  assumes "reach auth_start auth_step st"
  shows "(\<forall>s. set (index_values (registrations_by_session (ax_registry st)) s) = {r \<in> ax_open st. lr_auth_session_id r = s})
    \<and> (\<forall>u. set (index_values (registrations_by_user (ax_registry st)) u) = {r \<in> ax_open st. lr_user_id r = u})
    \<and> (\<forall>r \<in> ax_due st. r \<in> set (ax_pending st) \<or> lr_id r \<in> ar_events (ax_registry st) \<or> lr_loop r \<in> ax_closed_loops st)
    \<and> (\<forall>r \<in> ax_objects st. lr_id r \<in> ar_events (ax_registry st) \<longrightarrow> r \<in> ax_due st)"
proof -
  have inv: "auth_inv st" by (rule live_auth.reach_inv [OF assms])
  have "r \<in> ax_due st" if r: "r \<in> ax_objects st" "lr_id r \<in> ar_events (ax_registry st)" for r
  proof -
    obtain x where x: "x \<in> ax_due st" "lr_id x = lr_id r" using inv r(2) by (auto simp: auth_inv_def)
    moreover have "x \<in> ax_objects st" "inj_on lr_id (ax_objects st)" using inv x(1) by (auto simp: auth_inv_def)
    ultimately show ?thesis using r(1) by (metis inj_onD)
  qed
  then show ?thesis using inv indexes_values by (simp add: auth_inv_def registry_holds_def)
qed

definition demo_registration :: registration where
  "demo_registration = \<lparr> lr_id = 0, lr_user_id = ''u'', lr_auth_session_id = ''s'', lr_loop = 0 \<rparr>"

theorem revocation_reaches_witness:
  "\<exists>st. reach auth_start auth_step st \<and> demo_registration \<in> ax_due st \<and> ax_pending st = [] \<and> 0 \<in> ar_events (ax_registry st)"
proof -
  let ?st = "\<lambda>reg objs pend due. \<lparr> ax_registry = reg, ax_objects = objs, ax_open = objs, ax_pending = pend, ax_due = due, ax_closed_loops = {} \<rparr>"
  let ?r0 = "\<lparr> registrations_by_session = [], registrations_by_user = [], ar_events = {} \<rparr> :: auth_registry"
  let ?r1 = "\<lambda>ev. \<lparr> registrations_by_session = [(''s'', [(0, demo_registration)])], registrations_by_user = [(''u'', [(0, demo_registration)])], ar_events = ev \<rparr> :: auth_registry"
  have strip: "str_strip ''s'' = ''s''" "str_strip ''u'' = ''u''" by code_simp+
  have "register_live_auth_session 0 0 ''u'' ''s'' ?r0 = (Inr demo_registration, ?r1 {})"
    by (simp add: register_live_auth_session_def normalize_identifier_def strip index_add_def demo_registration_def Let_def)
  then have s1: "auth_step (?st ?r0 {} [] {}) (?st (?r1 {}) {demo_registration} [] {})"
    using ax_register [of "?st ?r0 {} [] {}" 0 0 "''u''" "''s''"] by (simp add: after_registration_def)
  have "signal_auth_session_revoked ''s'' (?r1 {}) = Inr [demo_registration]"
    by (simp add: signal_auth_session_revoked_def normalize_identifier_def strip index_values_def)
  moreover have "{r. r = demo_registration \<and> lr_auth_session_id r = ''s''} = {demo_registration}" by (auto simp: demo_registration_def)
  ultimately have s2: "auth_step (?st (?r1 {}) {demo_registration} [] {}) (?st (?r1 {}) {demo_registration} [demo_registration] {demo_registration})"
    using ax_revoke_session [of "?st (?r1 {}) {demo_registration} [] {}" "''s''"] by (simp add: after_revocation_def strip)
  have s3: "auth_step (?st (?r1 {}) {demo_registration} [demo_registration] {demo_registration}) (?st (?r1 {0}) {demo_registration} [] {demo_registration})"
    using ax_signal [of "?st (?r1 {}) {demo_registration} [demo_registration] {demo_registration}" "[]" demo_registration "[]"]
    by (simp add: signal_one_def demo_registration_def)
  have "reach auth_start auth_step (?st ?r0 {} [] {})" by (rule reach_init) (simp add: auth_start_def)
  then have r: "reach auth_start auth_step (?st (?r1 {0}) {demo_registration} [] {demo_registration})" using s1 s2 s3 by (blast intro: reach_step)
  have "0 \<in> ar_events (?r1 {0})" using revocation_reaches [OF r] by (simp add: demo_registration_def)
  then show ?thesis using r by (intro exI [of _ "?st (?r1 {0}) {demo_registration} [] {demo_registration}"]) simp
qed

end
