(* ===== verification/Run_Coordinator.thy ===== *)
theory Run_Coordinator
  imports Yinshi_Prelude
begin

section \<open>The run coordinator\<close>

text \<open>
  The registry of active prompt runs, \<^verbatim>\<open>services/run_coordinator.py\<close>. A registration is an object with a flag that release sets; a
  cancellation looks its registration up under the lock, waits for the sidecar without it, and decides from the flag what a failure means.
\<close>

text \<open>The registered object of each session, by identity, and the objects whose flag \<^verbatim>\<open>released\<close> is set.\<close>

record coordinator =
  rc_runs :: "(string, nat) pydict"
  rc_released :: "nat set"

datatype cancel_outcome = CancelRequested | CancelFinished | CancelAbsent

datatype coordinator_error = CoordinatorArgument py_error | SidecarError | SidecarRaised string

definition empty_session :: py_error where
  "empty_session = ValueErr ''session_id must be non-empty''"

definition coordinator_register :: "nat \<Rightarrow> string \<Rightarrow> bool \<Rightarrow> coordinator \<Rightarrow> (coordinator_error + unit) \<times> coordinator" where
  "coordinator_register entry session_id has_cancel c =
     (if session_id = [] then (Inl (CoordinatorArgument empty_session), c)
      else if \<not> has_cancel then (Inl (CoordinatorArgument (TypeErr ''sidecar must expose a callable cancel method'')), c)
      else (Inr (), c\<lparr> rc_runs := dset (rc_runs c) session_id entry \<rparr>))"

text \<open>\<^verbatim>\<open>request_cancel\<close> until it waits: the registration to cancel, or none.\<close>

definition request_cancel_begin :: "string \<Rightarrow> coordinator \<Rightarrow> coordinator_error + nat option" where
  "request_cancel_begin session_id c =
     (if session_id = [] then Inl (CoordinatorArgument empty_session) else Inr (dget (rc_runs c) session_id))"

datatype sidecar_reply = SidecarAccepted | SidecarFails | SidecarRaises string

definition request_cancel_end :: "nat \<Rightarrow> sidecar_reply \<Rightarrow> coordinator \<Rightarrow> coordinator_error + cancel_outcome" where
  "request_cancel_end entry reply c =
     (case reply of
        SidecarAccepted \<Rightarrow> Inr CancelRequested
      | SidecarFails \<Rightarrow> if entry \<in> rc_released c then Inr CancelFinished else Inl SidecarError
      | SidecarRaises e \<Rightarrow> Inl (SidecarRaised e))"

text \<open>The whole call, when the coordinator is \<open>c\<close> at its start and \<open>c'\<close> when the sidecar has replied.\<close>

definition request_cancel :: "string \<Rightarrow> sidecar_reply \<Rightarrow> coordinator \<Rightarrow> coordinator \<Rightarrow> coordinator_error + cancel_outcome" where
  "request_cancel session_id reply c c' =
     rbind (request_cancel_begin session_id c) (\<lambda>found. case found of None \<Rightarrow> Inr CancelAbsent | Some entry \<Rightarrow> request_cancel_end entry reply c')"

definition coordinator_release :: "string \<Rightarrow> coordinator \<Rightarrow> (coordinator_error + unit) \<times> coordinator" where
  "coordinator_release session_id c =
     (if session_id = [] then (Inl (CoordinatorArgument empty_session), c)
      else case dget (rc_runs c) session_id of
             None \<Rightarrow> (Inr (), c)
           | Some entry \<Rightarrow> (Inr (), c\<lparr> rc_runs := dpop (rc_runs c) session_id, rc_released := insert entry (rc_released c) \<rparr>))"

subsection \<open>Runs\<close>

text \<open>Registrations and releases in any order, with the session each object was registered for.\<close>

record coordinator_state =
  cs_coordinator :: coordinator
  cs_session :: "nat \<rightharpoonup> string"

inductive coordinator_step :: "coordinator_state \<Rightarrow> coordinator_state \<Rightarrow> bool" where
  cs_register: "cs_session st entry = None \<Longrightarrow> coordinator_register entry s has_cancel (cs_coordinator st) = (Inr (), c)
     \<Longrightarrow> coordinator_step st \<lparr> cs_coordinator = c, cs_session = (cs_session st)(entry \<mapsto> s) \<rparr>"
| cs_release: "coordinator_release s (cs_coordinator st) = (r, c) \<Longrightarrow> coordinator_step st (st\<lparr> cs_coordinator := c \<rparr>)"

definition coordinator_start :: "coordinator_state \<Rightarrow> bool" where
  "coordinator_start st \<longleftrightarrow> cs_coordinator st = \<lparr> rc_runs = [], rc_released = {} \<rparr> \<and> cs_session st = Map.empty"

definition coordinator_inv :: "coordinator_state \<Rightarrow> bool" where
  "coordinator_inv st \<longleftrightarrow> (\<forall>s e. dget (rc_runs (cs_coordinator st)) s = Some e \<longrightarrow> cs_session st e = Some s \<and> e \<notin> rc_released (cs_coordinator st))
     \<and> rc_released (cs_coordinator st) \<subseteq> dom (cs_session st)"

lemma coordinator_step_inv: "coordinator_inv st \<Longrightarrow> coordinator_step st st' \<Longrightarrow> coordinator_inv st'"
proof (erule coordinator_step.cases)
  fix x entry s has_cancel c
  assume i: "coordinator_inv st" "st = x" "st' = \<lparr> cs_coordinator = c, cs_session = (cs_session x)(entry \<mapsto> s) \<rparr>" "cs_session x entry = None"
    "coordinator_register entry s has_cancel (cs_coordinator x) = (Inr (), c)"
  then have c: "c = (cs_coordinator x)\<lparr> rc_runs := dset (rc_runs (cs_coordinator x)) s entry \<rparr>" by (auto simp: coordinator_register_def split: if_splits)
  have "entry \<notin> rc_released (cs_coordinator x)" using i(1,2,4) by (auto simp: coordinator_inv_def)
  moreover have "dget (rc_runs (cs_coordinator x)) k \<noteq> Some entry" for k using i(1,2,4) by (auto simp: coordinator_inv_def)
  ultimately show "coordinator_inv st'" using i(1-3) c by (auto simp: coordinator_inv_def)
next
  fix s x r c
  assume i: "coordinator_inv st" "st = x" "st' = x\<lparr> cs_coordinator := c \<rparr>" "coordinator_release s (cs_coordinator x) = (r, c)"
  have "dget (rc_runs (cs_coordinator x)) a = Some e \<Longrightarrow> dget (rc_runs (cs_coordinator x)) b = Some e \<Longrightarrow> a = b" for a b e
    using i(1,2) unfolding coordinator_inv_def by (metis option.inject)
  then show "coordinator_inv st'" using i by (auto simp: coordinator_inv_def coordinator_release_def split: option.splits if_splits)
qed

interpretation run_coordinator: safe_system coordinator_start coordinator_step coordinator_inv
  by unfold_locales (simp add: coordinator_start_def coordinator_inv_def, rule coordinator_step_inv)

lemma coordinator_sessions: "coordinator_step\<^sup>*\<^sup>* st st' \<Longrightarrow> cs_session st \<subseteq>\<^sub>m cs_session st'"
proof (induction rule: rtranclp_induct)
  case (step y z)
  have "cs_session y \<subseteq>\<^sub>m cs_session z" using step(2) by cases (auto simp: map_le_def)
  then show ?case using step(3) map_le_trans by blast
qed simp

text \<open>A registration leaves the table by being released or by being replaced; only the former sets its flag.\<close>

lemma step_registered:
  assumes "coordinator_step st st'" "dget (rc_runs (cs_coordinator st)) s = Some e \<or> e \<in> rc_released (cs_coordinator st)"
    and "\<And>n. cs_session st' n = Some s \<Longrightarrow> cs_session st n = Some s"
  shows "dget (rc_runs (cs_coordinator st')) s = Some e \<or> e \<in> rc_released (cs_coordinator st')"
  using assms(1)
proof cases
  case (cs_register entry k has_cancel c)
  then have "k \<noteq> s" using assms(3) [of entry] by auto
  then show ?thesis using cs_register assms(2) by (auto simp: coordinator_register_def split: if_splits)
next
  case (cs_release k r c)
  then show ?thesis using assms(2) by (auto simp: coordinator_release_def split: option.splits if_splits)
qed

lemma run_registered:
  assumes "coordinator_step\<^sup>*\<^sup>* st st'" "dget (rc_runs (cs_coordinator st)) s = Some e"
    and "\<And>n. cs_session st' n = Some s \<Longrightarrow> cs_session st n = Some s"
  shows "dget (rc_runs (cs_coordinator st')) s = Some e \<or> e \<in> rc_released (cs_coordinator st')"
  using assms
proof (induction rule: rtranclp_induct)
  case (step y z)
  have "cs_session y \<subseteq>\<^sub>m cs_session z" using coordinator_sessions [of y z] step.hyps(2) by blast
  then have y: "cs_session y n = Some s \<Longrightarrow> cs_session st n = Some s" for n using step.prems(2) by (metis domI map_le_def)
  have z: "cs_session z n = Some s \<Longrightarrow> cs_session y n = Some s" for n
    using step.prems(2) coordinator_sessions [OF step.hyps(1)] by (metis domI map_le_def)
  show ?case by (rule step_registered [OF step.hyps(2) step.IH [OF step.prems(1) y] z])
qed simp

text \<open>A replaced registration stays unreleased: its object is never found again.\<close>

lemma replaced_unreleased:
  assumes "coordinator_inv st" "coordinator_step\<^sup>*\<^sup>* st st'" "\<forall>k. dget (rc_runs (cs_coordinator st)) k \<noteq> Some e" "e \<in> dom (cs_session st)" "e \<notin> rc_released (cs_coordinator st)"
  shows "(\<forall>k. dget (rc_runs (cs_coordinator st')) k \<noteq> Some e) \<and> e \<notin> rc_released (cs_coordinator st')"
  using assms(2)
proof (induction rule: rtranclp_induct)
  case base
  then show ?case using assms by blast
next
  case (step y z)
  have d: "e \<in> dom (cs_session y)" using coordinator_sessions [OF step.hyps(1)] assms(4) by (metis domIff map_le_def)
  show ?case using step.hyps(2)
  proof cases
    case (cs_register entry k has_cancel c)
    then show ?thesis using step.IH d by (auto simp: coordinator_register_def split: if_splits)
  next
    case (cs_release k r c)
    then show ?thesis using step.IH by (auto simp: coordinator_release_def split: option.splits if_splits)
  qed
qed

subsection \<open>Properties\<close>

text \<open>C39: What a cancellation answers, whatever registrations and releases happen while it waits for the sidecar: it is absent exactly when no run is
  registered; an accepted cancellation is requested; and if the sidecar fails while no newer run of the session was registered, the
  failure is raised exactly when the run is still registered, and the run is reported as finished when it was released.\<close>

theorem cancel_outcome_exact:
  assumes "reach coordinator_start coordinator_step st" "coordinator_step\<^sup>*\<^sup>* st st'" "s \<noteq> []"
    and "\<forall>n. cs_session st' n = Some s \<longrightarrow> cs_session st n = Some s"
  shows "request_cancel s reply (cs_coordinator st) (cs_coordinator st') =
    (if dget (rc_runs (cs_coordinator st)) s = None then Inr CancelAbsent
     else case reply of
       SidecarAccepted \<Rightarrow> Inr CancelRequested
     | SidecarFails \<Rightarrow> if dget (rc_runs (cs_coordinator st')) s = dget (rc_runs (cs_coordinator st)) s then Inl SidecarError else Inr CancelFinished
     | SidecarRaises e \<Rightarrow> Inl (SidecarRaised e))"
proof (cases "dget (rc_runs (cs_coordinator st)) s")
  case None
  then show ?thesis using assms(3) by (simp add: request_cancel_def request_cancel_begin_def)
next
  case (Some e)
  have "coordinator_inv st'" using run_coordinator.reach_inv [OF assms(1)] run_coordinator.steps_inv [OF assms(2)] by blast
  then have "dget (rc_runs (cs_coordinator st')) s = Some e \<Longrightarrow> e \<notin> rc_released (cs_coordinator st')" by (simp add: coordinator_inv_def)
  moreover have "dget (rc_runs (cs_coordinator st')) s = Some e \<or> e \<in> rc_released (cs_coordinator st')"
    using run_registered [OF assms(2) Some] assms(4) by blast
  ultimately have "e \<in> rc_released (cs_coordinator st') \<longleftrightarrow> dget (rc_runs (cs_coordinator st')) s \<noteq> Some e" by blast
  then show ?thesis using assms(3) Some by (simp add: request_cancel_def request_cancel_begin_def request_cancel_end_def split: sidecar_reply.splits)
qed

theorem cancel_outcome_exact_witness:
  "\<exists>st st'. reach coordinator_start coordinator_step st \<and> coordinator_step\<^sup>*\<^sup>* st st'
     \<and> request_cancel ''s'' SidecarFails (cs_coordinator st) (cs_coordinator st') = Inr CancelFinished"
proof -
  let ?a = "\<lparr> cs_coordinator = \<lparr> rc_runs = [], rc_released = {} \<rparr>, cs_session = Map.empty \<rparr>"
  let ?b = "\<lparr> cs_coordinator = \<lparr> rc_runs = [(''s'', 0)], rc_released = {} \<rparr>, cs_session = [0 \<mapsto> ''s''] \<rparr>"
  let ?c = "\<lparr> cs_coordinator = \<lparr> rc_runs = [], rc_released = {0} \<rparr>, cs_session = [0 \<mapsto> ''s''] \<rparr>"
  have "reach coordinator_start coordinator_step ?a" by (rule reach_init) (simp add: coordinator_start_def)
  moreover have "coordinator_step ?a ?b" using cs_register [of ?a 0 "''s''" True] by (simp add: coordinator_register_def)
  ultimately have r: "reach coordinator_start coordinator_step ?b" by (rule reach_step)
  have "coordinator_step ?b ?c" using cs_release [of "''s''" ?b] by (simp add: coordinator_release_def)
  then have s: "coordinator_step\<^sup>*\<^sup>* ?b ?c" by blast
  have "request_cancel ''s'' SidecarFails (cs_coordinator ?b) (cs_coordinator ?c) = Inr CancelFinished"
    by (subst cancel_outcome_exact [OF r s]) simp_all
  then show ?thesis using r s by blast
qed

end
