(* ===== verification/Spec2Isabelle.thy ===== *)
theory Spec2Isabelle
  imports
    Worktree_Artifact_Properties
    Encrypted_Uploads
    Runner_Relay_Properties
    Terminal_Journal_Properties
    Thread_Cancellation
    Execution_Broker_Properties
    Live_Auth_Sessions
    Run_Coordinator
begin

text \<open>
  \<^bold>\<open>The yinshi backend\<close>

  Yinshi runs coding agents against Git repositories. Its backend, \<^verbatim>\<open>src/backend/src/yinshi\<close>, keeps durable
  journals of prompts and terminals, coordinates child threads, relays encrypted frames between browsers
  and runners, launches executors through a privileged broker, receives encrypted uploads and ships worktree snapshots between hosts. This development
  models the state machines, journals and codecs at the core of that backend and proves what makes them correct.
  Paths below are relative to that directory.

  \<^bold>\<open>Parts and theories\<close>

  \<^item> \<open>Yinshi_Prelude\<close>, \<open>Byte_Codec\<close>, \<open>Uuid_Text\<close>, \<open>Json_Text\<close>, \<open>Event_Page\<close>: results of fallible code (a sum
    whose left side is the exception), insertion-ordered dictionaries, strings, reachable states of a step relation
    (locale \<open>safe_system\<close>), big-endian integers, UUID text, JSON text and UTF-8 lengths, and the paging contract
    (locale \<open>event_pager\<close>) that both journals implement.
  \<^item> \<open>Worktree_Artifact\<close> and its three companions: \<^verbatim>\<open>services/workspace_replica_artifact.py\<close>. Encoder, decoder and every
    validator, with byte offsets, limits and the Git index parser. Encoding and decoding are inverse in both directions, the decoder
    raises its own error only, accepted paths stay in the worktree, and the index parser accepts well-formed indexes only.
  \<^item> \<open>Prompt_Journal\<close>, \<open>Prompt_Journal_Invariant\<close>, \<open>Prompt_Journal_Properties\<close>: \<^verbatim>\<open>services/prompt_journal.py\<close> over the tables of
    \<^verbatim>\<open>tenant.py\<close>. Each transaction is a function on the tables; where the code reads before its write transaction, read and
    write are two functions and the step relation lets anything happen between them, the deletion of sessions with their runs and logs
    (\<^verbatim>\<open>ON DELETE CASCADE\<close>) included. Invariant, finality of outcomes, exclusive and idempotent starts, exactly-once appends, complete paging, recovery from the
    last terminal event of a log, the consumer of a run under failures of SQLite, and cancellation.
  \<^item> \<open>Thread_Lifecycle\<close>, \<open>Thread_Authority\<close>, \<open>Thread_Lifecycle_Properties\<close>, \<open>Thread_Cancellation\<close>: \<^verbatim>\<open>services/thread_lifecycle.py\<close>,
    the delegation transactions of \<^verbatim>\<open>services/thread_orchestration.py\<close> and \<^verbatim>\<open>services/thread_reconciliation.py\<close>, and their authorization.
    Outcomes of delegations are final, every move is in the policy's table or a listed exception, a claimed cancellation blocks every
    spawn below it until its targets are quiescent, agents reach only their own descendants. Cancelling a running child composes with the
    prompt journal: the delegation adopts the outcome of the run.
  \<^item> \<open>Runner_Relay\<close>, \<open>Runner_Relay_Properties\<close>: \<^verbatim>\<open>services/runner_relay.py\<close>. One function per region that holds the broker's lock;
    sends and closes are effects. Consistency of sessions and clients, the maintenance fence, isolation and routing of frames,
    single use of grants.
  \<^item> \<open>Terminal_Journal\<close>, \<open>Terminal_Journal_Properties\<close>: \<^verbatim>\<open>services/terminal_journal.py\<close>. Limits per account and keys of tab owners under every interleaving of
    starts, bounded output buffers, lossless splitting, complete paging.
  \<^item> \<open>Json_Parser\<close>, \<open>Json_Roundtrip\<close>, \<open>Text_Encodings\<close>: what the code uses of \<^verbatim>\<open>json\<close>, UTF-8 and \<^verbatim>\<open>base64\<close>. The reader follows the C scanner;
    the locale \<open>json_writer\<close> says when reading gives back what was written and is interpreted for the default hooks and for the broker's.
  \<^item> \<open>Broker_Protocol\<close>, \<open>Broker_Canonical\<close>, \<open>Broker_Protocol_Properties\<close>: \<^verbatim>\<open>services/broker_protocol.py\<close>. Canonical frames are
    invertible and unambiguous, signed requests and responses come back as they were signed, accepted requests are authentic and canonically encoded, and a
    response is bound to its request.
  \<^item> \<open>Broker_Journal\<close>, \<open>Broker_Lifecycle\<close>, \<open>Broker_Journal_Refinement\<close>, \<open>Broker_Journal_Properties\<close>: \<^verbatim>\<open>services/broker_journal.py\<close>. The
    events table with its constraints, the validation of every stored event and the operations, for every outcome of a commit. An abstract
    state of an operation (\<open>op_state\<close>) is the specification: the constraints admit exactly its steps with the columns of their kind, every operation refines it, the
    journal always opens, replays are refused and the end of an operation stays.
  \<^item> \<open>Execution_Broker\<close>, \<open>Execution_Broker_Logic\<close>, \<open>Execution_Broker_System\<close>, \<open>Execution_Broker_Properties\<close>:
    \<^verbatim>\<open>services/execution_broker.py\<close>, composed with the protocol and the journal. Each definition is the code between two suspension points
    of \<^verbatim>\<open>asyncio\<close>; a logic of triples (\<open>runs\<close>) says what an action does to its operation, and a step relation runs the actions of all
    requests and finalizers in any order, with crashes and restarts between them. Every stage is started at most once and only after its durable
    record, every response is the recorded one and fits its limit, and recovery completes from every state. \<open>launch_route_exact\<close> relates
    the two authentications of the control service and the launch service.
  \<^item> \<open>Live_Auth_Sessions\<close>: \<^verbatim>\<open>services/live_auth_sessions.py\<close>. Both indexes hold exactly the open registrations, and a revocation reaches every
    connection that was registered when it happened, under any interleaving of threads.
  \<^item> \<open>Run_Coordinator\<close>: \<^verbatim>\<open>services/run_coordinator.py\<close>. What a cancellation answers when runs are registered and released while it waits.
    A registration that is replaced rather than released is never reported as finished (\<open>replaced_unreleased\<close>).
  \<^item> \<open>Encrypted_Uploads\<close>: \<^verbatim>\<open>services/encrypted_uploads.py\<close>. Bounds, round trip, isolation of accounts and consumption.

  \<^bold>\<open>Conventions\<close>

  Records and datatypes follow the tables and classes of the code; an operation returns its result together with the new state, and
  an exception leaves the state as the code leaves it. Clock readings, fresh identifiers and the lines read from sockets are arguments.
  \<^verbatim>\<open>hashlib\<close> digests and Ed25519 keys are function parameters, and the journals take the JSON reader as one: nothing proved depends on
  which function they are, apart from the hypotheses stated. \<open>prompt_events_read_back\<close> below puts the modelled \<^verbatim>\<open>json.loads\<close> in its place. A transaction under \<^verbatim>\<open>BEGIN IMMEDIATE\<close> or a region under an \<^verbatim>\<open>asyncio\<close> lock is atomic.

  \<^bold>\<open>Bounds and fuel\<close>

  No model runs on fuel that could end early: the JSON reader starts with more than twice the length of its text, which
  \<open>json_loads_total\<close> shows to be enough; other loops are structural or have a termination proof, such as the breadth-first search for
  cancellation targets, whose measure comes from the 500-node bound of the code. The walks of 32 and 64 ancestors count down as the
  \<^verbatim>\<open>for\<close> loops do.

  \<^bold>\<open>Findings\<close>

  Six theorems record behaviour that differs from what the code or its comments intend: a stop that is overwritten
  (\<open>stop_overwritten\<close>), two verdicts on one log (\<open>outcome_divergence\<close>), terminal output in three-byte characters that disconnects
  (\<open>wide_output_disconnects\<close>), malformed broker frames that
  raise foreign errors (\<open>malformed_frame_errors\<close>), and moves that the delegation policy forbids
  (\<open>stale_violates_policy\<close>, \<open>delegation_lifecycle\<close>).

  \<^bold>\<open>Not modelled\<close>

  HTTP routes, configuration and database migrations; Git and file-system operations (workspaces, replicas, publication); process
  supervision and containers; provider APIs, backups and recovery; OAuth and the cryptography package; the TypeScript and
  JavaScript parts. They are input and output or calls into code outside the repository. Of thread orchestration, workspace
  provisioning, result publication and the query tools are left out.

  The overwriting of dropped upload buffers has no effect on a later operation and is left out. Stored broker frames are read as strict UTF-8 only.

  Of the execution broker, the checks of its constructors, the wall-clock timeouts and the replica coordinator behind its routes are
  left out. Its configuration (keys, user and incarnations) is the same in every run of the process: \<open>recovery_needs_incarnation\<close> shows that
  under another broker incarnation an incomplete lifecycle keeps the broker from starting. The replica journals and the
  Sprite lease are not modelled.
\<close>

text \<open>
  \<^bold>\<open>Stored events and the JSON reader\<close>

  \<open>journal_loads\<close> is \<^verbatim>\<open>json.loads\<close> as both journals call it, with the default hooks; \<open>float_repr\<close> is \<^verbatim>\<open>repr(float(text))\<close>.
\<close>

definition journal_loads :: "(utext \<Rightarrow> utext) \<Rightarrow> utext \<Rightarrow> json option" where
  "journal_loads float_repr t = (case json_loads (default_hooks float_repr) t of Inl _ \<Rightarrow> None | Inr v \<Rightarrow> Some v)"

definition json_text_ok :: "(utext \<Rightarrow> utext) \<Rightarrow> json \<Rightarrow> bool" where
  "json_text_ok float_repr = json_ok unjoined (\<lambda>t. is_float_text t \<and> float_repr t = t)"

lemma journal_loads_dumps: "json_text_ok float_repr v \<Longrightarrow> journal_loads float_repr (dumps sk v) = Some (sort_json sk v)"
  using loads_dumps_default by (simp add: journal_loads_def json_text_ok_def)

lemma serialize_eventD: "serialize_event ev = Inr t \<Longrightarrow> t = dumps True ev \<and> (\<exists>kvs. ev = JObj kvs)"
  by (auto simp: serialize_event_def jget_def rbind_Inr_iff split: option.splits json.splits if_splits)

lemma sort_json_is_obj: "\<exists>ws. sort_json sk (JObj kvs) = JObj ws"
  by (simp add: sort_json.simps Let_def)

text \<open>C23: Events come back as they were written, through the JSON text the journal stores. If a run's log holds the serialized events \<open>evs\<close>, a client that
  keeps polling from any cursor receives exactly the events from there on, in order and each with its keys sorted, and every poll before the end
  makes progress. The events are JSON objects whose strings join no surrogates and whose floats are written the way Python writes them.\<close>

theorem prompt_events_read_back:
  assumes "db_inv db" "find (\<lambda>r. pr_id r = i \<and> pr_session_id r = sid) (db_runs db) \<noteq> None"
    and log: "list_all2 (\<lambda>ev e. serialize_event ev = Inr (pe_json e)) evs (run_events i db)"
    and ok: "list_all (json_text_ok float_repr) evs"
    and "c \<le> length evs" "length evs - c \<le> n"
  shows "drain (read_event_page (journal_loads float_repr) sid i) n db c = Inr (drop c (map (sort_json True) evs), length evs)
    \<and> (c < length evs \<longrightarrow> (\<exists>page c'. read_event_page (journal_loads float_repr) sid i db c = Inr (page, c') \<and> page \<noteq> [] \<and> c < c'))"
proof -
  have read: "journal_loads float_repr (pe_json (run_events i db ! k)) = Some (sort_json True (evs ! k)) \<and> (\<exists>kvs. evs ! k = JObj kvs)" if "k < length evs" for k
    using that log ok journal_loads_dumps serialize_eventD [of "evs ! k"] by (auto simp: list_all2_conv_all_nth list_all_length)
  have len: "length (run_events i db) = length evs" using log by (simp add: list_all2_lengthD)
  have "\<exists>kvs. journal_loads float_repr (pe_json e) = Some (JObj kvs)" if "e \<in> set (run_events i db)" for e
    using that read len sort_json_is_obj by (metis in_set_conv_nth)
  then have r: "log_readable (journal_loads float_repr) sid i db" using assms(1,2) by (simp add: log_readable_def)
  have "map (\<lambda>e. the (journal_loads float_repr (pe_json e))) (run_events i db) = map (sort_json True) evs"
    using read len by (auto intro!: nth_equalityI)
  then show ?thesis
    using prompt_log.drain_all [OF r, of c n] prompt_log.read_progress [OF r, of c] assms(5,6) len by simp
qed

lemma user_stop_text_ok: "json_text_ok float_repr user_stop_event"
  by (simp add: json_text_ok_def user_stop_event_def ascii_def high_surrogate_def)

theorem prompt_events_read_back_witness:
  "\<exists>db. drain (read_event_page (journal_loads (\<lambda>t. t)) ''s'' sample_run_id) 1 db 0 = Inr ([sort_json True user_stop_event], 1)"
proof -
  let ?db = "sample_prompt_db [sample_run_row Running] []"
  obtain db' where db': "db_inv db'" "find_run sample_run_id db' = Some (sample_run_row Running)"
    "run_events sample_run_id db' = [\<lparr> pe_run_id = sample_run_id, pe_sequence = 0, pe_json = dumps True user_stop_event \<rparr>]"
    using append_new [OF sample_run_inv sample_run_find serialize_user_stop, of Running False] by (auto simp: sample_run_events EVENT_COUNT_MAX_def)
  have "find (\<lambda>r. pr_id r = sample_run_id \<and> pr_session_id r = ''s'') (db_runs db') \<noteq> None"
    using find_SomeD [OF db'(2) [unfolded find_run_def]] by (auto simp: find_None_iff intro!: exI [of _ "sample_run_row Running"])
  then show ?thesis
    using prompt_events_read_back [OF db'(1), of sample_run_id "''s''" "[user_stop_event]" "\<lambda>t. t" 0 1] db'(3) user_stop_text_ok serialize_user_stop
    by (intro exI [of _ db']) simp
qed

end
